(* ===== verification/Prelude.thy ===== *)
theory Prelude
  imports Main "HOL-Library.AList" "HOL-Library.Char_ord" "HOL-Library.List_Lexorder"
    "HOL-Library.Product_Lexorder"
begin

text \<open>
  What every component of the model shares: the Go strings (byte lists), maps (association
  lists, in the order an iteration of the Go map happens to visit them), times and results
  the code works with, the collections of facts the component proofs use, and two locales
  for machines whose steps keep an invariant or never lower a quantity.
\<close>

section \<open>Fact collections\<close>

named_theorems table_simps \<open>effect of one SQL statement on the tables\<close>
named_theorems step_intros \<open>one operation keeps an invariant\<close>

section \<open>Times and durations\<close>

text \<open>
  A time is a number of nanoseconds since the Unix epoch and a duration a number of
  nanoseconds. \<open>zero_time\<close> is Go's zero \<open>time.Time\<close>, January 1 of year 1.
\<close>

type_synonym time = int
type_synonym duration = int

definition zero_time :: time where
  "zero_time = -62135596800000000000"

abbreviation seconds :: "int \<Rightarrow> duration" where
  "seconds n \<equiv> n * 1000000000"

abbreviation minutes :: "int \<Rightarrow> duration" where
  "minutes n \<equiv> n * 60000000000"

text \<open>\<open>time.Time.Round(time.Microsecond)\<close>: to the nearest microsecond, halves upwards.\<close>

definition round_us :: "time \<Rightarrow> time" where
  "round_us t = (t + 500) div 1000 * 1000"

lemma round_us_mono: "s \<le> t \<Longrightarrow> round_us s \<le> round_us t"
  by (simp add: round_us_def zdiv_mono1)

lemma round_us_idem [simp]: "round_us (round_us t) = round_us t"
proof -
  have "((t + 500) div 1000 * 1000 + 500) div 1000 = (t + 500) div 1000" by linarith
  then show ?thesis by (simp add: round_us_def)
qed

lemma round_us_near: "\<bar>round_us t - t\<bar> \<le> 500"
  unfolding round_us_def by linarith

section \<open>Go maps as association lists\<close>

type_synonym ('k, 'v) gomap = "('k \<times> 'v) list"

text \<open>Equality of two maps, whatever order they list their keys in.\<close>

definition same_map :: "('k, 'v) gomap \<Rightarrow> ('k, 'v) gomap \<Rightarrow> bool" where
  "same_map a b \<longleftrightarrow> (\<forall>k \<in> set (map fst a) \<union> set (map fst b). map_of a k = map_of b k)"

lemma same_map_iff: "same_map a b \<longleftrightarrow> map_of a = map_of b"
proof
  assume s: "same_map a b"
  show "map_of a = map_of b"
  proof
    fix k
    show "map_of a k = map_of b k"
    proof (cases "k \<in> set (map fst a) \<union> set (map fst b)")
      case True
      with s show ?thesis by (auto simp: same_map_def)
    next
      case False
      then have "map_of a k = None" "map_of b k = None"
        by (simp_all add: map_of_eq_None_iff image_iff)
      then show ?thesis by simp
    qed
  qed
qed (simp add: same_map_def)

lemma same_map_refl [simp]: "same_map a a"
  by (simp add: same_map_iff)

lemma map_of_update [simp]: "map_of (AList.update k v al) = (map_of al)(k \<mapsto> v)"
  by (simp add: update_conv')

lemma distinct_keys_update [simp, intro]:
  "distinct (map fst al) \<Longrightarrow> distinct (map fst (AList.update k v al))"
  by (rule distinct_update)

lemma set_update_keyed:
  assumes "distinct (map fst al)"
  shows "set (AList.update k v al) = insert (k, v) {y \<in> set al. fst y \<noteq> k}"
proof (rule set_eqI)
  fix y :: "'a \<times> 'b"
  obtain a b where y: "y = (a, b)" by (cases y)
  have "y \<in> set (AList.update k v al) \<longleftrightarrow> ((map_of al)(k \<mapsto> v)) a = Some b"
    unfolding y map_of_eq_Some_iff [OF distinct_update [OF assms], symmetric] map_of_update ..
  also have "\<dots> \<longleftrightarrow> a = k \<and> b = v \<or> a \<noteq> k \<and> map_of al a = Some b"
    by (metis fun_upd_apply option.inject)
  also have "\<dots> \<longleftrightarrow> y \<in> insert (k, v) {y \<in> set al. fst y \<noteq> k}"
    unfolding y map_of_eq_Some_iff [OF assms] by auto
  finally show "y \<in> set (AList.update k v al) \<longleftrightarrow> y \<in> insert (k, v) {y \<in> set al. fst y \<noteq> k}" .
qed

section \<open>Results\<close>

lemma succeeds: "\<not> isl r \<Longrightarrow> r = Inr (projr r)"
  by simp

section \<open>Byte strings\<close>

fun has_prefix :: "string \<Rightarrow> string \<Rightarrow> bool" where
  "has_prefix s [] = True"
| "has_prefix [] (p # ps) = False"
| "has_prefix (c # s) (p # ps) = (c = p \<and> has_prefix s ps)"

definition has_suffix :: "string \<Rightarrow> string \<Rightarrow> bool" where
  "has_suffix s p = has_prefix (rev s) (rev p)"

fun contains_str :: "string \<Rightarrow> string \<Rightarrow> bool" where
  "contains_str [] p = (p = [])"
| "contains_str (c # s) p = (has_prefix (c # s) p \<or> contains_str s p)"

text \<open>
  \<open>strings.ToLower\<close> and \<open>strings.EqualFold\<close> on ASCII bytes; bytes of other characters stay
  as they are.
\<close>

definition lower_char :: "char \<Rightarrow> char" where
  "lower_char c = (if CHR ''A'' \<le> c \<and> c \<le> CHR ''Z'' then char_of (of_char c + 32 :: nat) else c)"

definition to_lower :: "string \<Rightarrow> string" where
  "to_lower s = map lower_char s"

definition equal_fold :: "string \<Rightarrow> string \<Rightarrow> bool" where
  "equal_fold a b \<longleftrightarrow> to_lower a = to_lower b"

lemma length_to_lower [simp]: "length (to_lower s) = length s"
  by (simp add: to_lower_def)

lemma to_lower_append [simp]: "to_lower (a @ b) = to_lower a @ to_lower b"
  by (simp add: to_lower_def)

lemma has_prefix_iff: "has_prefix s p \<longleftrightarrow> (\<exists>r. s = p @ r)"
  by (induction s p rule: has_prefix.induct) auto

lemma contains_str_iff: "contains_str s p \<longleftrightarrow> (\<exists>a b. s = a @ p @ b)"
proof (induction s)
  case Nil
  then show ?case by simp
next
  case (Cons c s)
  show ?case
  proof
    assume "contains_str (c # s) p"
    then consider r where "c # s = p @ r" | a b where "s = a @ p @ b"
      using Cons by (auto simp: has_prefix_iff)
    then show "\<exists>a b. c # s = a @ p @ b"
    proof cases
      case 1
      then have "c # s = [] @ p @ r" by simp
      then show ?thesis by blast
    next
      case 2
      then have "c # s = (c # a) @ p @ b" by simp
      then show ?thesis by blast
    qed
  next
    assume "\<exists>a b. c # s = a @ p @ b"
    then obtain a b where ab: "c # s = a @ p @ b" by blast
    show "contains_str (c # s) p"
    proof (cases a)
      case Nil
      with ab have "c # s = p @ b" by simp
      then have "has_prefix (c # s) p" by (auto simp: has_prefix_iff)
      then show ?thesis by simp
    next
      case (Cons x xs)
      with ab have "s = xs @ p @ b" by simp
      with Cons.IH show ?thesis by auto
    qed
  qed
qed

text \<open>\<open>containsAny\<close> of collector.go, and the shape of every such loop in the repository.\<close>

definition contains_any :: "string \<Rightarrow> string list \<Rightarrow> bool" where
  "contains_any s needles = list_ex (contains_str s) needles"

section \<open>Machines\<close>

text \<open>
  A component whose operations interleave is a step relation. \<open>machine\<close> is the contract of an
  invariant: it holds initially and every step keeps it. \<open>growing\<close> adds an order no step goes
  back in, such as an observation time or a watermark.
\<close>

locale machine =
  fixes init :: "'s \<Rightarrow> bool" and step :: "'s \<Rightarrow> 's \<Rightarrow> bool" and inv :: "'s \<Rightarrow> bool"
  assumes init_inv: "init s \<Longrightarrow> inv s"
    and step_inv: "step s t \<Longrightarrow> inv s \<Longrightarrow> inv t"
begin

lemma run_inv: "step\<^sup>*\<^sup>* s t \<Longrightarrow> inv s \<Longrightarrow> inv t"
  by (induction rule: rtranclp_induct) (auto intro: step_inv)

lemma reachable_inv: "init s \<Longrightarrow> step\<^sup>*\<^sup>* s t \<Longrightarrow> inv t"
  using run_inv init_inv by blast

end

locale growing = machine +
  fixes le :: "'s \<Rightarrow> 's \<Rightarrow> bool"
  assumes le_refl: "le s s"
    and le_trans: "le s t \<Longrightarrow> le t u \<Longrightarrow> le s u"
    and step_le: "step s t \<Longrightarrow> inv s \<Longrightarrow> le s t"
begin

lemma run_le: "step\<^sup>*\<^sup>* s t \<Longrightarrow> inv s \<Longrightarrow> le s t"
proof (induction rule: rtranclp_induct)
  case base
  show ?case by (rule le_refl)
next
  case (step t u)
  from step(1,4) have "inv t" by (rule run_inv)
  with step show ?case by (meson le_trans step_le)
qed

end

text \<open>Steps that use up a rest and that can always be taken until the machine is over.\<close>

locale draining = machine +
  fixes rest :: "'s \<Rightarrow> nat" and over :: "'s \<Rightarrow> bool"
  assumes step_rest: "step s t \<Longrightarrow> rest t < rest s"
    and moves: "inv s \<Longrightarrow> \<not> over s \<Longrightarrow> \<exists>t. step s t"
begin

lemma steps_rest: "(step ^^ n) s t \<Longrightarrow> n + rest t \<le> rest s"
proof (induction n arbitrary: t)
  case (Suc n)
  then obtain u where "(step ^^ n) s u" "step u t" by auto
  with Suc.IH [of u] step_rest [of u t] show ?case by simp
qed simp

lemma reaches_over: "inv s \<Longrightarrow> \<exists>t. step\<^sup>*\<^sup>* s t \<and> over t"
proof (induction "rest s" arbitrary: s rule: less_induct)
  case less
  show ?case
  proof (cases "over s")
    case False
    from moves [OF less.prems this] obtain t where "step s t" by blast
    with less.hyps [OF step_rest step_inv] less.prems show ?thesis by (blast intro: converse_rtranclp_into_rtranclp)
  qed blast
qed

end

end
