(* ===== verification/Utf8.thy ===== *)
theory Utf8
  imports Prelude
begin

text \<open>
  The parts of Go's \<open>unicode/utf8\<close> the code uses, on byte strings: how many bytes the rune at
  the head of a string takes (\<open>utf8.DecodeRuneInString\<close>, \<open>None\<close> for an ill-formed head) and
  \<open>utf8.ValidString\<close>. The facts below say how a well-formed string reacts to being cut, which
  is what \<open>truncate\<close> in collector.go relies on.
\<close>

definition byte_in :: "nat \<Rightarrow> nat \<Rightarrow> char \<Rightarrow> bool" where
  "byte_in lo hi c \<longleftrightarrow> lo \<le> of_char c \<and> of_char c \<le> (hi :: nat)"

text \<open>The range of the second byte that the first one admits.\<close>

definition second_ok :: "char \<Rightarrow> char \<Rightarrow> bool" where
  "second_ok a b =
     (if of_char a = (0xE0 :: nat) then byte_in 0xA0 0xBF b
      else if of_char a = (0xED :: nat) then byte_in 0x80 0x9F b
      else if of_char a = (0xF0 :: nat) then byte_in 0x90 0xBF b
      else if of_char a = (0xF4 :: nat) then byte_in 0x80 0x8F b
      else byte_in 0x80 0xBF b)"

fun rune_len :: "string \<Rightarrow> nat option" where
  "rune_len [] = None"
| "rune_len (a # s) =
     (if byte_in 0 0x7F a then Some 1
      else if byte_in 0xC2 0xDF a then
        (case s of b # _ \<Rightarrow> if byte_in 0x80 0xBF b then Some 2 else None | _ \<Rightarrow> None)
      else if byte_in 0xE0 0xEF a then
        (case s of b # c # _ \<Rightarrow>
           if second_ok a b \<and> byte_in 0x80 0xBF c then Some 3 else None | _ \<Rightarrow> None)
      else if byte_in 0xF0 0xF4 a then
        (case s of b # c # d # _ \<Rightarrow>
           if second_ok a b \<and> byte_in 0x80 0xBF c \<and> byte_in 0x80 0xBF d then Some 4 else None
         | _ \<Rightarrow> None)
      else None)"

lemma rune_len_pos: "rune_len s = Some n \<Longrightarrow> 0 < n \<and> n \<le> length s"
  by (cases s) (auto split: if_splits list.splits)

function valid_utf8 :: "string \<Rightarrow> bool" where
  "valid_utf8 s = (case s of [] \<Rightarrow> True
     | _ # _ \<Rightarrow> (case rune_len s of None \<Rightarrow> False | Some n \<Rightarrow> valid_utf8 (drop n s)))"
  by pat_completeness auto
termination
  by (relation "measure length") (auto dest: rune_len_pos simp del: rune_len.simps)

declare valid_utf8.simps [simp del]

lemma valid_utf8_Nil [simp]: "valid_utf8 []"
  by (simp add: valid_utf8.simps)

lemma valid_utf8_step:
  "rune_len s = Some n \<Longrightarrow> valid_utf8 s \<longleftrightarrow> valid_utf8 (drop n s)"
  by (subst valid_utf8.simps) (cases s; simp)

text \<open>A rune's length depends on the rune's own bytes only.\<close>

lemma rune_len_append:
  assumes "rune_len s = Some n"
  shows "rune_len (s @ t) = Some n"
  using assms by (cases s) (auto split: if_splits list.splits)

lemma rune_len_take:
  assumes "rune_len s = Some n" and "n \<le> k"
  shows "rune_len (take k s) = Some n"
  using assms
  by (cases s; cases k; cases "tl s"; cases "k - 1"; cases "tl (tl s)"; cases "k - 2";
      cases "tl (tl (tl s))"; cases "k - 3") (auto split: if_splits list.splits)

text \<open>
  The first \<open>k\<close> bytes of a well-formed string are well-formed after dropping at most three
  bytes of a rune that the cut went through.
\<close>

lemma valid_utf8_cut:
  assumes "valid_utf8 s"
  shows "\<exists>j \<le> k. k \<le> j + 3 \<and> valid_utf8 (take j s)"
  using assms
proof (induction s arbitrary: k rule: valid_utf8.induct)
  case (1 s)
  show ?case
  proof (cases s)
    case Nil
    then show ?thesis by auto
  next
    case (Cons a r)
    with 1(2) obtain n where n: "rune_len s = Some n" "valid_utf8 (drop n s)"
      by (subst (asm) valid_utf8.simps) (auto split: option.splits)
    have n4: "n \<le> 4"
      using n(1) by (cases s) (auto split: if_splits list.splits)
    show ?thesis
    proof (cases "k < n")
      case True
      with n4 show ?thesis by (intro exI [of _ 0]) auto
    next
      case False
      obtain j where j: "j \<le> k - n" "k - n \<le> j + 3" "valid_utf8 (take j (drop n s))"
        using 1(1) [OF Cons n(1) n(2), of "k - n"] by auto
      have "rune_len (take (n + j) s) = Some n"
        by (rule rune_len_take [OF n(1)]) simp
      then have "valid_utf8 (take (n + j) s)"
        using j(3) by (simp add: valid_utf8_step drop_take)
      with j False show ?thesis by (intro exI [of _ "n + j"]) auto
    qed
  qed
qed

lemma valid_utf8_append:
  assumes "valid_utf8 a"
  shows "valid_utf8 (a @ t) \<longleftrightarrow> valid_utf8 t"
  using assms
proof (induction a rule: valid_utf8.induct)
  case (1 a)
  show ?case
  proof (cases a)
    case Nil
    then show ?thesis by simp
  next
    case (Cons c r)
    with 1(2) obtain n where n: "rune_len a = Some n" "valid_utf8 (drop n a)"
      by (subst (asm) valid_utf8.simps) (auto split: option.splits)
    have "valid_utf8 (a @ t) \<longleftrightarrow> valid_utf8 (drop n (a @ t))"
      by (rule valid_utf8_step) (rule rune_len_append [OF n(1)])
    also have "drop n (a @ t) = drop n a @ t" using rune_len_pos [OF n(1)] by simp
    finally show ?thesis using 1(1) [OF Cons n] by simp
  qed
qed

text \<open>A cut inside a rune leaves an ill-formed string.\<close>

lemma rune_len_cut:
  assumes "rune_len s = Some n" and "0 < k" and "k < n"
  shows "rune_len (take k s) = None"
  using assms
  by (cases s; cases k; cases "tl s"; cases "k - 1"; cases "tl (tl s)"; cases "k - 2";
      cases "tl (tl (tl s))"; cases "k - 3") (auto split: if_splits list.splits)

lemma valid_utf8_cut_inside:
  assumes "valid_utf8 a" and "rune_len r = Some n" and "0 < k" and "k < n"
  shows "\<not> valid_utf8 (a @ take k r)"
proof -
  have "take k r \<noteq> []" using assms(3,4) rune_len_pos [OF assms(2)] by auto
  then have "\<not> valid_utf8 (take k r)"
    using rune_len_cut [OF assms(2-4)] by (subst valid_utf8.simps) (cases "take k r"; simp)
  then show ?thesis by (simp add: valid_utf8_append [OF assms(1)])
qed

lemma valid_utf8_ascii: "\<forall>c \<in> set s. byte_in 0 0x7F c \<Longrightarrow> valid_utf8 s"
proof (induction s)
  case Nil
  show ?case by simp
next
  case (Cons c s)
  then have "rune_len (c # s) = Some 1" by simp
  from valid_utf8_step [OF this] Cons show ?case by simp
qed

end
