(* ===== verification/Json.thy ===== *)
theory Json
  imports Utf8 Digest
begin

text \<open>
  JSON values as \<open>encoding/json\<close> decodes them into \<open>any\<close>, and its encoder: the bytes
  \<open>json.Marshal\<close> writes, with sorted object keys, HTML-safe escapes and ill-formed bytes
  replaced. A float carries the text the encoder writes for it. The code compares the length
  of these bytes with its request and summary limits.
\<close>

datatype json =
    JNull
  | JBool bool
  | JInt int
  | JFloat string
  | JStr string
  | JArr "json list"
  | JObj "(string \<times> json) list"

section \<open>Numbers\<close>

fun nat_str :: "nat \<Rightarrow> string" where
  "nat_str n = (if n < 10 then [char_of (48 + n)] else nat_str (n div 10) @ [char_of (48 + n mod 10)])"

declare nat_str.simps [simp del]

definition int_str :: "int \<Rightarrow> string" where
  "int_str i = (if i < 0 then CHR ''-'' # nat_str (nat (- i)) else nat_str (nat i))"

lemma nat_str_nonempty [simp]: "nat_str n \<noteq> []"
  by (subst nat_str.simps) simp

text \<open>Reading the digits back gives the number.\<close>

definition digits_val :: "string \<Rightarrow> nat" where
  "digits_val s = foldl (\<lambda>n c. n * 10 + (of_char c - 48)) 0 s"

lemma digits_val_snoc: "digits_val (s @ [c]) = digits_val s * 10 + (of_char c - 48)"
  by (simp add: digits_val_def)

lemma of_char_digit: "d < 10 \<Longrightarrow> of_char (char_of (48 + d) :: char) = (48 + d :: nat)"
  by (simp add: of_char_mod_256)

lemma digits_val_nat_str [simp]: "digits_val (nat_str n) = n"
proof (induction n rule: nat_str.induct)
  case (1 n)
  show ?case
  proof (cases "n < 10")
    case True
    then show ?thesis by (subst nat_str.simps) (simp add: digits_val_def of_char_digit)
  next
    case False
    with 1 have "digits_val (nat_str (n div 10)) = n div 10" by simp
    with False show ?thesis
      by (subst nat_str.simps) (simp add: digits_val_snoc of_char_digit)
  qed
qed

lemma nat_str_inj [simp]: "nat_str m = nat_str n \<longleftrightarrow> m = n"
  by (metis digits_val_nat_str)

lemma length_nat_str: "n < 10 ^ k \<Longrightarrow> 0 < k \<Longrightarrow> length (nat_str n) \<le> k"
proof (induction n arbitrary: k rule: nat_str.induct)
  case (1 n)
  show ?case
  proof (cases "n < 10")
    case False
    with 1(2) have "k \<noteq> 1" by auto
    with 1(3) obtain m where k: "k = Suc m" "0 < m" by (cases k) auto
    with 1(2) have "n div 10 < 10 ^ m" by (simp add: less_mult_imp_div_less mult.commute)
    from 1(1) [OF False this k(2)] False k show ?thesis by (subst nat_str.simps) auto
  qed (use 1 in \<open>subst nat_str.simps; simp\<close>)
qed

section \<open>Strings\<close>

definition html_unsafe :: "char \<Rightarrow> bool" where
  "html_unsafe c \<longleftrightarrow> c \<in> {CHR ''<'', CHR ''>'', CHR ''&''}"

definition backslash :: char where "backslash = CHR 0x5C"

definition escape_ascii :: "char \<Rightarrow> string" where
  "escape_ascii c =
     (if c = CHR 0x22 \<or> c = backslash then [backslash, c]
      else if c = CHR 0x08 then [backslash, CHR ''b'']
      else if c = CHR 0x0C then [backslash, CHR ''f'']
      else if c = CHR 0x0A then [backslash, CHR ''n'']
      else if c = CHR 0x0D then [backslash, CHR ''r'']
      else if c = CHR 0x09 then [backslash, CHR ''t'']
      else if of_char c < (0x20 :: nat) \<or> html_unsafe c
        then [backslash, CHR ''u'', CHR ''0'', CHR ''0''] @ hex_byte (word_of_nat (of_char c))
      else [c])"

text \<open>U+2028 and U+2029 are escaped, every other well-formed rune is copied.\<close>

definition escape_rune :: "string \<Rightarrow> string" where
  "escape_rune r =
     (if r = [CHR 0xE2, CHR 0x80, CHR 0xA8] then backslash # ''u2028''
      else if r = [CHR 0xE2, CHR 0x80, CHR 0xA9] then backslash # ''u2029'' else r)"

function json_escape :: "string \<Rightarrow> string" where
  "json_escape s = (case s of [] \<Rightarrow> []
     | c # r \<Rightarrow> (if of_char c < (0x80 :: nat) then escape_ascii c @ json_escape r
         else case rune_len s of None \<Rightarrow> backslash # ''ufffd'' @ json_escape r
              | Some n \<Rightarrow> escape_rune (take n s) @ json_escape (drop n s)))"
  by pat_completeness auto
termination
  by (relation "measure length") (auto dest: rune_len_pos simp del: rune_len.simps)

declare json_escape.simps [simp del]

definition json_quote :: "string \<Rightarrow> string" where
  "json_quote s = CHR 0x22 # json_escape s @ [CHR 0x22]"

section \<open>Values\<close>

fun join :: "string \<Rightarrow> string list \<Rightarrow> string" where
  "join sep [] = []"
| "join sep [x] = x"
| "join sep (x # xs) = x @ sep @ join sep xs"

fun json_encode :: "json \<Rightarrow> string"
  and json_encode_list :: "json list \<Rightarrow> string list"
  and json_encode_members :: "(string \<times> json) list \<Rightarrow> (string \<times> string) list" where
  "json_encode JNull = ''null''"
| "json_encode (JBool b) = (if b then ''true'' else ''false'')"
| "json_encode (JInt i) = int_str i"
| "json_encode (JFloat t) = t"
| "json_encode (JStr s) = json_quote s"
| "json_encode (JArr xs) = ''['' @ join '','' (json_encode_list xs) @ '']''"
| "json_encode (JObj kvs) = ''{'' @ join '',''
     (map (\<lambda>(k, v). json_quote k @ '':'' @ v) (sort_key fst (json_encode_members kvs))) @ ''}''"
| "json_encode_list [] = []"
| "json_encode_list (x # xs) = json_encode x # json_encode_list xs"
| "json_encode_members [] = []"
| "json_encode_members ((k, v) # kvs) = (k, json_encode v) # json_encode_members kvs"

lemma length_join: "xs \<noteq> [] \<Longrightarrow>
  length (join sep xs) = sum_list (map length xs) + (length xs - 1) * length sep"
  by (induction sep xs rule: join.induct) auto

text \<open>\<open>unstructured.NestedFieldNoCopy\<close>: the value at a path of object keys.\<close>

fun nested_field :: "json \<Rightarrow> string list \<Rightarrow> json option" where
  "nested_field v [] = Some v"
| "nested_field (JObj kvs) (k # ks) =
     (case map_of kvs k of None \<Rightarrow> None | Some v \<Rightarrow> nested_field v ks)"
| "nested_field v (k # ks) = None"

definition nested_string :: "json \<Rightarrow> string list \<Rightarrow> string option" where
  "nested_string v ks = (case nested_field v ks of Some (JStr s) \<Rightarrow> Some s | _ \<Rightarrow> None)"

definition nested_int :: "json \<Rightarrow> string list \<Rightarrow> int" where
  "nested_int v ks = (case nested_field v ks of Some (JInt i) \<Rightarrow> i | _ \<Rightarrow> 0)"

definition nested_bool :: "json \<Rightarrow> string list \<Rightarrow> bool" where
  "nested_bool v ks = (case nested_field v ks of Some (JBool b) \<Rightarrow> b | _ \<Rightarrow> False)"

definition nested_slice :: "json \<Rightarrow> string list \<Rightarrow> json list" where
  "nested_slice v ks = (case nested_field v ks of Some (JArr xs) \<Rightarrow> xs | _ \<Rightarrow> [])"

end
