(* ===== verification/Model.thy ===== *)
theory Model
  imports Json
begin

text \<open>
  The data model of \<open>internal/v2/model/model.go\<close>: resources, ingest events and batches, their
  normalisation, the stable identity of a resource and the validation every batch passes in
  the API before it is enqueued. Go's \<open>State\<close> is a string type, so it stays a string here.
  \<open>uuid.Parse\<close> belongs to a third-party package and is the argument \<open>uuid_ok\<close>.
\<close>

type_synonym state = string

definition StateOK :: state where "StateOK = ''ok''"
definition StateWarning :: state where "StateWarning = ''warning''"
definition StateCritical :: state where "StateCritical = ''critical''"
definition StateUnknown :: state where "StateUnknown = ''unknown''"

lemmas state_defs = StateOK_def StateWarning_def StateCritical_def StateUnknown_def

definition known_state :: "state \<Rightarrow> bool" where
  "known_state s \<longleftrightarrow> s = StateOK \<or> s = StateWarning \<or> s = StateCritical \<or> s = StateUnknown"

record owner =
  o_uid :: string
  o_api_version :: string
  o_kind :: string
  o_name :: string
  o_controller :: bool

record condition =
  c_type :: string
  c_status :: string
  c_reason :: string
  c_message :: string
  c_transition :: "time option"

record resource =
  r_id :: string
  r_cluster :: string
  r_uid :: string
  r_group :: string
  r_version :: string
  r_kind :: string
  r_namespace :: string
  r_name :: string
  r_resource_version :: string
  r_labels :: "(string, string) gomap"
  r_annotations :: "(string, string) gomap"
  r_owners :: "owner list"
  r_conditions :: "condition list"
  r_summary :: "(string, json) gomap"
  r_state :: state
  r_reason :: string
  r_observed :: time
  r_deleted :: "time option"
  r_freshness :: string

record ingest_event =
  e_id :: string
  e_action :: string
  e_resource :: resource

record ingest_batch =
  b_cluster :: string
  b_shard :: string
  b_events :: "ingest_event list"

record selector =
  sel_cluster :: string
  sel_group :: string
  sel_version :: string
  sel_kind :: string
  sel_namespace :: string
  sel_name :: string
  sel_labels :: string
  sel_owner_uid :: string
  sel_states :: "state list"
  sel_aggregation :: string

definition blank_resource :: resource where
  \<comment> \<open>The zero value \<open>Resource{}\<close>.\<close>
  "blank_resource = \<lparr>r_id = [], r_cluster = [], r_uid = [], r_group = [], r_version = [],
     r_kind = [], r_namespace = [], r_name = [], r_resource_version = [], r_labels = [],
     r_annotations = [], r_owners = [], r_conditions = [], r_summary = [], r_state = [],
     r_reason = [], r_observed = zero_time, r_deleted = None, r_freshness = []\<rparr>"

section \<open>Stable identity\<close>

text \<open>The digest of cluster, NUL, uid with the version and variant bits of a UUID set.\<close>

definition stable_digest :: "string \<Rightarrow> string \<Rightarrow> byte list" where
  "stable_digest cluster uid =
     (let b = sha256 (cluster @ [CHR 0x00] @ uid);
          b = b[6 := (b ! 6 AND 0x0f) OR 0x50]
      in b[8 := (b ! 8 AND 0x3f) OR 0x80])"

definition slice :: "nat \<Rightarrow> nat \<Rightarrow> 'a list \<Rightarrow> 'a list" where
  "slice i j xs = take (j - i) (drop i xs)"

definition StableID :: "string \<Rightarrow> string \<Rightarrow> string" where
  "StableID cluster uid =
     (let b = stable_digest cluster uid
      in hex (slice 0 4 b) @ ''-'' @ hex (slice 4 6 b) @ ''-'' @ hex (slice 6 8 b) @ ''-''
         @ hex (slice 8 10 b) @ ''-'' @ hex (slice 10 16 b))"

definition Normalize :: "time \<Rightarrow> resource \<Rightarrow> resource" where
  "Normalize now r =
     (let r = (if r_id r = [] then r\<lparr>r_id := StableID (r_cluster r) (r_uid r)\<rparr> else r);
          r = (if r_state r = [] then r\<lparr>r_state := StateUnknown\<rparr> else r)
      in if r_observed r = zero_time then r\<lparr>r_observed := now\<rparr> else r)"

section \<open>Validation\<close>

datatype resource_error =
    ClusterMismatch
  | UidLength
  | IdMismatch
  | FieldLength string
  | MetadataLimits
  | LabelLimits string
  | AnnotationUnsafe string
  | OwnerInvalid nat
  | ConditionInvalid nat
  | ReasonLimits
  | SummaryLimits
  | InvalidState
  | ObservedMissing

datatype batch_error =
    BatchCluster
  | BatchShard
  | BatchCount
  | EventIdInvalid nat
  | ActionInvalid nat
  | EventResource nat resource_error

definition sensitive_needles :: "string list" where
  "sensitive_needles =
     [''token'', ''secret'', ''password'', ''credential'', ''authorization'', ''private-key'']"

definition containsSensitiveName :: "string \<Rightarrow> bool" where
  "containsSensitiveName v = list_ex (contains_str v) sensitive_needles"

text \<open>
  The loops of the code that return at the first bad element: the index of that element.
\<close>

fun first_index :: "('a \<Rightarrow> bool) \<Rightarrow> 'a list \<Rightarrow> nat option" where
  "first_index p [] = None"
| "first_index p (x # xs) = (if p x then Some 0 else map_option Suc (first_index p xs))"

definition bad_label :: "string \<times> string \<Rightarrow> bool" where
  "bad_label kv \<longleftrightarrow> length (fst kv) > 253 \<or> length (snd kv) > 256"

definition bad_annotation :: "string \<times> string \<Rightarrow> bool" where
  "bad_annotation kv \<longleftrightarrow> length (fst kv) > 253 \<or> length (snd kv) > 4096
     \<or> containsSensitiveName (to_lower (fst kv))"

definition bad_owner :: "owner \<Rightarrow> bool" where
  "bad_owner w \<longleftrightarrow> o_uid w = [] \<or> o_kind w = [] \<or> o_name w = [] \<or> length (o_uid w) > 512
     \<or> length (o_api_version w) > 512 \<or> length (o_kind w) > 512 \<or> length (o_name w) > 512"

definition bad_condition :: "condition \<Rightarrow> bool" where
  "bad_condition c \<longleftrightarrow> c_type c = [] \<or> c_status c = [] \<or> length (c_type c) > 512
     \<or> length (c_status c) > 512 \<or> length (c_reason c) > 1024 \<or> length (c_message c) > 4096"

definition identity_fields :: "resource \<Rightarrow> (string \<times> string) list" where
  "identity_fields r = [(''group'', r_group r), (''version'', r_version r), (''kind'', r_kind r),
     (''name'', r_name r), (''resourceVersion'', r_resource_version r)]"

definition bad_field :: "string \<times> string \<Rightarrow> bool" where
  "bad_field nv \<longleftrightarrow> snd nv = [] \<or> length (snd nv) > 512"

definition validate_resource :: "string \<Rightarrow> resource \<Rightarrow> resource_error option" where
  "validate_resource cluster r =
     (if r_cluster r \<noteq> cluster then Some ClusterMismatch
      else if r_uid r = [] \<or> length (r_uid r) > 512 then Some UidLength
      else if r_id r \<noteq> StableID cluster (r_uid r) then Some IdMismatch
      else case find bad_field (identity_fields r) of Some (n, _) \<Rightarrow> Some (FieldLength n) | None \<Rightarrow>
      if length (r_namespace r) > 253 \<or> length (r_labels r) > 256 \<or> length (r_annotations r) > 256
         \<or> length (r_owners r) > 64 \<or> length (r_conditions r) > 64 then Some MetadataLimits
      else case find bad_label (r_labels r) of Some (k, _) \<Rightarrow> Some (LabelLimits k) | None \<Rightarrow>
      case find bad_annotation (r_annotations r) of Some (k, _) \<Rightarrow> Some (AnnotationUnsafe k) | None \<Rightarrow>
      case first_index bad_owner (r_owners r) of Some i \<Rightarrow> Some (OwnerInvalid i) | None \<Rightarrow>
      case first_index bad_condition (r_conditions r) of Some i \<Rightarrow> Some (ConditionInvalid i) | None \<Rightarrow>
      if length (r_reason r) > 4096 then Some ReasonLimits
      else if length (json_encode (JObj (r_summary r))) > 64 * 1024 then Some SummaryLimits
      else if \<not> known_state (r_state r) then Some InvalidState
      else if r_observed r = zero_time then Some ObservedMissing
      else None)"

definition event_error :: "(string \<Rightarrow> bool) \<Rightarrow> string \<Rightarrow> nat \<Rightarrow> ingest_event \<Rightarrow> batch_error option" where
  "event_error uuid_ok cluster index e =
     (if \<not> uuid_ok (e_id e) then Some (EventIdInvalid index)
      else if e_action e \<noteq> ''upsert'' \<and> e_action e \<noteq> ''delete'' \<and> e_action e \<noteq> ''reconcile''
              \<and> e_action e \<noteq> ''heartbeat'' then Some (ActionInvalid index)
      else map_option (EventResource index) (validate_resource cluster (e_resource e)))"

fun validate_events :: "(string \<Rightarrow> bool) \<Rightarrow> string \<Rightarrow> nat \<Rightarrow> ingest_event list \<Rightarrow> batch_error option" where
  "validate_events uuid_ok cluster index [] = None"
| "validate_events uuid_ok cluster index (e # es) =
     (case event_error uuid_ok cluster index e of Some err \<Rightarrow> Some err
      | None \<Rightarrow> validate_events uuid_ok cluster (Suc index) es)"

definition Validate :: "(string \<Rightarrow> bool) \<Rightarrow> ingest_batch \<Rightarrow> batch_error option" where
  "Validate uuid_ok b =
     (if b_cluster b = [] \<or> length (b_cluster b) > 253 then Some BatchCluster
      else if b_shard b = [] \<or> length (b_shard b) > 512 then Some BatchShard
      else if length (b_events b) < 1 \<or> length (b_events b) > 1000 then Some BatchCount
      else validate_events uuid_ok (b_cluster b) 0 (b_events b))"

section \<open>Facts about the model\<close>

lemma first_index_None: "first_index p xs = None \<longleftrightarrow> (\<forall>x \<in> set xs. \<not> p x)"
  by (induction xs) auto

lemma containsSensitiveNameI:
  "needle \<in> set sensitive_needles \<Longrightarrow> containsSensitiveName (a @ needle @ b)"
  unfolding containsSensitiveName_def by (auto simp: contains_str_iff list_ex_iff)

lemma Normalize_simps [simp]:
  "r_cluster (Normalize now r) = r_cluster r" "r_uid (Normalize now r) = r_uid r"
  "r_kind (Normalize now r) = r_kind r" "r_owners (Normalize now r) = r_owners r"
  "r_group (Normalize now r) = r_group r" "r_version (Normalize now r) = r_version r"
  "r_name (Normalize now r) = r_name r" "r_namespace (Normalize now r) = r_namespace r"
  "r_resource_version (Normalize now r) = r_resource_version r"
  "r_labels (Normalize now r) = r_labels r" "r_annotations (Normalize now r) = r_annotations r"
  "r_conditions (Normalize now r) = r_conditions r" "r_summary (Normalize now r) = r_summary r"
  "r_reason (Normalize now r) = r_reason r" "r_deleted (Normalize now r) = r_deleted r"
  by (simp_all add: Normalize_def Let_def)

lemma StableID_nonempty [simp]: "StableID c u \<noteq> []"
  by (simp add: StableID_def Let_def)

text \<open>What a resource the API accepted looks like; the limits of the code, field by field.\<close>

lemma validate_resourceD:
  assumes "validate_resource cluster r = None"
  shows "r_cluster r = cluster" "r_id r = StableID cluster (r_uid r)" "known_state (r_state r)"
    and "r_observed r \<noteq> zero_time" "r_uid r \<noteq> []" "length (r_uid r) \<le> 512"
    and "\<And>kv. kv \<in> set (r_labels r) \<Longrightarrow> \<not> bad_label kv"
    and "\<And>kv. kv \<in> set (r_annotations r) \<Longrightarrow> \<not> bad_annotation kv"
    and "\<And>w. w \<in> set (r_owners r) \<Longrightarrow> \<not> bad_owner w"
    and "\<And>c. c \<in> set (r_conditions r) \<Longrightarrow> \<not> bad_condition c"
    and "length (json_encode (JObj (r_summary r))) \<le> 64 * 1024"
  using assms unfolding validate_resource_def
  by (auto split: if_splits option.splits simp: find_None_iff first_index_None simp del: json_encode.simps)

lemma validate_events_None:
  "validate_events uuid_ok cluster i es = None \<longleftrightarrow>
     (\<forall>j < length es. event_error uuid_ok cluster (i + j) (es ! j) = None)"
proof (induction es arbitrary: i)
  case Nil
  then show ?case by simp
next
  case (Cons e es)
  show ?case
    by (simp add: Cons.IH All_less_Suc2 split: option.splits) 
qed

lemma event_error_None:
  "event_error uuid_ok cluster i e = None \<Longrightarrow>
     uuid_ok (e_id e) \<and> e_action e \<in> {''upsert'', ''delete'', ''reconcile'', ''heartbeat''}
     \<and> validate_resource cluster (e_resource e) = None"
  by (auto simp: event_error_def split: if_splits)

lemma Validate_eventD:
  assumes "Validate uuid_ok b = None" and "e \<in> set (b_events b)"
  shows "uuid_ok (e_id e)" "e_action e \<in> {''upsert'', ''delete'', ''reconcile'', ''heartbeat''}"
    and "validate_resource (b_cluster b) (e_resource e) = None"
proof -
  from assms(1) have "validate_events uuid_ok (b_cluster b) 0 (b_events b) = None"
    by (simp add: Validate_def split: if_splits)
  with assms(2) obtain i where "event_error uuid_ok (b_cluster b) i e = None"
    by (auto simp: validate_events_None in_set_conv_nth)
  from event_error_None [OF this]
  show "uuid_ok (e_id e)" "e_action e \<in> {''upsert'', ''delete'', ''reconcile'', ''heartbeat''}"
    "validate_resource (b_cluster b) (e_resource e) = None" by auto
qed

end
