(* ===== verification/Tables.thy ===== *)
theory Tables
  imports Model
begin

text \<open>
  The PostgreSQL tables of \<open>schema/pgsql/migrations/001_initial.sql\<close> the Go code reads and
  writes through the statements of \<open>internal/v2/store\<close> and \<open>internal/v2/notifier\<close>: one record per
  row, a table as the list of its rows or, where the code addresses rows by primary key, as a
  map from that key. The SQL of each operation is translated where the operation is, in the
  theory of its Go file; here are the statement shapes they share. A statement that violates
  a constraint is a \<open>PgError\<close>, on which every operation rolls its transaction back.
\<close>

datatype store_error =
    PgError string
  | InvalidBatch batch_error
  | BadCast string
  | LimitRange
  | TooManyIds
  | GenerationConflict
  | DecodeFailure string
  | ClaimLost
  | InvalidCursor
  | ClusterRequired
  | InventoryTooLarge

section \<open>Rows\<close>

record ingest_row =
  ie_id :: string
  ie_cluster :: string
  ie_shard :: string
  ie_action :: string
  ie_payload :: "string + resource"
  ie_received :: time
  ie_available :: time
  ie_attempts :: int
  ie_applied :: "time option"
  ie_error :: "string option"

text \<open>
  \<open>payload\<close> is a JSON document; a row carries what \<open>json.Unmarshal\<close> makes of it, the resource
  or the text of the decoding error.
\<close>

record shard_head =
  hd_event :: "string option"
  hd_pending :: int
  hd_last_applied :: "time option"
  hd_reconciled :: "time option"

record res_row =
  rr_sort :: int
  rr_shard :: string
  rr_res :: resource
  rr_changed :: time

text \<open>The row's other columns are the fields of the resource itself; its key is \<open>r_id\<close>.\<close>

record change_row =
  ch_seq :: int
  ch_resource :: string
  ch_cluster :: string
  ch_action :: string
  ch_at :: time

record outbox_row =
  ob_id :: int
  ob_resource :: string
  ob_cluster :: string
  ob_group :: string
  ob_version :: string
  ob_kind :: string
  ob_namespace :: string
  ob_name :: string
  ob_labels :: "(string, string) gomap"
  ob_state :: state
  ob_reason :: string
  ob_action :: string
  ob_created :: time
  ob_available :: time
  ob_claimed_by :: "string option"
  ob_claimed_until :: "time option"
  ob_attempts :: int
  ob_delivered :: "time option"
  ob_error :: "string option"

record cache_row =
  fc_status :: int
  fc_response :: string
  fc_freshness :: string
  fc_fetched :: time

record bp_row =
  bp_definition :: json
  bp_generation :: int
  bp_updated :: time

type_synonym shard_key = "string \<times> string"

record db =
  t_ingest :: "ingest_row list"
  t_heads :: "(shard_key \<times> shard_head) list"
  t_resources :: "(string \<times> res_row) list"
  t_owners :: "(string \<times> owner) list"
  t_changes :: "change_row list"
  t_outbox :: "outbox_row list"
  t_cache :: "((string \<times> string) \<times> cache_row) list"
  t_processes :: "(string \<times> bp_row) list"
  next_sort :: int
  next_change :: int
  next_outbox :: int

definition empty_db :: db where
  "empty_db = \<lparr>t_ingest = [], t_heads = [], t_resources = [], t_owners = [], t_changes = [],
     t_outbox = [], t_cache = [], t_processes = [], next_sort = 1, next_change = 1,
     next_outbox = 1\<rparr>"

section \<open>Statements\<close>

text \<open>\<open>INSERT INTO change_log\<close> and \<open>INSERT INTO notification_outbox\<close>, ids from the sequences.\<close>

definition insert_change :: "time \<Rightarrow> string \<Rightarrow> resource \<Rightarrow> db \<Rightarrow> db" where
  "insert_change now action r d =
     d\<lparr>t_changes := t_changes d @ [\<lparr>ch_seq = next_change d, ch_resource = r_id r,
         ch_cluster = r_cluster r, ch_action = action, ch_at = now\<rparr>],
       next_change := next_change d + 1\<rparr>"

definition outbox_of :: "int \<Rightarrow> time \<Rightarrow> string \<Rightarrow> resource \<Rightarrow> outbox_row" where
  "outbox_of i now action r =
     \<lparr>ob_id = i, ob_resource = r_id r, ob_cluster = r_cluster r, ob_group = r_group r,
      ob_version = r_version r, ob_kind = r_kind r, ob_namespace = r_namespace r,
      ob_name = r_name r, ob_labels = r_labels r, ob_state = r_state r, ob_reason = r_reason r,
      ob_action = action, ob_created = now, ob_available = now, ob_claimed_by = None,
      ob_claimed_until = None, ob_attempts = 0, ob_delivered = None, ob_error = None\<rparr>"

definition insert_outbox :: "time \<Rightarrow> string \<Rightarrow> resource \<Rightarrow> db \<Rightarrow> db" where
  "insert_outbox now action r d =
     d\<lparr>t_outbox := t_outbox d @ [outbox_of (next_outbox d) now action r],
       next_outbox := next_outbox d + 1\<rparr>"

text \<open>The insert of a set of rows, one after the other.\<close>

definition insert_changes :: "time \<Rightarrow> string \<Rightarrow> resource list \<Rightarrow> db \<Rightarrow> db" where
  "insert_changes now action rs d = foldl (\<lambda>d r. insert_change now action r d) d rs"

definition insert_outboxes :: "time \<Rightarrow> string \<Rightarrow> resource list \<Rightarrow> db \<Rightarrow> db" where
  "insert_outboxes now action rs d = foldl (\<lambda>d r. insert_outbox now action r d) d rs"

text \<open>\<open>UPDATE resource SET ... WHERE p RETURNING *\<close>: the rows after the update that match.\<close>

definition update_resources :: "(res_row \<Rightarrow> bool) \<Rightarrow> (res_row \<Rightarrow> res_row) \<Rightarrow> db \<Rightarrow> db" where
  "update_resources p f d =
     d\<lparr>t_resources := map (\<lambda>(k, x). (k, if p x then f x else x)) (t_resources d)\<rparr>"

definition matching :: "(res_row \<Rightarrow> bool) \<Rightarrow> db \<Rightarrow> res_row list" where
  "matching p d = filter p (map snd (t_resources d))"

definition lookup_resource :: "db \<Rightarrow> string \<Rightarrow> res_row option" where
  "lookup_resource d i = map_of (t_resources d) i"

section \<open>What a statement leaves alone\<close>

lemma insert_change_frame [table_simps, simp]:
  "t_ingest (insert_change now a r d) = t_ingest d" "t_heads (insert_change now a r d) = t_heads d"
  "t_resources (insert_change now a r d) = t_resources d"
  "t_owners (insert_change now a r d) = t_owners d" "t_outbox (insert_change now a r d) = t_outbox d"
  "t_cache (insert_change now a r d) = t_cache d"
  "t_processes (insert_change now a r d) = t_processes d"
  "next_outbox (insert_change now a r d) = next_outbox d"
  "next_sort (insert_change now a r d) = next_sort d"
  by (simp_all add: insert_change_def)

lemma insert_outbox_frame [table_simps, simp]:
  "t_ingest (insert_outbox now a r d) = t_ingest d" "t_heads (insert_outbox now a r d) = t_heads d"
  "t_resources (insert_outbox now a r d) = t_resources d"
  "t_owners (insert_outbox now a r d) = t_owners d" "t_changes (insert_outbox now a r d) = t_changes d"
  "t_cache (insert_outbox now a r d) = t_cache d"
  "t_processes (insert_outbox now a r d) = t_processes d"
  "next_change (insert_outbox now a r d) = next_change d"
  "next_sort (insert_outbox now a r d) = next_sort d"
  by (simp_all add: insert_outbox_def)

lemma insert_changes_frame [table_simps, simp]:
  "t_ingest (insert_changes now a rs d) = t_ingest d" "t_heads (insert_changes now a rs d) = t_heads d"
  "t_resources (insert_changes now a rs d) = t_resources d"
  "t_owners (insert_changes now a rs d) = t_owners d"
  "t_outbox (insert_changes now a rs d) = t_outbox d"
  "t_cache (insert_changes now a rs d) = t_cache d"
  "t_processes (insert_changes now a rs d) = t_processes d"
  "next_outbox (insert_changes now a rs d) = next_outbox d"
  unfolding insert_changes_def by (induction rs arbitrary: d) simp_all

lemma insert_outboxes_frame [table_simps, simp]:
  "t_ingest (insert_outboxes now a rs d) = t_ingest d"
  "t_heads (insert_outboxes now a rs d) = t_heads d"
  "t_resources (insert_outboxes now a rs d) = t_resources d"
  "t_owners (insert_outboxes now a rs d) = t_owners d"
  "t_changes (insert_outboxes now a rs d) = t_changes d"
  "t_cache (insert_outboxes now a rs d) = t_cache d"
  "t_processes (insert_outboxes now a rs d) = t_processes d"
  "next_change (insert_outboxes now a rs d) = next_change d"
  unfolding insert_outboxes_def by (induction rs arbitrary: d) simp_all

lemma update_resources_frame [table_simps, simp]:
  "t_ingest (update_resources p f d) = t_ingest d" "t_heads (update_resources p f d) = t_heads d"
  "t_owners (update_resources p f d) = t_owners d" "t_changes (update_resources p f d) = t_changes d"
  "t_outbox (update_resources p f d) = t_outbox d" "t_cache (update_resources p f d) = t_cache d"
  "t_processes (update_resources p f d) = t_processes d"
  "next_outbox (update_resources p f d) = next_outbox d"
  "next_change (update_resources p f d) = next_change d"
  by (simp_all add: update_resources_def)


lemma lookup_update_resources [table_simps]:
  "lookup_resource (update_resources p f d) i =
     map_option (\<lambda>x. if p x then f x else x) (lookup_resource d i)"
proof -
  have "map_of (map (\<lambda>(k, x). (k, if p x then f x else x)) ts) i =
      map_option (\<lambda>x. if p x then f x else x) (map_of ts i)" for ts
    by (induction ts) auto
  then show ?thesis by (simp add: lookup_resource_def update_resources_def)
qed

lemma lookup_resource_cong [table_simps]:
  "t_resources d' = t_resources d \<Longrightarrow> lookup_resource d' i = lookup_resource d i"
  by (simp add: lookup_resource_def)

text \<open>What the inserts append.\<close>

lemma insert_changes_appends:
  "map (\<lambda>c. (ch_resource c, ch_action c)) (t_changes (insert_changes now a rs d)) =
     map (\<lambda>c. (ch_resource c, ch_action c)) (t_changes d) @ map (\<lambda>r. (r_id r, a)) rs"
  unfolding insert_changes_def by (induction rs arbitrary: d) (simp_all add: insert_change_def)

lemma insert_outboxes_appends:
  "\<exists>new. t_outbox (insert_outboxes now a rs d) = t_outbox d @ new
     \<and> map ob_resource new = map r_id rs \<and> (\<forall>x \<in> set new. ob_action x = a \<and> ob_delivered x = None)"
proof (induction rs arbitrary: d)
  case Nil
  then show ?case by (simp add: insert_outboxes_def)
next
  case (Cons r rs)
  from Cons.IH [of "insert_outbox now a r d"] obtain new where
    "t_outbox (insert_outboxes now a rs (insert_outbox now a r d)) =
       t_outbox (insert_outbox now a r d) @ new" "map ob_resource new = map r_id rs"
    "\<forall>x \<in> set new. ob_action x = a \<and> ob_delivered x = None" by blast
  then show ?case
    by (intro exI [of _ "outbox_of (next_outbox d) now a r # new"])
      (simp add: insert_outboxes_def insert_outbox_def outbox_of_def)
qed

end
