(* ===== verification/EventRecovery.thy ===== *)
theory EventRecovery
  imports Tables
begin

text \<open>
  \<open>internal/v2/store/event_recovery.go\<close>: when a warning Kubernetes event counts as historical,
  the query \<open>resolveEvent\<close> makes while an event is applied, and the periodic \<open>ResolveEvents\<close>
  pass. \<open>time.Parse(time.RFC3339Nano, text)\<close> is the argument \<open>parse\<close>; \<open>now\<close> is \<open>time.Now()\<close> of
  the worker and \<open>dbnow\<close> the database's \<open>clock_timestamp()\<close>.
\<close>

type_synonym time_parser = "string \<Rightarrow> time option"

definition eventProblemWindow :: duration where
  "eventProblemWindow = minutes 10"

definition inactiveEventReason :: string where
  "inactiveEventReason = ''Historical event: no occurrence in the last 10 minutes''"

definition deletedEventReason :: string where
  "deletedEventReason = ''Historical event: referenced resource has been deleted''"

definition healthyEventReason :: "string \<Rightarrow> string" where
  "healthyEventReason kind = ''Historical event: referenced '' @ kind @ '' is healthy''"

text \<open>A summary entry as the code's \<open>r.Summary[key].(string)\<close> reads it, absent or not a string: empty.\<close>

definition summary_text :: "resource \<Rightarrow> string \<Rightarrow> string" where
  "summary_text r key = (case map_of (r_summary r) key of Some (JStr s) \<Rightarrow> s | _ \<Rightarrow> [])"

definition occurrence_keys :: "string list" where
  "occurrence_keys = [''lastTimestamp'', ''eventTime'', ''series.lastObservedTime'', ''deprecatedLastTimestamp'']"

definition eventOccurrence :: "time_parser \<Rightarrow> resource \<Rightarrow> time" where
  "eventOccurrence parse r =
     foldl (\<lambda>latest key. case parse (summary_text r key) of None \<Rightarrow> latest
              | Some t \<Rightarrow> if t > latest then t else latest) zero_time occurrence_keys"

definition eventInactivity :: "time_parser \<Rightarrow> resource \<Rightarrow> time \<Rightarrow> string" where
  "eventInactivity parse r now =
     (let last = eventOccurrence parse r
      in if last \<noteq> zero_time \<and> \<not> last > now - eventProblemWindow then inactiveEventReason else [])"

definition eventLifecycle :: "string \<Rightarrow> string" where
  "eventLifecycle reason =
     (if has_prefix reason inactiveEventReason then ''inactive'' else ''resolved'')"

definition warningEvent :: "resource \<Rightarrow> bool" where
  "warningEvent r \<longleftrightarrow> r_kind r = ''Event'' \<and> (r_group r = ''core'' \<or> r_group r = ''events.k8s.io'')
     \<and> r_state r \<noteq> StateOK"

definition eventReference :: "resource \<Rightarrow> string" where
  "eventReference r =
     (if summary_text r ''regarding.uid'' \<noteq> [] then summary_text r ''regarding.uid''
      else summary_text r ''involvedObject.uid'')"

definition recoverable_kinds :: "string list" where
  "recoverable_kinds = [''Pod'', ''Deployment'', ''StatefulSet'', ''ReplicaSet'', ''DaemonSet'',
     ''Job'', ''PersistentVolumeClaim'']"

definition eventRecovery ::
  "time_parser \<Rightarrow> time \<Rightarrow> resource \<Rightarrow> state \<Rightarrow> string \<Rightarrow> time \<Rightarrow> bool \<Rightarrow> string" where
  "eventRecovery parse now r st kind observed deleted =
     (if eventInactivity parse r now \<noteq> [] then eventInactivity parse r now
      else let last = eventOccurrence parse r
      in if last = zero_time \<or> observed < last then []
      else if deleted then deletedEventReason
      else if st \<noteq> StateOK then []
      else if kind \<in> set recoverable_kinds then healthyEventReason kind
      else [])"

section \<open>resolveEvent\<close>

definition summary_member :: "resource \<Rightarrow> string \<Rightarrow> string option" where
  \<comment> \<open>\<open>summary->>'key'\<close>: the text of a string member, NULL when absent.\<close>
  "summary_member r key = (case map_of (r_summary r) key of
     None \<Rightarrow> None | Some JNull \<Rightarrow> None | Some (JStr s) \<Rightarrow> Some s | Some v \<Rightarrow> Some (json_encode v))"

definition resolved_before :: "resource \<Rightarrow> res_row \<Rightarrow> bool" where
  "resolved_before r x \<longleftrightarrow> r_id (rr_res x) = r_id r
     \<and> r_resource_version (rr_res x) = r_resource_version r \<and> r_state (rr_res x) = ''ok''
     \<and> summary_member (rr_res x) ''eventLifecycle'' \<in> {Some ''resolved'', Some ''inactive''}
     \<and> r_deleted (rr_res x) = None"

definition previous_resolution :: "db \<Rightarrow> resource \<Rightarrow> string" where
  "previous_resolution d r =
     (case matching (resolved_before r) d of [] \<Rightarrow> [] | x # _ \<Rightarrow> r_reason (rr_res x))"

definition referenced :: "resource \<Rightarrow> res_row \<Rightarrow> bool" where
  "referenced r x \<longleftrightarrow> r_cluster (rr_res x) = r_cluster r \<and> r_uid (rr_res x) = eventReference r
     \<and> r_namespace (rr_res x) = r_namespace r"

definition mark_resolved :: "string \<Rightarrow> resource \<Rightarrow> resource" where
  "mark_resolved reason r = r\<lparr>r_state := StateOK, r_reason := reason,
     r_summary := AList.update ''eventLifecycle'' (JStr (eventLifecycle reason)) (r_summary r)\<rparr>"

definition resolveEvent :: "time_parser \<Rightarrow> time \<Rightarrow> db \<Rightarrow> resource \<Rightarrow> resource" where
  "resolveEvent parse now d r =
     (if \<not> warningEvent r then r
      else let previous = previous_resolution d r;
               reason = (if previous \<noteq> [] then previous else eventInactivity parse r now)
      in if reason = [] \<and> eventReference r \<noteq> [] then
           (case matching (referenced r) d of [] \<Rightarrow> r
            | x # _ \<Rightarrow>
                (let reason = eventRecovery parse now r (r_state (rr_res x)) (r_kind (rr_res x))
                       (r_observed (rr_res x)) (r_deleted (rr_res x) \<noteq> None)
                 in if reason \<noteq> [] then mark_resolved reason r else r))
         else if reason \<noteq> [] then mark_resolved reason r else r)"

section \<open>ResolveEvents\<close>

definition open_event :: "res_row \<Rightarrow> bool" where
  "open_event x \<longleftrightarrow> r_kind (rr_res x) = ''Event''
     \<and> (r_group (rr_res x) = ''core'' \<or> r_group (rr_res x) = ''events.k8s.io'')
     \<and> r_state (rr_res x) \<noteq> ''ok'' \<and> r_deleted (rr_res x) = None"

text \<open>
  The \<open>LEFT JOIN\<close> of an open event with the rows its reference names: one result row per
  match, or one with the defaults of the \<open>COALESCE\<close>s when there is none.
\<close>

definition reference_sql :: "resource \<Rightarrow> string option" where
  "reference_sql e = (case summary_member e ''regarding.uid'' of Some u \<Rightarrow> Some u
     | None \<Rightarrow> summary_member e ''involvedObject.uid'')"

definition join_match :: "resource \<Rightarrow> res_row \<Rightarrow> bool" where
  "join_match e p \<longleftrightarrow> r_cluster (rr_res p) = r_cluster e \<and> r_namespace (rr_res p) = r_namespace e
     \<and> reference_sql e = Some (r_uid (rr_res p))"

definition join_rows :: "db \<Rightarrow> resource \<Rightarrow> (state \<times> string \<times> time \<times> bool) list" where
  "join_rows d e =
     (case matching (join_match e) d of [] \<Rightarrow> [(''unknown'', [], 0, False)]
      | ps \<Rightarrow> map (\<lambda>p. (r_state (rr_res p), r_kind (rr_res p), r_observed (rr_res p),
                         r_deleted (rr_res p) \<noteq> None)) ps)"

definition recovered_events :: "time_parser \<Rightarrow> time \<Rightarrow> string set \<Rightarrow> db \<Rightarrow> (string \<times> string) list" where
  \<comment> \<open>\<open>locked\<close>: the event rows other transactions hold, skipped by \<open>SKIP LOCKED\<close>.\<close>
  "recovered_events parse now locked d =
     (let es = sort_key (\<lambda>x. r_id (rr_res x))
                 (filter (\<lambda>x. r_id (rr_res x) \<notin> locked) (matching open_event d))
      in filter (\<lambda>(i, reason). reason \<noteq> [])
           (concat (map (\<lambda>x. map (\<lambda>(st, kind, observed, deleted).
              (r_id (rr_res x), eventRecovery parse now (rr_res x) st kind observed deleted))
              (join_rows d (rr_res x))) es)))"

definition recover_one :: "time \<Rightarrow> string \<times> string \<Rightarrow> db \<Rightarrow> db" where
  "recover_one dbnow ir d =
     (let p = (\<lambda>x. r_id (rr_res x) = fst ir);
          f = (\<lambda>x. x\<lparr>rr_res := mark_resolved (snd ir) (rr_res x), rr_changed := dbnow\<rparr>);
          d' = update_resources p f d;
          rs = map rr_res (matching p d')
      in insert_changes dbnow ''upsert'' rs (insert_outboxes dbnow ''upsert'' rs d'))"

definition ResolveEvents :: "time_parser \<Rightarrow> time \<Rightarrow> time \<Rightarrow> string set \<Rightarrow> db \<Rightarrow> db" where
  "ResolveEvents parse now dbnow locked d =
     foldl (\<lambda>d ir. recover_one dbnow ir d) d (recovered_events parse now locked d)"

end
