(* ===== verification/Inventory.thy ===== *)
theory Inventory
  imports EventRecovery
begin

text \<open>
  \<open>applyResource\<close> of \<open>internal/v2/store/store.go\<close>: one ingest event against the inventory, inside
  the transaction of \<open>ApplyShard\<close>. An observation older than the shard's reconcile watermark or
  than the stored row is dropped; a reconcile marker tombstones what its snapshot did not see;
  an upsert or delete rewrites the row, its owners and the change log, and queues a
  notification when the state that matters to an operator changed.
\<close>

definition lookup_head :: "db \<Rightarrow> shard_key \<Rightarrow> shard_head option" where
  "lookup_head d k = map_of (t_heads d) k"

definition watermark :: "db \<Rightarrow> shard_key \<Rightarrow> time option" where
  "watermark d k = (case lookup_head d k of None \<Rightarrow> None | Some h \<Rightarrow> hd_reconciled h)"

definition before_watermark :: "db \<Rightarrow> shard_key \<Rightarrow> time \<Rightarrow> bool" where
  "before_watermark d k t = (case watermark d k of None \<Rightarrow> False | Some w \<Rightarrow> t < w)"

section \<open>The reconcile marker\<close>

definition missed :: "string \<Rightarrow> string \<Rightarrow> time \<Rightarrow> res_row \<Rightarrow> bool" where
  "missed cluster shard cutoff x \<longleftrightarrow> r_cluster (rr_res x) = cluster \<and> rr_shard x = shard
     \<and> r_deleted (rr_res x) = None \<and> r_observed (rr_res x) < cutoff"

definition tombstone :: "time \<Rightarrow> time \<Rightarrow> res_row \<Rightarrow> res_row" where
  "tombstone dbnow cutoff x =
     x\<lparr>rr_res := (rr_res x)\<lparr>r_deleted := Some dbnow, r_observed := cutoff\<rparr>, rr_changed := dbnow\<rparr>"

definition raise_watermark :: "shard_key \<Rightarrow> time \<Rightarrow> db \<Rightarrow> db" where
  "raise_watermark k cutoff d =
     d\<lparr>t_heads := AList.update k
        (case lookup_head d k of
           None \<Rightarrow> \<lparr>hd_event = None, hd_pending = 0, hd_last_applied = None, hd_reconciled = Some cutoff\<rparr>
         | Some h \<Rightarrow> h\<lparr>hd_reconciled := Some (case hd_reconciled h of None \<Rightarrow> cutoff | Some w \<Rightarrow> max w cutoff)\<rparr>)
        (t_heads d)\<rparr>"

definition reconcile_shard :: "time \<Rightarrow> string \<Rightarrow> resource \<Rightarrow> db \<Rightarrow> db" where
  "reconcile_shard dbnow shard r d =
     (let d1 = raise_watermark (r_cluster r, shard) (r_observed r) d;
          p = missed (r_cluster r) shard (r_observed r);
          removed = map (\<lambda>x. rr_res (tombstone dbnow (r_observed r) x)) (matching p d1);
          d2 = update_resources p (tombstone dbnow (r_observed r)) d1;
          d3 = insert_outboxes dbnow ''delete'' (filter (\<lambda>r. r_state r \<noteq> ''ok'') removed) d2
      in insert_changes dbnow ''delete'' removed d3)"

section \<open>Upsert and delete\<close>

text \<open>
  The \<open>INSERT ... ON CONFLICT(id) DO UPDATE\<close> and its constraints. The update rewrites every
  column but the identity column, the cluster and the id. A \<open>timestamptz\<close> holds microseconds: the deletion
  time is rounded when it is stored, the observation time has been rounded before.
\<close>

definition stored :: "db \<Rightarrow> time option \<Rightarrow> resource \<Rightarrow> resource" where
  "stored d deleted r =
     r\<lparr>r_cluster := (case lookup_resource d (r_id r) of None \<Rightarrow> r_cluster r | Some x \<Rightarrow> r_cluster (rr_res x)),
       r_owners := [], r_deleted := map_option round_us deleted, r_freshness := []\<rparr>"

definition new_row :: "db \<Rightarrow> time \<Rightarrow> string \<Rightarrow> time option \<Rightarrow> resource \<Rightarrow> res_row" where
  "new_row d dbnow shard deleted r =
     \<lparr>rr_sort = (case lookup_resource d (r_id r) of None \<Rightarrow> next_sort d | Some x \<Rightarrow> rr_sort x),
      rr_shard = shard, rr_res = stored d deleted r, rr_changed = dbnow\<rparr>"

definition uid_taken :: "resource \<Rightarrow> res_row \<Rightarrow> bool" where
  "uid_taken r x \<longleftrightarrow> r_cluster (rr_res x) = r_cluster r \<and> r_uid (rr_res x) = r_uid r
     \<and> r_id (rr_res x) \<noteq> r_id r"

definition put_resource :: "time \<Rightarrow> string \<Rightarrow> time option \<Rightarrow> resource \<Rightarrow> db \<Rightarrow> store_error + db" where
  "put_resource dbnow shard deleted r d =
     (if \<not> known_state (r_state r) then Inl (PgError ''resource_state_check'')
      else if matching (uid_taken (stored d deleted r)) d \<noteq> []
        then Inl (PgError ''resource_cluster_name_kubernetes_uid_key'')
      else Inr (d\<lparr>t_resources := AList.update (r_id r) (new_row d dbnow shard deleted r) (t_resources d),
             next_sort := next_sort d + 1\<rparr>))"

definition clear_owners :: "string \<Rightarrow> db \<Rightarrow> db" where
  "clear_owners i d = d\<lparr>t_owners := filter (\<lambda>(k, w). k \<noteq> i) (t_owners d)\<rparr>"

text \<open>One insert per owner; \<open>(resource_id, owner_uid)\<close> is the primary key.\<close>

fun insert_owners :: "string \<Rightarrow> owner list \<Rightarrow> db \<Rightarrow> store_error + db" where
  "insert_owners i [] d = Inr d"
| "insert_owners i (w # ws) d =
     (if list_ex (\<lambda>(k, v). k = i \<and> o_uid v = o_uid w) (t_owners d)
      then Inl (PgError ''resource_owner_pkey'')
      else insert_owners i ws (d\<lparr>t_owners := t_owners d @ [(i, w)]\<rparr>))"

definition relations_unchanged :: "resource \<Rightarrow> resource \<Rightarrow> bool" where
  "relations_unchanged r old \<longleftrightarrow> same_map (r_labels old) (r_labels r) \<and> r_group old = r_group r
     \<and> r_version old = r_version r \<and> r_kind old = r_kind r \<and> r_namespace old = r_namespace r
     \<and> r_name old = r_name r"

definition shouldNotify :: "string \<Rightarrow> resource \<Rightarrow> resource option \<Rightarrow> bool" where
  "shouldNotify action r previous =
     (if action = ''delete'' then
        (case previous of None \<Rightarrow> False | Some old \<Rightarrow> r_deleted old = None \<and> r_state old \<noteq> StateOK)
      else case previous of None \<Rightarrow> r_state r \<noteq> StateOK
        | Some old \<Rightarrow>
            if r_deleted old \<noteq> None then r_state r \<noteq> StateOK
            else r_state old \<noteq> r_state r
              \<or> r_state r \<noteq> StateOK \<and> (r_reason old \<noteq> r_reason r \<or> \<not> relations_unchanged r old))"

definition write_resource :: "time \<Rightarrow> time \<Rightarrow> string \<Rightarrow> string \<Rightarrow> resource \<Rightarrow> db \<Rightarrow> store_error + db" where
  "write_resource now dbnow action shard r d =
     (let previous = map_option rr_res (lookup_resource d (r_id r));
          deleted = (if action = ''delete'' \<and> r_deleted r = None then Some now else r_deleted r)
      in case put_resource dbnow shard deleted r d of Inl e \<Rightarrow> Inl e | Inr d1 \<Rightarrow>
      case insert_owners (r_id r) (if action \<noteq> ''delete'' then r_owners r else []) (clear_owners (r_id r) d1)
        of Inl e \<Rightarrow> Inl e | Inr d2 \<Rightarrow>
      let d3 = insert_change dbnow action r d2
      in Inr (if shouldNotify action r previous then insert_outbox dbnow action r d3 else d3))"

definition applyResource ::
  "time_parser \<Rightarrow> time \<Rightarrow> time \<Rightarrow> string \<Rightarrow> string \<Rightarrow> resource \<Rightarrow> db \<Rightarrow> store_error + db" where
  "applyResource parse now dbnow action shard r0 d =
     (let r = r0\<lparr>r_observed := round_us (r_observed r0)\<rparr>
      in if action = ''heartbeat'' then Inr d
      else if before_watermark d (r_cluster r, shard) (r_observed r) then Inr d
      else if action = ''reconcile'' then Inr (reconcile_shard dbnow shard r d)
      else let r = (if action \<noteq> ''delete'' then resolveEvent parse now d r else r)
      in case lookup_resource d (r_id r) of
           Some x \<Rightarrow> if r_observed r < r_observed (rr_res x) then Inr d
                     else write_resource now dbnow action shard r d
         | None \<Rightarrow> write_resource now dbnow action shard r d)"

section \<open>What the tables keep\<close>

text \<open>
  Rows are filed under their own id, cluster and uid identify a row, states are known, owners
  are unique per resource and belong to an existing one, and the ids of change log and outbox
  ascend below the next value of their sequence.
\<close>

definition rows_ok :: "(string \<times> res_row) list \<Rightarrow> bool" where
  "rows_ok rs \<longleftrightarrow> distinct (map fst rs)
     \<and> (\<forall>(k, x) \<in> set rs. r_id (rr_res x) = k \<and> known_state (r_state (rr_res x)))
     \<and> (\<forall>(k, x) \<in> set rs. \<forall>(l, y) \<in> set rs. r_cluster (rr_res x) = r_cluster (rr_res y) \<longrightarrow>
          r_uid (rr_res x) = r_uid (rr_res y) \<longrightarrow> k = l)"

definition owners_ok :: "(string \<times> owner) list \<Rightarrow> string set \<Rightarrow> bool" where
  "owners_ok ws ids \<longleftrightarrow> distinct (map (\<lambda>(k, w). (k, o_uid w)) ws) \<and> fst ` set ws \<subseteq> ids"

definition outbox_ids_ok :: "outbox_row list \<Rightarrow> int \<Rightarrow> bool" where
  "outbox_ids_ok os n \<longleftrightarrow> sorted_wrt (<) (map ob_id os) \<and> (\<forall>x \<in> set os. ob_id x < n)"

definition change_ids_ok :: "change_row list \<Rightarrow> int \<Rightarrow> bool" where
  "change_ids_ok cs n \<longleftrightarrow> sorted_wrt (<) (map ch_seq cs) \<and> (\<forall>x \<in> set cs. ch_seq x < n)"

definition inventory_ok :: "db \<Rightarrow> bool" where
  "inventory_ok d \<longleftrightarrow> rows_ok (t_resources d) \<and> owners_ok (t_owners d) (fst ` set (t_resources d))
     \<and> outbox_ids_ok (t_outbox d) (next_outbox d) \<and> change_ids_ok (t_changes d) (next_change d)"

lemma inventory_ok_empty [simp]: "inventory_ok empty_db"
  by (simp add: inventory_ok_def rows_ok_def owners_ok_def outbox_ids_ok_def change_ids_ok_def empty_db_def)

lemma insert_change_ok [step_intros]: "inventory_ok d \<Longrightarrow> inventory_ok (insert_change now a r d)"
  by (fastforce simp: inventory_ok_def insert_change_def change_ids_ok_def sorted_wrt_append)

lemma insert_outbox_ok [step_intros]: "inventory_ok d \<Longrightarrow> inventory_ok (insert_outbox now a r d)"
  by (fastforce simp: inventory_ok_def insert_outbox_def outbox_ids_ok_def outbox_of_def sorted_wrt_append)

lemma insert_changes_ok [step_intros]: "inventory_ok d \<Longrightarrow> inventory_ok (insert_changes now a rs d)"
  unfolding insert_changes_def by (induction rs arbitrary: d) (simp_all add: insert_change_ok)

lemma insert_outboxes_ok [step_intros]: "inventory_ok d \<Longrightarrow> inventory_ok (insert_outboxes now a rs d)"
  unfolding insert_outboxes_def by (induction rs arbitrary: d) (simp_all add: insert_outbox_ok)

lemma raise_watermark_ok [step_intros]: "inventory_ok d \<Longrightarrow> inventory_ok (raise_watermark k c d)"
  by (simp add: inventory_ok_def raise_watermark_def)

text \<open>An update of matching rows that leaves identity alone and writes known states.\<close>

definition keeps_identity :: "(res_row \<Rightarrow> res_row) \<Rightarrow> bool" where
  "keeps_identity f \<longleftrightarrow> (\<forall>x. r_id (rr_res (f x)) = r_id (rr_res x)
     \<and> r_cluster (rr_res (f x)) = r_cluster (rr_res x) \<and> r_uid (rr_res (f x)) = r_uid (rr_res x)
     \<and> (known_state (r_state (rr_res x)) \<longrightarrow> known_state (r_state (rr_res (f x)))))"

lemma keys_update_resources [simp]:
  "map fst (t_resources (update_resources p f d)) = map fst (t_resources d)"
  by (simp add: update_resources_def case_prod_beta' comp_def)

lemma rows_ok_iff: "rows_ok rs \<longleftrightarrow> distinct (map fst rs)
  \<and> (\<forall>z \<in> set rs. r_id (rr_res (snd z)) = fst z) \<and> (\<forall>z \<in> set rs. known_state (r_state (rr_res (snd z))))
  \<and> (\<forall>z \<in> set rs. \<forall>y \<in> set rs. r_cluster (rr_res (snd z)) = r_cluster (rr_res (snd y)) \<longrightarrow>
          r_uid (rr_res (snd z)) = r_uid (rr_res (snd y)) \<longrightarrow> fst z = fst y)"
  unfolding rows_ok_def case_prod_beta' by blast

lemma rows_ok_map:
  assumes "rows_ok rs" and "keeps_identity f"
  shows "rows_ok (map (\<lambda>(k, x). (k, if p x then f x else x)) rs)"
proof -
  define h where "h = (\<lambda>x. if p x then f x else x)"
  have hid: "r_id (rr_res (h x)) = r_id (rr_res x)" for x
    using assms(2) unfolding keeps_identity_def h_def by presburger
  have hc: "r_cluster (rr_res (h x)) = r_cluster (rr_res x)" for x
    using assms(2) unfolding keeps_identity_def h_def by presburger
  have hu: "r_uid (rr_res (h x)) = r_uid (rr_res x)" for x
    using assms(2) unfolding keeps_identity_def h_def by presburger
  have hk: "known_state (r_state (rr_res x)) \<Longrightarrow> known_state (r_state (rr_res (h x)))" for x
    using assms(2) unfolding keeps_identity_def h_def by presburger
  have "rows_ok (map (\<lambda>kx. (fst kx, h (snd kx))) rs)"
    using assms(1) unfolding rows_ok_iff set_map ball_simps map_map comp_def fst_conv snd_conv hid hc hu
    using hk by blast
  then show ?thesis by (simp add: h_def case_prod_beta')
qed

lemma update_resources_ok [step_intros]:
  assumes "inventory_ok d" and "keeps_identity f"
  shows "inventory_ok (update_resources p f d)"
proof -
  have "fst ` set (t_resources (update_resources p f d)) = fst ` set (t_resources d)"
    using keys_update_resources [of p f d] by (metis list.set_map)
  with assms show ?thesis
    by (simp add: inventory_ok_def update_resources_def rows_ok_map)
qed

lemma keeps_identity_tombstone [simp]: "keeps_identity (tombstone dbnow c)"
  by (simp add: keeps_identity_def tombstone_def)

lemma reconcile_shard_ok [step_intros]: "inventory_ok d \<Longrightarrow> inventory_ok (reconcile_shard dbnow shard r d)"
  unfolding reconcile_shard_def Let_def by (intro step_intros) simp_all


lemma rows_ok_update:
  assumes ok: "rows_ok rs" and x: "r_id (rr_res x) = k" "known_state (r_state (rr_res x))"
    and free: "\<And>y. y \<in> snd ` set rs \<Longrightarrow> \<not> uid_taken (rr_res x) y"
  shows "rows_ok (AList.update k x rs)"
proof -
  let ?rest = "{y \<in> set rs. fst y \<noteq> k}"
  from ok have dist: "distinct (map fst rs)" unfolding rows_ok_iff by blast
  have apart: "\<not> (r_cluster (rr_res (snd y)) = r_cluster (rr_res x) \<and> r_uid (rr_res (snd y)) = r_uid (rr_res x))"
    if "y \<in> ?rest" for y
  proof -
    from that have y: "y \<in> set rs" "fst y \<noteq> k" by simp_all
    then have "r_id (rr_res (snd y)) = fst y" using ok unfolding rows_ok_iff by blast
    with y(2) x(1) have "r_id (rr_res (snd y)) \<noteq> r_id (rr_res x)" by simp
    moreover have "\<not> uid_taken (rr_res x) (snd y)" by (rule free) (rule imageI [OF y(1)])
    ultimately show ?thesis unfolding uid_taken_def by blast
  qed
  show ?thesis
    unfolding rows_ok_iff set_update_keyed [OF dist]
  proof (intro conjI)
    show "distinct (map fst (AList.update k x rs))" using dist by (rule distinct_update)
    show "\<forall>z \<in> insert (k, x) ?rest. r_id (rr_res (snd z)) = fst z"
      using ok x(1) unfolding rows_ok_iff by (metis (no_types, lifting) fst_conv insert_iff mem_Collect_eq snd_conv)
    show "\<forall>z \<in> insert (k, x) ?rest. known_state (r_state (rr_res (snd z)))"
      using ok x(2) unfolding rows_ok_iff by (metis (no_types, lifting) insert_iff mem_Collect_eq snd_conv)
    show "\<forall>z \<in> insert (k, x) ?rest. \<forall>y \<in> insert (k, x) ?rest.
        r_cluster (rr_res (snd z)) = r_cluster (rr_res (snd y)) \<longrightarrow>
        r_uid (rr_res (snd z)) = r_uid (rr_res (snd y)) \<longrightarrow> fst z = fst y"
    proof (intro ballI impI)
      fix z y
      assume "z \<in> insert (k, x) ?rest" "y \<in> insert (k, x) ?rest"
        and c: "r_cluster (rr_res (snd z)) = r_cluster (rr_res (snd y))"
        and u: "r_uid (rr_res (snd z)) = r_uid (rr_res (snd y))"
      then consider "z = (k, x)" "y = (k, x)" | "z = (k, x)" "y \<in> ?rest"
        | "y = (k, x)" "z \<in> ?rest" | "z \<in> set rs" "y \<in> set rs" by blast
      then show "fst z = fst y"
      proof cases
        case 1
        then show ?thesis by simp
      next
        case 2
        with c u apart [OF 2(2)] show ?thesis by simp
      next
        case 3
        with c u apart [OF 3(2)] show ?thesis by simp
      next
        case 4
        with c u ok show ?thesis unfolding rows_ok_iff by blast
      qed
    qed
  qed
qed

lemma stored_simps [simp]:
  "r_id (stored d del r) = r_id r" "r_uid (stored d del r) = r_uid r" "r_state (stored d del r) = r_state r"
  "r_reason (stored d del r) = r_reason r" "r_observed (stored d del r) = r_observed r"
  "r_deleted (stored d del r) = map_option round_us del" "r_labels (stored d del r) = r_labels r"
  "r_group (stored d del r) = r_group r" "r_version (stored d del r) = r_version r"
  "r_kind (stored d del r) = r_kind r" "r_namespace (stored d del r) = r_namespace r"
  "r_name (stored d del r) = r_name r"
  by (simp_all add: stored_def)

lemma new_row_simps [simp]:
  "rr_res (new_row d dbnow shard del r) = stored d del r" "rr_shard (new_row d dbnow shard del r) = shard"
  "rr_changed (new_row d dbnow shard del r) = dbnow"
  by (simp_all add: new_row_def)

lemma put_resource_ok:
  assumes "inventory_ok d" and "put_resource dbnow shard deleted r d = Inr d'"
  shows "inventory_ok d'"
proof -
  let ?x = "new_row d dbnow shard deleted r"
  from assms(2) have k: "known_state (r_state r)" and m: "matching (uid_taken (stored d deleted r)) d = []"
    and d': "d' = d\<lparr>t_resources := AList.update (r_id r) ?x (t_resources d), next_sort := next_sort d + 1\<rparr>"
    by (auto simp: put_resource_def split: if_splits)
  have "rows_ok (AList.update (r_id r) ?x (t_resources d))"
  proof (rule rows_ok_update)
    show "rows_ok (t_resources d)" using assms(1) by (simp add: inventory_ok_def)
    show "\<not> uid_taken (rr_res ?x) y" if "y \<in> snd ` set (t_resources d)" for y
      using m that by (auto simp: matching_def filter_empty_conv)
  qed (simp_all add: k)
  moreover have "owners_ok (t_owners d) (fst ` set (AList.update (r_id r) ?x (t_resources d)))"
    using assms(1) by (auto simp: inventory_ok_def owners_ok_def dom_update)
  ultimately show ?thesis
    using assms(1) by (simp add: inventory_ok_def d')
qed

lemma clear_owners_ok [step_intros]: "inventory_ok d \<Longrightarrow> inventory_ok (clear_owners i d)"
  by (auto simp: inventory_ok_def clear_owners_def owners_ok_def distinct_map intro: inj_on_subset)

lemma insert_owners_ok:
  assumes "inventory_ok d" and "i \<in> fst ` set (t_resources d)" and "insert_owners i ws d = Inr d'"
  shows "inventory_ok d'"
  using assms
proof (induction i ws d rule: insert_owners.induct)
  case (1 i d)
  then show ?case by simp
next
  case (2 i w ws d)
  from "2.prems"(3) have free: "\<not> list_ex (\<lambda>(k, v). k = i \<and> o_uid v = o_uid w) (t_owners d)"
    by (simp split: if_splits)
  have "inventory_ok (d\<lparr>t_owners := t_owners d @ [(i, w)]\<rparr>)"
    using "2.prems"(1,2) free by (auto simp: inventory_ok_def owners_ok_def list_ex_iff)
  with 2 free show ?case by simp
qed

text \<open>What \<open>insert_owners\<close> leaves alone, and what a success means for the owners table.\<close>

lemma insert_owners_frame:
  assumes "insert_owners i ws d = Inr d'"
  shows "t_resources d' = t_resources d \<and> t_ingest d' = t_ingest d \<and> t_heads d' = t_heads d
    \<and> t_changes d' = t_changes d \<and> t_outbox d' = t_outbox d \<and> next_outbox d' = next_outbox d
    \<and> t_processes d' = t_processes d \<and> t_cache d' = t_cache d
    \<and> t_owners d' = t_owners d @ map (\<lambda>w. (i, w)) ws"
  using assms by (induction i ws d rule: insert_owners.induct) (auto split: if_splits)

lemma insert_owners_fails:
  "\<not> distinct (map o_uid ws) \<Longrightarrow> \<exists>e. insert_owners i ws d = Inl e"
proof (induction i ws d rule: insert_owners.induct)
  case (1 i d)
  then show ?case by simp
next
  case (2 i w ws d)
  show ?case
  proof (cases "o_uid w \<in> o_uid ` set ws")
    case True
    have "\<exists>e. insert_owners i vs c = Inl e"
      if "o_uid w \<in> o_uid ` set vs" "(i, w) \<in> set (t_owners c)" for vs c
      using that by (induction i vs c rule: insert_owners.induct) (auto simp: list_ex_iff)
    from this [OF True, of "d\<lparr>t_owners := t_owners d @ [(i, w)]\<rparr>"] show ?thesis by auto
  next
    case False
    with 2 show ?thesis by auto
  qed
qed

definition deletion_time :: "time \<Rightarrow> string \<Rightarrow> resource \<Rightarrow> time option" where
  "deletion_time now action r = (if action = ''delete'' \<and> r_deleted r = None then Some now else r_deleted r)"

definition new_owners :: "string \<Rightarrow> resource \<Rightarrow> owner list" where
  "new_owners action r = (if action \<noteq> ''delete'' then r_owners r else [])"

lemma write_resourceE:
  assumes "write_resource now dbnow action shard r d = Inr d'"
  obtains d1 d2 where "put_resource dbnow shard (deletion_time now action r) r d = Inr d1"
    and "insert_owners (r_id r) (new_owners action r) (clear_owners (r_id r) d1) = Inr d2"
    and "d' = (if shouldNotify action r (map_option rr_res (lookup_resource d (r_id r)))
               then insert_outbox dbnow action r (insert_change dbnow action r d2)
               else insert_change dbnow action r d2)"
  using assms unfolding write_resource_def Let_def deletion_time_def [symmetric] new_owners_def [symmetric]
  by (cases "put_resource dbnow shard (deletion_time now action r) r d"; simp;
      cases "insert_owners (r_id r) (new_owners action r)
        (clear_owners (r_id r) (projr (put_resource dbnow shard (deletion_time now action r) r d)))"; simp)

lemma write_resource_ok:
  assumes "inventory_ok d" and "write_resource now dbnow action shard r d = Inr d'"
  shows "inventory_ok d'"
  using assms(2)
proof (rule write_resourceE)
  fix d1 d2
  assume 1: "put_resource dbnow shard (deletion_time now action r) r d = Inr d1"
    and 2: "insert_owners (r_id r) (new_owners action r) (clear_owners (r_id r) d1) = Inr d2"
    and 3: "d' = (if shouldNotify action r (map_option rr_res (lookup_resource d (r_id r)))
               then insert_outbox dbnow action r (insert_change dbnow action r d2)
               else insert_change dbnow action r d2)"
  have "r_id r \<in> fst ` set (t_resources (clear_owners (r_id r) d1))"
    using 1 by (auto simp: put_resource_def clear_owners_def dom_update split: if_splits)
  then have "inventory_ok d2"
    using insert_owners_ok [OF clear_owners_ok [OF put_resource_ok [OF assms(1) 1]] _ 2] by simp
  then show "inventory_ok d'" using 3 by (simp add: step_intros)
qed

lemma applyResource_ok:
  assumes "inventory_ok d" and "applyResource parse now dbnow action shard r d = Inr d'"
  shows "inventory_ok d'"
  using assms unfolding applyResource_def Let_def
  by (auto split: if_splits option.splits intro: reconcile_shard_ok dest: write_resource_ok)

section \<open>What one event does\<close>

lemma resolveEvent_frame [simp]:
  "r_id (resolveEvent parse now d r) = r_id r" "r_cluster (resolveEvent parse now d r) = r_cluster r"
  "r_observed (resolveEvent parse now d r) = r_observed r" "r_uid (resolveEvent parse now d r) = r_uid r"
  "r_owners (resolveEvent parse now d r) = r_owners r" "r_deleted (resolveEvent parse now d r) = r_deleted r"
  "r_labels (resolveEvent parse now d r) = r_labels r" "r_name (resolveEvent parse now d r) = r_name r"
  by (simp_all add: resolveEvent_def Let_def mark_resolved_def split: list.splits)

lemma resolveEvent_other: "\<not> warningEvent r \<Longrightarrow> resolveEvent parse now d r = r"
  by (simp add: resolveEvent_def)

lemma put_resource_lookup:
  assumes "put_resource dbnow shard deleted r d = Inr d'"
  shows "lookup_resource d' i = (if i = r_id r then Some (new_row d dbnow shard deleted r) else lookup_resource d i)"
    and "t_heads d' = t_heads d" "t_ingest d' = t_ingest d" "t_owners d' = t_owners d"
    and "t_outbox d' = t_outbox d" "t_changes d' = t_changes d" "next_outbox d' = next_outbox d"
    and "next_change d' = next_change d" "known_state (r_state r)"
  using assms by (auto simp: put_resource_def lookup_resource_def split: if_splits)

lemma clear_owners_frame [simp, table_simps]:
  "lookup_resource (clear_owners i d) j = lookup_resource d j" "t_heads (clear_owners i d) = t_heads d"
  "t_ingest (clear_owners i d) = t_ingest d" "t_outbox (clear_owners i d) = t_outbox d"
  "t_changes (clear_owners i d) = t_changes d" "next_outbox (clear_owners i d) = next_outbox d"
  "t_resources (clear_owners i d) = t_resources d"
  by (simp_all add: clear_owners_def lookup_resource_def)

text \<open>The tables after a successful write, field by field.\<close>

lemma write_resource_effect:
  assumes "write_resource now dbnow action shard r d = Inr d'"
  shows "lookup_resource d' i = (if i = r_id r then Some (new_row d dbnow shard (deletion_time now action r) r) else lookup_resource d i)"
    and "t_heads d' = t_heads d" and "t_ingest d' = t_ingest d"
    and "t_owners d' = filter (\<lambda>(k, w). k \<noteq> r_id r) (t_owners d) @ map (\<lambda>w. (r_id r, w)) (new_owners action r)"
    and "t_outbox d' = t_outbox d @
       (if shouldNotify action r (map_option rr_res (lookup_resource d (r_id r)))
        then [outbox_of (next_outbox d) dbnow action r] else [])"
    and "map (\<lambda>c. (ch_resource c, ch_action c)) (t_changes d') =
       map (\<lambda>c. (ch_resource c, ch_action c)) (t_changes d) @ [(r_id r, action)]"
proof -
  from assms obtain d1 d2 where
    1: "put_resource dbnow shard (deletion_time now action r) r d = Inr d1" and
    2: "insert_owners (r_id r) (new_owners action r) (clear_owners (r_id r) d1) = Inr d2" and
    3: "d' = (if shouldNotify action r (map_option rr_res (lookup_resource d (r_id r)))
               then insert_outbox dbnow action r (insert_change dbnow action r d2)
               else insert_change dbnow action r d2)"
    by (rule write_resourceE)
  note put = put_resource_lookup [OF 1] and own = insert_owners_frame [OF 2]
  have res: "t_resources d' = t_resources d1" using own by (simp add: 3)
  show "lookup_resource d' i = (if i = r_id r then Some (new_row d dbnow shard (deletion_time now action r) r) else lookup_resource d i)"
    unfolding lookup_resource_def res unfolding lookup_resource_def [symmetric] by (rule put(1))
  show "t_heads d' = t_heads d" "t_ingest d' = t_ingest d" using own put(2,3) by (simp_all add: 3)
  show "t_owners d' = filter (\<lambda>(k, w). k \<noteq> r_id r) (t_owners d) @ map (\<lambda>w. (r_id r, w)) (new_owners action r)"
    using own put(4) by (simp add: 3 clear_owners_def)
  show "t_outbox d' = t_outbox d @
       (if shouldNotify action r (map_option rr_res (lookup_resource d (r_id r)))
        then [outbox_of (next_outbox d) dbnow action r] else [])"
    using own put(5,7) by (simp add: 3 insert_outbox_def)
  show "map (\<lambda>c. (ch_resource c, ch_action c)) (t_changes d') =
       map (\<lambda>c. (ch_resource c, ch_action c)) (t_changes d) @ [(r_id r, action)]"
    using own put(6) by (simp add: 3 insert_change_def)
qed

lemma lookup_head_raise [simp]:
  "lookup_head (raise_watermark k c d) l = (if l = k then Some
     (case lookup_head d k of
        None \<Rightarrow> \<lparr>hd_event = None, hd_pending = 0, hd_last_applied = None, hd_reconciled = Some c\<rparr>
      | Some h \<Rightarrow> h\<lparr>hd_reconciled := Some (case hd_reconciled h of None \<Rightarrow> c | Some w \<Rightarrow> max w c)\<rparr>)
     else lookup_head d l)"
  by (simp add: raise_watermark_def lookup_head_def)

lemma raise_watermark_frame [simp, table_simps]:
  "t_resources (raise_watermark k c d) = t_resources d" "t_ingest (raise_watermark k c d) = t_ingest d"
  "t_outbox (raise_watermark k c d) = t_outbox d" "t_changes (raise_watermark k c d) = t_changes d"
  "t_owners (raise_watermark k c d) = t_owners d" "next_outbox (raise_watermark k c d) = next_outbox d"
  "matching p (raise_watermark k c d) = matching p d"
  by (simp_all add: raise_watermark_def matching_def)

lemma reconcile_shard_effect:
  "lookup_resource (reconcile_shard dbnow shard r d) i =
     map_option (\<lambda>x. if missed (r_cluster r) shard (r_observed r) x
                     then tombstone dbnow (r_observed r) x else x) (lookup_resource d i)"
  "t_heads (reconcile_shard dbnow shard r d) = t_heads (raise_watermark (r_cluster r, shard) (r_observed r) d)"
  "t_ingest (reconcile_shard dbnow shard r d) = t_ingest d"
  "t_owners (reconcile_shard dbnow shard r d) = t_owners d"
  by (simp_all add: reconcile_shard_def Let_def lookup_resource_def
      lookup_update_resources [unfolded lookup_resource_def])

text \<open>The four outcomes of \<open>applyResource\<close> as an elimination rule.\<close>

lemma applyResourceE [consumes 1, case_names unchanged reconciled written]:
  assumes "applyResource parse now dbnow action shard r d = Inr d'"
  obtains "d' = d"
  | "action = ''reconcile''" "\<not> before_watermark d (r_cluster r, shard) (round_us (r_observed r))"
    "d' = reconcile_shard dbnow shard (r\<lparr>r_observed := round_us (r_observed r)\<rparr>) d"
  | s where "s = (if action \<noteq> ''delete'' then resolveEvent parse now d (r\<lparr>r_observed := round_us (r_observed r)\<rparr>)
                  else r\<lparr>r_observed := round_us (r_observed r)\<rparr>)"
    "\<And>x. lookup_resource d (r_id r) = Some x \<Longrightarrow> r_observed (rr_res x) \<le> round_us (r_observed r)"
    "\<not> before_watermark d (r_cluster r, shard) (round_us (r_observed r))"
    "write_resource now dbnow action shard s d = Inr d'"
proof -
  define r1 where "r1 = r\<lparr>r_observed := round_us (r_observed r)\<rparr>"
  define s where "s = (if action \<noteq> ''delete'' then resolveEvent parse now d r1 else r1)"
  have r1: "r_cluster r1 = r_cluster r" "r_observed r1 = round_us (r_observed r)" "r_id r1 = r_id r"
    by (simp_all add: r1_def)
  have s: "r_id s = r_id r" "r_observed s = round_us (r_observed r)"
    by (simp_all add: s_def r1)
  have eq: "applyResource parse now dbnow action shard r d =
      (if action = ''heartbeat'' then Inr d
       else if before_watermark d (r_cluster r, shard) (round_us (r_observed r)) then Inr d
       else if action = ''reconcile'' then Inr (reconcile_shard dbnow shard r1 d)
       else case lookup_resource d (r_id r) of
         Some x \<Rightarrow> if round_us (r_observed r) < r_observed (rr_res x) then Inr d
                  else write_resource now dbnow action shard s d
       | None \<Rightarrow> write_resource now dbnow action shard s d)"
    unfolding applyResource_def Let_def r1_def [symmetric] s_def [symmetric] by (simp only: r1 s)
  consider "d' = d" | "action = ''reconcile''" "\<not> before_watermark d (r_cluster r, shard) (round_us (r_observed r))"
      "d' = reconcile_shard dbnow shard r1 d"
    | "\<And>x. lookup_resource d (r_id r) = Some x \<Longrightarrow> r_observed (rr_res x) \<le> round_us (r_observed r)"
      "\<not> before_watermark d (r_cluster r, shard) (round_us (r_observed r))"
      "write_resource now dbnow action shard s d = Inr d'"
    using assms unfolding eq by (auto split: if_splits option.splits)
  then show ?thesis
    using that unfolding r1_def s_def by cases blast+
qed

section \<open>Properties\<close>

text \<open>A list of events of one cluster, applied one after the other.\<close>

fun applyEvents ::
  "time_parser \<Rightarrow> (time \<times> time \<times> string \<times> string \<times> resource) list \<Rightarrow> db \<Rightarrow> store_error + db" where
  "applyEvents parse [] d = Inr d"
| "applyEvents parse ((now, dbnow, action, shard, r) # es) d =
     (case applyResource parse now dbnow action shard r d of Inl e \<Rightarrow> Inl e
      | Inr d' \<Rightarrow> applyEvents parse es d')"

lemma applyResource_observed:
  assumes "applyResource parse now dbnow action shard r d = Inr d'" and "lookup_resource d i = Some x"
  shows "\<exists>y. lookup_resource d' i = Some y \<and> r_observed (rr_res x) \<le> r_observed (rr_res y)"
  using assms(1)
proof (cases rule: applyResourceE)
  case unchanged
  with assms(2) show ?thesis by simp
next
  case reconciled
  with assms(2) show ?thesis by (auto simp: reconcile_shard_effect tombstone_def missed_def)
next
  case (written s)
  have "r_id s = r_id r" "r_observed s = round_us (r_observed r)" by (simp_all add: written(1))
  with written(2) assms(2) show ?thesis
    by (auto simp: write_resource_effect(1) [OF written(4)] stored_def)
qed

definition watermark_le :: "time option \<Rightarrow> time option \<Rightarrow> bool" where
  "watermark_le a b = (case a of None \<Rightarrow> True | Some v \<Rightarrow> (case b of None \<Rightarrow> False | Some w \<Rightarrow> v \<le> w))"

lemma watermark_raise:
  "watermark (raise_watermark k c d) l = (if l = k then Some (case watermark d k of None \<Rightarrow> c | Some w \<Rightarrow> max w c)
     else watermark d l)"
  by (auto simp: watermark_def split: option.splits)

lemma watermark_cong: "t_heads d' = t_heads d \<Longrightarrow> watermark d' k = watermark d k"
  by (simp add: watermark_def lookup_head_def)

lemma applyResource_watermark:
  assumes "applyResource parse now dbnow action shard r d = Inr d'"
  shows "watermark_le (watermark d k) (watermark d' k)"
  using assms
proof (cases rule: applyResourceE)
  case unchanged
  then show ?thesis by (simp add: watermark_le_def split: option.splits)
next
  case reconciled
  then have "watermark d' k = watermark (raise_watermark (r_cluster r, shard) (round_us (r_observed r)) d) k"
    by (intro watermark_cong) (simp add: reconcile_shard_effect)
  then show ?thesis by (auto simp: watermark_raise watermark_le_def split: option.splits)
next
  case (written s)
  then have "watermark d' k = watermark d k" by (intro watermark_cong) (rule write_resource_effect(2))
  then show ?thesis by (simp add: watermark_le_def split: option.splits)
qed

lemma watermark_le_trans: "watermark_le a b \<Longrightarrow> watermark_le b c \<Longrightarrow> watermark_le a c"
  by (auto simp: watermark_le_def split: option.splits)

lemma applyEvents_watermark:
  "applyEvents parse es d = Inr d' \<Longrightarrow> watermark_le (watermark d k) (watermark d' k)"
proof (induction parse es d rule: applyEvents.induct)
  case (1 parse d)
  then show ?case by (simp add: watermark_le_def split: option.splits)
next
  case (2 parse now dbnow action shard r es d)
  then show ?case
    by (auto split: sum.splits intro: watermark_le_trans applyResource_watermark)
qed

lemma before_watermark_mono:
  "watermark_le (watermark d k) (watermark d' k) \<Longrightarrow> before_watermark d k t \<Longrightarrow> before_watermark d' k t"
  by (auto simp: watermark_le_def before_watermark_def split: option.splits)

lemma reconcile_raises:
  assumes "applyResource parse now dbnow ''reconcile'' shard m d = Inr d'"
    and "t < round_us (r_observed m)"
  shows "before_watermark d' (r_cluster m, shard) t"
proof (cases "before_watermark d (r_cluster m, shard) (round_us (r_observed m))")
  case True
  then have "before_watermark d (r_cluster m, shard) t"
    using assms(2) by (auto simp: before_watermark_def split: option.splits)
  then show ?thesis
    by (rule before_watermark_mono [OF applyResource_watermark [OF assms(1)]])
next
  case False
  let ?m = "m\<lparr>r_observed := round_us (r_observed m)\<rparr>"
  from False assms(1) have "d' = reconcile_shard dbnow shard ?m d"
    by (simp add: applyResource_def Let_def)
  then have "watermark d' (r_cluster m, shard) =
      watermark (raise_watermark (r_cluster m, shard) (round_us (r_observed m)) d) (r_cluster m, shard)"
    by (intro watermark_cong) (simp add: reconcile_shard_effect)
  then show ?thesis
    using assms(2) by (auto simp: watermark_raise before_watermark_def split: option.splits)
qed

lemma insert_owners_succeeds:
  "distinct (map o_uid ws) \<Longrightarrow> (\<And>k v. (k, v) \<in> set (t_owners d) \<Longrightarrow> k = i \<Longrightarrow> o_uid v \<notin> o_uid ` set ws)
   \<Longrightarrow> \<exists>d'. insert_owners i ws d = Inr d'"
proof (induction i ws d rule: insert_owners.induct)
  case (1 i d)
  then show ?case by simp
next
  case (2 i w ws d)
  have free: "\<not> list_ex (\<lambda>(k, v). k = i \<and> o_uid v = o_uid w) (t_owners d)"
    using "2.prems"(2) by (auto simp: list_ex_iff)
  have "\<exists>d'. insert_owners i ws (d\<lparr>t_owners := t_owners d @ [(i, w)]\<rparr>) = Inr d'"
    by (rule "2.IH" [OF free]) (use "2.prems" in \<open>auto dest: "2.prems"(2)\<close>)
  with free show ?case by simp
qed

lemma owners_distinct:
  assumes "write_resource now dbnow action shard r d = Inr d'"
  shows "distinct (map o_uid (new_owners action r))"
proof (rule ccontr)
  assume "\<not> distinct (map o_uid (new_owners action r))"
  from assms obtain d1 d2 where "insert_owners (r_id r) (new_owners action r) (clear_owners (r_id r) d1) = Inr d2"
    by (rule write_resourceE)
  moreover obtain e where "insert_owners (r_id r) (new_owners action r) (clear_owners (r_id r) d1) = Inl e"
    using insert_owners_fails [OF \<open>\<not> distinct _\<close>] by blast
  ultimately show False by simp
qed

lemma write_resource_again:
  assumes ok: "inventory_ok d" and w: "write_resource now dbnow action shard r d = Inr d'"
  shows "\<exists>d''. write_resource now' dbnow' action shard' r d' = Inr d''"
proof -
  from w obtain d1 d2 where
    1: "put_resource dbnow shard (deletion_time now action r) r d = Inr d1" and
    2: "insert_owners (r_id r) (new_owners action r) (clear_owners (r_id r) d1) = Inr d2" and
    3: "t_resources d' = t_resources d2"
    by (rule write_resourceE) (simp split: if_splits)
  have res: "t_resources d' = t_resources d1"
    using insert_owners_frame [OF 2] by (simp add: 3)
  from 1 obtain x where d1: "t_resources d1 = AList.update (r_id r) x (t_resources d)"
    and x: "rr_res x = stored d (deletion_time now action r) r"
    and free: "matching (uid_taken (stored d (deletion_time now action r) r)) d = []" and k: "known_state (r_state r)"
    by (auto simp: put_resource_def split: if_splits)
  have again: "r_cluster (stored d' del r) = r_cluster (stored d (deletion_time now action r) r)" for del
    by (simp add: stored_def lookup_resource_def res d1 x)
  have "distinct (map fst (t_resources d))"
    using ok unfolding inventory_ok_def rows_ok_iff by blast
  from set_update_keyed [OF this] have "matching (uid_taken (stored d' (deletion_time now' action r) r)) d' = []"
    using free x by (auto simp: matching_def res d1 filter_empty_conv uid_taken_def again)
  with k obtain e1 where e1: "put_resource dbnow' shard' (deletion_time now' action r) r d' = Inr e1"
    by (simp add: put_resource_def)
  have "\<exists>e2. insert_owners (r_id r) (new_owners action r) (clear_owners (r_id r) e1) = Inr e2"
    by (rule insert_owners_succeeds [OF owners_distinct [OF w]]) (auto simp: clear_owners_def)
  with e1 show ?thesis
    unfolding write_resource_def Let_def deletion_time_def [symmetric] new_owners_def [symmetric] by auto
qed

definition live :: "db \<Rightarrow> string \<Rightarrow> string \<Rightarrow> string set" where
  \<comment> \<open>The resources of a shard that are not tombstoned.\<close>
  "live d cluster shard = {i. \<exists>x. lookup_resource d i = Some x \<and> r_cluster (rr_res x) = cluster
     \<and> rr_shard x = shard \<and> r_deleted (rr_res x) = None}"

definition observed_at :: "db \<Rightarrow> string \<Rightarrow> time option" where
  "observed_at d i = map_option (\<lambda>x. r_observed (rr_res x)) (lookup_resource d i)"

text \<open>C1: Once a reconcile marker has been applied to a shard, whatever events are applied
  afterwards, an event of that shard observed before the marker changes nothing: a spool
  replayed late can neither resurrect nor roll back a resource, not even one whose
  tombstone has been pruned.\<close>

theorem late_replay_ignored:
  assumes "applyResource parse now dbnow ''reconcile'' shard m d = Inr d1"
    and "applyEvents parse es d1 = Inr d2"
    and "r_cluster r = r_cluster m" and "round_us (r_observed r) < round_us (r_observed m)"
  shows "applyResource parse now' dbnow' action shard r d2 = Inr d2"
proof -
  have "before_watermark d2 (r_cluster r, shard) (round_us (r_observed r))"
    unfolding assms(3)
    by (rule before_watermark_mono [OF applyEvents_watermark [OF assms(2)] reconcile_raises [OF assms(1,4)]])
  then show ?thesis by (simp add: applyResource_def Let_def)
qed

text \<open>C23: No sequence of ingest events lowers the observation time of a stored resource, and none
  removes its row: inventory only moves forward in time.\<close>

theorem observation_monotone:
  assumes "applyEvents parse es d = Inr d'" and "observed_at d i = Some t"
  shows "\<exists>t'. observed_at d' i = Some t' \<and> t \<le> t'"
  using assms
proof (induction parse es d arbitrary: t rule: applyEvents.induct)
  case (1 parse d)
  then show ?case by simp
next
  case (2 parse now dbnow action shard r es d)
  from "2.prems"(1) obtain d1 where d1: "applyResource parse now dbnow action shard r d = Inr d1"
    "applyEvents parse es d1 = Inr d'" by (auto split: sum.splits)
  from "2.prems"(2) applyResource_observed [OF d1(1)] obtain t1 where "observed_at d1 i = Some t1" "t \<le> t1"
    by (fastforce simp: observed_at_def)
  with "2.IH" [OF d1] show ?case by fastforce
qed

lemma live_reconcile:
  "i \<in> live (reconcile_shard dbnow shard r d) c s \<longleftrightarrow> (\<exists>x. lookup_resource d i = Some x
     \<and> r_cluster (rr_res x) = c \<and> rr_shard x = s \<and> r_deleted (rr_res x) = None
     \<and> \<not> missed (r_cluster r) shard (r_observed r) x)"
proof (cases "lookup_resource d i")
  case None
  then show ?thesis by (simp add: live_def reconcile_shard_effect)
next
  case (Some x)
  then show ?thesis by (cases "missed (r_cluster r) shard (r_observed r) x")
      (simp_all add: live_def reconcile_shard_effect tombstone_def)
qed

text \<open>C14: A reconcile marker that is not older than the shard's watermark leaves alive exactly the
  resources of its shard observed at or after the cutoff, touches no other shard, and raises
  the watermark to at least the cutoff.\<close>

theorem reconcile_live_set:
  assumes "\<not> before_watermark d (r_cluster m, shard) (round_us (r_observed m))"
    and "applyResource parse now dbnow ''reconcile'' shard m d = Inr d'"
  shows "live d' (r_cluster m) shard =
      {i \<in> live d (r_cluster m) shard. \<exists>t. observed_at d i = Some t \<and> round_us (r_observed m) \<le> t}
    \<and> (\<forall>c s. (c, s) \<noteq> (r_cluster m, shard) \<longrightarrow> live d' c s = live d c s)
    \<and> (\<exists>w. watermark d' (r_cluster m, shard) = Some w \<and> round_us (r_observed m) \<le> w)"
proof (intro conjI allI impI)
  let ?m = "m\<lparr>r_observed := round_us (r_observed m)\<rparr>"
  have d': "d' = reconcile_shard dbnow shard ?m d"
    using assms by (simp add: applyResource_def Let_def)
  show "live d' (r_cluster m) shard =
      {i \<in> live d (r_cluster m) shard. \<exists>t. observed_at d i = Some t \<and> round_us (r_observed m) \<le> t}"
    unfolding d' set_eq_iff live_reconcile by (auto simp: live_def observed_at_def missed_def not_less)
  show "live d' c s = live d c s" if "(c, s) \<noteq> (r_cluster m, shard)" for c s
    using that unfolding d' set_eq_iff live_reconcile by (auto simp: live_def missed_def)
  have "watermark d' (r_cluster m, shard) =
      watermark (raise_watermark (r_cluster m, shard) (round_us (r_observed m)) d) (r_cluster m, shard)"
    by (intro watermark_cong) (simp add: d' reconcile_shard_effect)
  then show "\<exists>w. watermark d' (r_cluster m, shard) = Some w \<and> round_us (r_observed m) \<le> w"
    by (auto simp: watermark_raise split: option.splits)
qed

section \<open>Alerts and their announcements\<close>

text \<open>
  What the notification source keeps of a resource: its state, reason and the attributes
  contacts are routed by while it is live and not OK, nothing otherwise. The outbox announces
  the alert of its last row for the resource.
\<close>

type_synonym alert = "state \<times> string \<times> (string \<Rightarrow> string option) \<times> string list"

definition alert_of :: "resource \<Rightarrow> alert option" where
  "alert_of r = (if r_deleted r = None \<and> r_state r \<noteq> StateOK
     then Some (r_state r, r_reason r, map_of (r_labels r),
                [r_group r, r_version r, r_kind r, r_namespace r, r_name r]) else None)"

definition alert :: "db \<Rightarrow> string \<Rightarrow> alert option" where
  "alert d i = Option.bind (lookup_resource d i) (\<lambda>x. alert_of (rr_res x))"

definition announces :: "outbox_row \<Rightarrow> alert option" where
  "announces b = (if ob_action b = ''delete'' \<or> ob_state b = StateOK then None
     else Some (ob_state b, ob_reason b, map_of (ob_labels b),
                [ob_group b, ob_version b, ob_kind b, ob_namespace b, ob_name b]))"

definition announced :: "db \<Rightarrow> string \<Rightarrow> alert option" where
  "announced d i = (case filter (\<lambda>b. ob_resource b = i) (t_outbox d) of [] \<Rightarrow> None | os \<Rightarrow> announces (last os))"

lemma announced_append:
  "t_outbox d' = t_outbox d @ new \<Longrightarrow> announced d' i =
     (if i \<in> ob_resource ` set new then announces (last (filter (\<lambda>b. ob_resource b = i) new)) else announced d i)"
proof -
  assume d': "t_outbox d' = t_outbox d @ new"
  have i: "i \<in> ob_resource ` set new \<longleftrightarrow> filter (\<lambda>b. ob_resource b = i) new \<noteq> []"
    by (auto simp: filter_empty_conv)
  have last: "(case xs of [] \<Rightarrow> None | os \<Rightarrow> announces (last os)) = (if xs = [] then None else announces (last xs))"
    for xs by (cases xs) simp_all
  show ?thesis unfolding announced_def last d' i by simp
qed

lemma shouldNotify_alert:
  assumes "action \<noteq> ''delete'' \<Longrightarrow> r_deleted r = None"
  shows "shouldNotify action r previous \<longleftrightarrow>
    Option.bind previous alert_of \<noteq> (if action = ''delete'' then None else alert_of r)"
proof (cases previous)
  case None
  with assms show ?thesis by (auto simp: shouldNotify_def alert_of_def)
next
  case (Some old)
  with assms show ?thesis
    by (cases "r_deleted old"; cases "r_deleted r")
       (auto simp: shouldNotify_def alert_of_def relations_unchanged_def same_map_iff)
qed

lemma outbox_of_resource [simp]: "ob_resource (outbox_of n t action r) = r_id r"
  by (simp add: outbox_of_def)

lemma announces_outbox_of:
  "announces (outbox_of n t action r) = (if action = ''delete'' then None else alert_of (r\<lparr>r_deleted := None\<rparr>))"
  by (simp add: announces_def outbox_of_def alert_of_def)

lemma write_resource_announced:
  assumes w: "write_resource now dbnow action shard r d = Inr d'"
    and del: "r_id r = i \<Longrightarrow> action \<noteq> ''delete'' \<Longrightarrow> r_deleted r = None"
    and inv: "announced d i = alert d i"
  shows "announced d' i = alert d' i"
proof -
  have out: "announced d' i = (if i = r_id r \<and> shouldNotify action r (map_option rr_res (lookup_resource d (r_id r)))
      then if action = ''delete'' then None else alert_of (r\<lparr>r_deleted := None\<rparr>) else announced d i)"
    unfolding announced_append [OF write_resource_effect(5) [OF w]]
    by (cases "shouldNotify action r (map_option rr_res (lookup_resource d (r_id r)))")
       (auto simp: announces_outbox_of)
  have new: "alert d' i = (if i = r_id r then alert_of (stored d (deletion_time now action r) r) else alert d i)"
    by (simp add: alert_def write_resource_effect(1) [OF w])
  have st: "i = r_id r \<Longrightarrow> alert_of (stored d (deletion_time now action r) r) = (if action = ''delete'' then None else alert_of r)"
    using del by (auto simp: alert_of_def stored_def deletion_time_def)
  have old: "Option.bind (map_option rr_res (lookup_resource d (r_id r))) alert_of = alert d (r_id r)"
    by (cases "lookup_resource d (r_id r)") (simp_all add: alert_def)
  have r: "i = r_id r \<Longrightarrow> action \<noteq> ''delete'' \<Longrightarrow> alert_of (r\<lparr>r_deleted := None\<rparr>) = alert_of r"
    using del by (simp add: alert_of_def)
  have n: "i = r_id r \<Longrightarrow> shouldNotify action r (map_option rr_res (lookup_resource d (r_id r))) \<longleftrightarrow>
      alert d (r_id r) \<noteq> (if action = ''delete'' then None else alert_of r)"
    unfolding old [symmetric] by (rule shouldNotify_alert) (simp add: del)
  show ?thesis
  proof (cases "i = r_id r")
    case True
    with inv r [OF True] show ?thesis unfolding out new st [OF True] n [OF True]
      by (cases "action = ''delete''"; cases "alert d (r_id r)") simp_all
  next
    case False
    with inv show ?thesis unfolding out new by simp
  qed
qed

lemma reconcile_outbox:
  "\<exists>new. t_outbox (reconcile_shard dbnow shard r d) = t_outbox d @ new
     \<and> (\<forall>b \<in> set new. ob_action b = ''delete'')
     \<and> ob_resource ` set new = {r_id (rr_res x) |x. x \<in> set (matching (missed (r_cluster r) shard (r_observed r)) d)
         \<and> r_state (rr_res x) \<noteq> ''ok''}"
proof -
  let ?p = "missed (r_cluster r) shard (r_observed r)"
  let ?rs = "filter (\<lambda>r. r_state r \<noteq> ''ok'') (map (\<lambda>x. rr_res (tombstone dbnow (r_observed r) x)) (matching ?p d))"
  have "set (map r_id ?rs) = {r_id (rr_res x) |x. x \<in> set (matching ?p d) \<and> r_state (rr_res x) \<noteq> ''ok''}"
    by (force simp: tombstone_def image_iff)
  note ids = this
  obtain new where new: "t_outbox (reconcile_shard dbnow shard r d) = t_outbox d @ new"
      "map ob_resource new = map r_id ?rs" and del: "\<forall>x \<in> set new. ob_action x = ''delete'' \<and> ob_delivered x = None"
    using insert_outboxes_appends [of dbnow "''delete''" ?rs
        "update_resources ?p (tombstone dbnow (r_observed r)) (raise_watermark (r_cluster r, shard) (r_observed r) d)"]
    by (auto simp: reconcile_shard_def Let_def)
  have "ob_resource ` set new = set (map r_id ?rs)" unfolding new(2) [symmetric] by simp
  with ids new(1) del show ?thesis by blast
qed

lemma inventory_row_id: "inventory_ok d \<Longrightarrow> (k, x) \<in> set (t_resources d) \<Longrightarrow> r_id (rr_res x) = k"
  unfolding inventory_ok_def rows_ok_def by blast

lemma matching_lookup:
  assumes "inventory_ok d" and "x \<in> set (matching p d)"
  shows "lookup_resource d (r_id (rr_res x)) = Some x \<and> p x"
proof -
  from assms(2) obtain k where k: "(k, x) \<in> set (t_resources d)" and p: "p x" by (auto simp: matching_def)
  have "distinct (map fst (t_resources d))" using assms(1) unfolding inventory_ok_def rows_ok_def by blast
  with k p inventory_row_id [OF assms(1) k] show ?thesis by (simp add: lookup_resource_def)
qed

lemma lookup_matching:
  assumes "inventory_ok d" and "lookup_resource d i = Some x" and "p x"
  shows "x \<in> set (matching p d) \<and> r_id (rr_res x) = i"
proof -
  from assms(2) have "(i, x) \<in> set (t_resources d)" by (auto simp: lookup_resource_def dest: map_of_SomeD)
  with assms(3) inventory_row_id [OF assms(1) this] show ?thesis by (force simp: matching_def)
qed

lemma reconcile_announced:
  assumes ok: "inventory_ok d" and inv: "announced d i = alert d i"
  shows "announced (reconcile_shard dbnow shard r d) i = alert (reconcile_shard dbnow shard r d) i"
proof -
  let ?p = "missed (r_cluster r) shard (r_observed r)"
  obtain new where new: "t_outbox (reconcile_shard dbnow shard r d) = t_outbox d @ new"
      and del: "\<forall>b \<in> set new. ob_action b = ''delete''"
      and ids: "ob_resource ` set new = {r_id (rr_res x) |x. x \<in> set (matching ?p d) \<and> r_state (rr_res x) \<noteq> ''ok''}"
    using reconcile_outbox by blast
  have ann: "announced (reconcile_shard dbnow shard r d) i =
      (if i \<in> ob_resource ` set new then None else announced d i)"
  proof (cases "i \<in> ob_resource ` set new")
    case True
    then have "filter (\<lambda>b. ob_resource b = i) new \<noteq> []" by (auto simp: filter_empty_conv)
    from last_in_set [OF this] have "ob_action (last (filter (\<lambda>b. ob_resource b = i) new)) = ''delete''"
      using del by auto
    with True show ?thesis by (simp add: announced_append [OF new] announces_def)
  qed (simp add: announced_append [OF new])
  show ?thesis
  proof (cases "lookup_resource d i")
    case None
    then have "i \<notin> ob_resource ` set new"
      unfolding ids using matching_lookup [OF ok] by fastforce
    with None inv show ?thesis unfolding ann by (simp add: alert_def reconcile_shard_effect)
  next
    case (Some x)
    show ?thesis
    proof (cases "?p x")
      case True
      have "i \<notin> ob_resource ` set new \<Longrightarrow> r_state (rr_res x) = ''ok''"
        unfolding ids using lookup_matching [of d i x ?p] ok Some True by blast
      with True Some inv show ?thesis unfolding ann
        by (auto simp: alert_def reconcile_shard_effect alert_of_def tombstone_def StateOK_def)
    next
      case False
      then have "i \<notin> ob_resource ` set new"
        unfolding ids using matching_lookup [OF ok] Some by fastforce
      with False Some inv show ?thesis unfolding ann by (simp add: alert_def reconcile_shard_effect)
    qed
  qed
qed

lemma applyResource_announced:
  assumes "applyResource parse now dbnow action shard r d = Inr d'"
    and ok: "inventory_ok d" and inv: "announced d i = alert d i"
    and del: "r_id r = i \<Longrightarrow> action \<noteq> ''delete'' \<Longrightarrow> r_deleted r = None"
  shows "announced d' i = alert d' i"
  using assms(1)
proof (cases rule: applyResourceE)
  case unchanged
  with inv show ?thesis by simp
next
  case reconciled
  show ?thesis unfolding reconciled(3) by (rule reconcile_announced [OF ok inv])
next
  case (written s)
  have "r_id s = i \<Longrightarrow> action \<noteq> ''delete'' \<Longrightarrow> r_deleted s = None" using del by (simp add: written(1))
  with written(4) show ?thesis using inv by (rule write_resource_announced)
qed


definition stale :: "db \<Rightarrow> string \<Rightarrow> resource \<Rightarrow> bool" where
  \<comment> \<open>Older than the shard's watermark or than the row.\<close>
  "stale d shard r \<longleftrightarrow> before_watermark d (r_cluster r, shard) (r_observed r)
     \<or> (case lookup_resource d (r_id r) of None \<Rightarrow> False | Some x \<Rightarrow> r_observed r < r_observed (rr_res x))"

lemma applyResource_plain:
  assumes "action = ''upsert'' \<or> action = ''delete''" and "\<not> warningEvent r"
  shows "applyResource parse now dbnow action shard r d =
    (if stale d shard (r\<lparr>r_observed := round_us (r_observed r)\<rparr>) then Inr d
     else write_resource now dbnow action shard (r\<lparr>r_observed := round_us (r_observed r)\<rparr>) d)"
proof -
  have "\<not> warningEvent (r\<lparr>r_observed := round_us (r_observed r)\<rparr>)"
    using assms(2) by (simp add: warningEvent_def)
  with assms(1) show ?thesis
    by (auto simp: applyResource_def Let_def stale_def resolveEvent_other split: option.splits)
qed

text \<open>Replaying an upsert or delete the inventory has just taken is harmless: it succeeds, queues
  no second notification, leaves owners and every other row alone and (for an upsert) stores
  the same resource. Warning events are excepted, whose state depends on the time of day.\<close>

theorem replay_silent:
  assumes "applyResource parse now dbnow action shard r d = Inr d1" and "inventory_ok d"
    and "action = ''upsert'' \<and> r_deleted r = None \<or> action = ''delete''" and "\<not> warningEvent r"
  shows "\<exists>d2. applyResource parse now' dbnow' action shard r d1 = Inr d2
    \<and> t_outbox d2 = t_outbox d1 \<and> t_owners d2 = t_owners d1
    \<and> (\<forall>i. i \<noteq> r_id r \<longrightarrow> lookup_resource d2 i = lookup_resource d1 i)
    \<and> (action = ''upsert'' \<longrightarrow> map_option rr_res (lookup_resource d2 (r_id r)) = map_option rr_res (lookup_resource d1 (r_id r)))"
proof -
  let ?r = "r\<lparr>r_observed := round_us (r_observed r)\<rparr>"
  have plain: "applyResource parse n m action shard r c =
      (if stale c shard ?r then Inr c else write_resource n m action shard ?r c)" for n m c
    by (rule applyResource_plain) (use assms(3,4) in auto)
  show ?thesis
  proof (cases "stale d shard ?r")
    case True
    with assms(1) have "d1 = d" by (simp add: plain)
    with True show ?thesis by (simp add: plain)
  next
    case False
    with assms(1) have w: "write_resource now dbnow action shard ?r d = Inr d1" by (simp add: plain)
    note e1 = write_resource_effect [OF w]
    from write_resource_again [OF assms(2) w] obtain d2
      where w2: "write_resource now' dbnow' action shard ?r d1 = Inr d2" by blast
    note e2 = write_resource_effect [OF w2]
    have row: "lookup_resource d1 (r_id r) = Some (new_row d dbnow shard (deletion_time now action ?r) ?r)"
      using e1(1) [of "r_id r"] by simp
    have "\<not> stale d1 shard ?r"
      using False by (simp add: stale_def before_watermark_def watermark_cong [OF e1(2)] row stored_def)
    with w2 have "applyResource parse now' dbnow' action shard r d1 = Inr d2" by (simp add: plain)
    moreover have "\<not> shouldNotify action ?r (map_option rr_res (lookup_resource d1 (r_id ?r)))"
      using assms(3) by (auto simp: row shouldNotify_def stored_def deletion_time_def relations_unchanged_def)
    then have "t_outbox d2 = t_outbox d1" using e2(5) by simp
    moreover have "t_owners d2 = t_owners d1" unfolding e2(4) e1(4) by (simp add: filter_map comp_def)
    moreover have "\<forall>i. i \<noteq> r_id r \<longrightarrow> lookup_resource d2 i = lookup_resource d1 i"
      using e2(1) by simp
    moreover have "action = ''upsert'' \<longrightarrow>
        map_option rr_res (lookup_resource d2 (r_id r)) = map_option rr_res (lookup_resource d1 (r_id r))"
      unfolding row using e2(1) [of "r_id r"] row by (simp add: deletion_time_def stored_def)
    ultimately show ?thesis by blast
  qed
qed

section \<open>Concrete runs\<close>

definition sample :: "string \<Rightarrow> state \<Rightarrow> time \<Rightarrow> resource" where
  "sample uid st t = blank_resource\<lparr>r_id := ''id-'' @ uid, r_cluster := ''prod'', r_uid := uid,
     r_group := ''core'', r_version := ''v1'', r_kind := ''Pod'', r_namespace := ''default'',
     r_name := uid, r_labels := [(''app'', ''web'')],
     r_owners := [\<lparr>o_uid = ''rs'', o_api_version = ''apps/v1'', o_kind = ''ReplicaSet'', o_name = ''web'', o_controller = True\<rparr>],
     r_state := st, r_reason := ''because'', r_observed := t\<rparr>"

definition sample_parse :: time_parser where
  "sample_parse s = None"

definition sample_events :: "(time \<times> time \<times> string \<times> string \<times> resource) list" where
  "sample_events = [(seconds 1, seconds 2, ''upsert'', ''pods'', sample ''a'' ''critical'' 5000),
     (seconds 1, seconds 2, ''upsert'', ''pods'', sample ''b'' ''ok'' 9000)]"

definition sample_mark :: resource where
  "sample_mark = sample ''mark'' ''ok'' 7000"

definition sample_db :: db where
  "sample_db = projr (applyEvents sample_parse sample_events empty_db)"

definition sample_reconciled :: db where
  "sample_reconciled = projr (applyResource sample_parse 0 0 ''reconcile'' ''pods'' sample_mark sample_db)"

lemma sample_upserts: "applyEvents sample_parse sample_events empty_db = Inr sample_db"
  unfolding sample_db_def by (rule succeeds) code_simp

lemma sample_reconcile:
  "applyResource sample_parse 0 0 ''reconcile'' ''pods'' sample_mark sample_db = Inr sample_reconciled"
  unfolding sample_reconciled_def by (rule succeeds) code_simp

theorem late_replay_ignored_witness:
  "applyResource sample_parse 1 1 ''upsert'' ''pods'' (sample ''a'' ''critical'' 5000) sample_reconciled = Inr sample_reconciled"
proof -
  have "applyEvents sample_parse [] sample_reconciled = Inr sample_reconciled" by simp
  from late_replay_ignored [OF sample_reconcile this, of "sample ''a'' ''critical'' 5000" 1 1 "''upsert''"]
  show ?thesis by (simp add: sample_def sample_mark_def round_us_def)
qed

theorem observation_monotone_witness:
  "\<exists>t. observed_at sample_reconciled ''id-a'' = Some t \<and> 5000 \<le> t"
proof -
  have "applyEvents sample_parse [(0, 0, ''reconcile'', ''pods'', sample_mark)] sample_db = Inr sample_reconciled"
    by (simp add: sample_reconcile)
  then show ?thesis by (rule observation_monotone) code_simp
qed

theorem reconcile_live_set_witness:
  "live sample_reconciled ''prod'' ''pods'' =
     {i \<in> live sample_db ''prod'' ''pods''. \<exists>t. observed_at sample_db i = Some t \<and> 7000 \<le> t}"
proof -
  have "\<not> before_watermark sample_db (r_cluster sample_mark, ''pods'') (round_us (r_observed sample_mark))"
    by code_simp
  moreover have "r_cluster sample_mark = ''prod''" "round_us (r_observed sample_mark) = 7000" by code_simp+
  ultimately show ?thesis using reconcile_live_set [OF _ sample_reconcile] by simp
qed


theorem replay_silent_witness:
  "\<exists>d. applyResource sample_parse 3 3 ''upsert'' ''pods'' (sample ''a'' ''critical'' 5000)
       (projr (applyResource sample_parse 1 2 ''upsert'' ''pods'' (sample ''a'' ''critical'' 5000) empty_db)) = Inr d
     \<and> length (t_outbox d) = 1"
proof -
  let ?d = "projr (applyResource sample_parse 1 2 ''upsert'' ''pods'' (sample ''a'' ''critical'' 5000) empty_db)"
  have "applyResource sample_parse 1 2 ''upsert'' ''pods'' (sample ''a'' ''critical'' 5000) empty_db = Inr ?d"
    by (rule succeeds) code_simp
  moreover have "\<not> warningEvent (sample ''a'' ''critical'' 5000)" "length (t_outbox ?d) = 1"
    "r_deleted (sample ''a'' ''critical'' 5000) = None" by code_simp+
  ultimately show ?thesis
    using replay_silent [of sample_parse 1 2 "''upsert''" "''pods''" "sample ''a'' ''critical'' 5000" empty_db ?d 3 3]
    by auto
qed

end
