(* ===== verification/Inbox.thy ===== *)
theory Inbox
  imports Inventory
begin

text \<open>
  The durable inbox of \<open>internal/v2/store/store.go\<close>: \<open>Enqueue\<close> stores a validated batch,
  \<open>ApplyShard\<close> lets a worker take the oldest shard that has work, apply a bounded batch of its
  events in order and advance the shard's head, all in one transaction: on an error the
  database stays as it was. \<open>clk\<close> gives the database clock at the statements of a transaction
  in their order and \<open>wall\<close> the worker's clock while it handles each event. PostgreSQL's
  parsing of a uuid and its acceptance of a JSON document are the fields of \<open>postgres\<close>.
\<close>

record postgres =
  pg_uuid :: "string \<Rightarrow> string option"
  pg_jsonb :: "resource \<Rightarrow> bool"

section \<open>Pending events of a shard\<close>

definition is_pending :: "shard_key \<Rightarrow> ingest_row \<Rightarrow> bool" where
  "is_pending k x \<longleftrightarrow> (ie_cluster x, ie_shard x) = k \<and> ie_applied x = None"

definition inbox_order :: "ingest_row \<Rightarrow> time \<times> string" where
  "inbox_order x = (ie_received x, ie_id x)"

definition pending :: "db \<Rightarrow> shard_key \<Rightarrow> ingest_row list" where
  "pending d k = sort_key inbox_order (filter (is_pending k) (t_ingest d))"

definition first_pending :: "db \<Rightarrow> shard_key \<Rightarrow> string option" where
  "first_pending d k = (case pending d k of [] \<Rightarrow> None | x # _ \<Rightarrow> Some (ie_id x))"

section \<open>Enqueue\<close>

definition new_event :: "string \<Rightarrow> time \<times> time \<Rightarrow> string \<Rightarrow> string \<Rightarrow> ingest_event \<Rightarrow> ingest_row" where
  "new_event i t cluster shard e =
     \<lparr>ie_id = i, ie_cluster = cluster, ie_shard = shard, ie_action = e_action e,
      ie_payload = Inr (e_resource e), ie_received = fst t, ie_available = snd t,
      ie_attempts = 0, ie_applied = None, ie_error = None\<rparr>"

text \<open>The insert loop; the result carries the ids that were new.\<close>

fun insert_events :: "postgres \<Rightarrow> (nat \<Rightarrow> time \<times> time) \<Rightarrow> string \<Rightarrow> string \<Rightarrow> nat \<Rightarrow> ingest_event list \<Rightarrow> db
    \<Rightarrow> store_error + db \<times> string list" where
  "insert_events pg clk cluster shard i [] d = Inr (d, [])"
| "insert_events pg clk cluster shard i (e # es) d =
     (case pg_uuid pg (e_id e) of None \<Rightarrow> Inl (BadCast (e_id e)) | Some u \<Rightarrow>
      if \<not> pg_jsonb pg (e_resource e) then Inl (PgError ''payload'')
      else if u \<in> ie_id ` set (t_ingest d) then insert_events pg clk cluster shard (Suc i) es d
      else case insert_events pg clk cluster shard (Suc i) es
                  (d\<lparr>t_ingest := t_ingest d @ [new_event u (clk i) cluster shard e]\<rparr>) of
        Inl err \<Rightarrow> Inl err | Inr (d', ids) \<Rightarrow> Inr (d', u # ids))"

definition add_pending :: "shard_key \<Rightarrow> string list \<Rightarrow> db \<Rightarrow> db" where
  "add_pending k ids d =
     d\<lparr>t_heads := AList.update k
        (case lookup_head d k of
           None \<Rightarrow> \<lparr>hd_event = Some (hd ids), hd_pending = int (length ids), hd_last_applied = None, hd_reconciled = None\<rparr>
         | Some h \<Rightarrow> h\<lparr>hd_event := (case hd_event h of None \<Rightarrow> Some (hd ids) | Some e \<Rightarrow> Some e),
                      hd_pending := hd_pending h + int (length ids)\<rparr>) (t_heads d)\<rparr>"

definition update_head :: "shard_key \<Rightarrow> (shard_head \<Rightarrow> shard_head) \<Rightarrow> db \<Rightarrow> db" where
  "update_head k f d = d\<lparr>t_heads := map (\<lambda>(l, h). (l, if l = k then f h else h)) (t_heads d)\<rparr>"

definition refresh_head :: "shard_key \<Rightarrow> db \<Rightarrow> db" where
  "refresh_head k d = update_head k (\<lambda>h. h\<lparr>hd_event := first_pending d k\<rparr>) d"

definition Enqueue ::
  "(string \<Rightarrow> bool) \<Rightarrow> postgres \<Rightarrow> (nat \<Rightarrow> time \<times> time) \<Rightarrow> ingest_batch \<Rightarrow> db \<Rightarrow> store_error + db" where
  "Enqueue uuid_ok pg clk b d =
     (case Validate uuid_ok b of Some err \<Rightarrow> Inl (InvalidBatch err) | None \<Rightarrow>
      case insert_events pg clk (b_cluster b) (b_shard b) 0 (b_events b) d of
        Inl err \<Rightarrow> Inl err
      | Inr (d', ids) \<Rightarrow>
          if ids \<noteq> [] then Inr (refresh_head (b_cluster b, b_shard b) (add_pending (b_cluster b, b_shard b) ids d'))
          else Inr d')"

section \<open>ApplyShard\<close>

definition claimable :: "shard_key set \<Rightarrow> time \<Rightarrow> db \<Rightarrow> shard_key \<times> shard_head \<Rightarrow> ingest_row list" where
  \<comment> \<open>The rows a head joins with; \<open>locked\<close>: the heads other workers hold, skipped.\<close>
  "claimable locked dbnow d kh =
     (if fst kh \<in> locked then []
      else filter (\<lambda>x. Some (ie_id x) = hd_event (snd kh) \<and> ie_applied x = None \<and> ie_available x \<le> dbnow) (t_ingest d))"

definition claim_shard :: "shard_key set \<Rightarrow> time \<Rightarrow> db \<Rightarrow> shard_key option" where
  "claim_shard locked dbnow d =
     (case sort_key inbox_order (concat (map (claimable locked dbnow d) (t_heads d))) of
        [] \<Rightarrow> None | x # _ \<Rightarrow> Some (ie_cluster x, ie_shard x))"

definition shard_batch :: "shard_key \<Rightarrow> time \<Rightarrow> nat \<Rightarrow> db \<Rightarrow> ingest_row list" where
  "shard_batch k dbnow limit d = take limit (filter (\<lambda>x. ie_available x \<le> dbnow) (pending d k))"

definition backoff :: "time \<Rightarrow> string \<Rightarrow> ingest_row \<Rightarrow> ingest_row" where
  "backoff dbnow err x =
     x\<lparr>ie_error := Some err, ie_attempts := ie_attempts x + 1,
       ie_available := dbnow + min (minutes 1) (seconds (ie_attempts x + 1))\<rparr>"

definition update_event :: "(ingest_row \<Rightarrow> bool) \<Rightarrow> (ingest_row \<Rightarrow> ingest_row) \<Rightarrow> db \<Rightarrow> db" where
  "update_event p f d = d\<lparr>t_ingest := map (\<lambda>x. if p x then f x else x) (t_ingest d)\<rparr>"

text \<open>The loop over the batch: the ids completed and the decoding error that stopped it, if any.\<close>

fun apply_batch :: "time_parser \<Rightarrow> (nat \<Rightarrow> time) \<Rightarrow> (nat \<Rightarrow> time) \<Rightarrow> nat \<Rightarrow> ingest_row list \<Rightarrow> db
    \<Rightarrow> store_error + db \<times> string list \<times> string option" where
  "apply_batch parse wall clk i [] d = Inr (d, [], None)"
| "apply_batch parse wall clk i (x # xs) d =
     (case ie_payload x of
        Inl err \<Rightarrow> Inr (update_event (\<lambda>y. ie_id y = ie_id x) (backoff (clk i) err) d, [], Some err)
      | Inr r \<Rightarrow>
          (case applyResource parse (wall i) (clk i) (ie_action x) (ie_shard x) (Normalize (wall i) r) d of
             Inl err \<Rightarrow> Inl err
           | Inr d1 \<Rightarrow>
               (case apply_batch parse wall clk (Suc i) xs d1 of
                  Inl err \<Rightarrow> Inl err
                | Inr (d2, ids, failure) \<Rightarrow> Inr (d2, ie_id x # ids, failure))))"

definition mark_applied :: "time \<Rightarrow> string list \<Rightarrow> db \<Rightarrow> db" where
  "mark_applied dbnow ids d =
     update_event (\<lambda>x. ie_id x \<in> set ids) (\<lambda>x. x\<lparr>ie_applied := Some dbnow, ie_error := None\<rparr>) d"

definition advance_head :: "time \<Rightarrow> shard_key \<Rightarrow> nat \<Rightarrow> db \<Rightarrow> store_error + db" where
  "advance_head dbnow k n d =
     (let f = (\<lambda>h. h\<lparr>hd_event := first_pending d k, hd_pending := hd_pending h - int n, hd_last_applied := Some dbnow\<rparr>)
      in if \<exists>lh \<in> set (t_heads d). fst lh = k \<and> hd_pending (snd lh) < int n
         then Inl (PgError ''ingest_shard_head_pending_events_check'')
         else Inr (update_head k f d))"

text \<open>The number of completed events, the first failure and the committed database.\<close>

definition ApplyShard :: "time_parser \<Rightarrow> (nat \<Rightarrow> time) \<Rightarrow> (nat \<Rightarrow> time) \<Rightarrow> shard_key set \<Rightarrow> int \<Rightarrow> db
    \<Rightarrow> store_error + nat \<times> string option \<times> db" where
  "ApplyShard parse wall clk locked limit d =
     (if limit < 1 \<or> limit > 64 then Inl LimitRange
      else case claim_shard locked (clk 0) d of
        None \<Rightarrow> Inr (0, None, d)
      | Some k \<Rightarrow>
          (case apply_batch parse wall clk 2 (shard_batch k (clk 1) (nat limit) d) d of
             Inl err \<Rightarrow> Inl err
           | Inr (d1, ids, failure) \<Rightarrow>
               if ids = [] then Inr (0, failure, d1)
               else case advance_head (clk 66) k (length ids) (mark_applied (clk 66) ids d1) of
                 Inl err \<Rightarrow> Inl err
               | Inr d2 \<Rightarrow> Inr (length ids, failure, d2)))"

section \<open>The queue invariant\<close>

text \<open>
  What a shard head promises its claimer, read off the row or, without one, off the defaults.
\<close>

definition head_view :: "db \<Rightarrow> shard_key \<Rightarrow> string option \<times> int" where
  "head_view d k = (case lookup_head d k of None \<Rightarrow> (None, 0) | Some h \<Rightarrow> (hd_event h, hd_pending h))"

definition queue_ok :: "db \<Rightarrow> bool" where
  "queue_ok d \<longleftrightarrow> distinct (map ie_id (t_ingest d)) \<and> distinct (map fst (t_heads d))
     \<and> (\<forall>k. head_view d k = (first_pending d k, int (length (pending d k))))"

lemma queue_ok_empty [simp]: "queue_ok empty_db"
  by (simp add: queue_ok_def empty_db_def head_view_def lookup_head_def first_pending_def pending_def)

lemma pending_cong: "t_ingest d' = t_ingest d \<Longrightarrow> pending d' = pending d"
  by (simp add: pending_def fun_eq_iff)

lemma first_pending_cong: "t_ingest d' = t_ingest d \<Longrightarrow> first_pending d' = first_pending d"
  by (simp add: first_pending_def fun_eq_iff pending_def)

lemma queue_ok_cong:
  assumes "t_ingest d' = t_ingest d" and "distinct (map fst (t_heads d')) = distinct (map fst (t_heads d))"
    and "head_view d' = head_view d"
  shows "queue_ok d' \<longleftrightarrow> queue_ok d"
  unfolding queue_ok_def assms pending_cong [OF assms(1)] first_pending_cong [OF assms(1)] ..

lemma set_pending: "set (pending d k) = {x \<in> set (t_ingest d). is_pending k x}"
  by (simp add: pending_def)

lemma distinct_pending: "distinct (map ie_id (t_ingest d)) \<Longrightarrow> distinct (map ie_id (pending d k))"
  unfolding distinct_map pending_def by (auto intro: inj_on_subset)

text \<open>Applying resources does not touch the queue.\<close>

lemma raise_watermark_queue:
  "head_view (raise_watermark k c d) = head_view d"
  "distinct (map fst (t_heads (raise_watermark k c d))) = distinct (map fst (t_heads d))"
proof -
  show "head_view (raise_watermark k c d) = head_view d"
    by (rule ext) (simp add: head_view_def split: option.splits)
  have "distinct (map fst (AList.update k v hs)) = distinct (map fst hs)" for v and hs :: "(shard_key \<times> shard_head) list"
    by (induction hs) (auto simp: dom_update)
  then show "distinct (map fst (t_heads (raise_watermark k c d))) = distinct (map fst (t_heads d))"
    by (simp add: raise_watermark_def)
qed

lemma applyResource_queue:
  assumes "applyResource parse now dbnow action shard r d = Inr d'"
  shows "t_ingest d' = t_ingest d" and "head_view d' = head_view d"
    and "distinct (map fst (t_heads d')) = distinct (map fst (t_heads d))"
proof -
  have cong: "head_view c = head_view e" if "t_heads c = t_heads e" for c e
    using that by (simp add: head_view_def lookup_head_def fun_eq_iff)
  from assms have "t_ingest d' = t_ingest d \<and> head_view d' = head_view d
      \<and> distinct (map fst (t_heads d')) = distinct (map fst (t_heads d))"
  proof (cases rule: applyResourceE)
    case unchanged
    then show ?thesis by simp
  next
    case reconciled
    let ?m = "r\<lparr>r_observed := round_us (r_observed r)\<rparr>"
    note e = reconcile_shard_effect(2,3) [of dbnow shard ?m d]
    show ?thesis unfolding reconciled(3) e cong [OF e(1)] raise_watermark_queue by simp
  next
    case (written s)
    note e = write_resource_effect(2,3) [OF written(4)]
    show ?thesis unfolding e cong [OF e(1)] by simp
  qed
  then show "t_ingest d' = t_ingest d" "head_view d' = head_view d"
    "distinct (map fst (t_heads d')) = distinct (map fst (t_heads d))" by blast+
qed

text \<open>\<open>Enqueue\<close>.\<close>

lemma insert_events_spec:
  assumes "insert_events pg clk c s i es d = Inr (d', ids)"
  shows "\<exists>new. d' = d\<lparr>t_ingest := t_ingest d @ new\<rparr> \<and> map ie_id new = ids \<and> distinct ids
    \<and> set ids \<inter> ie_id ` set (t_ingest d) = {} \<and> (\<forall>x \<in> set new. is_pending (c, s) x)
    \<and> (\<forall>e \<in> set es. pg_jsonb pg (e_resource e) \<and> (\<exists>u. pg_uuid pg (e_id e) = Some u \<and> u \<in> ie_id ` set (t_ingest d')))"
  using assms
proof (induction pg clk c s i es d arbitrary: d' ids rule: insert_events.induct)
  case (1 pg clk cluster shard i d)
  then show ?case by simp
next
  case (2 pg clk c s i e es d)
  from "2.prems" obtain u where u: "pg_uuid pg (e_id e) = Some u" "pg_jsonb pg (e_resource e)"
    by (auto split: option.splits if_splits)
  let ?row = "new_event u (clk i) c s e"
  let ?d = "d\<lparr>t_ingest := t_ingest d @ [?row]\<rparr>"
  show ?case
  proof (cases "u \<in> ie_id ` set (t_ingest d)")
    case True
    with u "2.prems" have "insert_events pg clk c s (Suc i) es d = Inr (d', ids)" by simp
    from "2.IH"(1) [OF u(1) _ True this] u True show ?thesis by fastforce
  next
    case False
    with u "2.prems" obtain rest where rest: "insert_events pg clk c s (Suc i) es ?d = Inr (d', rest)"
      and ids: "ids = u # rest" by (auto split: sum.splits)
    from "2.IH"(2) [OF u(1) _ False rest] u(2) obtain new where new:
      "d' = ?d\<lparr>t_ingest := t_ingest ?d @ new\<rparr>" "map ie_id new = rest" "distinct rest"
      "set rest \<inter> ie_id ` set (t_ingest ?d) = {}" "\<forall>x \<in> set new. is_pending (c, s) x"
      "\<forall>e \<in> set es. pg_jsonb pg (e_resource e) \<and> (\<exists>u. pg_uuid pg (e_id e) = Some u \<and> u \<in> ie_id ` set (t_ingest d'))"
      by auto
    have row: "ie_id ?row = u" "is_pending (c, s) ?row" by (simp_all add: new_event_def is_pending_def)
    show ?thesis
      by (rule exI [of _ "?row # new"]) (use new ids row u False in auto)
  qed
qed

lemma insert_events_known:
  "\<forall>e \<in> set es. pg_jsonb pg (e_resource e) \<and> (\<exists>u. pg_uuid pg (e_id e) = Some u \<and> u \<in> ie_id ` set (t_ingest d))
   \<Longrightarrow> insert_events pg clk c s i es d = Inr (d, [])"
  by (induction es arbitrary: i) auto

lemma pending_append:
  assumes "\<forall>x \<in> set new. is_pending k x"
  shows "length (pending (d\<lparr>t_ingest := t_ingest d @ new\<rparr>) k) = length (pending d k) + length new"
    and "l \<noteq> k \<Longrightarrow> pending (d\<lparr>t_ingest := t_ingest d @ new\<rparr>) l = pending d l"
proof -
  show "length (pending (d\<lparr>t_ingest := t_ingest d @ new\<rparr>) k) = length (pending d k) + length new"
    using assms by (simp add: pending_def)
  assume "l \<noteq> k"
  with assms have "filter (is_pending l) new = []" by (auto simp: filter_empty_conv is_pending_def)
  then show "pending (d\<lparr>t_ingest := t_ingest d @ new\<rparr>) l = pending d l" by (simp add: pending_def)
qed

lemma lookup_update_head [simp]:
  "lookup_head (update_head k f d) l = (if l = k then map_option f (lookup_head d l) else lookup_head d l)"
proof -
  have "map_of (map (\<lambda>(l, h). (l, if l = k then f h else h)) hs) l =
      (if l = k then map_option f (map_of hs l) else map_of hs l)" for hs
    by (induction hs) auto
  then show ?thesis by (simp add: lookup_head_def update_head_def)
qed

lemma update_head_frame [simp]:
  "t_ingest (update_head k f d) = t_ingest d" "t_resources (update_head k f d) = t_resources d"
  "t_owners (update_head k f d) = t_owners d" "t_outbox (update_head k f d) = t_outbox d"
  "t_changes (update_head k f d) = t_changes d" "next_outbox (update_head k f d) = next_outbox d"
  "next_change (update_head k f d) = next_change d"
  "map fst (t_heads (update_head k f d)) = map fst (t_heads d)"
  by (simp_all add: update_head_def case_prod_beta' comp_def)

lemma lookup_add_pending:
  "lookup_head (add_pending k ids d) l =
     (if l = k then Some (case lookup_head d k of
           None \<Rightarrow> \<lparr>hd_event = Some (hd ids), hd_pending = int (length ids), hd_last_applied = None, hd_reconciled = None\<rparr>
         | Some h \<Rightarrow> h\<lparr>hd_event := (case hd_event h of None \<Rightarrow> Some (hd ids) | Some e \<Rightarrow> Some e),
                      hd_pending := hd_pending h + int (length ids)\<rparr>)
      else lookup_head d l)"
  by (simp add: add_pending_def lookup_head_def)

lemma refresh_add_view:
  "head_view (refresh_head k (add_pending k ids d)) l =
     (if l = k then (first_pending d k, snd (head_view d k) + int (length ids)) else head_view d l)"
proof -
  have "first_pending (add_pending k ids d) k = first_pending d k"
    by (rule fun_cong [OF first_pending_cong]) (simp add: add_pending_def)
  then show ?thesis
    by (auto simp: head_view_def refresh_head_def lookup_add_pending split: option.splits)
qed

lemma Enqueue_queue_ok:
  assumes "queue_ok d" and "Enqueue uuid_ok pg clk b d = Inr d'"
  shows "queue_ok d'"
proof -
  let ?k = "(b_cluster b, b_shard b)"
  from assms(2) obtain d1 ids where ins: "insert_events pg clk (b_cluster b) (b_shard b) 0 (b_events b) d = Inr (d1, ids)"
    and d': "d' = (if ids \<noteq> [] then refresh_head ?k (add_pending ?k ids d1) else d1)"
    by (auto simp: Enqueue_def split: option.splits sum.splits if_splits)
  from insert_events_spec [OF ins] obtain new where d1: "d1 = d\<lparr>t_ingest := t_ingest d @ new\<rparr>"
    and new: "map ie_id new = ids" "distinct ids" "set ids \<inter> ie_id ` set (t_ingest d) = {}" "\<forall>x \<in> set new. is_pending ?k x"
    by blast
  show ?thesis
  proof (cases "ids = []")
    case True
    with new(1) have "d' = d" by (simp add: d' d1)
    with assms(1) show ?thesis by simp
  next
    case False
    let ?e = "refresh_head ?k (add_pending ?k ids d1)"
    have ing1: "t_ingest ?e = t_ingest d1" by (simp add: refresh_head_def add_pending_def)
    then have ing: "t_ingest ?e = t_ingest d @ new" by (simp add: d1)
    have pend: "pending ?e = pending d1" "first_pending ?e = first_pending d1"
      using pending_cong [OF ing1] first_pending_cong [OF ing1] by simp_all
    have view: "head_view d1 = head_view d" by (simp add: d1 head_view_def lookup_head_def fun_eq_iff)
    from assms(1) have q: "\<And>l. head_view d l = (first_pending d l, int (length (pending d l)))"
      "distinct (map ie_id (t_ingest d))" "distinct (map fst (t_heads d))" unfolding queue_ok_def by blast+
    have "head_view ?e l = (first_pending d1 l, int (length (pending d1 l)))" for l
    proof (cases "l = ?k")
      case True
      have "length (pending d1 ?k) = length (pending d ?k) + length ids"
        unfolding d1 new(1) [symmetric] using pending_append(1) [OF new(4), of d] by simp
      then show ?thesis by (simp add: refresh_add_view True view q(1))
    next
      case False
      have "pending d1 l = pending d l" unfolding d1 by (rule pending_append(2) [OF new(4) False])
      with False show ?thesis by (simp add: refresh_add_view view q(1) first_pending_def)
    qed
    moreover have "distinct (map ie_id (t_ingest ?e))" using new q(2) by (auto simp: ing)
    moreover have "distinct (map fst (t_heads ?e))" using q(3) by (simp add: refresh_head_def add_pending_def d1)
    ultimately show ?thesis using False by (simp add: d' queue_ok_def pend)
  qed
qed

text \<open>The batch loop: a prefix of the batch is applied, all of it unless a payload does not decode.\<close>

definition batch_events :: "(nat \<Rightarrow> time) \<Rightarrow> (nat \<Rightarrow> time) \<Rightarrow> nat \<Rightarrow> ingest_row list
    \<Rightarrow> (time \<times> time \<times> string \<times> string \<times> resource) list" where
  "batch_events wall clk i xs =
     map (\<lambda>(j, x). (wall j, clk j, ie_action x, ie_shard x, Normalize (wall j) (projr (ie_payload x)))) (enumerate i xs)"

definition decodes :: "ingest_row \<Rightarrow> bool" where
  "decodes x \<longleftrightarrow> (case ie_payload x of Inl _ \<Rightarrow> False | Inr _ \<Rightarrow> True)"

lemma apply_batch_spec:
  assumes "apply_batch parse wall clk i xs d = Inr (d', ids, failure)"
  shows "\<exists>d1. applyEvents parse (batch_events wall clk i (takeWhile decodes xs)) d = Inr d1
    \<and> ids = map ie_id (takeWhile decodes xs)
    \<and> (case dropWhile decodes xs of [] \<Rightarrow> failure = None \<and> d' = d1
       | x # _ \<Rightarrow> \<exists>err. ie_payload x = Inl err \<and> failure = Some err
           \<and> d' = update_event (\<lambda>y. ie_id y = ie_id x) (backoff (clk (i + length ids)) err) d1)"
  using assms
proof (induction parse wall clk i xs d arbitrary: d' ids failure rule: apply_batch.induct)
  case (1 parse wall clk i d)
  then show ?case by (simp add: batch_events_def)
next
  case (2 parse wall clk i x xs d)
  show ?case
  proof (cases "ie_payload x")
    case (Inl err)
    with "2.prems" show ?thesis by (auto simp: decodes_def batch_events_def)
  next
    case (Inr r)
    with "2.prems" obtain d1 d2 ids' where a: "applyResource parse (wall i) (clk i) (ie_action x) (ie_shard x) (Normalize (wall i) r) d = Inr d1"
      and b: "apply_batch parse wall clk (Suc i) xs d1 = Inr (d2, ids', failure)"
      and c: "d' = d2" "ids = ie_id x # ids'"
      by (auto split: sum.splits)
    from "2.IH" [OF Inr a b] obtain d3 where
      "applyEvents parse (batch_events wall clk (Suc i) (takeWhile decodes xs)) d1 = Inr d3"
      "ids' = map ie_id (takeWhile decodes xs)"
      "(case dropWhile decodes xs of [] \<Rightarrow> failure = None \<and> d2 = d3
       | x # _ \<Rightarrow> \<exists>err. ie_payload x = Inl err \<and> failure = Some err
           \<and> d2 = update_event (\<lambda>y. ie_id y = ie_id x) (backoff (clk (Suc i + length ids')) err) d3)"
      by blast
    moreover have "decodes x" using Inr by (simp add: decodes_def)
    ultimately show ?thesis using Inr a c
      by (cases "dropWhile decodes xs") (auto simp: batch_events_def simp del: dropWhile_eq_Nil_conv)
  qed
qed

lemma apply_batch_outcome:
  assumes "apply_batch parse wall clk i xs d = Inr (d', ids, failure)"
  shows "ids = map ie_id (takeWhile decodes xs)" and "failure = None \<longleftrightarrow> takeWhile decodes xs = xs"
proof -
  have tw: "takeWhile decodes xs = xs \<longleftrightarrow> dropWhile decodes xs = []"
    by (simp add: takeWhile_eq_all_conv)
  show "ids = map ie_id (takeWhile decodes xs)" using apply_batch_spec [OF assms] by blast
  show "failure = None \<longleftrightarrow> takeWhile decodes xs = xs"
    using apply_batch_spec [OF assms] unfolding tw
    by (cases "dropWhile decodes xs") (auto simp del: dropWhile_eq_Nil_conv)
qed

lemma applyEvents_queue:
  assumes "applyEvents parse es d = Inr d'"
  shows "t_ingest d' = t_ingest d \<and> head_view d' = head_view d
    \<and> distinct (map fst (t_heads d')) = distinct (map fst (t_heads d))"
  using assms
proof (induction parse es d rule: applyEvents.induct)
  case (1 parse d)
  then show ?case by simp
next
  case (2 parse now dbnow action shard r es d)
  from "2.prems" obtain d1 where d1: "applyResource parse now dbnow action shard r d = Inr d1"
    "applyEvents parse es d1 = Inr d'" by (auto split: sum.splits)
  from "2.IH" [OF d1] applyResource_queue [OF d1(1)] show ?case by simp
qed

lemma applyEvents_ok: "applyEvents parse es d = Inr d' \<Longrightarrow> inventory_ok d \<Longrightarrow> inventory_ok d'"
proof (induction parse es d rule: applyEvents.induct)
  case (1 parse d)
  then show ?case by simp
next
  case (2 parse now dbnow action shard r es d)
  from "2.prems"(1) obtain d1 where d1: "applyResource parse now dbnow action shard r d = Inr d1"
    "applyEvents parse es d1 = Inr d'" by (auto split: sum.splits)
  from "2.IH" [OF d1 applyResource_ok [OF "2.prems"(2) d1(1)]] show ?case .
qed

text \<open>Updates of event rows.\<close>

lemma update_event_frame [simp]:
  "t_heads (update_event p f d) = t_heads d" "t_resources (update_event p f d) = t_resources d"
  "t_owners (update_event p f d) = t_owners d" "t_outbox (update_event p f d) = t_outbox d"
  "t_changes (update_event p f d) = t_changes d" "next_outbox (update_event p f d) = next_outbox d"
  "next_change (update_event p f d) = next_change d" "head_view (update_event p f d) = head_view d"
  by (simp_all add: update_event_def head_view_def lookup_head_def fun_eq_iff)

lemma sort_key_map_same:
  assumes "\<And>x. key (g x) = key x"
  shows "sort_key key (map g xs) = map g (sort_key key xs)"
proof -
  have ins: "insort_key key (g x) (map g ys) = map g (insort_key key x ys)" for x ys
    by (induction ys) (simp_all add: assms)
  show ?thesis by (induction xs) (simp_all add: ins)
qed

lemma pending_update_event:
  assumes "\<And>x. inbox_order (f x) = inbox_order x" and "\<And>x. is_pending k (f x) = is_pending k x"
  shows "pending (update_event p f d) k = map (\<lambda>x. if p x then f x else x) (pending d k)"
proof -
  let ?g = "\<lambda>x. if p x then f x else x"
  have "filter (is_pending k) (map ?g xs) = map ?g (filter (is_pending k) xs)" for xs
    by (induction xs) (auto simp: assms(2))
  moreover have "sort_key inbox_order (map ?g xs) = map ?g (sort_key inbox_order xs)" for xs
    by (rule sort_key_map_same) (simp add: assms(1))
  ultimately show ?thesis by (simp add: pending_def update_event_def)
qed

lemma update_event_ids: "(\<And>x. ie_id (f x) = ie_id x) \<Longrightarrow> map ie_id (t_ingest (update_event p f d)) = map ie_id (t_ingest d)"
  by (simp add: update_event_def)

lemma backoff_simps [simp]: "ie_id (backoff t err x) = ie_id x" "inbox_order (backoff t err x) = inbox_order x"
  "is_pending k (backoff t err x) = is_pending k x"
  by (simp_all add: backoff_def inbox_order_def is_pending_def)

lemma queue_ok_backoff: "queue_ok d \<Longrightarrow> queue_ok (update_event p (backoff t err) d)"
proof -
  assume q: "queue_ok d"
  have p: "pending (update_event p (backoff t err) d) k = map (\<lambda>x. if p x then backoff t err x else x) (pending d k)" for k
    by (rule pending_update_event) simp_all
  have "first_pending (update_event p (backoff t err) d) = first_pending d"
    by (rule ext) (simp add: first_pending_def p split: list.splits)
  moreover have "length (pending (update_event p (backoff t err) d) k) = length (pending d k)" for k
    by (simp add: p)
  ultimately show ?thesis using q unfolding queue_ok_def by (simp add: update_event_ids)
qed

lemma pending_mark:
  "pending (mark_applied t ids d) k = filter (\<lambda>x. ie_id x \<notin> set ids) (pending d k)"
proof -
  let ?g = "\<lambda>x. if ie_id x \<in> set ids then x\<lparr>ie_applied := Some t, ie_error := None\<rparr> else x"
  have "filter (is_pending k) (map ?g xs) = filter (\<lambda>x. ie_id x \<notin> set ids) (filter (is_pending k) xs)" for xs
    by (induction xs) (auto simp: is_pending_def)
  then show ?thesis by (simp add: pending_def mark_applied_def update_event_def filter_sort)
qed

lemma apply_batch_queue:
  assumes "queue_ok d" and "apply_batch parse wall clk i xs d = Inr (d', ids, failure)"
  shows "queue_ok d'" and "\<And>k. map ie_id (pending d' k) = map ie_id (pending d k)"
proof -
  from apply_batch_spec [OF assms(2)] obtain d1
    where d1: "applyEvents parse (batch_events wall clk i (takeWhile decodes xs)) d = Inr d1"
      and c: "case dropWhile decodes xs of [] \<Rightarrow> failure = None \<and> d' = d1
       | x # _ \<Rightarrow> \<exists>err. ie_payload x = Inl err \<and> failure = Some err
           \<and> d' = update_event (\<lambda>y. ie_id y = ie_id x) (backoff (clk (i + length ids)) err) d1"
    by blast
  have d': "d' = d1 \<or> (\<exists>p t err. d' = update_event p (backoff t err) d1)"
    using c by (cases "dropWhile decodes xs") (auto simp del: dropWhile_eq_Nil_conv)
  note frame = applyEvents_queue [OF d1]
  have q: "queue_ok d1" using assms(1) frame queue_ok_cong [of d1 d] by blast
  have p: "pending d1 = pending d" using frame by (intro pending_cong) blast
  from d' show "queue_ok d'" using q queue_ok_backoff by blast
  show "map ie_id (pending d' k) = map ie_id (pending d k)" for k
    using d'
  proof
    assume "d' = d1"
    then show ?thesis by (simp add: p)
  next
    assume "\<exists>p t err. d' = update_event p (backoff t err) d1"
    then obtain P t err where "d' = update_event P (backoff t err) d1" by blast
    then show ?thesis by (simp add: pending_update_event p comp_def if_distrib cong: if_cong)
  qed
qed

lemma length_filter_removed:
  assumes "distinct (map f xs)" and "set ids \<subseteq> f ` set xs" and "distinct ids"
  shows "length (filter (\<lambda>x. f x \<notin> set ids) xs) + length ids = length xs"
proof -
  have "set (filter (\<lambda>i. i \<in> set ids) (map f xs)) = set ids" using assms(2) by auto
  then have "length (filter (\<lambda>i. i \<in> set ids) (map f xs)) = length ids"
    using distinct_card [OF distinct_filter [OF assms(1)], of "\<lambda>i. i \<in> set ids"] distinct_card [OF assms(3)]
    by simp
  moreover have "length (filter (\<lambda>i. i \<in> set ids) (map f xs)) = length (filter (\<lambda>x. f x \<in> set ids) xs)"
    by (simp add: filter_map comp_def)
  ultimately show ?thesis using sum_length_filter_compl [of "\<lambda>x. f x \<in> set ids" xs] by simp
qed

lemma mark_applied_frame [simp]:
  "t_heads (mark_applied t ids d) = t_heads d" "t_resources (mark_applied t ids d) = t_resources d"
  "t_owners (mark_applied t ids d) = t_owners d" "t_outbox (mark_applied t ids d) = t_outbox d"
  "t_changes (mark_applied t ids d) = t_changes d" "next_outbox (mark_applied t ids d) = next_outbox d"
  "next_change (mark_applied t ids d) = next_change d" "head_view (mark_applied t ids d) = head_view d"
  by (simp_all add: mark_applied_def)

lemma advance_queue_ok:
  assumes q: "queue_ok d" and ids: "ids \<noteq> []" "distinct ids" "set ids \<subseteq> ie_id ` set (pending d k)"
    and adv: "advance_head t k (length ids) (mark_applied t ids d) = Inr d'"
  shows "queue_ok d'"
proof -
  let ?m = "mark_applied t ids d"
  from adv have d': "d' = update_head k (\<lambda>h. h\<lparr>hd_event := first_pending ?m k,
      hd_pending := hd_pending h - int (length ids), hd_last_applied := Some t\<rparr>) ?m"
    by (simp add: advance_head_def Let_def split: if_splits)
  have pend: "pending d' = pending ?m" "first_pending d' = first_pending ?m"
    using pending_cong [of d' ?m] first_pending_cong [of d' ?m] by (simp_all add: d')
  from q have view: "\<And>l. head_view d l = (first_pending d l, int (length (pending d l)))"
    and dist: "distinct (map ie_id (t_ingest d))" "distinct (map fst (t_heads d))" unfolding queue_ok_def by blast+
  have "head_view d' l = (first_pending ?m l, int (length (pending ?m l)))" for l
  proof (cases "l = k")
    case True
    have "length (pending ?m k) + length ids = length (pending d k)"
      unfolding pending_mark by (rule length_filter_removed [OF distinct_pending [OF dist(1)] ids(3,2)])
    moreover have "lookup_head d k \<noteq> None"
    proof
      assume "lookup_head d k = None"
      then have "pending d k = []" using view [of k] by (simp add: head_view_def)
      with ids(1,3) show False by simp
    qed
    ultimately show ?thesis using view [of k]
      by (auto simp: True d' head_view_def lookup_head_def [of ?m] lookup_head_def [of d, symmetric])
  next
    case False
    have "ie_id x \<notin> set ids" if "x \<in> set (pending d l)" for x
    proof
      assume "ie_id x \<in> set ids"
      then obtain y where y: "y \<in> set (pending d k)" "ie_id y = ie_id x" using ids(3) by (metis imageE subsetD)
      then have "y = x" using that dist(1) by (auto simp: set_pending distinct_map inj_on_def)
      with y that False show False by (simp add: set_pending is_pending_def)
    qed
    then have "pending ?m l = pending d l" unfolding pending_mark by simp
    with False view [of l] show ?thesis
      by (simp add: d' head_view_def lookup_head_def [of ?m] lookup_head_def [of d, symmetric] first_pending_def)
  qed
  moreover have "map ie_id (t_ingest d') = map ie_id (t_ingest d)" by (simp add: d' mark_applied_def update_event_def)
  moreover have "map fst (t_heads d') = map fst (t_heads d)" by (simp add: d')
  ultimately show ?thesis using dist unfolding queue_ok_def pend by presburger
qed

lemma set_shard_batch: "set (shard_batch k t n d) \<subseteq> set (pending d k)"
  unfolding shard_batch_def by (auto dest: in_set_takeD)

lemma distinct_shard_batch: "queue_ok d \<Longrightarrow> distinct (map ie_id (shard_batch k t n d))"
  unfolding shard_batch_def queue_ok_def
  by (metis distinct_map_filter distinct_pending distinct_take take_map)

text \<open>The two ways a transaction commits, as an elimination rule.\<close>

lemma ApplyShardE [consumes 1, case_names idle applied]:
  assumes "ApplyShard parse wall clk locked limit d = Inr (n, failure, d')"
  obtains "claim_shard locked (clk 0) d = None" "n = 0" "failure = None" "d' = d"
  | k d1 ids where "1 \<le> limit" "limit \<le> 64" "claim_shard locked (clk 0) d = Some k"
    "apply_batch parse wall clk 2 (shard_batch k (clk 1) (nat limit) d) d = Inr (d1, ids, failure)"
    "n = length ids"
    "if ids = [] then d' = d1 else advance_head (clk 66) k (length ids) (mark_applied (clk 66) ids d1) = Inr d'"
  using assms unfolding ApplyShard_def
  by (auto split: if_splits option.splits sum.splits)

lemma ApplyShard_queue_ok:
  assumes "queue_ok d" and "ApplyShard parse wall clk locked limit d = Inr (n, failure, d')"
  shows "queue_ok d'"
  using assms(2)
proof (cases rule: ApplyShardE)
  case idle
  with assms(1) show ?thesis by simp
next
  case (applied k d1 ids)
  note q1 = apply_batch_queue [OF assms(1) applied(4)]
  show ?thesis
  proof (cases "ids = []")
    case True
    with applied(6) q1(1) show ?thesis by simp
  next
    case False
    from apply_batch_spec [OF applied(4)]
    have ids: "ids = map ie_id (takeWhile decodes (shard_batch k (clk 1) (nat limit) d))" by blast
    have "set (takeWhile decodes (shard_batch k (clk 1) (nat limit) d)) \<subseteq> set (pending d k)"
      using set_shard_batch set_takeWhileD by fast
    then have "set ids \<subseteq> ie_id ` set (pending d k)" unfolding ids by auto
    also have "\<dots> = ie_id ` set (pending d1 k)" using q1(2) [of k] by (metis list.set_map)
    finally have sub: "set ids \<subseteq> ie_id ` set (pending d1 k)" .
    have "distinct ids" unfolding ids
      by (metis distinct_shard_batch [OF assms(1)] distinct_take takeWhile_eq_take take_map)
    from advance_queue_ok [OF q1(1) False this sub] applied(6) False show ?thesis by simp
  qed
qed

text \<open>The CHECK on the pending count never fires, so only the batch itself can fail.\<close>

lemma advance_head_succeeds:
  assumes "queue_ok d" and "n \<le> length (pending d k)"
  shows "\<exists>d'. advance_head t k n (mark_applied t' ids d) = Inr d'"
proof -
  have "\<not> hd_pending h < int n" if "(k, h) \<in> set (t_heads d)" for h
  proof -
    have "lookup_head d k = Some h" using that assms(1) by (simp add: lookup_head_def queue_ok_def)
    moreover have "head_view d k = (first_pending d k, int (length (pending d k)))"
      using assms(1) unfolding queue_ok_def by blast
    ultimately have "hd_pending h = int (length (pending d k))" by (simp add: head_view_def)
    with assms(2) show ?thesis by simp
  qed
  then show ?thesis by (auto simp: advance_head_def Let_def)
qed

lemma batch_completed_le:
  assumes "queue_ok d" and "apply_batch parse wall clk i (shard_batch k t limit d) d = Inr (d1, ids, failure)"
  shows "length ids \<le> length (pending d1 k)"
proof -
  have "length (map ie_id (pending d1 k)) = length (map ie_id (pending d k))"
    by (simp only: apply_batch_queue(2) [OF assms])
  moreover have "length ids \<le> length (shard_batch k t limit d)"
    by (simp add: apply_batch_outcome(1) [OF assms(2)] length_takeWhile_le)
  moreover have "length (shard_batch k t limit d) \<le> length (pending d k)"
    using length_filter_le [of "\<lambda>x. ie_available x \<le> t" "pending d k"]
    unfolding shard_batch_def length_take by linarith
  ultimately show ?thesis by simp
qed

lemma ApplyShard_succeeds:
  assumes "queue_ok d" and "1 \<le> limit" and "limit \<le> 64"
    and "\<And>k. claim_shard locked (clk 0) d = Some k \<Longrightarrow>
           \<exists>r. apply_batch parse wall clk 2 (shard_batch k (clk 1) (nat limit) d) d = Inr r"
  shows "\<not> isl (ApplyShard parse wall clk locked limit d)"
proof (cases "claim_shard locked (clk 0) d")
  case None
  with assms(2,3) show ?thesis by (simp add: ApplyShard_def)
next
  case (Some k)
  with assms(4) obtain d1 ids failure
    where b: "apply_batch parse wall clk 2 (shard_batch k (clk 1) (nat limit) d) d = Inr (d1, ids, failure)"
    by (metis prod_cases3)
  have "\<exists>d2. advance_head (clk 66) k (length ids) (mark_applied (clk 66) ids d1) = Inr d2"
    by (rule advance_head_succeeds [OF apply_batch_queue(1) [OF assms(1) b] batch_completed_le [OF assms(1) b]])
  then show ?thesis using assms(2,3) Some b by (auto simp: ApplyShard_def)
qed

section \<open>Properties\<close>

definition same_inventory :: "db \<Rightarrow> db \<Rightarrow> bool" where
  "same_inventory c d \<longleftrightarrow> t_resources c = t_resources d \<and> t_owners c = t_owners d
     \<and> t_outbox c = t_outbox d \<and> t_changes c = t_changes d
     \<and> next_outbox c = next_outbox d \<and> next_change c = next_change d"

lemma same_inventory_refl [simp]: "same_inventory d d"
  by (simp add: same_inventory_def)

lemma same_inventory_trans: "same_inventory a b \<Longrightarrow> same_inventory b c \<Longrightarrow> same_inventory a c"
  by (simp add: same_inventory_def)

lemma same_inventory_event [simp]: "same_inventory (update_event p f d) d" "same_inventory (mark_applied t ids d) d"
  "same_inventory (update_head k g d) d"
  by (simp_all add: same_inventory_def)

lemma same_inventory_ok: "same_inventory c d \<Longrightarrow> inventory_ok c \<longleftrightarrow> inventory_ok d"
  by (simp add: same_inventory_def inventory_ok_def)

lemma advance_same_inventory: "advance_head t k n d = Inr d' \<Longrightarrow> same_inventory d' d"
  by (auto simp: advance_head_def Let_def split: if_splits)

lemma advance_ingest: "advance_head t k n d = Inr d' \<Longrightarrow> t_ingest d' = t_ingest d"
  by (auto simp: advance_head_def Let_def split: if_splits)

lemma ApplyShard_inventory:
  assumes "apply_batch parse wall clk 2 xs d = Inr (d1, ids, failure)"
    and "if ids = [] then d' = d1 else advance_head t k (length ids) (mark_applied t ids d1) = Inr d'"
  shows "\<exists>d2. applyEvents parse (batch_events wall clk 2 (takeWhile decodes xs)) d = Inr d2 \<and> same_inventory d' d2"
proof -
  from apply_batch_spec [OF assms(1)] obtain d2
    where d2: "applyEvents parse (batch_events wall clk 2 (takeWhile decodes xs)) d = Inr d2"
      and c: "case dropWhile decodes xs of [] \<Rightarrow> failure = None \<and> d1 = d2
       | x # _ \<Rightarrow> \<exists>err. ie_payload x = Inl err \<and> failure = Some err
           \<and> d1 = update_event (\<lambda>y. ie_id y = ie_id x) (backoff (clk (2 + length ids)) err) d2"
    by blast
  have "same_inventory d1 d2"
    using c by (cases "dropWhile decodes xs") (auto simp del: dropWhile_eq_Nil_conv)
  moreover have "same_inventory d' d1"
  proof (cases "ids = []")
    case True
    with assms(2) show ?thesis by simp
  next
    case False
    with assms(2) show ?thesis
      using same_inventory_trans [OF advance_same_inventory same_inventory_event(2)] by simp
  qed
  ultimately show ?thesis using d2 same_inventory_trans by blast
qed

text \<open>C8: A worker's transaction takes the oldest shard whose head is due and applies the due events
  of that shard in inbox order, at most \<open>limit\<close>, exactly as applying them one by one would,
  stopping at the first payload that does not decode; those events, and no others, leave the
  queue, and no other shard's queue changes.\<close>

theorem ApplyShard_in_order:
  assumes "queue_ok d" and "claim_shard locked (clk 0) d = Some k"
    and "ApplyShard parse wall clk locked limit d = Inr (n, failure, d')"
  shows "let batch = shard_batch k (clk 1) (nat limit) d; completed = takeWhile decodes batch in
      n = length completed \<and> int n \<le> limit \<and> (failure = None \<longleftrightarrow> completed = batch)
      \<and> (\<exists>d1. applyEvents parse (batch_events wall clk 2 completed) d = Inr d1 \<and> same_inventory d' d1)
      \<and> map ie_id (pending d' k) = filter (\<lambda>i. i \<notin> ie_id ` set completed) (map ie_id (pending d k))
      \<and> (\<forall>l. l \<noteq> k \<longrightarrow> map ie_id (pending d' l) = map ie_id (pending d l))"
  using assms(3)
proof (cases rule: ApplyShardE)
  case idle
  with assms(2) show ?thesis by simp
next
  case (applied l d1 ids)
  with assms(2) have [simp]: "l = k" by simp
  define batch where "batch = shard_batch k (clk 1) (nat limit) d"
  define completed where "completed = takeWhile decodes batch"
  have ids: "ids = map ie_id completed" and fail: "failure = None \<longleftrightarrow> completed = batch"
    using apply_batch_outcome [OF applied(4)] by (simp_all add: completed_def batch_def)
  have n: "n = length completed" using applied(5) ids by simp
  moreover have "length completed \<le> length batch" unfolding completed_def by (rule length_takeWhile_le)
  moreover have "length batch \<le> nat limit" by (simp add: batch_def shard_batch_def)
  ultimately have le: "int n \<le> limit" using applied(1) by linarith
  have inv: "\<exists>d2. applyEvents parse (batch_events wall clk 2 completed) d = Inr d2 \<and> same_inventory d' d2"
    using ApplyShard_inventory [OF applied(4,6)] by (simp add: completed_def batch_def)
  note keep = apply_batch_queue(2) [OF assms(1) applied(4)]
  have ing: "t_ingest d' = t_ingest (mark_applied (clk 66) ids d1)"
  proof (cases "ids = []")
    case True
    with applied(6) show ?thesis by (simp add: mark_applied_def update_event_def)
  next
    case False
    with applied(6) show ?thesis using advance_ingest by simp
  qed
  have queue: "map ie_id (pending d' j) = filter (\<lambda>i. i \<notin> set ids) (map ie_id (pending d j))" for j
    unfolding pending_cong [OF ing] pending_mark keep [of j, symmetric] filter_map comp_def ..
  have "map ie_id (pending d' j) = map ie_id (pending d j)" if "j \<noteq> k" for j
  proof -
    have "i \<notin> set ids" if "i \<in> set (map ie_id (pending d j))" for i
    proof
      assume "i \<in> set ids"
      then obtain y where y: "y \<in> set (pending d k)" "ie_id y = i"
        unfolding ids completed_def batch_def using set_shard_batch set_takeWhileD by (smt (verit) image_iff list.set_map subsetD)
      from that obtain x where "x \<in> set (pending d j)" "ie_id x = i" by auto
      with y assms(1) have "x = y" by (auto simp: set_pending queue_ok_def distinct_map inj_on_def)
      with y \<open>x \<in> set (pending d j)\<close> \<open>j \<noteq> k\<close> show False by (simp add: set_pending is_pending_def)
    qed
    then show ?thesis unfolding queue by (simp add: filter_id_conv)
  qed
  with n le fail inv queue [of k] ids show ?thesis
    unfolding Let_def batch_def [symmetric] completed_def [symmetric] by simp
qed

text \<open>A batch the API has stored is stored once: enqueueing it again at any later time, as a
  collector does when it replays its spool, succeeds and changes nothing as long as the inbox
  still holds the events, applied or not.\<close>

theorem Enqueue_once:
  assumes "Enqueue uuid_ok pg clk b d = Inr d1"
    and "ie_id ` set (t_ingest d1) \<subseteq> ie_id ` set (t_ingest d2)"
  shows "Enqueue uuid_ok pg clk' b d2 = Inr d2"
proof -
  from assms(1) obtain c ids where v: "Validate uuid_ok b = None"
    and ins: "insert_events pg clk (b_cluster b) (b_shard b) 0 (b_events b) d = Inr (c, ids)"
    and ing: "t_ingest d1 = t_ingest c"
    by (auto simp: Enqueue_def refresh_head_def add_pending_def split: option.splits sum.splits if_splits)
  from insert_events_spec [OF ins] assms(2)
  have "\<forall>e \<in> set (b_events b). pg_jsonb pg (e_resource e) \<and> (\<exists>u. pg_uuid pg (e_id e) = Some u \<and> u \<in> ie_id ` set (t_ingest d2))"
    unfolding ing by blast
  then have "insert_events pg clk' (b_cluster b) (b_shard b) 0 (b_events b) d2 = Inr (d2, [])"
    by (rule insert_events_known)
  with v show ?thesis by (simp add: Enqueue_def)
qed

text \<open>An event with two owners of the same uid: accepted by the API, refused by the database.\<close>

lemma validate_duplicate_owner:
  assumes "validate_resource cluster r = None" and "w \<in> set (r_owners r)" and "length (r_owners r) < 64"
  shows "validate_resource cluster (r\<lparr>r_owners := w # r_owners r\<rparr>) = None"
proof -
  have "bad_owner w = False" using validate_resourceD(9) [OF assms(1,2)] by simp
  moreover have "first_index bad_owner (r_owners r) = None"
    unfolding first_index_None using validate_resourceD(9) [OF assms(1)] by blast
  moreover have "(64 < length (r_owners r)) = False" "(64 < Suc (length (r_owners r))) = False"
    using assms(3) by simp_all
  ultimately have "validate_resource cluster (r\<lparr>r_owners := w # r_owners r\<rparr>) = validate_resource cluster r"
    unfolding validate_resource_def identity_fields_def
    by (simp del: json_encode.simps cong: option.case_cong if_cong)
  with assms(1) show ?thesis by simp
qed

lemma write_resource_duplicate:
  assumes "\<not> distinct (map o_uid (new_owners action r))"
  shows "\<exists>e. write_resource now dbnow action shard r d = Inl e"
proof (cases "write_resource now dbnow action shard r d")
  case (Inr d')
  with owners_distinct [OF this] assms show ?thesis by simp
qed simp

lemma applyResource_duplicate:
  assumes "\<not> distinct (map o_uid (r_owners r))" and "\<not> stale d shard (r\<lparr>r_observed := round_us (r_observed r)\<rparr>)"
  shows "\<exists>e. applyResource parse now dbnow ''upsert'' shard r d = Inl e"
proof -
  let ?r = "r\<lparr>r_observed := round_us (r_observed r)\<rparr>"
  let ?s = "resolveEvent parse now d ?r"
  have "\<not> distinct (map o_uid (new_owners ''upsert'' ?s))" using assms(1) by (simp add: new_owners_def)
  from write_resource_duplicate [OF this] obtain e where "write_resource now dbnow ''upsert'' shard ?s d = Inl e" by blast
  with assms(2) show ?thesis
    by (auto simp: applyResource_def Let_def stale_def split: option.splits)
qed

text \<open>C40: \<open>Validate\<close> accepts a resource that lists the same owner twice, but \<open>resource_owner\<close> has one row
  per owner uid. Whenever such an event comes first in the shard a worker claims and is not
  stale, the whole transaction fails: nothing is committed, no attempt is counted and the event
  is not put off, so the same shard is claimed again and again.\<close>

theorem duplicate_owner_stalls:
  assumes "validate_resource cluster r = None" and "w \<in> set (r_owners r)" and "length (r_owners r) < 64"
  shows "validate_resource cluster (r\<lparr>r_owners := w # r_owners r\<rparr>) = None
    \<and> (\<forall>parse wall clk locked limit d k x xs.
         1 \<le> limit \<and> limit \<le> 64 \<and> claim_shard locked (clk 0) d = Some k
         \<and> shard_batch k (clk 1) (nat limit) d = x # xs \<and> ie_action x = ''upsert''
         \<and> ie_payload x = Inr (r\<lparr>r_owners := w # r_owners r\<rparr>)
         \<and> \<not> stale d (ie_shard x) (r\<lparr>r_observed := round_us (r_observed r)\<rparr>) \<longrightarrow>
         (\<exists>e. ApplyShard parse wall clk locked limit d = Inl e))"
proof (intro conjI allI impI)
  let ?r = "r\<lparr>r_owners := w # r_owners r\<rparr>"
  show "validate_resource cluster ?r = None" by (rule validate_duplicate_owner [OF assms])
  fix parse and wall clk :: "nat \<Rightarrow> time" and locked limit d k x xs
  assume a: "1 \<le> limit \<and> limit \<le> 64 \<and> claim_shard locked (clk 0) d = Some k
         \<and> shard_batch k (clk 1) (nat limit) d = x # xs \<and> ie_action x = ''upsert''
         \<and> ie_payload x = Inr ?r \<and> \<not> stale d (ie_shard x) (r\<lparr>r_observed := round_us (r_observed r)\<rparr>)"
  have "r_id r \<noteq> []" using validate_resourceD(2) [OF assms(1)] StableID_nonempty by metis
  moreover have "r_state r \<noteq> []"
    using validate_resourceD(3) [OF assms(1)] by (auto simp: known_state_def state_defs)
  ultimately have norm: "Normalize (wall 2) ?r = ?r"
    using validate_resourceD(4) [OF assms(1)] by (simp add: Normalize_def)
  have "\<not> distinct (map o_uid (r_owners ?r))" using assms(2) by auto
  moreover have "\<not> stale d (ie_shard x) (?r\<lparr>r_observed := round_us (r_observed ?r)\<rparr>)"
    using a by (simp add: stale_def cong: option.case_cong)
  ultimately obtain e where
    "applyResource parse (wall 2) (clk 2) ''upsert'' (ie_shard x) ?r d = Inl e"
    using applyResource_duplicate by blast
  then have "apply_batch parse wall clk 2 (x # xs) d = Inl e" using a norm by simp
  with a show "\<exists>e. ApplyShard parse wall clk locked limit d = Inl e"
    unfolding ApplyShard_def by simp
qed

section \<open>Concrete runs\<close>

definition sample_pg :: postgres where
  "sample_pg = \<lparr>pg_uuid = Some, pg_jsonb = (\<lambda>r. True)\<rparr>"

definition valid_sample :: "string \<Rightarrow> resource" where
  "valid_sample uid = (sample uid ''critical'' 5000)\<lparr>r_id := StableID ''prod'' uid, r_resource_version := ''7''\<rparr>"

definition sample_batch :: "resource \<Rightarrow> ingest_batch" where
  "sample_batch r = \<lparr>b_cluster = ''prod'', b_shard = ''pods'',
     b_events = [\<lparr>e_id = ''e1'', e_action = ''upsert'', e_resource = r\<rparr>]\<rparr>"

definition sample_inbox :: "resource \<Rightarrow> db" where
  "sample_inbox r = projr (Enqueue (\<lambda>i. True) sample_pg (\<lambda>i. (100, 100)) (sample_batch r) empty_db)"

definition sample_twice :: resource where
  "sample_twice = (valid_sample ''a'')\<lparr>r_owners := hd (r_owners (valid_sample ''a'')) # r_owners (valid_sample ''a'')\<rparr>"

lemma valid_sample_simps:
  "r_cluster (valid_sample u) = ''prod''" "r_id (valid_sample u) = StableID ''prod'' u" "r_uid (valid_sample u) = u"
  "r_group (valid_sample u) = ''core''" "r_version (valid_sample u) = ''v1''" "r_kind (valid_sample u) = ''Pod''"
  "r_name (valid_sample u) = u" "r_resource_version (valid_sample u) = ''7''" "r_namespace (valid_sample u) = ''default''"
  "r_labels (valid_sample u) = [(''app'', ''web'')]" "r_annotations (valid_sample u) = []"
  "r_owners (valid_sample u) = [\<lparr>o_uid = ''rs'', o_api_version = ''apps/v1'', o_kind = ''ReplicaSet'', o_name = ''web'', o_controller = True\<rparr>]"
  "r_conditions (valid_sample u) = []" "r_reason (valid_sample u) = ''because''" "r_summary (valid_sample u) = []"
  "r_state (valid_sample u) = ''critical''" "r_observed (valid_sample u) = 5000" "r_deleted (valid_sample u) = None"
  by (simp_all add: valid_sample_def sample_def blank_resource_def)

lemma valid_sample_a: "validate_resource ''prod'' (valid_sample ''a'') = None"
proof -
  have "find bad_field (identity_fields (valid_sample ''a'')) = None"
    by (simp add: identity_fields_def bad_field_def valid_sample_simps)
  moreover have "find bad_label (r_labels (valid_sample ''a'')) = None" "find bad_annotation (r_annotations (valid_sample ''a'')) = None"
    "first_index bad_owner (r_owners (valid_sample ''a'')) = None" "first_index bad_condition (r_conditions (valid_sample ''a'')) = None"
    by (simp_all add: valid_sample_simps bad_label_def bad_owner_def)
  moreover have "length (json_encode (JObj (r_summary (valid_sample ''a'')))) \<le> 64 * 1024"
    unfolding valid_sample_simps by simp
  ultimately show ?thesis
    by (simp add: validate_resource_def valid_sample_simps known_state_def state_defs zero_time_def)
qed

lemma sample_enqueue:
  assumes "validate_resource ''prod'' r = None"
  shows "Enqueue (\<lambda>i. True) sample_pg (\<lambda>i. (100, 100)) (sample_batch r) empty_db = Inr (sample_inbox r)"
proof -
  have "Validate (\<lambda>i. True) (sample_batch r) = None"
    using assms by (simp add: Validate_def sample_batch_def event_error_def)
  then show ?thesis unfolding sample_inbox_def
    by (intro succeeds) (simp add: Enqueue_def sample_batch_def sample_pg_def)
qed

theorem Enqueue_once_witness:
  "Enqueue (\<lambda>i. True) sample_pg (\<lambda>i. (900, 900)) (sample_batch (valid_sample ''a'')) (sample_inbox (valid_sample ''a''))
     = Inr (sample_inbox (valid_sample ''a''))"
  by (rule Enqueue_once [OF sample_enqueue [OF valid_sample_a]]) simp

lemma sample_inbox_eq:
  assumes "validate_resource ''prod'' r = None"
  shows "sample_inbox r = empty_db\<lparr>t_ingest := [new_event ''e1'' (100, 100) ''prod'' ''pods'' \<lparr>e_id = ''e1'', e_action = ''upsert'', e_resource = r\<rparr>],
    t_heads := [((''prod'', ''pods''), \<lparr>hd_event = Some ''e1'', hd_pending = 1, hd_last_applied = None, hd_reconciled = None\<rparr>)]\<rparr>"
proof -
  have "Validate (\<lambda>i. True) (sample_batch r) = None"
    using assms by (simp add: Validate_def sample_batch_def event_error_def)
  then show ?thesis unfolding sample_inbox_def
    by (simp add: Enqueue_def sample_batch_def sample_pg_def refresh_head_def add_pending_def update_head_def
        lookup_head_def first_pending_def pending_def is_pending_def new_event_def empty_db_def)
qed

text \<open>
  The API accepts an upsert that carries a deletion time. The store files it as deleted, but notifies that it
  is critical.
\<close>

lemma deleted_upsert_announced:
  defines "r \<equiv> (valid_sample ''a'')\<lparr>r_deleted := Some 4000\<rparr>"
  shows "validate_resource ''prod'' r = None
    \<and> (\<exists>d. applyResource parse now dbnow ''upsert'' ''pods'' r empty_db = Inr d
        \<and> alert d (r_id r) = None \<and> announced d (r_id r) \<noteq> None)"
proof -
  let ?r = "r\<lparr>r_observed := round_us (r_observed r)\<rparr>"
  have fields: "r_deleted r = Some 4000" "r_state r = ''critical''" "\<not> warningEvent r"
    by (simp_all add: r_def valid_sample_simps warningEvent_def)
  have "validate_resource ''prod'' r = validate_resource ''prod'' (valid_sample ''a'')"
    unfolding r_def validate_resource_def identity_fields_def by (simp cong: option.case_cong if_cong)
  moreover have "\<not> stale empty_db ''pods'' ?r"
    by (simp add: stale_def before_watermark_def watermark_def lookup_head_def lookup_resource_def empty_db_def)
  moreover obtain d where d: "write_resource now dbnow ''upsert'' ''pods'' ?r empty_db = Inr d"
  proof -
    have "known_state (r_state ?r)" using fields(2) by (simp add: known_state_def state_defs)
    then show ?thesis using that
      by (simp add: r_def valid_sample_simps write_resource_def put_resource_def matching_def empty_db_def clear_owners_def
          Let_def split: if_splits)
  qed
  moreover have "alert d (r_id r) = None"
    using write_resource_effect(1) [OF d, of "r_id r"] fields(1) by (simp add: alert_def alert_of_def deletion_time_def)
  moreover have "announced d (r_id r) \<noteq> None"
    using announced_append [OF write_resource_effect(5) [OF d], of "r_id r"] fields(2)
    by (simp add: shouldNotify_def lookup_resource_def empty_db_def announces_def outbox_of_def StateOK_def)
  ultimately show ?thesis using fields(3) by (simp add: applyResource_plain valid_sample_a)
qed

lemma sample_claim:
  assumes "validate_resource ''prod'' r = None"
  shows "claim_shard {} 500 (sample_inbox r) = Some (''prod'', ''pods'')"
    and "shard_batch (''prod'', ''pods'') 500 8 (sample_inbox r) =
      [new_event ''e1'' (100, 100) ''prod'' ''pods'' \<lparr>e_id = ''e1'', e_action = ''upsert'', e_resource = r\<rparr>]"
  by (simp_all add: sample_inbox_eq [OF assms] claim_shard_def claimable_def new_event_def shard_batch_def
      pending_def is_pending_def)

theorem duplicate_owner_stalls_witness:
  "validate_resource ''prod'' sample_twice = None
   \<and> (\<exists>e. ApplyShard sample_parse (\<lambda>i. 0) (\<lambda>i. 500) {} 8 (sample_inbox sample_twice) = Inl e)"
proof -
  have own: "hd (r_owners (valid_sample ''a'')) \<in> set (r_owners (valid_sample ''a''))" "length (r_owners (valid_sample ''a'')) < 64"
    by (simp_all add: valid_sample_def sample_def)
  note dup = duplicate_owner_stalls [OF valid_sample_a own, folded sample_twice_def]
  then have v: "validate_resource ''prod'' sample_twice = None" by blast
  have "\<not> stale (sample_inbox sample_twice) ''pods'' ((valid_sample ''a'')\<lparr>r_observed := round_us (r_observed (valid_sample ''a''))\<rparr>)"
    by (simp add: sample_inbox_eq [OF v] stale_def before_watermark_def watermark_def lookup_head_def
        lookup_resource_def empty_db_def valid_sample_def sample_def)
  with dup sample_claim [OF v] show ?thesis by (force simp: new_event_def v)
qed

theorem ApplyShard_in_order_witness:
  "\<exists>d'. ApplyShard sample_parse (\<lambda>i. 0) (\<lambda>i. 500) {} 8 (sample_inbox (valid_sample ''a'')) = Inr (1, None, d')
     \<and> pending d' (''prod'', ''pods'') = []"
proof -
  let ?d = "sample_inbox (valid_sample ''a'')"
  let ?x = "new_event ''e1'' (100, 100) ''prod'' ''pods'' \<lparr>e_id = ''e1'', e_action = ''upsert'', e_resource = valid_sample ''a''\<rparr>"
  note claim = sample_claim [OF valid_sample_a]
  have ok: "queue_ok ?d" by (rule Enqueue_queue_ok [OF queue_ok_empty sample_enqueue [OF valid_sample_a]])
  have "\<not> isl (ApplyShard sample_parse (\<lambda>i. 0) (\<lambda>i. 500) {} 8 ?d)"
  proof -
    have "Normalize 0 (valid_sample ''a'') = valid_sample ''a''"
      by (simp add: Normalize_def valid_sample_simps zero_time_def)
    moreover have "\<not> isl (applyResource sample_parse 0 500 ''upsert'' ''pods'' (valid_sample ''a'') ?d)"
      by (simp add: sample_inbox_eq [OF valid_sample_a] applyResource_def before_watermark_def watermark_def lookup_head_def
          lookup_resource_def empty_db_def resolveEvent_def warningEvent_def valid_sample_simps write_resource_def Let_def
          put_resource_def matching_def known_state_def state_defs clear_owners_def)
    ultimately have "\<exists>r. apply_batch sample_parse (\<lambda>i. 0) (\<lambda>i. 500) 2 [?x] ?d = Inr r"
      by (auto simp: new_event_def isl_def split: sum.splits)
    then show ?thesis using ApplyShard_succeeds [OF ok, of 8 "{}" "\<lambda>i. 500"] by (force simp: claim)
  qed
  then obtain n failure d' where run: "ApplyShard sample_parse (\<lambda>i. 0) (\<lambda>i. 500) {} 8 ?d = Inr (n, failure, d')"
    by (metis isl_def prod_cases3 sum.exhaust)
  from ApplyShard_in_order [OF ok claim(1) run]
  have "n = 1 \<and> failure = None \<and> map ie_id (pending d' (''prod'', ''pods'')) =
      filter (\<lambda>i. i \<noteq> ''e1'') (map ie_id (pending ?d (''prod'', ''pods'')))"
    by (simp add: claim(2) decodes_def new_event_def Let_def)
  moreover have "map ie_id (pending ?d (''prod'', ''pods'')) = [''e1'']"
    by (simp add: sample_inbox_eq [OF valid_sample_a] pending_def is_pending_def new_event_def)
  ultimately show ?thesis using run by simp
qed

end
