(* ===== verification/Retention.thy ===== *)
theory Retention
  imports Inbox
begin

text \<open>
  \<open>Cleanup\<close> of \<open>internal/v2/store/store.go\<close>: seven deletes in one transaction under an advisory
  lock, which a replica that does not get it leaves to the other. The facts below are about
  what retention must not lose: pending inbox events, undelivered notifications, reconcile
  watermarks and live resources.
\<close>

definition durationSQL :: "duration \<Rightarrow> duration" where
  \<comment> \<open>The interval PostgreSQL reads from the six decimals of \<open>%f seconds\<close>.\<close>
  "durationSQL d = round_us d"

definition delete_resources :: "(res_row \<Rightarrow> bool) \<Rightarrow> db \<Rightarrow> db" where
  \<comment> \<open>With \<open>ON DELETE CASCADE\<close> of \<open>resource_owner\<close>.\<close>
  "delete_resources p d =
     d\<lparr>t_resources := filter (\<lambda>(k, x). \<not> p x) (t_resources d),
       t_owners := filter (\<lambda>(i, w). list_all (\<lambda>(k, x). k = i \<longrightarrow> \<not> p x) (t_resources d)) (t_owners d)\<rparr>"

definition expired_event :: "time \<Rightarrow> res_row \<Rightarrow> bool" where
  "expired_event cutoff x \<longleftrightarrow> to_lower (r_kind (rr_res x)) = ''event''
     \<and> r_group (rr_res x) \<in> {''core'', ''events.k8s.io''} \<and> r_observed (rr_res x) < cutoff"

definition before :: "time option \<Rightarrow> time \<Rightarrow> bool" where
  \<comment> \<open>\<open>column < cutoff\<close>, which NULL does not satisfy.\<close>
  "before t cutoff = (case t of None \<Rightarrow> False | Some v \<Rightarrow> v < cutoff)"

definition expired_tombstone :: "time \<Rightarrow> res_row \<Rightarrow> bool" where
  "expired_tombstone cutoff x \<longleftrightarrow> before (r_deleted (rr_res x)) cutoff"

definition delete_history :: "time \<Rightarrow> db \<Rightarrow> db" where
  "delete_history cutoff d = d\<lparr>t_changes := filter (\<lambda>c. \<not> ch_at c < cutoff) (t_changes d)\<rparr>"

definition delete_notifications :: "time \<Rightarrow> db \<Rightarrow> db" where
  "delete_notifications cutoff d = d\<lparr>t_outbox := filter (\<lambda>b. \<not> before (ob_delivered b) cutoff) (t_outbox d)\<rparr>"

definition delete_heads :: "time \<Rightarrow> db \<Rightarrow> db" where
  "delete_heads cutoff d = d\<lparr>t_heads := filter (\<lambda>(k, h). \<not> (hd_pending h = 0 \<and> hd_reconciled h = None
     \<and> before (hd_last_applied h) cutoff)) (t_heads d)\<rparr>"

definition delete_inbox :: "time \<Rightarrow> db \<Rightarrow> db" where
  "delete_inbox cutoff d = d\<lparr>t_ingest := filter (\<lambda>x. \<not> before (ie_applied x) cutoff) (t_ingest d)\<rparr>"

definition delete_cache :: "time \<Rightarrow> db \<Rightarrow> db" where
  "delete_cache cutoff d = d\<lparr>t_cache := filter (\<lambda>(k, c). \<not> fc_fetched c < cutoff) (t_cache d)\<rparr>"

definition Cleanup :: "bool \<Rightarrow> (nat \<Rightarrow> time) \<Rightarrow> duration \<Rightarrow> duration \<Rightarrow> duration \<Rightarrow> duration \<Rightarrow> db \<Rightarrow> db" where
  "Cleanup acquired clk eventRetention tombstoneRetention historyRetention federationCacheRetention d =
     (if \<not> acquired then d
      else let d = delete_resources (expired_event (clk 0 - durationSQL eventRetention)) d;
               d = delete_resources (expired_tombstone (clk 1 - durationSQL tombstoneRetention)) d;
               d = delete_history (clk 2 - durationSQL historyRetention) d;
               d = delete_notifications (clk 3 - durationSQL historyRetention) d;
               d = delete_heads (clk 4 - durationSQL historyRetention) d;
               d = delete_inbox (clk 5 - durationSQL historyRetention) d
           in delete_cache (clk 6 - durationSQL federationCacheRetention) d)"

section \<open>Invariants\<close>

lemma rows_ok_filter: "rows_ok rs \<Longrightarrow> rows_ok (filter P rs)"
proof -
  assume a: "rows_ok rs"
  have "distinct (map fst (filter P rs))" using a unfolding rows_ok_iff by (simp add: distinct_map_filter)
  with a show ?thesis unfolding rows_ok_iff by auto
qed

lemma delete_resources_ok [step_intros]: "inventory_ok d \<Longrightarrow> inventory_ok (delete_resources p d)"
proof -
  assume a: "inventory_ok d"
  have rows: "rows_ok (t_resources d)" and dist: "distinct (map (\<lambda>(k, w). (k, o_uid w)) (t_owners d))"
    and sub: "fst ` set (t_owners d) \<subseteq> fst ` set (t_resources d)"
    using a unfolding inventory_ok_def owners_ok_def by blast+
  have "fst ` set (t_owners (delete_resources p d)) \<subseteq> fst ` set (t_resources (delete_resources p d))"
  proof
    fix i
    assume "i \<in> fst ` set (t_owners (delete_resources p d))"
    then obtain w where w: "(i, w) \<in> set (t_owners d)" "\<forall>kx \<in> set (t_resources d). fst kx = i \<longrightarrow> \<not> p (snd kx)"
      by (auto simp: delete_resources_def list_all_iff case_prod_beta')
    then obtain x where "(i, x) \<in> set (t_resources d)" using sub by force
    with w(2) show "i \<in> fst ` set (t_resources (delete_resources p d))"
      by (force simp: delete_resources_def)
  qed
  moreover have "distinct (map (\<lambda>(k, w). (k, o_uid w)) (t_owners (delete_resources p d)))"
    using dist by (simp add: delete_resources_def distinct_map_filter)
  ultimately show ?thesis
    using a rows_ok_filter [OF rows] unfolding inventory_ok_def owners_ok_def
    by (simp add: delete_resources_def)
qed

lemma sorted_wrt_filter_map: "sorted_wrt R (map f xs) \<Longrightarrow> sorted_wrt R (map f (filter P xs))"
  by (induction xs) auto

lemma delete_history_ok [step_intros]: "inventory_ok d \<Longrightarrow> inventory_ok (delete_history c d)"
  by (simp add: inventory_ok_def delete_history_def change_ids_ok_def sorted_wrt_filter_map)

lemma delete_notifications_ok [step_intros]: "inventory_ok d \<Longrightarrow> inventory_ok (delete_notifications c d)"
  by (simp add: inventory_ok_def delete_notifications_def outbox_ids_ok_def sorted_wrt_filter_map)

lemma delete_meta_ok [step_intros]:
  "inventory_ok d \<Longrightarrow> inventory_ok (delete_heads c d)"
  "inventory_ok d \<Longrightarrow> inventory_ok (delete_inbox c d)"
  "inventory_ok d \<Longrightarrow> inventory_ok (delete_cache c d)"
  by (simp_all add: inventory_ok_def delete_heads_def delete_inbox_def delete_cache_def)

lemma Cleanup_ok [step_intros]: "inventory_ok d \<Longrightarrow> inventory_ok (Cleanup acquired clk e t h f d)"
  by (simp add: Cleanup_def Let_def step_intros)

text \<open>Deletes other than of shard heads and inbox rows leave the queue alone.\<close>

lemma delete_frames [simp]:
  "t_ingest (delete_resources p d) = t_ingest d" "t_heads (delete_resources p d) = t_heads d"
  "t_ingest (delete_history c d) = t_ingest d" "t_heads (delete_history c d) = t_heads d"
  "t_ingest (delete_notifications c d) = t_ingest d" "t_heads (delete_notifications c d) = t_heads d"
  "t_ingest (delete_cache c d) = t_ingest d" "t_heads (delete_cache c d) = t_heads d"
  "t_ingest (delete_heads c d) = t_ingest d" "t_heads (delete_inbox c d) = t_heads d"
  "t_outbox (delete_resources p d) = t_outbox d" "t_outbox (delete_history c d) = t_outbox d"
  "t_outbox (delete_cache c d) = t_outbox d" "t_outbox (delete_heads c d) = t_outbox d"
  "t_outbox (delete_inbox c d) = t_outbox d" "t_resources (delete_history c d) = t_resources d"
  "t_resources (delete_notifications c d) = t_resources d" "t_resources (delete_cache c d) = t_resources d"
  "t_resources (delete_heads c d) = t_resources d" "t_resources (delete_inbox c d) = t_resources d"
  by (simp_all add: delete_resources_def delete_history_def delete_notifications_def delete_cache_def
      delete_heads_def delete_inbox_def)

lemma pending_delete_inbox [simp]: "pending (delete_inbox c d) = pending d"
proof
  fix k
  have "filter (is_pending k) (filter (\<lambda>x. \<not> before (ie_applied x) c) xs) = filter (is_pending k) xs" for xs
    by (induction xs) (auto simp: is_pending_def before_def)
  then show "pending (delete_inbox c d) k = pending d k" by (simp add: pending_def delete_inbox_def)
qed

lemma lookup_delete_heads:
  assumes "distinct (map fst (t_heads d))"
  shows "lookup_head (delete_heads c d) k = (case lookup_head d k of None \<Rightarrow> None
    | Some h \<Rightarrow> if hd_pending h = 0 \<and> hd_reconciled h = None \<and> before (hd_last_applied h) c then None else Some h)"
proof -
  have "map_of (filter (\<lambda>(k, h). \<not> P h) hs) k = (case map_of hs k of None \<Rightarrow> None | Some h \<Rightarrow> if P h then None else Some h)"
    if "distinct (map fst hs)" for P and hs :: "(shard_key \<times> shard_head) list"
    using that by (induction hs) (auto simp: map_of_eq_None_iff image_iff split: option.splits)
  from this [OF assms, of "\<lambda>h. hd_pending h = 0 \<and> hd_reconciled h = None \<and> before (hd_last_applied h) c"]
  show ?thesis by (simp add: lookup_head_def delete_heads_def)
qed

lemma queue_ok_delete_heads: "queue_ok d \<Longrightarrow> queue_ok (delete_heads c d) \<and> watermark (delete_heads c d) k = watermark d k"
proof -
  assume q: "queue_ok d"
  then have dist: "distinct (map fst (t_heads d))"
    and view: "\<And>k. head_view d k = (first_pending d k, int (length (pending d k)))" unfolding queue_ok_def by blast+
  have pend: "pending (delete_heads c d) = pending d" "first_pending (delete_heads c d) = first_pending d"
    by (rule pending_cong, simp) (rule first_pending_cong, simp)
  have "head_view (delete_heads c d) k = head_view d k" for k
  proof (cases "lookup_head d k")
    case None
    then show ?thesis by (simp add: head_view_def lookup_delete_heads [OF dist])
  next
    case (Some h)
    have "hd_event h = None" if "hd_pending h = 0"
    proof -
      from that Some view [of k] have "pending d k = []" by (simp add: head_view_def)
      with Some view [of k] show ?thesis by (simp add: head_view_def first_pending_def)
    qed
    with Some show ?thesis by (auto simp: head_view_def lookup_delete_heads [OF dist])
  qed
  moreover have "distinct (map fst (t_heads (delete_heads c d)))"
    using dist by (simp add: delete_heads_def distinct_map_filter)
  moreover have "watermark (delete_heads c d) k = watermark d k"
    by (simp add: watermark_def lookup_delete_heads [OF dist] split: option.splits)
  ultimately show ?thesis using q unfolding queue_ok_def pend by simp
qed

lemma queue_ok_delete_inbox: "queue_ok d \<Longrightarrow> queue_ok (delete_inbox c d)"
proof -
  assume q: "queue_ok d"
  have "distinct (map ie_id (t_ingest (delete_inbox c d)))"
    using q unfolding queue_ok_def by (simp add: delete_inbox_def distinct_map_filter)
  moreover have "head_view (delete_inbox c d) = head_view d"
    by (simp add: head_view_def lookup_head_def fun_eq_iff)
  moreover have "first_pending (delete_inbox c d) = first_pending d"
    by (simp add: first_pending_def fun_eq_iff)
  ultimately show ?thesis using q unfolding queue_ok_def by simp
qed

lemma queue_ok_frame:
  assumes "t_ingest d' = t_ingest d" and "t_heads d' = t_heads d"
  shows "queue_ok d' = queue_ok d" and "watermark d' k = watermark d k" and "pending d' k = pending d k"
proof -
  show "queue_ok d' = queue_ok d"
    by (rule queue_ok_cong) (use assms in \<open>simp_all add: head_view_def lookup_head_def fun_eq_iff\<close>)
  show "watermark d' k = watermark d k" by (rule watermark_cong [OF assms(2)])
  show "pending d' k = pending d k" by (rule fun_cong [OF pending_cong [OF assms(1)]])
qed

lemma Cleanup_queue:
  assumes "queue_ok d"
  shows "queue_ok (Cleanup acquired clk e t h f d)
    \<and> watermark (Cleanup acquired clk e t h f d) k = watermark d k
    \<and> pending (Cleanup acquired clk e t h f d) k = pending d k"
proof (cases acquired)
  case False
  with assms show ?thesis by (simp add: Cleanup_def)
next
  case True
  define d1 where "d1 = delete_notifications (clk 3 - durationSQL h) (delete_history (clk 2 - durationSQL h)
    (delete_resources (expired_tombstone (clk 1 - durationSQL t)) (delete_resources (expired_event (clk 0 - durationSQL e)) d)))"
  define d2 where "d2 = delete_inbox (clk 5 - durationSQL h) (delete_heads (clk 4 - durationSQL h) d1)"
  have c: "Cleanup acquired clk e t h f d = delete_cache (clk 6 - durationSQL f) d2"
    using True by (simp add: Cleanup_def Let_def d1_def d2_def)
  have "queue_ok d1 = queue_ok d" "watermark d1 k = watermark d k" "pending d1 k = pending d k"
    by (rule queue_ok_frame; simp add: d1_def)+
  moreover from this assms have q: "queue_ok d1" by simp
  moreover note heads = queue_ok_delete_heads [OF q, of "clk 4 - durationSQL h" k]
  moreover have "queue_ok d2" using heads queue_ok_delete_inbox by (simp add: d2_def)
  moreover have "watermark d2 k = watermark (delete_heads (clk 4 - durationSQL h) d1) k"
    unfolding d2_def by (rule watermark_cong) simp
  moreover have "pending d2 k = pending d1 k"
    unfolding d2_def using pending_cong [of "delete_heads (clk 4 - durationSQL h) d1" d1] by simp
  moreover have "queue_ok (delete_cache x d2) = queue_ok d2" "watermark (delete_cache x d2) k = watermark d2 k"
      "pending (delete_cache x d2) k = pending d2 k" for x
    by (rule queue_ok_frame; simp)+
  ultimately show ?thesis unfolding c by simp
qed

lemma map_of_kept:
  "distinct (map fst m) \<Longrightarrow> map_of (filter (\<lambda>(k, x). \<not> p x) m) i = (case map_of m i of None \<Rightarrow> None | Some x \<Rightarrow> if p x then None else Some x)"
proof (induction m)
  case (Cons kx m)
  obtain k x where kx: "kx = (k, x)" by fastforce
  with Cons.prems have "map_of m k = None" by (simp add: map_of_eq_None_iff)
  with Cons show ?case by (auto simp: kx split: option.splits)
qed simp

text \<open>C35: Retention loses no work: whatever the retention times, \<open>Cleanup\<close> keeps the tables' invariants, every shard's
  pending events, every reconcile watermark and every undelivered notification. Of the resources it deletes
  exactly those whose deletion is older than the tombstone retention and, live or not, the Kubernetes \<open>Event\<close>
  objects (of groups \<open>core\<close> and \<open>events.k8s.io\<close>) not observed within the event retention; every other row stays
  as it is, so every live resource that is no Kubernetes event is kept.\<close>

theorem Cleanup_keeps_work:
  assumes "queue_ok d" and "inventory_ok d"
  shows "let d' = Cleanup acquired clk e t h f d in
      queue_ok d' \<and> inventory_ok d'
      \<and> (\<forall>k. pending d' k = pending d k \<and> watermark d' k = watermark d k)
      \<and> filter (\<lambda>b. ob_delivered b = None) (t_outbox d') = filter (\<lambda>b. ob_delivered b = None) (t_outbox d)
      \<and> (\<forall>i. lookup_resource d' i = (case lookup_resource d i of None \<Rightarrow> None
          | Some x \<Rightarrow> if acquired \<and> ((\<exists>gone. r_deleted (rr_res x) = Some gone \<and> gone < clk 1 - durationSQL t)
              \<or> to_lower (r_kind (rr_res x)) = ''event'' \<and> r_group (rr_res x) \<in> {''core'', ''events.k8s.io''}
                \<and> r_observed (rr_res x) < clk 0 - durationSQL e)
            then None else Some x))"
proof -
  let ?d = "Cleanup acquired clk e t h f d"
  have undelivered: "filter (\<lambda>b. ob_delivered b = None) (filter (\<lambda>b. \<not> before (ob_delivered b) c) bs) =
      filter (\<lambda>b. ob_delivered b = None) bs" for c bs
    by (induction bs) (auto simp: before_def)
  have "t_outbox ?d = (if acquired then filter (\<lambda>b. \<not> before (ob_delivered b) (clk 3 - durationSQL h)) (t_outbox d) else t_outbox d)"
    by (simp add: Cleanup_def Let_def) (simp add: delete_notifications_def)
  then have out: "filter (\<lambda>b. ob_delivered b = None) (t_outbox ?d) = filter (\<lambda>b. ob_delivered b = None) (t_outbox d)"
    by (cases acquired) (simp_all only: if_True if_False undelivered)
  have del: "lookup_resource (delete_resources p c) i = (case lookup_resource c i of None \<Rightarrow> None | Some x \<Rightarrow> if p x then None else Some x)"
    if "inventory_ok c" for p c i
  proof -
    have "distinct (map fst (t_resources c))" using that unfolding inventory_ok_def rows_ok_iff by blast
    from map_of_kept [OF this] show ?thesis by (simp add: lookup_resource_def delete_resources_def)
  qed
  have res: "lookup_resource ?d i = (case lookup_resource d i of None \<Rightarrow> None
      | Some x \<Rightarrow> if acquired \<and> (expired_tombstone (clk 1 - durationSQL t) x \<or> expired_event (clk 0 - durationSQL e) x) then None else Some x)" for i
  proof (cases acquired)
    case True
    then have "lookup_resource ?d i = lookup_resource (delete_resources (expired_tombstone (clk 1 - durationSQL t))
        (delete_resources (expired_event (clk 0 - durationSQL e)) d)) i"
      by (simp add: Cleanup_def Let_def lookup_resource_def)
    with True show ?thesis unfolding del [OF delete_resources_ok [OF assms(2)]] del [OF assms(2)]
      by (simp split: option.splits)
  qed (simp add: Cleanup_def split: option.splits)
  have "expired_tombstone c x \<longleftrightarrow> (\<exists>gone. r_deleted (rr_res x) = Some gone \<and> gone < c)" for c x
    by (auto simp: expired_tombstone_def before_def split: option.splits)
  note res = res [unfolded this expired_event_def]
  show ?thesis
    unfolding Let_def using Cleanup_queue [OF assms(1)] Cleanup_ok [OF assms(2)] out res by blast
qed

theorem Cleanup_keeps_work_witness:
  "map ie_id (pending (Cleanup True (\<lambda>i. 900) 1 1 1 1 (sample_inbox (valid_sample ''a''))) (''prod'', ''pods'')) = [''e1'']"
proof -
  let ?d = "sample_inbox (valid_sample ''a'')"
  have "queue_ok ?d" by (rule Enqueue_queue_ok [OF queue_ok_empty sample_enqueue [OF valid_sample_a]])
  moreover have "inventory_ok ?d"
    by (simp add: sample_inbox_eq [OF valid_sample_a] inventory_ok_def rows_ok_def owners_ok_def outbox_ids_ok_def
        change_ids_ok_def empty_db_def)
  moreover have "map ie_id (pending ?d (''prod'', ''pods'')) = [''e1'']"
    by (simp add: sample_inbox_eq [OF valid_sample_a] pending_def is_pending_def new_event_def)
  ultimately show ?thesis
    using Cleanup_keeps_work [of ?d True "\<lambda>i. 900" 1 1 1 1] unfolding Let_def by simp
qed

end
