(* ===== verification/GoStrings.thy ===== *)
theory GoStrings
  imports Utf8
begin

text \<open>
  Functions of Go's \<open>strings\<close> and \<open>net/url\<close> several components call: \<open>TrimSpace\<close> and \<open>TrimRight\<close>,
  the conversion of a string to runes (an ill-formed byte becomes U+FFFD) and query escaping.
\<close>

section \<open>Trimming\<close>

text \<open>The UTF-8 encodings of the characters with Unicode's White_Space property.\<close>

definition space_runes :: "string list" where
  "space_runes = [[CHR 0x09], [CHR 0x0A], [CHR 0x0B], [CHR 0x0C], [CHR 0x0D], [CHR 0x20],
     [CHR 0xC2, CHR 0x85], [CHR 0xC2, CHR 0xA0], [CHR 0xE1, CHR 0x9A, CHR 0x80],
     [CHR 0xE2, CHR 0x80, CHR 0x80], [CHR 0xE2, CHR 0x80, CHR 0x81], [CHR 0xE2, CHR 0x80, CHR 0x82],
     [CHR 0xE2, CHR 0x80, CHR 0x83], [CHR 0xE2, CHR 0x80, CHR 0x84], [CHR 0xE2, CHR 0x80, CHR 0x85],
     [CHR 0xE2, CHR 0x80, CHR 0x86], [CHR 0xE2, CHR 0x80, CHR 0x87], [CHR 0xE2, CHR 0x80, CHR 0x88],
     [CHR 0xE2, CHR 0x80, CHR 0x89], [CHR 0xE2, CHR 0x80, CHR 0x8A], [CHR 0xE2, CHR 0x80, CHR 0xA8],
     [CHR 0xE2, CHR 0x80, CHR 0xA9], [CHR 0xE2, CHR 0x80, CHR 0xAF], [CHR 0xE2, CHR 0x81, CHR 0x9F],
     [CHR 0xE3, CHR 0x80, CHR 0x80]]"

text \<open>Drop prefixes out of a list of words, as long as one applies.\<close>

function trim_with :: "string list \<Rightarrow> string \<Rightarrow> string" where
  "trim_with ps s = (case find (\<lambda>p. p \<noteq> [] \<and> has_prefix s p) ps of
     None \<Rightarrow> s | Some p \<Rightarrow> trim_with ps (drop (length p) s))"
  by pat_completeness auto
termination
  by (relation "measure (\<lambda>(ps, s). length s)") (auto simp: find_Some_iff has_prefix_iff)

declare trim_with.simps [simp del]

definition TrimSpace :: "string \<Rightarrow> string" where
  "TrimSpace s = rev (trim_with (map rev space_runes) (rev (trim_with space_runes s)))"

definition TrimRight :: "string \<Rightarrow> string \<Rightarrow> string" where
  \<comment> \<open>For a cut set of ASCII characters.\<close>
  "TrimRight s cutset = rev (dropWhile (\<lambda>c. c \<in> set cutset) (rev s))"

lemma trim_with_suffix: "\<exists>a. s = a @ trim_with ps s"
proof (induction ps s rule: trim_with.induct)
  case (1 ps s)
  show ?case
  proof (cases "find (\<lambda>p. p \<noteq> [] \<and> has_prefix s p) ps")
    case None
    then show ?thesis by (simp add: trim_with.simps [of ps s])
  next
    case (Some p)
    from 1 [OF Some] obtain a where "drop (length p) s = a @ trim_with ps (drop (length p) s)" by blast
    moreover have "trim_with ps s = trim_with ps (drop (length p) s)"
      by (subst trim_with.simps) (simp add: Some)
    ultimately have "take (length p) s @ drop (length p) s = (take (length p) s @ a) @ trim_with ps s"
      by simp
    then show ?thesis unfolding append_take_drop_id by blast
  qed
qed

lemma set_trim_with: "set (trim_with ps s) \<subseteq> set s"
  using trim_with_suffix [of s ps] by (metis Un_upper2 set_append)

lemma set_TrimSpace: "set (TrimSpace s) \<subseteq> set s"
  unfolding TrimSpace_def
  using set_trim_with [of "map rev space_runes" "rev (trim_with space_runes s)"] set_trim_with [of space_runes s] by auto

section \<open>Runes\<close>

definition replacement :: string where
  "replacement = [CHR 0xEF, CHR 0xBF, CHR 0xBD]"

function runes :: "string \<Rightarrow> string list" where
  "runes [] = []"
| "runes (c # s) = (case rune_len (c # s) of
     None \<Rightarrow> replacement # runes s
   | Some n \<Rightarrow> take n (c # s) # runes (drop n (c # s)))"
  by pat_completeness auto
termination
  by (relation "measure length") (auto dest: rune_len_pos simp del: rune_len.simps)

declare runes.simps(2) [simp del]

lemma set_runes: "set (concat (runes s)) \<subseteq> set s \<union> set replacement"
proof (induction s rule: runes.induct)
  case 1
  then show ?case by simp
next
  case (2 c s)
  show ?case
  proof (cases "rune_len (c # s)")
    case None
    with 2(1) show ?thesis by (auto simp: runes.simps(2))
  next
    case (Some n)
    have "set (take n (c # s)) \<union> set (drop n (c # s)) \<subseteq> set (c # s)"
      using set_take_subset set_drop_subset by fast
    with Some 2(2) [OF Some] show ?thesis by (auto simp: runes.simps(2))
  qed
qed

lemma concat_runes_id: "valid_utf8 s \<Longrightarrow> concat (runes s) = s"
proof (induction s rule: runes.induct)
  case 1
  then show ?case by simp
next
  case (2 c s)
  then obtain n where n: "rune_len (c # s) = Some n"
    by (subst (asm) valid_utf8.simps) (auto split: option.splits simp del: rune_len.simps)
  with 2 have "concat (runes (drop n (c # s))) = drop n (c # s)"
    using valid_utf8_step by blast
  with n show ?case by (simp add: runes.simps(2) del: rune_len.simps)
qed

text \<open>Splitting what was split gives the same runes.\<close>

lemma rune_len_runes: "r \<in> set (runes s) \<Longrightarrow> rune_len r = Some (length r)"
proof (induction s rule: runes.induct)
  case 1
  then show ?case by simp
next
  case (2 c s)
  show ?case
  proof (cases "rune_len (c # s)")
    case None
    have "rune_len replacement = Some (length replacement)" by code_simp
    with None 2 show ?thesis by (auto simp: runes.simps(2) simp del: rune_len.simps)
  next
    case (Some n)
    have "rune_len (take n (c # s)) = Some n" by (rule rune_len_take [OF Some]) simp
    moreover have "length (take n (c # s)) = n" using rune_len_pos [OF Some] by simp
    ultimately show ?thesis
      using Some 2 by (auto simp: runes.simps(2) simp del: rune_len.simps take_Suc_Cons drop_Suc_Cons length_take)
  qed
qed

lemma runes_concat:
  assumes "\<And>r. r \<in> set rs \<Longrightarrow> rune_len r = Some (length r)"
  shows "runes (concat rs) = rs"
  using assms
proof (induction rs)
  case Nil
  then show ?case by simp
next
  case (Cons r rs)
  have r: "rune_len r = Some (length r)" by (rule Cons.prems) simp
  then obtain c t where ct: "r = c # t" by (cases r) auto
  have "rune_len (c # t @ concat rs) = Some (length r)"
    using rune_len_append [OF r, of "concat rs"] by (simp add: ct del: rune_len.simps)
  then have "runes (r @ concat rs) = take (length r) (r @ concat rs) # runes (drop (length r) (r @ concat rs))"
    by (simp add: ct runes.simps(2) del: rune_len.simps)
  with Cons show ?case by simp
qed

lemma runes_take: "runes (concat (take n (runes s))) = take n (runes s)"
  by (rule runes_concat) (rule rune_len_runes, erule in_set_takeD)

section \<open>Query strings\<close>

definition unreserved :: "char \<Rightarrow> bool" where
  "unreserved c \<longleftrightarrow> (CHR ''a'' \<le> c \<and> c \<le> CHR ''z'') \<or> (CHR ''A'' \<le> c \<and> c \<le> CHR ''Z'')
     \<or> (CHR ''0'' \<le> c \<and> c \<le> CHR ''9'') \<or> c \<in> set ''-_.~''"

definition upper_hex :: "nat \<Rightarrow> char" where
  "upper_hex n = ''0123456789ABCDEF'' ! n"

definition QueryEscape :: "string \<Rightarrow> string" where
  "QueryEscape s = concat (map (\<lambda>c. if unreserved c then [c] else if c = CHR 0x20 then ''+''
     else [CHR 0x25, upper_hex (of_char c div 16), upper_hex (of_char c mod 16)]) s)"

end
