(* ===== verification/Outbox.thy ===== *)
theory Outbox
  imports Retention GoStrings
begin

text \<open>
  \<open>internal/v2/notifier/notifier.go\<close>: the outbox a notifier claims one event from at a time, sends
  to Icinga Notifications and acknowledges or puts off. \<open>identity\<close> names the replica, \<open>now\<close> is
  the database clock and \<open>locked\<close> the rows other statements hold. \<open>uuid.NewSHA1\<close> and the limit
  \<open>event.MaxSummaryLen\<close> of the Notifications library are arguments; the delivery itself is the
  argument \<open>sent\<close>, an error message or success.
\<close>

definition claimDuration :: duration where
  "claimDuration = seconds 30"

section \<open>Claim, Delivered, Retry\<close>

definition update_outbox :: "(outbox_row \<Rightarrow> bool) \<Rightarrow> (outbox_row \<Rightarrow> outbox_row) \<Rightarrow> db \<Rightarrow> db" where
  "update_outbox p f d = d\<lparr>t_outbox := map (\<lambda>b. if p b then f b else b) (t_outbox d)\<rparr>"

definition candidate :: "time \<Rightarrow> outbox_row list \<Rightarrow> outbox_row \<Rightarrow> bool" where
  "candidate now bs b \<longleftrightarrow> ob_delivered b = None \<and> ob_available b \<le> now
     \<and> (case ob_claimed_until b of None \<Rightarrow> True | Some t \<Rightarrow> t < now)
     \<and> \<not> list_ex (\<lambda>e. ob_resource e = ob_resource b \<and> ob_id e < ob_id b \<and> ob_delivered e = None) bs"

definition claim_row :: "time \<Rightarrow> string \<Rightarrow> outbox_row \<Rightarrow> outbox_row" where
  "claim_row now identity b = b\<lparr>ob_claimed_by := Some identity,
     ob_claimed_until := Some (now + claimDuration), ob_attempts := ob_attempts b + 1\<rparr>"

definition Claim :: "time \<Rightarrow> int set \<Rightarrow> string \<Rightarrow> db \<Rightarrow> outbox_row option \<times> db" where
  "Claim now locked identity d =
     (case sort_key ob_id (filter (\<lambda>b. candidate now (t_outbox d) b \<and> ob_id b \<notin> locked) (t_outbox d)) of
        [] \<Rightarrow> (None, d)
      | b # _ \<Rightarrow> (Some (claim_row now identity b),
                 update_outbox (\<lambda>e. ob_id e = ob_id b) (claim_row now identity) d))"

definition holds :: "int \<Rightarrow> string \<Rightarrow> outbox_row \<Rightarrow> bool" where
  "holds i identity b \<longleftrightarrow> ob_id b = i \<and> ob_claimed_by b = Some identity \<and> ob_delivered b = None"

definition Delivered :: "time \<Rightarrow> int \<Rightarrow> string \<Rightarrow> db \<Rightarrow> (store_error + unit) \<times> db" where
  "Delivered now i identity d =
     (let n = length (filter (holds i identity) (t_outbox d))
      in (if n \<noteq> 1 then Inl ClaimLost else Inr (),
          update_outbox (holds i identity)
            (\<lambda>b. b\<lparr>ob_delivered := Some now, ob_claimed_by := None, ob_claimed_until := None, ob_error := None\<rparr>) d))"

text \<open>
  \<open>last_error\<close> is a text column, so PostgreSQL refuses a message that the cut at 4096 bytes has
  made ill-formed; the statement then changes nothing.
\<close>

definition retry_delay :: "int \<Rightarrow> duration" where
  "retry_delay attempts = min (minutes 1) (seconds (2 ^ nat (min attempts 6)))"

definition retry_message :: "string \<Rightarrow> string" where
  "retry_message cause = (if length cause > 4096 then take 4096 cause else cause)"

definition Retry :: "time \<Rightarrow> int \<Rightarrow> string \<Rightarrow> string \<Rightarrow> db \<Rightarrow> store_error + db" where
  "Retry now i identity cause d =
     (if \<not> valid_utf8 (retry_message cause) then Inl (PgError ''invalid byte sequence for encoding UTF8'')
      else Inr (update_outbox (holds i identity)
            (\<lambda>b. b\<lparr>ob_available := now + retry_delay (ob_attempts b), ob_claimed_by := None,
                  ob_claimed_until := None, ob_error := Some (retry_message cause)\<rparr>) d))"

section \<open>The event\<close>

datatype severity = SeverityOK | SeverityCritical | SeverityWarning

definition severity :: "string \<Rightarrow> severity" where
  "severity st =
     (let s = to_lower st
      in if s = ''ok'' then SeverityOK else if s = ''critical'' then SeverityCritical
         else if s = ''warning'' \<or> s = ''unknown'' then SeverityWarning else SeverityWarning)"

definition eventSummary :: "nat \<Rightarrow> string \<Rightarrow> string \<Rightarrow> string" where
  "eventSummary max_len message st =
     (let lines = map (\<lambda>c. if c = CHR 0x0D then CHR 0x0A else c) message;
          first = TrimSpace (takeWhile (\<lambda>c. c \<noteq> CHR 0x0A) lines);
          summary = (if first = [] then ''Kubernetes resource state is '' @ st else first)
      in if length (runes summary) > max_len then concat (take max_len (runes summary)) else summary)"

record event =
  ev_id :: string
  ev_name :: string
  ev_url :: string
  ev_tags :: "(string, string) gomap"
  ev_severity :: severity
  ev_summary :: string
  ev_message :: string
  ev_incident :: "bool option"
  ev_relations :: json
  ev_complete :: "string list"
  ev_close :: "bool option"

definition makeEvent :: "(string \<Rightarrow> string) \<Rightarrow> nat \<Rightarrow> outbox_row \<Rightarrow> string \<Rightarrow> event" where
  "makeEvent new_sha1 max_len b webURL =
     (let displayName = (if ob_namespace b \<noteq> [] then ob_namespace b @ ''/'' @ ob_name b else ob_name b);
          displayName = ob_kind b @ '' '' @ displayName;
          message = (if ob_reason b = [] then ''Kubernetes resource state is '' @ ob_state b else ob_reason b);
          identity = json_encode (JArr [JStr ''icinga-kubernetes'', JStr (ob_cluster b), JStr (ob_resource b), JInt (ob_id b)])
      in \<lparr>ev_id = new_sha1 identity, ev_name = displayName,
          ev_url = TrimRight webURL ''/'' @ ''/kubernetes/resources/show?cluster='' @ QueryEscape (ob_cluster b)
            @ ''&id='' @ QueryEscape (ob_resource b),
          ev_tags = [(''cluster'', ob_cluster b), (''resource_id'', ob_resource b)],
          ev_severity = severity (ob_state b), ev_summary = eventSummary max_len message (ob_state b),
          ev_message = message, ev_incident = Some True,
          ev_relations = JObj [(''kubernetes'', JObj [(''cluster'', JStr (ob_cluster b)), (''group'', JStr (ob_group b)),
            (''version'', JStr (ob_version b)), (''kind'', JStr (ob_kind b)), (''namespace'', JStr (ob_namespace b)),
            (''name'', JStr (ob_name b)), (''labels'', JObj (map (\<lambda>(k, v). (k, JStr v)) (ob_labels b))),
            (''state'', JStr (ob_state b)), (''reason'', JStr (ob_reason b))])],
          ev_complete = [''kubernetes''],
          ev_close = (if ob_action b = ''delete'' \<or> ob_state b = ''ok'' then Some True else None)\<rparr>)"

section \<open>Facts\<close>

lemma update_outbox_simps [simp]:
  "t_outbox (update_outbox p f d) = map (\<lambda>b. if p b then f b else b) (t_outbox d)"
  "next_outbox (update_outbox p f d) = next_outbox d"
  by (simp_all add: update_outbox_def)

lemma claim_row_simps [simp]:
  "ob_id (claim_row now i b) = ob_id b" "ob_resource (claim_row now i b) = ob_resource b"
  "ob_delivered (claim_row now i b) = ob_delivered b" "ob_claimed_by (claim_row now i b) = Some i"
  by (simp_all add: claim_row_def)

lemma ClaimE:
  assumes "Claim now locked identity d = (Some b', d')"
  obtains b where "b \<in> set (t_outbox d)" "candidate now (t_outbox d) b" "ob_id b \<notin> locked"
    "b' = claim_row now identity b"
    "d' = update_outbox (\<lambda>e. ob_id e = ob_id b) (claim_row now identity) d"
    "\<And>e. e \<in> set (t_outbox d) \<Longrightarrow> candidate now (t_outbox d) e \<Longrightarrow> ob_id e \<notin> locked \<Longrightarrow> ob_id b \<le> ob_id e"
proof -
  let ?xs = "sort_key ob_id (filter (\<lambda>b. candidate now (t_outbox d) b \<and> ob_id b \<notin> locked) (t_outbox d))"
  from assms obtain b rest where xs: "?xs = b # rest" and b: "b' = claim_row now identity b"
    "d' = update_outbox (\<lambda>e. ob_id e = ob_id b) (claim_row now identity) d"
    by (auto simp: Claim_def split: list.splits)
  have "set ?xs = {b \<in> set (t_outbox d). candidate now (t_outbox d) b \<and> ob_id b \<notin> locked}" by auto
  moreover have "sorted (map ob_id ?xs)" by simp
  ultimately show ?thesis using that [of b] b unfolding xs by fastforce
qed

lemma candidate_first:
  assumes "candidate now bs b" and "e \<in> set bs" and "ob_resource e = ob_resource b" and "ob_id e < ob_id b"
  shows "ob_delivered e \<noteq> None"
  using assms by (auto simp: candidate_def list_ex_iff)

section \<open>Replicas delivering\<close>

text \<open>
  \<open>Run\<close> of any number of replicas, with everything that can happen between two of its calls: an
  event may be accepted although the answer is lost, a claim may run out and be taken over, a
  replica may die at any point, new events are queued and delivered ones are pruned.
  \<open>ns_sent\<close> lists the rows the Notifications API has accepted, in order.
\<close>

datatype phase = Idle | Sending outbox_row | Sent outbox_row | Failed outbox_row string

record notifiers =
  ns_db :: db
  ns_phase :: "string \<Rightarrow> phase"
  ns_sent :: "outbox_row list"

inductive notifier_step :: "notifiers \<Rightarrow> notifiers \<Rightarrow> bool" where
  claim: "ns_phase s i = Idle \<Longrightarrow> Claim now locked i (ns_db s) = (Some b, d) \<Longrightarrow>
    notifier_step s (s\<lparr>ns_db := d, ns_phase := (ns_phase s)(i := Sending b)\<rparr>)"
| accept: "ns_phase s i = Sending b \<Longrightarrow>
    notifier_step s (s\<lparr>ns_sent := ns_sent s @ [b], ns_phase := (ns_phase s)(i := Sent b)\<rparr>)"
| accept_unanswered: "ns_phase s i = Sending b \<Longrightarrow>
    notifier_step s (s\<lparr>ns_sent := ns_sent s @ [b], ns_phase := (ns_phase s)(i := Failed b err)\<rparr>)"
| reject: "ns_phase s i = Sending b \<Longrightarrow>
    notifier_step s (s\<lparr>ns_phase := (ns_phase s)(i := Failed b err)\<rparr>)"
| acknowledge: "ns_phase s i = Sent b \<Longrightarrow> Delivered now (ob_id b) i (ns_db s) = (Inr (), d) \<Longrightarrow>
    notifier_step s (s\<lparr>ns_db := d, ns_phase := (ns_phase s)(i := Idle)\<rparr>)"
| claim_lost: "ns_phase s i = Sent b \<Longrightarrow> Delivered now (ob_id b) i (ns_db s) = (Inl e, d) \<Longrightarrow>
    notifier_step s (s\<lparr>ns_db := d, ns_phase := (ns_phase s)(i := Failed b err)\<rparr>)"
| retry: "ns_phase s i = Failed b err \<Longrightarrow> Retry now (ob_id b) i err (ns_db s) = Inr d \<Longrightarrow>
    notifier_step s (s\<lparr>ns_db := d, ns_phase := (ns_phase s)(i := Idle)\<rparr>)"
| retry_failed: "ns_phase s i = Failed b err \<Longrightarrow>
    notifier_step s (s\<lparr>ns_phase := (ns_phase s)(i := Idle)\<rparr>)"
| crash: "notifier_step s (s\<lparr>ns_phase := (ns_phase s)(i := Idle)\<rparr>)"
| queue: "notifier_step s (s\<lparr>ns_db := insert_outbox now action r (ns_db s)\<rparr>)"
| prune: "notifier_step s (s\<lparr>ns_db := delete_notifications cutoff (ns_db s)\<rparr>)"

text \<open>
  Before an event of a resource is in a replica's hands or delivered, all earlier ones are
  delivered; what is delivered was accepted; what was accepted came after the earlier events.
\<close>

definition settled :: "outbox_row list \<Rightarrow> outbox_row \<Rightarrow> bool" where
  "settled bs b \<longleftrightarrow> (\<forall>e \<in> set bs. ob_resource e = ob_resource b \<longrightarrow> ob_id e < ob_id b \<longrightarrow> ob_delivered e \<noteq> None)"

fun in_hand :: "phase \<Rightarrow> outbox_row option" where
  "in_hand (Sending b) = Some b"
| "in_hand (Sent b) = Some b"
| "in_hand _ = None"

definition accepted_in_order :: "outbox_row list \<Rightarrow> outbox_row list \<Rightarrow> bool" where
  "accepted_in_order bs sent \<longleftrightarrow> (\<forall>j < length sent. \<forall>e \<in> set bs.
     ob_resource e = ob_resource (sent ! j) \<longrightarrow> ob_id e < ob_id (sent ! j) \<longrightarrow>
     ob_id e \<in> ob_id ` set (take j sent))"

definition notifiers_ok :: "notifiers \<Rightarrow> bool" where
  "notifiers_ok s \<longleftrightarrow> (let bs = t_outbox (ns_db s); n = next_outbox (ns_db s) in
     outbox_ids_ok bs n
     \<and> (\<forall>b \<in> set bs. ob_delivered b \<noteq> None \<longrightarrow> ob_id b \<in> ob_id ` set (ns_sent s))
     \<and> (\<forall>i b. in_hand (ns_phase s i) = Some b \<longrightarrow> settled bs b \<and> ob_id b < n)
     \<and> (\<forall>i b. ns_phase s i = Sent b \<longrightarrow> b \<in> set (ns_sent s))
     \<and> (\<forall>b \<in> set (ns_sent s). ob_id b < n)
     \<and> accepted_in_order bs (ns_sent s))"

lemmas notifiers_ok_unfold = notifiers_ok_def Let_def

lemma outbox_ids_map:
  "(\<And>b. ob_id (f b) = ob_id b) \<Longrightarrow> outbox_ids_ok (map f bs) n = outbox_ids_ok bs n"
  by (simp add: outbox_ids_ok_def comp_def)

text \<open>What a step may do to the rows: keep id and resource of each, never undo a delivery.\<close>

definition keeps_rows :: "(outbox_row \<Rightarrow> outbox_row) \<Rightarrow> bool" where
  "keeps_rows f \<longleftrightarrow> (\<forall>b. ob_id (f b) = ob_id b \<and> ob_resource (f b) = ob_resource b
     \<and> (ob_delivered b \<noteq> None \<longrightarrow> ob_delivered (f b) \<noteq> None))"

lemma settled_map: "keeps_rows f \<Longrightarrow> settled bs b \<Longrightarrow> settled (map f bs) b"
  by (auto simp: settled_def keeps_rows_def)

lemma in_order_map: "keeps_rows f \<Longrightarrow> accepted_in_order bs sent \<Longrightarrow> accepted_in_order (map f bs) sent"
  by (auto simp: accepted_in_order_def keeps_rows_def)

lemma in_order_accept:
  assumes "accepted_in_order bs sent" and "settled bs b"
    and "\<forall>e \<in> set bs. ob_delivered e \<noteq> None \<longrightarrow> ob_id e \<in> ob_id ` set sent"
  shows "accepted_in_order bs (sent @ [b])"
  unfolding accepted_in_order_def
proof (intro allI impI ballI)
  fix j e
  assume j: "j < length (sent @ [b])" and e: "e \<in> set bs" "ob_resource e = ob_resource ((sent @ [b]) ! j)"
    "ob_id e < ob_id ((sent @ [b]) ! j)"
  show "ob_id e \<in> ob_id ` set (take j (sent @ [b]))"
  proof (cases "j < length sent")
    case True
    with assms(1) e show ?thesis by (simp add: accepted_in_order_def nth_append)
  next
    case False
    with j have "j = length sent" by simp
    with e assms(2,3) show ?thesis by (simp add: settled_def)
  qed
qed

lemma notifiers_ok_update:
  assumes ok: "notifiers_ok s" and f: "keeps_rows f"
    and new: "\<And>b. b \<in> set (t_outbox (ns_db s)) \<Longrightarrow> ob_delivered (f b) \<noteq> None \<Longrightarrow>
                ob_delivered b \<noteq> None \<or> ob_id b \<in> ob_id ` set (ns_sent s)"
    and d: "t_outbox d = map f (t_outbox (ns_db s))" "next_outbox d = next_outbox (ns_db s)"
  shows "notifiers_ok (s\<lparr>ns_db := d\<rparr>)"
proof -
  let ?bs = "t_outbox (ns_db s)"
  from ok have parts: "outbox_ids_ok ?bs (next_outbox (ns_db s))"
    "\<forall>b \<in> set ?bs. ob_delivered b \<noteq> None \<longrightarrow> ob_id b \<in> ob_id ` set (ns_sent s)"
    "\<forall>i b. in_hand (ns_phase s i) = Some b \<longrightarrow> settled ?bs b \<and> ob_id b < next_outbox (ns_db s)"
    "\<forall>i b. ns_phase s i = Sent b \<longrightarrow> b \<in> set (ns_sent s)"
    "\<forall>b \<in> set (ns_sent s). ob_id b < next_outbox (ns_db s)" "accepted_in_order ?bs (ns_sent s)"
    unfolding notifiers_ok_unfold by blast+
  have id: "\<And>b. ob_id (f b) = ob_id b" using f by (simp add: keeps_rows_def)
  have "\<forall>b \<in> set (map f ?bs). ob_delivered b \<noteq> None \<longrightarrow> ob_id b \<in> ob_id ` set (ns_sent s)"
    using new parts(2) id by fastforce
  then show ?thesis
    using parts settled_map [OF f] in_order_map [OF f] outbox_ids_map [of f, OF id] d
    unfolding notifiers_ok_unfold by simp
qed

lemma notifiers_ok_idle:
  assumes "notifiers_ok s" and "in_hand p = None"
  shows "notifiers_ok (s\<lparr>ns_phase := (ns_phase s)(i := p)\<rparr>)"
  using assms unfolding notifiers_ok_unfold by auto

lemma notifiers_okD:
  assumes "notifiers_ok s"
  shows "outbox_ids_ok (t_outbox (ns_db s)) (next_outbox (ns_db s))"
    and "\<And>b. b \<in> set (t_outbox (ns_db s)) \<Longrightarrow> ob_delivered b \<noteq> None \<Longrightarrow> ob_id b \<in> ob_id ` set (ns_sent s)"
    and "\<And>i b. in_hand (ns_phase s i) = Some b \<Longrightarrow> settled (t_outbox (ns_db s)) b \<and> ob_id b < next_outbox (ns_db s)"
    and "\<And>i b. ns_phase s i = Sent b \<Longrightarrow> b \<in> set (ns_sent s)"
    and "\<And>b. b \<in> set (ns_sent s) \<Longrightarrow> ob_id b < next_outbox (ns_db s)"
    and "accepted_in_order (t_outbox (ns_db s)) (ns_sent s)"
  using assms unfolding notifiers_ok_unfold by blast+

lemma notifiers_ok_hold:
  assumes "notifiers_ok s" and "in_hand p = Some b"
    and "settled (t_outbox (ns_db s)) b" and "ob_id b < next_outbox (ns_db s)"
    and "\<And>b. p = Sent b \<Longrightarrow> b \<in> set (ns_sent s)"
  shows "notifiers_ok (s\<lparr>ns_phase := (ns_phase s)(i := p)\<rparr>)"
  using assms unfolding notifiers_ok_unfold by auto

lemma notifiers_ok_accept:
  assumes ok: "notifiers_ok s" and b: "settled (t_outbox (ns_db s)) b" "ob_id b < next_outbox (ns_db s)"
  shows "notifiers_ok (s\<lparr>ns_sent := ns_sent s @ [b]\<rparr>)"
proof -
  note parts = notifiers_okD [OF ok]
  have "accepted_in_order (t_outbox (ns_db s)) (ns_sent s @ [b])"
    by (rule in_order_accept [OF parts(6) b(1)]) (use parts(2) in blast)
  moreover have "\<forall>c \<in> set (t_outbox (ns_db s)). ob_delivered c \<noteq> None \<longrightarrow> ob_id c \<in> ob_id ` set (ns_sent s @ [b])"
    using parts(2) by auto
  ultimately show ?thesis
    using parts(1,3,4,5) b(2) unfolding notifiers_ok_unfold by auto
qed

lemma notifiers_ok_queue:
  assumes ok: "notifiers_ok s"
  shows "notifiers_ok (s\<lparr>ns_db := insert_outbox now action r (ns_db s)\<rparr>)"
proof -
  let ?n = "next_outbox (ns_db s)" and ?bs = "t_outbox (ns_db s)"
  let ?b = "outbox_of ?n now action r"
  note parts = notifiers_okD [OF ok]
  have b: "ob_id ?b = ?n" "ob_delivered ?b = None" by (simp_all add: outbox_of_def)
  have "outbox_ids_ok (?bs @ [?b]) (?n + 1)"
    using parts(1) by (force simp: outbox_ids_ok_def sorted_wrt_append b)
  moreover have "settled (?bs @ [?b]) c" if "settled ?bs c" "ob_id c < ?n" for c
    using that by (simp add: settled_def b)
  moreover have "accepted_in_order (?bs @ [?b]) (ns_sent s)"
    unfolding accepted_in_order_def
  proof (intro allI ballI impI)
    fix j e
    assume j: "j < length (ns_sent s)" and e: "e \<in> set (?bs @ [?b])"
      "ob_resource e = ob_resource (ns_sent s ! j)" "ob_id e < ob_id (ns_sent s ! j)"
    have "ob_id (ns_sent s ! j) < ?n" by (rule parts(5)) (rule nth_mem [OF j])
    with e b(1) have "e \<in> set ?bs" by auto
    with j e(2,3) parts(6) show "ob_id e \<in> ob_id ` set (take j (ns_sent s))"
      unfolding accepted_in_order_def by blast
  qed
  ultimately show ?thesis
    using parts(2-5) b(2) unfolding notifiers_ok_unfold insert_outbox_def by fastforce
qed

lemma notifiers_ok_prune:
  assumes ok: "notifiers_ok s"
  shows "notifiers_ok (s\<lparr>ns_db := delete_notifications c (ns_db s)\<rparr>)"
proof -
  note parts = notifiers_okD [OF ok]
  let ?bs = "t_outbox (ns_db s)"
  let ?cs = "filter (\<lambda>b. \<not> before (ob_delivered b) c) ?bs"
  have d: "t_outbox (delete_notifications c (ns_db s)) = ?cs"
    "next_outbox (delete_notifications c (ns_db s)) = next_outbox (ns_db s)"
    by (simp_all add: delete_notifications_def)
  have "outbox_ids_ok ?cs (next_outbox (ns_db s))"
    using parts(1) by (simp add: outbox_ids_ok_def sorted_wrt_filter_map)
  moreover have "settled ?cs b" if "settled ?bs b" for b using that by (simp add: settled_def)
  moreover have "accepted_in_order ?cs (ns_sent s)" using parts(6) by (simp add: accepted_in_order_def)
  ultimately show ?thesis using parts(2-5) unfolding notifiers_ok_unfold by (auto simp: d)
qed

lemma keeps_rows_if: "keeps_rows f \<Longrightarrow> keeps_rows (\<lambda>b. if p b then f b else b)"
  by (simp add: keeps_rows_def)

lemma keeps_rows_statements [simp]:
  "keeps_rows (claim_row now i)"
  "keeps_rows (\<lambda>b. b\<lparr>ob_delivered := Some now, ob_claimed_by := None, ob_claimed_until := None, ob_error := None\<rparr>)"
  "keeps_rows (\<lambda>b. b\<lparr>ob_available := now + retry_delay (ob_attempts b), ob_claimed_by := None,
     ob_claimed_until := None, ob_error := Some msg\<rparr>)"
  by (simp_all add: keeps_rows_def)

lemma notifiers_ok_claim:
  assumes ok: "notifiers_ok s" and c: "Claim now locked i (ns_db s) = (Some b, d)"
  shows "notifiers_ok (s\<lparr>ns_db := d, ns_phase := (ns_phase s)(i := Sending b)\<rparr>)"
  using c
proof (rule ClaimE)
  fix e
  let ?bs = "t_outbox (ns_db s)"
  assume e: "e \<in> set ?bs" "candidate now ?bs e" and b: "b = claim_row now i e"
    and d: "d = update_outbox (\<lambda>x. ob_id x = ob_id e) (claim_row now i) (ns_db s)"
  let ?f = "\<lambda>x. if ob_id x = ob_id e then claim_row now i x else x"
  have s': "notifiers_ok (s\<lparr>ns_db := d\<rparr>)"
    by (rule notifiers_ok_update [where f = ?f, OF ok keeps_rows_if [OF keeps_rows_statements(1)]])
       (simp_all add: d split: if_splits)
  have "settled ?bs b" unfolding settled_def b using candidate_first [OF e(2)] by simp
  then have "settled (map ?f ?bs) b" by (rule settled_map [OF keeps_rows_if [OF keeps_rows_statements(1)]])
  moreover have "ob_id b < next_outbox (ns_db s)"
    using notifiers_okD(1) [OF ok] e(1) by (simp add: b outbox_ids_ok_def)
  ultimately have "notifiers_ok ((s\<lparr>ns_db := d\<rparr>)\<lparr>ns_phase := (ns_phase (s\<lparr>ns_db := d\<rparr>))(i := Sending b)\<rparr>)"
    using notifiers_ok_hold [OF s', of "Sending b" b i] by (simp add: d)
  then show ?thesis by simp
qed

lemma Delivered_accepted:
  assumes "notifiers_ok s" and "b \<in> set (ns_sent s)" and "Delivered now (ob_id b) i (ns_db s) = (res, d)"
  shows "notifiers_ok (s\<lparr>ns_db := d\<rparr>)"
proof (rule notifiers_ok_update [OF assms(1)])
  let ?f = "\<lambda>x. if holds (ob_id b) i x then x\<lparr>ob_delivered := Some now, ob_claimed_by := None,
    ob_claimed_until := None, ob_error := None\<rparr> else x"
  show "keeps_rows ?f" by (rule keeps_rows_if [OF keeps_rows_statements(2)])
  show "t_outbox d = map ?f (t_outbox (ns_db s))" "next_outbox d = next_outbox (ns_db s)"
    using assms(3) by (auto simp: Delivered_def Let_def)
  show "ob_delivered e \<noteq> None \<or> ob_id e \<in> ob_id ` set (ns_sent s)"
    if "e \<in> set (t_outbox (ns_db s))" "ob_delivered (?f e) \<noteq> None" for e
    using that assms(2) by (auto simp: holds_def split: if_splits)
qed

lemma Retry_ok:
  assumes "notifiers_ok s" and "Retry now i identity err (ns_db s) = Inr d"
  shows "notifiers_ok (s\<lparr>ns_db := d\<rparr>)"
proof (rule notifiers_ok_update [OF assms(1)])
  let ?f = "\<lambda>x. if holds i identity x then x\<lparr>ob_available := now + retry_delay (ob_attempts x),
    ob_claimed_by := None, ob_claimed_until := None, ob_error := Some (retry_message err)\<rparr> else x"
  show "keeps_rows ?f" by (rule keeps_rows_if [OF keeps_rows_statements(3)])
  have "d = update_outbox (holds i identity) (\<lambda>x. x\<lparr>ob_available := now + retry_delay (ob_attempts x),
    ob_claimed_by := None, ob_claimed_until := None, ob_error := Some (retry_message err)\<rparr>) (ns_db s)"
    using assms(2) by (simp add: Retry_def split: if_splits)
  then show "t_outbox d = map ?f (t_outbox (ns_db s))" "next_outbox d = next_outbox (ns_db s)" by simp_all
qed (simp split: if_splits)

lemma notifiers_ok_set_idle:
  "notifiers_ok (s\<lparr>ns_db := d\<rparr>) \<Longrightarrow> in_hand p = None \<Longrightarrow>
   notifiers_ok (s\<lparr>ns_db := d, ns_phase := (ns_phase s)(i := p)\<rparr>)"
  using notifiers_ok_idle [of "s\<lparr>ns_db := d\<rparr>" p i] by simp

lemma notifiers_ok_step: "notifier_step s t \<Longrightarrow> notifiers_ok s \<Longrightarrow> notifiers_ok t"
proof (induction rule: notifier_step.induct)
  case (claim s i now locked b d)
  then show ?case by (intro notifiers_ok_claim)
next
  case (accept s i b)
  note hand = notifiers_okD(3) [OF accept(2), of i b]
  have "notifiers_ok (s\<lparr>ns_sent := ns_sent s @ [b]\<rparr>)"
    using hand accept by (intro notifiers_ok_accept) simp_all
  from notifiers_ok_hold [OF this, of "Sent b" b i] show ?case using hand accept(1) by simp
next
  case (accept_unanswered s i b err)
  note hand = notifiers_okD(3) [OF accept_unanswered(2), of i b]
  have "notifiers_ok (s\<lparr>ns_sent := ns_sent s @ [b]\<rparr>)"
    using hand accept_unanswered by (intro notifiers_ok_accept) simp_all
  from notifiers_ok_idle [OF this, of "Failed b err" i] show ?case by simp
next
  case (reject s i b err)
  then show ?case by (intro notifiers_ok_idle) simp_all
next
  case (acknowledge s i b now d)
  then show ?case
    by (intro notifiers_ok_set_idle Delivered_accepted [OF _ notifiers_okD(4)]) simp_all
next
  case (claim_lost s i b now e d)
  then show ?case
    by (intro notifiers_ok_set_idle Delivered_accepted [OF _ notifiers_okD(4)]) simp_all
next
  case (retry s i b err now d)
  then show ?case by (intro notifiers_ok_set_idle Retry_ok) simp_all
next
  case (retry_failed s i b err)
  then show ?case by (intro notifiers_ok_idle) simp_all
next
  case (crash s i)
  then show ?case by (intro notifiers_ok_idle) simp_all
next
  case (queue s now action r)
  then show ?case by (rule notifiers_ok_queue)
next
  case (prune s cutoff)
  then show ?case by (rule notifiers_ok_prune)
qed

definition notifiers_init :: "notifiers \<Rightarrow> bool" where
  "notifiers_init s \<longleftrightarrow> (\<forall>i. ns_phase s i = Idle) \<and> ns_sent s = []
     \<and> outbox_ids_ok (t_outbox (ns_db s)) (next_outbox (ns_db s)) \<and> (\<forall>b \<in> set (t_outbox (ns_db s)). ob_delivered b = None)"

lemma notifiers_init_ok: "notifiers_init s \<Longrightarrow> notifiers_ok s"
  unfolding notifiers_init_def notifiers_ok_unfold accepted_in_order_def by simp

interpretation replicas: machine notifiers_init notifier_step notifiers_ok
  by unfold_locales (fact notifiers_init_ok, rule notifiers_ok_step)

section \<open>Properties\<close>

text \<open>C4: However many replicas deliver, and whatever crashes, lost answers, taken-over claims and
  retention runs happen in between, the Notifications API accepts no event of a resource before
  it has accepted every earlier event of that resource, and an event is marked delivered only
  after it was accepted.\<close>

theorem delivery_in_order:
  assumes "notifiers_init s" and "notifier_step\<^sup>*\<^sup>* s t"
  shows "accepted_in_order (t_outbox (ns_db t)) (ns_sent t)
    \<and> (\<forall>b \<in> set (t_outbox (ns_db t)). ob_delivered b \<noteq> None \<longrightarrow> ob_id b \<in> ob_id ` set (ns_sent t))"
proof -
  have "notifiers_ok t" by (rule replicas.reachable_inv [OF assms])
  then show ?thesis using notifiers_okD(2,6) by blast
qed

text \<open>A claim takes the oldest due event that nobody holds and whose resource has no earlier
  undelivered event, and holds it for 30 seconds: within them no other claim returns it.\<close>

theorem claim_exclusive:
  assumes "Claim now locked i d = (Some b, d')" and "now' \<le> now + claimDuration"
    and "outbox_ids_ok (t_outbox d) n" and "Claim now' locked' j d' = (Some c, d'')"
  shows "(\<exists>e \<in> set (t_outbox d). candidate now (t_outbox d) e \<and> b = claim_row now i e
      \<and> (\<forall>e' \<in> set (t_outbox d). candidate now (t_outbox d) e' \<longrightarrow> ob_id e' \<notin> locked \<longrightarrow> ob_id e \<le> ob_id e'))
    \<and> ob_id c \<noteq> ob_id b \<and> ob_resource c \<noteq> ob_resource b"
  using assms(1)
proof (rule ClaimE)
  fix e
  assume e: "e \<in> set (t_outbox d)" "candidate now (t_outbox d) e" "b = claim_row now i e"
    and d': "d' = update_outbox (\<lambda>x. ob_id x = ob_id e) (claim_row now i) d"
    and first: "\<And>e'. e' \<in> set (t_outbox d) \<Longrightarrow> candidate now (t_outbox d) e' \<Longrightarrow> ob_id e' \<notin> locked \<Longrightarrow> ob_id e \<le> ob_id e'"
  let ?f = "\<lambda>x. if ob_id x = ob_id e then claim_row now i x else x"
  from assms(4) obtain g where g: "g \<in> set (t_outbox d')" "candidate now' (t_outbox d') g" "c = claim_row now' j g"
    by (rule ClaimE) blast
  from g(1) obtain x where x: "x \<in> set (t_outbox d)" "g = ?f x" by (auto simp: d')
  have mine: "?f e \<in> set (t_outbox d')" using e(1) by (auto simp: d')
  have ne: "ob_id x \<noteq> ob_id e"
  proof
    assume "ob_id x = ob_id e"
    with x(2) have "ob_claimed_until g = Some (now + claimDuration)" by (simp add: claim_row_def)
    with g(2) assms(2) show False by (simp add: candidate_def)
  qed
  have "ob_resource x \<noteq> ob_resource e"
  proof
    assume same: "ob_resource x = ob_resource e"
    have "ob_delivered x = None" "ob_delivered e = None" using g(2) x(2) ne e(2) by (simp_all add: candidate_def)
    then show False
      using candidate_first [OF e(2) x(1) same] candidate_first [OF g(2) mine] x(2) ne same by force
  qed
  then show ?thesis using e first x(2) ne g(3) by auto
qed

text \<open>The delay before the next attempt doubles with every attempt, from two seconds after the
  first, and never exceeds one minute.\<close>

theorem retry_delay_bounds:
  assumes "1 \<le> a"
  shows "seconds 2 \<le> retry_delay a \<and> retry_delay a \<le> minutes 1
    \<and> (a \<le> 5 \<longrightarrow> retry_delay a = seconds (2 ^ nat a)) \<and> (6 \<le> a \<longrightarrow> retry_delay a = minutes 1)
    \<and> (\<forall>b. a \<le> b \<longrightarrow> retry_delay a \<le> retry_delay b)"
proof -
  have mono: "retry_delay a \<le> retry_delay b" if "a \<le> b" for a b
  proof -
    have "(2::int) ^ nat (min a 6) \<le> 2 ^ nat (min b 6)" using that by (intro power_increasing) auto
    then show ?thesis unfolding retry_delay_def by linarith
  qed
  have small: "retry_delay a = seconds (2 ^ nat a)" if "a \<le> 5"
  proof -
    have "(2::int) ^ nat a \<le> 2 ^ 5" using that by (intro power_increasing) auto
    then show ?thesis using that by (simp add: retry_delay_def)
  qed
  have large: "retry_delay a = minutes 1" if "6 \<le> a" using that by (simp add: retry_delay_def)
  have "retry_delay 1 = seconds 2" by (simp add: retry_delay_def)
  with mono [OF assms] have "seconds 2 \<le> retry_delay a" by simp
  moreover have "retry_delay a \<le> minutes 1" by (simp add: retry_delay_def)
  ultimately show ?thesis using mono small large by blast
qed

text \<open>Whatever a plugin or condition reported, the summary sent is a single line of at most
  \<open>MaxSummaryLen\<close> characters, and it is empty only if that limit is zero.\<close>

theorem eventSummary_contract:
  assumes "CHR 0x0A \<notin> set st" and "CHR 0x0D \<notin> set st"
  shows "let summary = eventSummary max_len message st in
      CHR 0x0A \<notin> set summary \<and> CHR 0x0D \<notin> set summary
      \<and> length (runes summary) \<le> max_len \<and> (0 < max_len \<longrightarrow> summary \<noteq> [])"
proof -
  let ?lines = "map (\<lambda>c. if c = CHR 0x0D then CHR 0x0A else c) message"
  define first where "first = TrimSpace (takeWhile (\<lambda>c. c \<noteq> CHR 0x0A) ?lines)"
  define raw where "raw = (if first = [] then ''Kubernetes resource state is '' @ st else first)"
  define cut where "cut = (if length (runes raw) > max_len then concat (take max_len (runes raw)) else raw)"
  have cut: "eventSummary max_len message st = cut"
    unfolding eventSummary_def Let_def first_def [symmetric] raw_def [symmetric] cut_def [symmetric] ..
  have "CHR 0x0D \<notin> set ?lines" by (simp add: image_iff)
  then have "CHR 0x0A \<notin> set (takeWhile (\<lambda>c. c \<noteq> CHR 0x0A) ?lines) \<and> CHR 0x0D \<notin> set (takeWhile (\<lambda>c. c \<noteq> CHR 0x0A) ?lines)"
    by (blast dest: set_takeWhileD)
  then have "CHR 0x0A \<notin> set first \<and> CHR 0x0D \<notin> set first"
    using set_TrimSpace unfolding first_def by blast
  then have raw: "CHR 0x0A \<notin> set raw \<and> CHR 0x0D \<notin> set raw" "raw \<noteq> []"
    using assms by (auto simp: raw_def)
  have "set (concat (take max_len (runes raw))) \<subseteq> set (concat (runes raw))"
    using set_take_subset [of max_len "runes raw"] by auto
  then have "set (concat (take max_len (runes raw))) \<subseteq> set raw \<union> set replacement"
    using set_runes [of raw] by blast
  moreover have "CHR 0x0A \<notin> set replacement \<and> CHR 0x0D \<notin> set replacement" by code_simp
  ultimately have "CHR 0x0A \<notin> set cut \<and> CHR 0x0D \<notin> set cut" using raw(1) unfolding cut_def by auto
  moreover have "length (runes cut) \<le> max_len" by (simp add: cut_def runes_take)
  moreover have "cut \<noteq> []" if "0 < max_len"
  proof (cases "length (runes raw) > max_len")
    case True
    with that obtain r rs where "runes raw = r # rs" "0 < max_len" by (cases "runes raw") auto
    moreover from this have "r \<noteq> []" using rune_len_runes [of r raw] rune_len_pos [of r] by fastforce
    ultimately show ?thesis by (cases max_len) (simp_all add: cut_def raw(2))
  qed (simp add: cut_def raw(2))
  ultimately show ?thesis unfolding cut by simp
qed

text \<open>\<open>Retry\<close> cuts the error text at 4096 bytes, not between characters: when a character of two
  or more bytes lies across the cut, PostgreSQL refuses the text, so the event is neither
  released nor put off and its error is not recorded.\<close>

theorem retry_cut_refused:
  assumes "valid_utf8 a" and "rune_len r = Some (length r)"
    and "length a < 4096" and "4096 < length a + length r"
  shows "\<exists>e. Retry now i identity (a @ r @ rest) d = Inl e"
proof -
  have "retry_message (a @ r @ rest) = a @ take (4096 - length a) r"
    using assms(3,4) by (simp add: retry_message_def)
  moreover have "\<not> valid_utf8 (a @ take (4096 - length a) r)"
    by (rule valid_utf8_cut_inside [OF assms(1,2)]) (use assms(3,4) in auto)
  ultimately show ?thesis by (simp add: Retry_def)
qed

section \<open>Concrete runs\<close>

theorem retry_cut_refused_witness:
  "\<exists>e. Retry 0 1 ''replica'' (replicate 4095 CHR ''x'' @ [CHR 0xC3, CHR 0xA9] @ []) empty_db = Inl e"
proof (rule retry_cut_refused)
  show "valid_utf8 (replicate 4095 CHR ''x'')"
    by (rule valid_utf8_ascii) (simp add: byte_in_def)
  show "rune_len [CHR 0xC3, CHR 0xA9] = Some (length [CHR 0xC3, CHR 0xA9])" by code_simp
qed simp_all

theorem eventSummary_contract_witness:
  "let summary = eventSummary 128 ''Back-off restarting'' ''critical'' in
     CHR 0x0A \<notin> set summary \<and> CHR 0x0D \<notin> set summary \<and> length (runes summary) \<le> 128 \<and> summary \<noteq> []"
  using eventSummary_contract [of "''critical''" 128 "''Back-off restarting''"] by (simp add: Let_def)

theorem retry_delay_bounds_witness: "retry_delay 3 = seconds 8 \<and> retry_delay 9 = minutes 1"
  using retry_delay_bounds [of 3] retry_delay_bounds [of 9] by simp

definition sample_outbox :: db where
  "sample_outbox = insert_outbox 0 ''upsert'' (sample ''b'' ''warning'' 1) (insert_outbox 0 ''upsert'' (sample ''a'' ''critical'' 1) empty_db)"

definition sample_claim :: "outbox_row option \<times> db" where
  "sample_claim = Claim 5 {} ''r1'' sample_outbox"

lemma claimed: "fst x \<noteq> None \<Longrightarrow> x = (Some (the (fst x)), snd x)"
  by (cases x) auto

lemma sample_claimed:
  "Claim 5 {} ''r1'' sample_outbox = (Some (the (fst sample_claim)), snd sample_claim)"
  "ob_id (the (fst sample_claim)) = 1"
  unfolding sample_claim_def by (rule claimed, code_simp) code_simp

theorem claim_exclusive_witness:
  "ob_id (the (fst sample_claim)) = 1 \<and> ob_id (the (fst (Claim 6 {} ''r2'' (snd sample_claim)))) \<noteq> 1"
proof -
  have "Claim 6 {} ''r2'' (snd sample_claim) = (Some (the (fst (Claim 6 {} ''r2'' (snd sample_claim)))), snd (Claim 6 {} ''r2'' (snd sample_claim)))"
    by (rule claimed) code_simp
  moreover have "outbox_ids_ok (t_outbox sample_outbox) 3" by code_simp
  ultimately have "ob_id (the (fst (Claim 6 {} ''r2'' (snd sample_claim)))) \<noteq> ob_id (the (fst sample_claim))"
    using claim_exclusive [OF sample_claimed(1), of 6 3 "{}" "''r2''"] by (simp add: claimDuration_def)
  with sample_claimed(2) show ?thesis by simp
qed

definition sample_notifiers :: notifiers where
  "sample_notifiers = \<lparr>ns_db = sample_outbox, ns_phase = (\<lambda>i. Idle), ns_sent = []\<rparr>"

theorem delivery_in_order_witness:
  "\<exists>t. notifier_step\<^sup>*\<^sup>* sample_notifiers t \<and> map ob_id (ns_sent t) = [1]
     \<and> accepted_in_order (t_outbox (ns_db t)) (ns_sent t)"
proof -
  let ?b = "the (fst sample_claim)"
  let ?s = "sample_notifiers\<lparr>ns_db := snd sample_claim, ns_phase := (ns_phase sample_notifiers)(''r1'' := Sending ?b)\<rparr>"
  let ?t = "?s\<lparr>ns_sent := ns_sent ?s @ [?b], ns_phase := (ns_phase ?s)(''r1'' := Sent ?b)\<rparr>"
  have "notifier_step sample_notifiers ?s"
    by (rule notifier_step.claim [where now = 5 and locked = "{}"]) (use sample_claimed in \<open>simp_all add: sample_notifiers_def\<close>)
  moreover have "notifier_step ?s ?t" by (rule notifier_step.accept) simp
  ultimately have run: "notifier_step\<^sup>*\<^sup>* sample_notifiers ?t" by (rule rtranclp.rtrancl_into_rtrancl [OF r_into_rtranclp])
  have "notifiers_init sample_notifiers"
    by (simp add: notifiers_init_def sample_notifiers_def sample_outbox_def insert_outbox_def outbox_of_def
        outbox_ids_ok_def empty_db_def)
  from delivery_in_order [OF this run] have "accepted_in_order (t_outbox (ns_db ?t)) (ns_sent ?t)" ..
  moreover have "map ob_id (ns_sent ?t) = [1]" using sample_claimed(2) by (simp add: sample_notifiers_def)
  ultimately show ?thesis using run by (intro exI [of _ ?t] conjI)
qed

end
