(* ===== verification/Records.thy ===== *)
theory Records
  imports Outbox
begin

text \<open>
  The smaller tables of \<open>internal/v2/store/store.go\<close>: business processes with their generation
  (the \<open>versioned\<close> interface states what the optimistic update promises), the federation cache,
  the change feed the live gateway reads and the status counters.
\<close>

section \<open>Business processes\<close>

definition is_object :: "json \<Rightarrow> bool" where
  "is_object j = (case j of JObj _ \<Rightarrow> True | _ \<Rightarrow> False)"

definition lookup_process :: "db \<Rightarrow> string \<Rightarrow> bp_row option" where
  "lookup_process d name = map_of (t_processes d) name"

definition GetBusinessProcess :: "string \<Rightarrow> db \<Rightarrow> bp_row option" where
  "GetBusinessProcess name d = lookup_process d name"

definition ListBusinessProcesses :: "db \<Rightarrow> (string \<times> int \<times> time) list" where
  "ListBusinessProcesses d = map (\<lambda>(n, p). (n, bp_generation p, bp_updated p))
     (sort_key (\<lambda>(n, p). (to_lower n, n)) (t_processes d))"

definition PutBusinessProcess :: "time \<Rightarrow> string \<Rightarrow> json \<Rightarrow> int \<Rightarrow> db \<Rightarrow> store_error + bp_row \<times> db" where
  "PutBusinessProcess now name def expected d =
     (if expected = 0 then
        (if \<not> is_object def then Inl (PgError ''business_process_definition_check'')
         else case lookup_process d name of Some _ \<Rightarrow> Inl GenerationConflict
           | None \<Rightarrow> (let p = \<lparr>bp_definition = def, bp_generation = 1, bp_updated = now\<rparr>
                     in Inr (p, d\<lparr>t_processes := t_processes d @ [(name, p)]\<rparr>)))
      else case lookup_process d name of None \<Rightarrow> Inl GenerationConflict
        | Some old \<Rightarrow>
            if bp_generation old \<noteq> expected then Inl GenerationConflict
            else if \<not> is_object def then Inl (PgError ''business_process_definition_check'')
            else (let p = old\<lparr>bp_definition := def, bp_generation := bp_generation old + 1, bp_updated := now\<rparr>
                  in Inr (p, d\<lparr>t_processes := AList.update name p (t_processes d)\<rparr>)))"

definition DeleteBusinessProcess :: "string \<Rightarrow> int \<Rightarrow> db \<Rightarrow> store_error + bool \<times> db" where
  "DeleteBusinessProcess name expected d =
     (case lookup_process d name of None \<Rightarrow> Inr (False, d)
      | Some p \<Rightarrow> if bp_generation p = expected then Inr (True, d\<lparr>t_processes := AList.delete name (t_processes d)\<rparr>)
                 else Inl GenerationConflict)"

text \<open>
  What a client of versioned records relies on: \<open>get\<close> returns a value and its version, a \<open>put\<close>
  that names the version it read (0 for a new record) stores the value under the next version,
  and only then.
\<close>

locale versioned =
  fixes get :: "'s \<Rightarrow> 'k \<Rightarrow> ('v \<times> int) option"
    and put :: "'s \<Rightarrow> 'k \<Rightarrow> 'v \<Rightarrow> int \<Rightarrow> 's option"
  assumes put_version: "put s k v n = Some s' \<Longrightarrow> (case get s k of None \<Rightarrow> n = 0 | Some (w, m) \<Rightarrow> m = n \<and> n \<noteq> 0)"
    and put_get: "put s k v n = Some s' \<Longrightarrow> get s' k = Some (v, n + 1)"
    and put_other: "put s k v n = Some s' \<Longrightarrow> l \<noteq> k \<Longrightarrow> get s' l = get s l"
begin

text \<open>Two writers that read the same version: the second one is refused.\<close>

lemma lost_update_refused:
  assumes "put s k v n = Some s'"
  shows "put s' k w n = None"
proof (cases "put s' k w n")
  case (Some s'')
  with put_version [OF Some] put_get [OF assms] show ?thesis by simp
qed simp

text \<open>A run of updates to one record, each naming the version it read.\<close>

inductive updates :: "'k \<Rightarrow> 's \<Rightarrow> ('v \<times> int) list \<Rightarrow> 's \<Rightarrow> bool" for k where
  none: "updates k s [] s"
| refused: "put s k v n = None \<Longrightarrow> updates k s us t \<Longrightarrow> updates k s us t"
| stored: "put s k v n = Some s' \<Longrightarrow> updates k s' us t \<Longrightarrow> updates k s ((v, n) # us) t"
| elsewhere: "l \<noteq> k \<Longrightarrow> put s l v n = Some s' \<Longrightarrow> updates k s' us t \<Longrightarrow> updates k s us t"

lemma updates_versions:
  assumes "updates k s us t"
  shows "map snd us = map (\<lambda>i. (case get s k of None \<Rightarrow> 0 | Some (v, n) \<Rightarrow> n) + int i) [0..<length us]
    \<and> get t k = (if us = [] then get s k
        else Some (fst (last us), (case get s k of None \<Rightarrow> 0 | Some (v, n) \<Rightarrow> n) + int (length us)))"
  using assms
proof (induction rule: updates.induct)
  case (none s)
  then show ?case by simp
next
  case (refused s v n us t)
  then show ?case by simp
next
  case (stored s v n s' us t)
  have n: "n = (case get s k of None \<Rightarrow> 0 | Some (w, m) \<Rightarrow> m)"
    using put_version [OF stored(1)] by (auto split: option.splits)
  have "map snd ((v, n) # us) = map (\<lambda>i. n + int i) (0 # map Suc [0..<length us])"
    using stored(3) put_get [OF stored(1)] by (simp add: comp_def)
  also have "0 # map Suc [0..<length us] = [0..<length ((v, n) # us)]"
    by (simp add: map_Suc_upt upt_conv_Cons del: upt_Suc)
  finally have "map snd ((v, n) # us) = map (\<lambda>i. n + int i) [0..<length ((v, n) # us)]" .
  then show ?case using stored(3) put_get [OF stored(1)] n by auto
next
  case (elsewhere l s v n s' us t)
  then show ?case using put_other [OF elsewhere(2), of k] by simp
qed

end

definition process_get :: "db \<Rightarrow> string \<Rightarrow> (json \<times> int) option" where
  "process_get d name = map_option (\<lambda>p. (bp_definition p, bp_generation p)) (GetBusinessProcess name d)"

definition process_put :: "time \<Rightarrow> db \<Rightarrow> string \<Rightarrow> json \<Rightarrow> int \<Rightarrow> db option" where
  "process_put now d name def expected = (case PutBusinessProcess now name def expected d of
     Inl _ \<Rightarrow> None | Inr (_, d') \<Rightarrow> Some d')"

lemma process_putD:
  assumes "process_put now d name def n = Some d'"
  shows "(case process_get d name of None \<Rightarrow> n = 0 | Some (w, m) \<Rightarrow> m = n \<and> n \<noteq> 0)
    \<and> process_get d' l = (if l = name then Some (def, n + 1) else process_get d l)"
proof (cases "map_of (t_processes d) name")
  case None
  with assms show ?thesis
    by (auto simp: process_put_def PutBusinessProcess_def process_get_def GetBusinessProcess_def
        lookup_process_def Let_def map_add_def split: if_splits option.splits simp del: map_of_eq_None_iff)
next
  case (Some p)
  with assms show ?thesis
    by (auto simp: process_put_def PutBusinessProcess_def process_get_def GetBusinessProcess_def
        lookup_process_def Let_def split: if_splits)
qed

interpretation processes: versioned process_get "process_put now"
proof unfold_locales
  fix s k v n s' l
  assume "process_put now s k v n = Some s'"
  from process_putD [OF this]
  show "case process_get s k of None \<Rightarrow> n = 0 | Some (w, m) \<Rightarrow> m = n \<and> n \<noteq> 0"
    "process_get s' k = Some (v, n + 1)" "l \<noteq> k \<Longrightarrow> process_get s' l = process_get s l"
    by simp_all
qed

section \<open>Federation cache\<close>

definition PutFederationCache ::
  "bool \<Rightarrow> time \<Rightarrow> string \<Rightarrow> string \<Rightarrow> int \<Rightarrow> string \<Rightarrow> string \<Rightarrow> db \<Rightarrow> store_error + db" where
  "PutFederationCache connected now endpoint key status response freshness d =
     (if \<not> connected then Inl (PgError ''database unavailable'')
      else if freshness \<notin> {''live'', ''stale'', ''unavailable''} then Inl (PgError ''federation_cache_freshness_check'')
      else Inr (d\<lparr>t_cache := AList.update (endpoint, key)
             \<lparr>fc_status = status, fc_response = response, fc_freshness = freshness, fc_fetched = now\<rparr> (t_cache d)\<rparr>))"

definition GetFederationCache :: "bool \<Rightarrow> string \<Rightarrow> string \<Rightarrow> db \<Rightarrow> store_error + cache_row" where
  "GetFederationCache connected endpoint key d =
     (if \<not> connected then Inl (PgError ''database unavailable'')
      else case map_of (t_cache d) (endpoint, key) of None \<Rightarrow> Inl (PgError ''no rows'') | Some c \<Rightarrow> Inr c)"

section \<open>Change feed and status\<close>

definition LatestSequence :: "db \<Rightarrow> int" where
  "LatestSequence d = fold max (map ch_seq (t_changes d)) 0"

definition Changes :: "int \<Rightarrow> int \<Rightarrow> db \<Rightarrow> change_row list" where
  "Changes after limit d =
     (let limit = (if limit < 1 \<or> limit > 1000 then 250 else limit)
      in take (nat limit) (sort_key ch_seq (filter (\<lambda>c. ch_seq c > after) (t_changes d))))"

record status =
  st_pending :: int
  st_oldest_event :: "time option"
  st_last_applied :: "time option"
  st_notifications :: nat
  st_failed :: nat
  st_oldest_notification :: "time option"

definition least :: "time list \<Rightarrow> time option" where
  "least ts = (case ts of [] \<Rightarrow> None | t # us \<Rightarrow> Some (fold min us t))"

definition greatest :: "time list \<Rightarrow> time option" where
  "greatest ts = (case ts of [] \<Rightarrow> None | t # us \<Rightarrow> Some (fold max us t))"

definition Status :: "db \<Rightarrow> status" where
  "Status d =
     (let waiting = filter (\<lambda>b. ob_delivered b = None) (t_outbox d)
      in \<lparr>st_pending = sum_list (map (\<lambda>(k, h). hd_pending h) (t_heads d)),
          st_oldest_event = least (concat (map (\<lambda>(k, h). map ie_received
             (filter (\<lambda>x. Some (ie_id x) = hd_event h) (t_ingest d))) (t_heads d))),
          st_last_applied = greatest (concat (map (\<lambda>(k, h). case hd_last_applied h of None \<Rightarrow> [] | Some t \<Rightarrow> [t]) (t_heads d))),
          st_notifications = length waiting,
          st_failed = length (filter (\<lambda>b. ob_error b \<noteq> None) waiting),
          st_oldest_notification = least (map ob_created waiting)\<rparr>)"

section \<open>Properties\<close>

lemma PutBusinessProcess_iff:
  "(\<exists>p d'. PutBusinessProcess now name def n d = Inr (p, d')) \<longleftrightarrow>
     is_object def \<and> (case lookup_process d name of None \<Rightarrow> n = 0 | Some old \<Rightarrow> n = bp_generation old \<and> n \<noteq> 0)"
  by (auto simp: PutBusinessProcess_def Let_def split: option.splits if_splits)

lemma DeleteBusinessProcess_True:
  "DeleteBusinessProcess name n d = Inr (True, d') \<longleftrightarrow>
     (\<exists>old. lookup_process d name = Some old \<and> n = bp_generation old) \<and> d' = d\<lparr>t_processes := AList.delete name (t_processes d)\<rparr>"
  by (auto simp: DeleteBusinessProcess_def split: option.splits if_splits)


text \<open>Generations restart when a process is deleted and created again: a client that read
  generation 1 of the deleted process still overwrites the new one, which it has never seen.\<close>

theorem process_generation_reused:
  assumes "lookup_process d name = None" and "is_object def1" and "is_object def2" and "is_object def3"
  shows "\<exists>p1 d1 d2 p2 d3 p3 d4. PutBusinessProcess t1 name def1 0 d = Inr (p1, d1) \<and> bp_generation p1 = 1
    \<and> DeleteBusinessProcess name 1 d1 = Inr (True, d2)
    \<and> PutBusinessProcess t2 name def2 0 d2 = Inr (p2, d3)
    \<and> PutBusinessProcess t3 name def3 (bp_generation p1) d3 = Inr (p3, d4)
    \<and> process_get d4 name = Some (def3, 2)"
proof -
  let ?p = "\<lambda>def t. \<lparr>bp_definition = def, bp_generation = 1, bp_updated = t\<rparr>"
  let ?d1 = "d\<lparr>t_processes := t_processes d @ [(name, ?p def1 t1)]\<rparr>"
  let ?d2 = "?d1\<lparr>t_processes := AList.delete name (t_processes ?d1)\<rparr>"
  let ?d3 = "?d2\<lparr>t_processes := t_processes ?d2 @ [(name, ?p def2 t2)]\<rparr>"
  let ?p4 = "\<lparr>bp_definition = def3, bp_generation = 2, bp_updated = t3\<rparr>"
  let ?d4 = "?d3\<lparr>t_processes := AList.update name ?p4 (t_processes ?d3)\<rparr>"
  have l1: "lookup_process ?d1 name = Some (?p def1 t1)" and l2: "lookup_process ?d2 name = None"
    using assms(1) by (simp_all add: lookup_process_def map_add_def delete_conv' split: option.splits)
  then have l3: "lookup_process ?d3 name = Some (?p def2 t2)"
    by (simp add: lookup_process_def map_add_def split: option.splits)
  have "PutBusinessProcess t1 name def1 0 d = Inr (?p def1 t1, ?d1)"
    using assms(1,2) by (simp add: PutBusinessProcess_def Let_def)
  moreover have "DeleteBusinessProcess name 1 ?d1 = Inr (True, ?d2)"
    unfolding DeleteBusinessProcess_def l1 by simp
  moreover have "PutBusinessProcess t2 name def2 0 ?d2 = Inr (?p def2 t2, ?d3)"
    unfolding PutBusinessProcess_def l2 Let_def using assms(3) by simp
  moreover have "PutBusinessProcess t3 name def3 (bp_generation (?p def1 t1)) ?d3 = Inr (?p4, ?d4)"
    unfolding PutBusinessProcess_def l3 Let_def using assms(4) by simp
  moreover have "process_get ?d4 name = Some (def3, 2)"
    by (simp add: process_get_def GetBusinessProcess_def lookup_process_def)
  moreover have "bp_generation (?p def1 t1) = 1" by simp
  ultimately show ?thesis by blast
qed

lemma sum_list_indicator: "distinct ks \<Longrightarrow> k \<in> set ks \<Longrightarrow> sum_list (map (\<lambda>l. if k = l then 1 else 0) ks) = (1::nat)"
  by (induction ks) (auto simp: sum_list_eq_0_iff)

lemma sum_groups:
  assumes "distinct ks" and "\<And>x. x \<in> set xs \<Longrightarrow> P x \<Longrightarrow> key x \<in> set ks"
  shows "sum_list (map (\<lambda>k. length (filter (\<lambda>x. key x = k \<and> P x) xs)) ks) = length (filter P xs)"
  using assms(2)
proof (induction xs)
  case Nil
  then show ?case by (simp add: sum_list_eq_0_iff)
next
  case (Cons x xs)
  have "sum_list (map (\<lambda>k. length (filter (\<lambda>x. key x = k \<and> P x) (x # xs))) ks) =
      sum_list (map (\<lambda>k. (if key x = k \<and> P x then 1 else 0) + length (filter (\<lambda>x. key x = k \<and> P x) xs)) ks)"
    by (rule arg_cong [where f = sum_list]) simp
  also have "\<dots> = sum_list (map (\<lambda>k. if key x = k \<and> P x then 1 else 0) ks) + length (filter P xs)"
    using Cons by (simp add: sum_list_addf)
  also have "sum_list (map (\<lambda>k. if key x = k \<and> P x then 1 else 0) ks) = (if P x then 1 else 0 :: nat)"
  proof (cases "P x")
    case True
    with Cons.prems have "key x \<in> set ks" by simp
    from sum_list_indicator [OF assms(1) this] True show ?thesis by simp
  qed (simp add: sum_list_eq_0_iff)
  finally show ?case by simp
qed

text \<open>The pending count \<open>Status\<close> reports is the number of events the inbox has not applied.\<close>

theorem Status_counts_pending:
  assumes "queue_ok d"
  shows "st_pending (Status d) = int (length (filter (\<lambda>x. ie_applied x = None) (t_ingest d)))"
proof -
  let ?key = "\<lambda>x. (ie_cluster x, ie_shard x)"
  from assms have dist: "distinct (map fst (t_heads d))"
    and view: "\<And>k. head_view d k = (first_pending d k, int (length (pending d k)))" unfolding queue_ok_def by blast+
  have "hd_pending h = int (length (pending d k))" if "(k, h) \<in> set (t_heads d)" for k h
    using that dist view [of k] by (simp add: head_view_def lookup_head_def)
  then have "st_pending (Status d) = sum_list (map (\<lambda>k. int (length (pending d k))) (map fst (t_heads d)))"
    unfolding Status_def Let_def by (auto simp: comp_def case_prod_beta' intro!: arg_cong [where f = sum_list])
  also have "\<dots> = int (sum_list (map (\<lambda>k. length (filter (\<lambda>x. ?key x = k \<and> ie_applied x = None) (t_ingest d))) (map fst (t_heads d))))"
    by (simp add: pending_def is_pending_def [abs_def] comp_def flip: sum_list_of_nat)
  also have "sum_list (map (\<lambda>k. length (filter (\<lambda>x. ?key x = k \<and> ie_applied x = None) (t_ingest d))) (map fst (t_heads d)))
      = length (filter (\<lambda>x. ie_applied x = None) (t_ingest d))"
  proof (rule sum_groups [OF dist])
    fix x
    assume "x \<in> set (t_ingest d)" "ie_applied x = None"
    then have "pending d (?key x) \<noteq> []"
      using set_pending [of d "?key x"] by (force simp: is_pending_def)
    then have "lookup_head d (?key x) \<noteq> None"
      using view [of "?key x"] by (cases "lookup_head d (?key x)") (simp_all add: head_view_def)
    then show "?key x \<in> set (map fst (t_heads d))"
      by (auto simp: lookup_head_def map_of_eq_None_iff)
  qed
  finally show ?thesis .
qed

section \<open>Concrete runs\<close>

definition sample_process :: "json \<Rightarrow> bp_row \<times> db" where
  "sample_process def = projr (PutBusinessProcess 7 ''shop'' def 0 empty_db)"


theorem process_generation_reused_witness:
  "\<exists>p1 d1 d2 p2 d3 p3 d4. PutBusinessProcess 1 ''shop'' (JObj []) 0 empty_db = Inr (p1, d1)
    \<and> DeleteBusinessProcess ''shop'' 1 d1 = Inr (True, d2)
    \<and> PutBusinessProcess 2 ''shop'' (JObj []) 0 d2 = Inr (p2, d3)
    \<and> PutBusinessProcess 3 ''shop'' (JObj []) (bp_generation p1) d3 = Inr (p3, d4)"
proof -
  have "lookup_process empty_db ''shop'' = None" "is_object (JObj [])"
    by (simp_all add: lookup_process_def empty_db_def is_object_def)
  from process_generation_reused [OF this this(2) this(2), of 1 2 3] show ?thesis by blast
qed

theorem Status_counts_pending_witness: "st_pending (Status (sample_inbox (valid_sample ''a''))) = 1"
proof -
  have "queue_ok (sample_inbox (valid_sample ''a''))"
    by (rule Enqueue_queue_ok [OF queue_ok_empty sample_enqueue [OF valid_sample_a]])
  from Status_counts_pending [OF this] show ?thesis
    by (simp add: sample_inbox_eq [OF valid_sample_a] new_event_def)
qed

end
