(* ===== verification/StoreRuns.thy ===== *)
theory StoreRuns
  imports Records
begin

text \<open>
  The database under all its clients at once: API replicas that enqueue batches and edit business
  processes, workers that apply shards, resolve events and clean up, notifiers that deliver.
  Every committed transaction is one step; the tables' invariants hold in every state such a
  run reaches, and no run lowers a reconcile watermark.
\<close>

section \<open>ResolveEvents and the invariants\<close>

lemma recover_one_frame [simp]:
  "t_ingest (recover_one now ir d) = t_ingest d" "t_heads (recover_one now ir d) = t_heads d"
  by (simp_all add: recover_one_def Let_def)

lemma mark_resolved_simps [simp]:
  "r_id (mark_resolved reason r) = r_id r" "r_cluster (mark_resolved reason r) = r_cluster r"
  "r_uid (mark_resolved reason r) = r_uid r" "r_state (mark_resolved reason r) = StateOK"
  "r_deleted (mark_resolved reason r) = r_deleted r" "r_observed (mark_resolved reason r) = r_observed r"
  by (simp_all add: mark_resolved_def)

lemma recover_one_ok [step_intros]: "inventory_ok d \<Longrightarrow> inventory_ok (recover_one now ir d)"
proof -
  have "keeps_identity (\<lambda>x. x\<lparr>rr_res := mark_resolved (snd ir) (rr_res x), rr_changed := now\<rparr>)"
    by (simp add: keeps_identity_def known_state_def)
  then show "inventory_ok d \<Longrightarrow> inventory_ok (recover_one now ir d)"
    unfolding recover_one_def Let_def by (intro step_intros)
qed

lemma ResolveEvents_ok:
  "inventory_ok d \<Longrightarrow> inventory_ok (ResolveEvents parse now dbnow locked d)"
  "t_ingest (ResolveEvents parse now dbnow locked d) = t_ingest d"
  "t_heads (ResolveEvents parse now dbnow locked d) = t_heads d"
proof -
  have "(inventory_ok d \<longrightarrow> inventory_ok (foldl (\<lambda>d ir. recover_one dbnow ir d) d irs))
    \<and> t_ingest (foldl (\<lambda>d ir. recover_one dbnow ir d) d irs) = t_ingest d
    \<and> t_heads (foldl (\<lambda>d ir. recover_one dbnow ir d) d irs) = t_heads d" for irs d
    by (induction irs arbitrary: d) (auto simp: step_intros)
  then show "inventory_ok d \<Longrightarrow> inventory_ok (ResolveEvents parse now dbnow locked d)"
    "t_ingest (ResolveEvents parse now dbnow locked d) = t_ingest d"
    "t_heads (ResolveEvents parse now dbnow locked d) = t_heads d"
    by (simp_all add: ResolveEvents_def)
qed

section \<open>The step relation\<close>

inductive store_step :: "db \<Rightarrow> db \<Rightarrow> bool" where
  enqueue: "Enqueue uuid_ok pg rclk b d = Inr d' \<Longrightarrow> store_step d d'"
| work: "ApplyShard parse wall clk locked limit d = Inr (n, failure, d') \<Longrightarrow> store_step d d'"
| resolve: "store_step d (ResolveEvents parse now dbnow rows d)"
| cleanup: "store_step d (Cleanup acquired clk e t h f d)"
| claim: "Claim now held identity d = (b, d') \<Longrightarrow> store_step d d'"
| delivered: "Delivered now i identity d = (res, d') \<Longrightarrow> store_step d d'"
| retry: "Retry now i identity cause d = Inr d' \<Longrightarrow> store_step d d'"
| put: "PutBusinessProcess now name def n d = Inr (p, d') \<Longrightarrow> store_step d d'"
| delete: "DeleteBusinessProcess name n d = Inr (res, d') \<Longrightarrow> store_step d d'"
| cache: "PutFederationCache conn now ep key st resp fresh d = Inr d' \<Longrightarrow> store_step d d'"

definition store_ok :: "db \<Rightarrow> bool" where
  "store_ok d \<longleftrightarrow> queue_ok d \<and> inventory_ok d"

definition watermarks_le :: "db \<Rightarrow> db \<Rightarrow> bool" where
  "watermarks_le d d' \<longleftrightarrow> (\<forall>k. watermark_le (watermark d k) (watermark d' k))"

lemma watermark_le_refl [simp]: "watermark_le a a"
  by (simp add: watermark_le_def split: option.splits)

text \<open>A step that touches neither the inbox nor the heads.\<close>

lemma frame_step:
  assumes "store_ok d" and "t_ingest d' = t_ingest d" and "t_heads d' = t_heads d" and "inventory_ok d'"
  shows "store_ok d' \<and> watermarks_le d d'"
  using assms(1,4) queue_ok_frame [OF assms(2,3)] by (simp add: store_ok_def watermarks_le_def)

lemma other_tables_step:
  "store_ok d \<Longrightarrow> store_ok (d\<lparr>t_processes := ps\<rparr>) \<and> watermarks_le d (d\<lparr>t_processes := ps\<rparr>)"
  "store_ok d \<Longrightarrow> store_ok (d\<lparr>t_cache := cs\<rparr>) \<and> watermarks_le d (d\<lparr>t_cache := cs\<rparr>)"
  by (rule frame_step; simp add: store_ok_def inventory_ok_def)+

lemma inventory_ok_outbox:
  assumes "inventory_ok d" and "keeps_rows f"
  shows "inventory_ok (update_outbox p f d)"
proof -
  have "ob_id (if p b then f b else b) = ob_id b" for b using assms(2) by (simp add: keeps_rows_def)
  from outbox_ids_map [of "\<lambda>b. if p b then f b else b", OF this] assms(1) show ?thesis
    by (simp add: inventory_ok_def update_outbox_def)
qed

lemma update_outbox_frame [simp]:
  "t_ingest (update_outbox p f d) = t_ingest d" "t_heads (update_outbox p f d) = t_heads d"
  by (simp_all add: update_outbox_def)

lemma outbox_step: "store_ok d \<Longrightarrow> keeps_rows f \<Longrightarrow> store_ok (update_outbox p f d) \<and> watermarks_le d (update_outbox p f d)"
  by (rule frame_step) (simp_all add: inventory_ok_outbox store_ok_def)

lemma enqueue_watermark:
  assumes "Enqueue uuid_ok pg rclk b d = Inr d'"
  shows "watermark d' k = watermark d k" and "same_inventory d' d"
proof -
  let ?k = "(b_cluster b, b_shard b)"
  from assms obtain d1 ids where ins: "insert_events pg rclk (b_cluster b) (b_shard b) 0 (b_events b) d = Inr (d1, ids)"
    and d': "d' = (if ids \<noteq> [] then refresh_head ?k (add_pending ?k ids d1) else d1)"
    by (auto simp: Enqueue_def split: option.splits sum.splits if_splits)
  from insert_events_spec [OF ins] obtain new where d1: "d1 = d\<lparr>t_ingest := t_ingest d @ new\<rparr>" by blast
  show "same_inventory d' d"
    by (simp add: d' d1 same_inventory_def refresh_head_def add_pending_def)
  have l: "lookup_head d1 = lookup_head d" by (rule ext) (simp add: lookup_head_def d1)
  show "watermark d' k = watermark d k"
    by (auto simp: d' watermark_def refresh_head_def lookup_add_pending l split: option.splits)
qed

lemma apply_watermark:
  assumes "ApplyShard parse wall clk locked limit d = Inr (n, failure, d')"
  shows "watermark_le (watermark d k) (watermark d' k)"
    and "inventory_ok d \<Longrightarrow> inventory_ok d'"
proof -
  from assms have "watermark_le (watermark d k) (watermark d' k) \<and> (inventory_ok d \<longrightarrow> inventory_ok d')"
  proof (cases rule: ApplyShardE)
    case idle
    then show ?thesis by simp
  next
    case (applied l d1 ids)
    from apply_batch_spec [OF applied(4)] obtain d2
      where d2: "applyEvents parse (batch_events wall clk 2 (takeWhile decodes (shard_batch l (clk 1) (nat limit) d))) d = Inr d2"
        and c: "case dropWhile decodes (shard_batch l (clk 1) (nat limit) d) of [] \<Rightarrow> failure = None \<and> d1 = d2
       | x # _ \<Rightarrow> \<exists>err. ie_payload x = Inl err \<and> failure = Some err
           \<and> d1 = update_event (\<lambda>y. ie_id y = ie_id x) (backoff (clk (2 + length ids)) err) d2"
      by blast
    have heads: "t_heads d1 = t_heads d2"
      using c by (cases "dropWhile decodes (shard_batch l (clk 1) (nat limit) d)") (auto simp del: dropWhile_eq_Nil_conv)
    have "watermark d' k = watermark d1 k"
    proof (cases "ids = []")
      case True
      with applied(6) show ?thesis by simp
    next
      case False
      with applied(6) show ?thesis
        by (auto simp: advance_head_def Let_def watermark_def lookup_head_def [of "mark_applied _ _ _"]
            lookup_head_def [of d1, symmetric] split: if_splits option.splits)
    qed
    then have w: "watermark d' k = watermark d2 k" using watermark_cong [OF heads, of k] by (rule trans)
    from ApplyShard_inventory [OF applied(4,6)] d2 have same: "same_inventory d' d2" by simp
    have "inventory_ok d \<longrightarrow> inventory_ok d'" using applyEvents_ok [OF d2] unfolding same_inventory_ok [OF same] by blast
    with w applyEvents_watermark [OF d2, of k] show ?thesis by simp
  qed
  then show "watermark_le (watermark d k) (watermark d' k)" "inventory_ok d \<Longrightarrow> inventory_ok d'" by blast+
qed

lemma store_step_ok: "store_step d d' \<Longrightarrow> store_ok d \<Longrightarrow> store_ok d' \<and> watermarks_le d d'"
proof (induction rule: store_step.induct)
  case (enqueue uuid_ok pg rclk b d d')
  note w = enqueue_watermark [OF enqueue(1)]
  from enqueue show ?case
    using Enqueue_queue_ok [of d] same_inventory_ok [OF w(2)]
    by (simp add: store_ok_def watermarks_le_def w(1))
next
  case (work parse wall clk locked limit d n failure d')
  then show ?case
    using ApplyShard_queue_ok [OF _ work(1)] apply_watermark [OF work(1)]
    by (simp add: store_ok_def watermarks_le_def)
next
  case (resolve d parse now dbnow rows)
  then show ?case by (intro frame_step) (simp_all add: ResolveEvents_ok store_ok_def)
next
  case (cleanup d acquired clk e t h f)
  then show ?case
    using Cleanup_queue [of d acquired clk e t h f] Cleanup_ok [of d acquired clk e t h f]
    by (simp add: store_ok_def watermarks_le_def)
next
  case (claim now held identity d b d')
  then show ?case
    by (auto simp: Claim_def watermarks_le_def split: list.splits
        intro!: outbox_step [THEN conjunct1] outbox_step [THEN conjunct2, unfolded watermarks_le_def, rule_format])
next
  case (delivered now i identity d res d')
  then have "d' = update_outbox (holds i identity) (\<lambda>b. b\<lparr>ob_delivered := Some now, ob_claimed_by := None,
      ob_claimed_until := None, ob_error := None\<rparr>) d" by (simp add: Delivered_def Let_def split: if_splits)
  with delivered(2) show ?case using outbox_step by simp
next
  case (retry now i identity cause d d')
  then have "d' = update_outbox (holds i identity) (\<lambda>b. b\<lparr>ob_available := now + retry_delay (ob_attempts b),
      ob_claimed_by := None, ob_claimed_until := None, ob_error := Some (retry_message cause)\<rparr>) d"
    by (simp add: Retry_def split: if_splits)
  with retry(2) show ?case using outbox_step by simp
next
  case (put now name def n d p d')
  then have "\<exists>ps. d' = d\<lparr>t_processes := ps\<rparr>"
    by (auto simp: PutBusinessProcess_def Let_def split: if_splits option.splits)
  with put(2) show ?case using other_tables_step by blast
next
  case (delete name n d res d')
  then have "d' = d \<or> (\<exists>ps. d' = d\<lparr>t_processes := ps\<rparr>)"
    by (auto simp: DeleteBusinessProcess_def split: if_splits option.splits)
  with delete(2) show ?case using other_tables_step by (auto simp: watermarks_le_def)
next
  case (cache conn now ep key st resp fresh d d')
  then have "\<exists>cs. d' = d\<lparr>t_cache := cs\<rparr>"
    by (auto simp: PutFederationCache_def split: if_splits)
  with cache(2) show ?case using other_tables_step by blast
qed

lemma store_ok_empty: "d = empty_db \<Longrightarrow> store_ok d"
  by (simp add: store_ok_def)

interpretation store: growing "\<lambda>d. d = empty_db" store_step store_ok watermarks_le
proof unfold_locales
  show "d = empty_db \<Longrightarrow> store_ok d" for d by (rule store_ok_empty)
  show "store_step d d' \<Longrightarrow> store_ok d \<Longrightarrow> store_ok d'" for d d' using store_step_ok by blast
  show "watermarks_le d d" for d by (simp add: watermarks_le_def)
  show "watermarks_le d d' \<Longrightarrow> watermarks_le d' d'' \<Longrightarrow> watermarks_le d d''" for d d' d''
    unfolding watermarks_le_def using watermark_le_trans by blast
  show "store_step d d' \<Longrightarrow> store_ok d \<Longrightarrow> watermarks_le d d'" for d d' using store_step_ok by blast
qed

section \<open>Properties\<close>

text \<open>C2: In every database reachable from an empty one by any interleaving of the transactions of
  API replicas, workers, retention and notifiers, each shard's head names its first pending
  event and counts the pending ones, event ids are unique, rows carry their own key, cluster
  and uid identify a resource, states are known, owners are unique and belong to a stored
  resource, and outbox and change ids ascend.\<close>

theorem tables_consistent:
  assumes "store_step\<^sup>*\<^sup>* empty_db d"
  shows "queue_ok d \<and> inventory_ok d"
  using store.reachable_inv [OF refl assms] by (simp add: store_ok_def)

text \<open>C16: A reconcile marker is remembered for good: once an observation is older than the watermark
  of its shard, it changes nothing in any later state of the database, whatever workers,
  retention (which may have pruned the tombstone), notifiers and the API do in between.\<close>

theorem watermark_survives:
  assumes "store_ok d" and "before_watermark d (r_cluster r, shard) (round_us (r_observed r))"
    and "store_step\<^sup>*\<^sup>* d d'"
  shows "applyResource parse now dbnow action shard r d' = Inr d'"
proof -
  have "watermarks_le d d'" by (rule store.run_le [OF assms(3,1)])
  then have "before_watermark d' (r_cluster r, shard) (round_us (r_observed r))"
    using before_watermark_mono [OF _ assms(2)] unfolding watermarks_le_def by blast
  then show ?thesis by (simp add: applyResource_def Let_def)
qed

section \<open>Concrete runs\<close>

theorem tables_consistent_witness: "queue_ok (sample_inbox (valid_sample ''a'')) \<and> inventory_ok (sample_inbox (valid_sample ''a''))"
  by (rule tables_consistent) (rule r_into_rtranclp, rule store_step.enqueue, rule sample_enqueue [OF valid_sample_a])

definition sample_marked :: db where
  "sample_marked = empty_db\<lparr>t_heads := [((''prod'', ''pods''),
     \<lparr>hd_event = None, hd_pending = 0, hd_last_applied = Some 50, hd_reconciled = Some 7000\<rparr>)]\<rparr>"

theorem watermark_survives_witness:
  "applyResource sample_parse 1 1 ''upsert'' ''pods'' (sample ''a'' ''critical'' 5000)
     (Cleanup True (\<lambda>i. seconds 9000) 1 1 1 1 sample_marked)
   = Inr (Cleanup True (\<lambda>i. seconds 9000) 1 1 1 1 sample_marked)"
proof (rule watermark_survives)
  show "store_ok sample_marked"
    by (simp add: store_ok_def queue_ok_def sample_marked_def empty_db_def head_view_def lookup_head_def
        first_pending_def pending_def inventory_ok_def rows_ok_def owners_ok_def outbox_ids_ok_def change_ids_ok_def)
  show "before_watermark sample_marked (r_cluster (sample ''a'' ''critical'' 5000), ''pods'') (round_us (r_observed (sample ''a'' ''critical'' 5000)))"
    by code_simp
  show "store_step\<^sup>*\<^sup>* sample_marked (Cleanup True (\<lambda>i. seconds 9000) 1 1 1 1 sample_marked)"
    by (rule r_into_rtranclp) (rule store_step.cleanup)
qed

end
