(* ===== verification/Adapter.thy ===== *)
theory Adapter
  imports Model GoStrings
begin

text \<open>
  The adapters of \<open>internal/v2/adapter\<close>: the registry of definitions with its loader
  (\<open>registry.go\<close>), the state and summary derived from a Kubernetes object, and the native rules
  (\<open>native.go\<close>, \<open>node.go\<close>). An object is the JSON tree \<open>unstructured.Unstructured\<close> holds.
\<close>

section \<open>Definitions\<close>

record status_field =
  sf_path :: string
  sf_healthy :: "string list"
  sf_critical :: "string list"

record metric_definition =
  md_key :: string
  md_label :: string
  md_unit :: string
  md_query :: string

record adapter_def =
  df_name :: string
  df_group :: string
  df_kind :: string
  df_description :: "string list"
  df_summary :: "string list"
  df_healthy :: "string list"
  df_critical :: "string list"
  df_phases :: "string list"
  df_status :: "status_field list"
  df_metrics :: "metric_definition list"

definition blank_definition :: "string \<Rightarrow> string \<Rightarrow> string \<Rightarrow> adapter_def" where
  "blank_definition name grp kind = \<lparr>df_name = name, df_group = grp, df_kind = kind, df_description = [],
     df_summary = [], df_healthy = [], df_critical = [], df_phases = [], df_status = [], df_metrics = []\<rparr>"

definition builtins :: "adapter_def list" where
  "builtins = [
     (blank_definition ''kubernetes-core-event'' ''core'' ''Event'')\<lparr>df_summary := [''type'', ''reason'', ''message'', ''count'', ''lastTimestamp'', ''eventTime'', ''series.lastObservedTime'', ''involvedObject.uid'', ''involvedObject.apiVersion'', ''involvedObject.fieldPath'', ''involvedObject.kind'', ''involvedObject.namespace'', ''involvedObject.name'', ''reportingComponent'', ''reportingInstance''],
      df_status := [\<lparr>sf_path = ''type'', sf_healthy = [''Normal''], sf_critical = []\<rparr>]\<rparr>,
     (blank_definition ''kubernetes-events-event'' ''events.k8s.io'' ''Event'')\<lparr>df_summary := [''type'', ''reason'', ''note'', ''eventTime'', ''series.lastObservedTime'', ''deprecatedLastTimestamp'', ''regarding.uid'', ''regarding.apiVersion'', ''regarding.fieldPath'', ''regarding.kind'', ''regarding.namespace'', ''regarding.name'', ''reportingController'', ''reportingInstance'', ''deprecatedCount''],
      df_status := [\<lparr>sf_path = ''type'', sf_healthy = [''Normal''], sf_critical = []\<rparr>]\<rparr>,
     (blank_definition ''openshift-route'' ''route.openshift.io'' ''Route'')\<lparr>df_description := [''spec.host''],
      df_healthy := [''Admitted'']\<rparr>,
     (blank_definition ''openshift-cluster-operator'' ''config.openshift.io'' ''ClusterOperator'')\<lparr>df_healthy := [''Available''],
      df_critical := [''Degraded'']\<rparr>,
     (blank_definition ''openshift-machine-config-pool'' ''machineconfiguration.openshift.io'' ''MachineConfigPool'')\<lparr>df_healthy := [''Updated''],
      df_critical := [''Degraded'']\<rparr>,
     (blank_definition ''openshift-build'' ''build.openshift.io'' ''Build'')\<lparr>df_summary := [''status.phase''],
      df_phases := [''Failed'', ''Error'', ''Cancelled'']\<rparr>,
     (blank_definition ''openshift-build-config'' ''build.openshift.io'' ''BuildConfig''),
     (blank_definition ''openshift-deployment-config'' ''apps.openshift.io'' ''DeploymentConfig'')\<lparr>df_healthy := [''Available'']\<rparr>,
     (blank_definition ''openshift-image-stream'' ''image.openshift.io'' ''ImageStream''),
     (blank_definition ''olm-subscription'' ''operators.coreos.com'' ''Subscription'')\<lparr>df_critical := [''CatalogSourcesUnhealthy'']\<rparr>,
     (blank_definition ''olm-install-plan'' ''operators.coreos.com'' ''InstallPlan'')\<lparr>df_summary := [''status.phase''],
      df_phases := [''Failed'']\<rparr>,
     (blank_definition ''olm-csv'' ''operators.coreos.com'' ''ClusterServiceVersion'')\<lparr>df_summary := [''status.phase''],
      df_phases := [''Failed'']\<rparr>,
     (blank_definition ''argocd-application'' ''argoproj.io'' ''Application'')\<lparr>df_description := [''spec.project''],
      df_status := [\<lparr>sf_path = ''status.health.status'', sf_healthy = [''Healthy''], sf_critical = [''Degraded'', ''Missing'']\<rparr>, \<lparr>sf_path = ''status.sync.status'', sf_healthy = [''Synced''], sf_critical = []\<rparr>]\<rparr>,
     (blank_definition ''external-secret'' ''external-secrets.io'' ''ExternalSecret'')\<lparr>df_healthy := [''Ready'']\<rparr>]"

definition generic :: adapter_def where
  "generic = (blank_definition ''generic'' ''*'' ''*'')\<lparr>df_healthy := [''Ready'', ''Available'', ''Healthy'', ''Synced''],
     df_phases := [''Failed'', ''Error''],
     df_summary := [''status.phase'', ''status.replicas'', ''status.readyReplicas'', ''status.availableReplicas'', ''spec.replicas'']\<rparr>"

section \<open>Loading\<close>

definition sensitive_parts :: "string list" where
  "sensitive_parts = [''token'', ''secret'', ''password'', ''credential'', ''authorization'', ''private-key'', ''privatekey'']"

definition sensitivePath :: "string \<Rightarrow> bool" where
  "sensitivePath path = contains_any (to_lower path) sensitive_parts"

text \<open>The pattern \<open>^[a-z][a-z0-9_]{0,63}$\<close>.\<close>

definition metric_key :: "string \<Rightarrow> bool" where
  "metric_key s = (case s of [] \<Rightarrow> False
     | c # r \<Rightarrow> CHR ''a'' \<le> c \<and> c \<le> CHR ''z'' \<and> length r \<le> 63
         \<and> list_all (\<lambda>c. CHR ''a'' \<le> c \<and> c \<le> CHR ''z'' \<or> CHR ''0'' \<le> c \<and> c \<le> CHR ''9'' \<or> c = CHR ''_'') r)"

text \<open>\<open>strings.ReplaceAll\<close> with the empty string: the occurrences of a pattern from left to right.\<close>

function remove_all :: "string \<Rightarrow> string \<Rightarrow> string" where
  "remove_all p s = (case s of [] \<Rightarrow> []
     | c # r \<Rightarrow> if p \<noteq> [] \<and> has_prefix s p then remove_all p (drop (length p) s) else c # remove_all p r)"
  by pat_completeness auto
termination
  by (relation "measure (length \<circ> snd)") auto

declare remove_all.simps [simp del]

definition placeholders :: "string list" where
  "placeholders = [''{{cluster}}'', ''{{namespace}}'', ''{{name}}'', ''{{kind}}'']"

datatype adapter_error = FieldLimits | RuleLimits | InvalidPath string | InvalidStatusField | MetricLimit
  | InvalidMetric | DuplicateMetric string | UnsupportedPlaceholder string | NameRequired | DuplicateName string
  | DuplicateMatch string string | ReadFailed string | DecodeFailed string | DocumentVersion int

definition bad_path :: "string \<Rightarrow> bool" where
  "bad_path path \<longleftrightarrow> path = [] \<or> length path > 256 \<or> sensitivePath path"

definition bad_status_field :: "status_field \<Rightarrow> bool" where
  "bad_status_field f \<longleftrightarrow> bad_path (sf_path f) \<or> length (sf_healthy f) > 16 \<or> length (sf_critical f) > 16"

definition bad_metric :: "metric_definition \<Rightarrow> bool" where
  "bad_metric m \<longleftrightarrow> \<not> metric_key (md_key m) \<or> md_label m = [] \<or> length (md_label m) > 128 \<or> md_unit m = []
     \<or> length (md_unit m) > 64 \<or> md_query m = [] \<or> length (md_query m) > 4096"

definition bad_placeholder :: "metric_definition \<Rightarrow> bool" where
  "bad_placeholder m = (let clean = foldl (\<lambda>s p. remove_all p s) (md_query m) placeholders
     in contains_str clean ''{{'' \<or> contains_str clean ''}}'')"

fun validate_metrics :: "string list \<Rightarrow> metric_definition list \<Rightarrow> adapter_error option" where
  "validate_metrics seen [] = None"
| "validate_metrics seen (m # ms) =
     (if bad_metric m then Some InvalidMetric
      else if md_key m \<in> set seen then Some (DuplicateMetric (md_key m))
      else if bad_placeholder m then Some (UnsupportedPlaceholder (md_key m))
      else validate_metrics (md_key m # seen) ms)"

definition validateDefinition :: "adapter_def \<Rightarrow> adapter_error option" where
  "validateDefinition d =
     (if length (df_summary d) > 32 \<or> length (df_description d) > 8 \<or> length (df_status d) > 8 then Some FieldLimits
      else if length (df_healthy d) > 16 \<or> length (df_critical d) > 16 \<or> length (df_phases d) > 16 then Some RuleLimits
      else case find bad_path (df_description d @ df_summary d) of Some path \<Rightarrow> Some (InvalidPath path) | None \<Rightarrow>
      if list_ex bad_status_field (df_status d) then Some InvalidStatusField
      else if length (df_metrics d) > 16 then Some MetricLimit
      else validate_metrics [] (df_metrics d))"

definition mergeDefinition :: "adapter_def \<Rightarrow> adapter_def \<Rightarrow> adapter_def" where
  "mergeDefinition base extension = base\<lparr>df_name := df_name extension,
     df_description := df_description base @ df_description extension,
     df_summary := df_summary base @ df_summary extension,
     df_healthy := df_healthy base @ df_healthy extension,
     df_critical := df_critical base @ df_critical extension,
     df_phases := df_phases base @ df_phases extension,
     df_status := df_status base @ df_status extension,
     df_metrics := df_metrics base @ df_metrics extension\<rparr>"

definition extends :: "adapter_def \<Rightarrow> adapter_def \<Rightarrow> bool" where
  "extends d base \<longleftrightarrow> df_group base = df_group d \<and> equal_fold (df_kind base) (df_kind d)"

definition add_definition :: "adapter_def list \<Rightarrow> adapter_def \<Rightarrow> adapter_error + adapter_def list" where
  "add_definition ds d =
     (case (if df_group d \<noteq> ''*'' \<and> df_kind d \<noteq> ''*'' then first_index (extends d) ds else None) of
        None \<Rightarrow> Inr (ds @ [d])
      | Some i \<Rightarrow> (case validateDefinition (mergeDefinition (ds ! i) d) of Some err \<Rightarrow> Inl err
                 | None \<Rightarrow> Inr (ds[i := mergeDefinition (ds ! i) d])))"

definition match_key :: "adapter_def \<Rightarrow> string" where
  "match_key d = to_lower (df_group d @ [CHR 0x00] @ df_kind d)"

fun add_definitions :: "string list \<Rightarrow> string list \<Rightarrow> adapter_def list \<Rightarrow> adapter_def list \<Rightarrow> adapter_error + adapter_def list" where
  "add_definitions names matches ds [] = Inr ds"
| "add_definitions names matches ds (d # custom) =
     (if df_name d = [] \<or> df_kind d = [] then Inl NameRequired
      else if to_lower (df_name d) \<in> set names then Inl (DuplicateName (df_name d))
      else if match_key d \<in> set matches then Inl (DuplicateMatch (df_group d) (df_kind d))
      else case validateDefinition d of Some err \<Rightarrow> Inl err | None \<Rightarrow>
        (case add_definition ds d of Inl err \<Rightarrow> Inl err
         | Inr ds' \<Rightarrow> add_definitions (to_lower (df_name d) # names) (match_key d # matches) ds' custom))"

text \<open>What reading and decoding the adapter file gives.\<close>

datatype adapter_file = NotExist | Unreadable string | Malformed string | Adapters int "adapter_def list"

definition Load :: "adapter_file \<Rightarrow> adapter_def list \<Rightarrow> adapter_error option \<times> adapter_def list" where
  "Load file r = (case file of
      NotExist \<Rightarrow> (None, r)
    | Unreadable err \<Rightarrow> (Some (ReadFailed err), r)
    | Malformed err \<Rightarrow> (Some (DecodeFailed err), r)
    | Adapters version custom \<Rightarrow>
        if version \<noteq> 1 then (Some (DocumentVersion version), r)
        else case add_definitions (map (\<lambda>d. to_lower (df_name d)) builtins) [] builtins custom of
          Inl err \<Rightarrow> (Some err, r) | Inr ds \<Rightarrow> (None, ds))"

section \<open>Matching\<close>

definition matchScore :: "adapter_def \<Rightarrow> string \<Rightarrow> string \<Rightarrow> int" where
  "matchScore d grp kind =
     (let grp = (if grp = [] then ''core'' else grp) in
      if df_group d \<noteq> ''*'' \<and> df_group d \<noteq> grp then -1
      else if df_kind d \<noteq> ''*'' \<and> \<not> equal_fold (df_kind d) kind then -1
      else (if df_group d \<noteq> ''*'' then 2 else 0) + (if df_kind d \<noteq> ''*'' then 1 else 0))"

text \<open>The loop over the definitions: the first of the best score, or what was selected before.\<close>

fun select_best :: "(adapter_def \<Rightarrow> int) \<Rightarrow> int \<Rightarrow> 'a \<Rightarrow> (adapter_def \<Rightarrow> 'a) \<Rightarrow> adapter_def list \<Rightarrow> 'a" where
  "select_best score best selected f [] = selected"
| "select_best score best selected f (d # ds) =
     (if score d > best then select_best score (score d) (f d) f ds else select_best score best selected f ds)"

definition Metrics :: "adapter_def list \<Rightarrow> string \<Rightarrow> string \<Rightarrow> metric_definition list" where
  "Metrics r grp kind = select_best (\<lambda>d. matchScore d grp kind) (-1) [] df_metrics r"

section \<open>Nodes\<close>

definition node_kinds :: "string list" where
  "node_kinds = [''Ready'', ''DiskPressure'', ''MemoryPressure'', ''PIDPressure'', ''NetworkUnavailable'']"

definition node_detail :: "condition \<Rightarrow> string" where
  "node_detail c = c_type c @ ''='' @ c_status c @ (if c_reason c \<noteq> [] then '': '' @ c_reason c else [])
     @ (if c_message c \<noteq> [] then '': '' @ c_message c else [])"

definition node_unknown :: "condition \<Rightarrow> bool" where
  "node_unknown c \<longleftrightarrow> c_status c \<noteq> ''True'' \<and> c_status c \<noteq> ''False''"

definition node_problem :: "condition \<Rightarrow> bool" where
  "node_problem c \<longleftrightarrow> c_type c = ''Ready'' \<and> c_status c = ''False'' \<or> c_type c \<noteq> ''Ready'' \<and> c_status c = ''True''"

definition describeNode :: "condition list \<Rightarrow> state \<times> string" where
  "describeNode conditions =
     (let relevant = concat (map (\<lambda>kind. filter (\<lambda>c. c_type c = kind) conditions) node_kinds);
          readySeen = list_ex (\<lambda>c. c_type c = ''Ready'') conditions;
          unknown = map node_detail (filter node_unknown relevant) @ (if readySeen then [] else [''Ready condition missing'']);
          problems = map node_detail (filter (\<lambda>c. \<not> node_unknown c \<and> node_problem c) relevant)
      in if problems \<noteq> [] then (StateCritical, join ''; '' (problems @ unknown))
         else if unknown \<noteq> [] then (StateUnknown, join ''; '' unknown)
         else (StateOK, ''Node ready; no reported pressure or network failure''))"

section \<open>Native kinds\<close>

fun split_dots :: "string \<Rightarrow> string list" where
  "split_dots [] = [[]]"
| "split_dots (c # s) = (if c = CHR ''.'' then [] # split_dots s
     else case split_dots s of [] \<Rightarrow> [[c]] | p # ps \<Rightarrow> (c # p) # ps)"

definition field_at :: "json \<Rightarrow> string \<Rightarrow> json option" where
  "field_at obj path = nested_field obj (split_dots path)"

definition text_at :: "json \<Rightarrow> string \<Rightarrow> string" where
  "text_at obj path = (case nested_string obj (split_dots path) of None \<Rightarrow> [] | Some s \<Rightarrow> s)"

definition number_at :: "json \<Rightarrow> string \<Rightarrow> int" where
  "number_at obj path = nested_int obj (split_dots path)"

definition object_kind :: "json \<Rightarrow> string" where "object_kind obj = text_at obj ''kind''"

definition project :: "json \<Rightarrow> string list \<Rightarrow> (string, json) gomap \<Rightarrow> (string, json) gomap" where
  "project obj paths summary = foldl (\<lambda>m path. case field_at obj path of None \<Rightarrow> m
     | Some v \<Rightarrow> AList.update path v m) summary paths"

definition native_paths :: "string list" where
  "native_paths = [''metadata.creationTimestamp'', ''status.phase'', ''spec.nodeName'', ''status.podIP'',
     ''spec.restartPolicy'', ''status.qosClass'', ''spec.replicas'', ''status.readyReplicas'', ''status.availableReplicas'',
     ''status.updatedReplicas'', ''status.desiredNumberScheduled'', ''status.numberReady'', ''spec.schedule'', ''spec.suspend'',
     ''status.active'', ''status.succeeded'', ''status.failed'', ''spec.type'', ''spec.clusterIP'', ''spec.storageClassName'',
     ''spec.volumeName'', ''status.capacity.storage'']"

text \<open>The entry of one container status, an object with the members \<open>m\<close>.\<close>

record container =
  ct_name :: string
  ct_image :: string
  ct_ready :: bool
  ct_restarts :: int
  ct_phase :: string
  ct_reason :: string
  ct_exit :: json

definition member_string :: "(string, json) gomap \<Rightarrow> string \<Rightarrow> string" where
  "member_string m k = (case map_of m k of Some (JStr s) \<Rightarrow> s | _ \<Rightarrow> [])"

definition members :: "json option \<Rightarrow> (string, json) gomap" where
  "members v = (case v of Some (JObj m) \<Rightarrow> m | _ \<Rightarrow> [])"

definition container_state :: "(string, json) gomap \<Rightarrow> container \<Rightarrow> string \<Rightarrow> container" where
  "container_state states c key = (case map_of states key of None \<Rightarrow> c
     | Some raw \<Rightarrow> let detail = members (Some raw) in
         c\<lparr>ct_phase := key,
           ct_reason := (case map_of detail ''reason'' of Some (JStr s) \<Rightarrow> s | _ \<Rightarrow> ct_reason c),
           ct_exit := (case map_of detail ''exitCode'' of None \<Rightarrow> JNull | Some v \<Rightarrow> v)\<rparr>)"

definition container_entry :: "(string, json) gomap \<Rightarrow> container" where
  "container_entry status =
     foldl (container_state (members (map_of status ''state'')))
       \<lparr>ct_name = member_string status ''name'', ct_image = member_string status ''image'',
        ct_ready = (map_of status ''ready'' = Some (JBool True)),
        ct_restarts = (case map_of status ''restartCount'' of Some (JInt n) \<Rightarrow> n | _ \<Rightarrow> 0),
        ct_phase = ''unknown'', ct_reason = [], ct_exit = JNull\<rparr>
       [''running'', ''waiting'', ''terminated'']"

definition container_json :: "container \<Rightarrow> json" where
  "container_json c = JObj [(''name'', JStr (ct_name c)), (''image'', JStr (ct_image c)), (''ready'', JBool (ct_ready c)),
     (''restarts'', JInt (ct_restarts c)), (''phase'', JStr (ct_phase c)), (''reason'', JStr (ct_reason c)), (''exitCode'', ct_exit c)]"

text \<open>The loop skips statuses that are no objects and stops after 64 containers.\<close>

definition pod_containers :: "json list \<Rightarrow> container list" where
  "pod_containers statuses =
     map (\<lambda>s. container_entry (members (Some s))) (take 64 (filter (\<lambda>s. case s of JObj _ \<Rightarrow> True | _ \<Rightarrow> False) statuses))"

definition failing_reasons :: "string list" where
  "failing_reasons = [''CrashLoopBackOff'', ''ImagePullBackOff'', ''ErrImagePull'', ''CreateContainerConfigError'', ''RunContainerError'']"

definition describe_pod :: "json \<Rightarrow> condition list \<Rightarrow> (state \<times> string)" where
  "describe_pod obj conditions =
     (let statuses = nested_slice obj [''status'', ''containerStatuses''];
          containers = pod_containers statuses;
          ready = int (length (filter ct_ready containers));
          count = int_str ready @ ''/'' @ int_str (int (length statuses)) @ '' containers ready'';
          phase = text_at obj ''status.phase''
      in if phase = ''Succeeded'' then (StateOK, ''Completed successfully'')
         else if phase = ''Failed'' then (StateCritical, ''Pod failed: '' @ text_at obj ''status.reason'')
         else case find (\<lambda>c. ct_reason c \<in> set failing_reasons) containers of
           Some c \<Rightarrow> (StateCritical, ct_name c @ '': '' @ ct_reason c)
         | None \<Rightarrow> if list_ex (\<lambda>c. c_type c = ''Ready'' \<and> c_status c = ''True'') conditions then (StateOK, count)
             else (StateWarning, phase @ '': '' @ count))"

definition describe_workload :: "string \<Rightarrow> json \<Rightarrow> condition list \<Rightarrow> state \<times> string" where
  "describe_workload kind obj conditions =
     (let desired = (if kind = ''DaemonSet'' then number_at obj ''status.desiredNumberScheduled''
            else if field_at obj ''spec.replicas'' = None then 1 else number_at obj ''spec.replicas'');
          ready = (if kind = ''DaemonSet'' then number_at obj ''status.numberReady'' else number_at obj ''status.readyReplicas'');
          message = int_str ready @ ''/'' @ int_str desired @ '' replicas ready''
      in case find (\<lambda>c. c_type c = ''ReplicaFailure'' \<and> c_status c = ''True'' \<or> c_type c = ''Progressing'' \<and> c_status c = ''False'') conditions of
           Some c \<Rightarrow> (StateCritical, c_reason c @ '': '' @ c_message c)
         | None \<Rightarrow>
             if number_at obj ''status.observedGeneration'' < number_at obj ''metadata.generation''
               then (StateWarning, ''Waiting for controller to observe the latest configuration; '' @ message)
             else if ready < desired then (if ready = 0 then (StateCritical, message) else (StateWarning, message))
             else if desired = 0 then (StateOK, ''Scaled to zero'')
             else (StateOK, message))"

definition describe_job :: "json \<Rightarrow> condition list \<Rightarrow> state \<times> string" where
  "describe_job obj conditions =
     (case find (\<lambda>c. c_status c = ''True'' \<and> (c_type c = ''Failed'' \<or> c_type c = ''Complete'')) conditions of
        Some c \<Rightarrow> if c_type c = ''Failed'' then (StateCritical, c_reason c @ '': '' @ c_message c)
                  else (StateOK, ''Completed successfully'')
      | None \<Rightarrow> (StateOK, int_str (number_at obj ''status.active'') @ '' active, ''
          @ int_str (number_at obj ''status.succeeded'') @ '' succeeded''))"

definition describe_volume :: "string \<Rightarrow> json \<Rightarrow> state \<times> string" where
  "describe_volume kind obj =
     (let phase = text_at obj ''status.phase''
      in if phase = ''Bound'' \<or> kind = ''PersistentVolume'' \<and> phase = ''Available'' then (StateOK, phase)
         else if phase = ''Lost'' \<or> phase = ''Failed'' then (StateCritical, phase)
         else (StateWarning, ''Volume phase: '' @ phase))"

text \<open>The state of a native kind, if it is handled here, and the summary with the fields of the kind.\<close>

definition describeNative :: "string \<Rightarrow> json \<Rightarrow> condition list \<Rightarrow> (string, json) gomap
    \<Rightarrow> (state \<times> string) option \<times> (string, json) gomap" where
  "describeNative grp obj conditions summary =
     (let kind = object_kind obj in
      if grp = ''networking.k8s.io'' \<and> kind = ''NetworkPolicy''
        then (Some (StateOK, ''Policy configured; no independent runtime health''), summary)
      else if grp \<notin> {[], ''core'', ''apps'', ''batch'', ''discovery.k8s.io''} then (None, summary)
      else let summary = project obj native_paths summary in
      if kind = ''Node'' then
        (let unschedulable = nested_bool obj [''spec'', ''unschedulable''];
             (state, reason) = describeNode conditions
         in (Some (state, if unschedulable then reason @ ''; Scheduling disabled (cordoned)'' else reason),
             AList.update ''spec.unschedulable'' (JBool unschedulable) summary))
      else if kind = ''Pod'' then
        (let containers = pod_containers (nested_slice obj [''status'', ''containerStatuses''])
         in (Some (describe_pod obj conditions),
             AList.update ''containers.restarts'' (JInt (sum_list (map ct_restarts containers)))
               (AList.update ''containers'' (JArr (map container_json containers)) summary)))
      else if kind \<in> {''Deployment'', ''StatefulSet'', ''ReplicaSet'', ''DaemonSet''}
        then (Some (describe_workload kind obj conditions), summary)
      else if kind = ''Job'' then (Some (describe_job obj conditions), summary)
      else if kind = ''CronJob'' then
        (Some (StateOK, if nested_bool obj [''spec'', ''suspend''] then ''Schedule suspended''
                        else ''Schedule: '' @ text_at obj ''spec.schedule''), summary)
      else if kind \<in> {''Service'', ''ConfigMap'', ''Secret'', ''Endpoints'', ''EndpointSlice''}
        then (Some (StateOK, ''Object present; no independent runtime health''), summary)
      else if kind \<in> {''PersistentVolumeClaim'', ''PersistentVolume''}
        then (Some (describe_volume kind obj), summary)
      else (None, summary))"

section \<open>Describe\<close>

definition containsFold :: "string list \<Rightarrow> string \<Rightarrow> bool" where
  "containsFold values candidate = list_ex (\<lambda>v. equal_fold v candidate) values"

text \<open>The reason of the first condition that a rule of the definition calls critical.\<close>

definition bad_condition_of :: "adapter_def \<Rightarrow> condition \<Rightarrow> bool" where
  "bad_condition_of d c \<longleftrightarrow> c_type c \<in> set (df_critical d) \<and> equal_fold (c_status c) ''True''
     \<or> c_type c \<in> set (df_healthy d) \<and> equal_fold (c_status c) ''False''"

text \<open>The loop over the status fields: an early critical result, or what it saw and the first warning.\<close>

fun status_fields :: "json \<Rightarrow> status_field list \<Rightarrow> bool \<Rightarrow> string \<Rightarrow> (string, json) gomap
    \<Rightarrow> (string + bool \<times> string) \<times> (string, json) gomap" where
  "status_fields obj [] observed warning summary = (Inr (observed, warning), summary)"
| "status_fields obj (f # fs) observed warning summary =
     (let value = text_at obj (sf_path f) in
      if value = [] then status_fields obj fs observed warning summary
      else let summary = AList.update (sf_path f) (JStr value) summary in
      if containsFold (sf_critical f) value then (Inl (sf_path f @ '': '' @ value), summary)
      else status_fields obj fs True
        (if warning = [] \<and> sf_healthy f \<noteq> [] \<and> \<not> containsFold (sf_healthy f) value then sf_path f @ '': '' @ value else warning)
        summary)"

definition describe_selected :: "adapter_def \<Rightarrow> json \<Rightarrow> condition list \<Rightarrow> (string, json) gomap
    \<Rightarrow> state \<times> string \<times> (string, json) gomap" where
  "describe_selected d obj conditions summary =
     (let phase = text_at obj ''status.phase'' in
      if containsFold (df_phases d) phase then (StateCritical, phase, summary)
      else case find (bad_condition_of d) conditions of
        Some c \<Rightarrow> (StateCritical, c_type c @ '': '' @ c_reason c, summary)
      | None \<Rightarrow>
          if df_name d = ''openshift-route'' then
            (if list_ex (\<lambda>c. c_type c = ''Admitted'' \<and> equal_fold (c_status c) ''True'') conditions
             then (StateOK, ''Route admitted by router'', summary)
             else (StateUnknown, ''Route admission has not been confirmed'', summary))
          else case status_fields obj (df_status d) False [] summary of
            (Inl reason, summary) \<Rightarrow> (StateCritical, reason, summary)
          | (Inr (observed, warning), summary) \<Rightarrow>
              if warning \<noteq> [] then (StateWarning, warning, summary)
              else if phase \<noteq> [] \<or> conditions \<noteq> [] \<or> observed then (StateOK, [], summary)
              else (StateUnknown, ''no status exposed by adapter'', summary))"

definition Describe :: "adapter_def list \<Rightarrow> string \<Rightarrow> json \<Rightarrow> condition list \<Rightarrow> state \<times> string \<times> (string, json) gomap" where
  "Describe r grp obj conditions =
     (let selected = select_best (\<lambda>d. matchScore d grp (object_kind obj)) (-1) generic id r;
          summary = project obj (df_description selected @ df_summary selected) [(''adapter'', JStr (df_name selected))]
      in if df_name selected = ''generic'' then
           (case describeNative grp obj conditions summary of
              (Some (state, reason), summary) \<Rightarrow> (state, reason, summary)
            | (None, summary) \<Rightarrow> describe_selected selected obj conditions summary)
         else describe_selected selected obj conditions summary)"

section \<open>Facts about the registry\<close>

text \<open>
  The invariant of a registry: every definition is within the limits, reads no sensitive path,
  and no two definitions have the same name up to case.
\<close>

definition registry_ok :: "adapter_def list \<Rightarrow> bool" where
  "registry_ok ds \<longleftrightarrow> distinct (map (\<lambda>d. to_lower (df_name d)) ds) \<and> (\<forall>d \<in> set ds. validateDefinition d = None)"

lemma builtins_ok: "registry_ok builtins"
  unfolding registry_ok_def by (intro conjI) code_simp+

lemma first_index_Some: "first_index p xs = Some i \<Longrightarrow> i < length xs \<and> p (xs ! i) \<and> (\<forall>j < i. \<not> p (xs ! j))"
  by (induction xs arbitrary: i) (auto split: if_splits simp: less_Suc_eq_0_disj)

lemma mergeDefinition_name [simp]: "df_name (mergeDefinition b d) = df_name d"
  by (simp add: mergeDefinition_def)

lemma add_definition_ok:
  assumes "add_definition ds d = Inr ds'" and "registry_ok ds" and "validateDefinition d = None"
    and "\<forall>b \<in> set ds. to_lower (df_name b) \<in> names" and "to_lower (df_name d) \<notin> names"
  shows "registry_ok ds' \<and> (\<forall>b \<in> set ds'. to_lower (df_name b) \<in> insert (to_lower (df_name d)) names)"
proof -
  let ?f = "\<lambda>d. to_lower (df_name d)"
  have new: "?f d \<notin> set (map ?f ds)" using assms(4,5) by auto
  show ?thesis
  proof (cases "if df_group d \<noteq> ''*'' \<and> df_kind d \<noteq> ''*'' then first_index (extends d) ds else None")
    case None
    with assms(1) have "ds' = ds @ [d]" by (simp add: add_definition_def)
    with assms new show ?thesis by (auto simp: registry_ok_def)
  next
    case (Some i)
    with assms(1) have ok: "validateDefinition (mergeDefinition (ds ! i) d) = None"
      and ds': "ds' = ds[i := mergeDefinition (ds ! i) d]"
      by (auto simp: add_definition_def split: option.splits)
    have "distinct ((map ?f ds)[i := ?f d])"
      using assms(2) new by (intro distinct_list_update) (simp_all add: registry_ok_def)
    then have "distinct (map ?f ds')" by (simp add: ds' map_update)
    moreover have "b = mergeDefinition (ds ! i) d \<or> b \<in> set ds" if "b \<in> set ds'" for b
      using that set_update_subset_insert [of ds i] unfolding ds' by blast
    ultimately show ?thesis
      using assms(2,4) ok unfolding registry_ok_def by fastforce
  qed
qed

lemma add_definitions_ok:
  assumes "add_definitions names matches ds custom = Inr ds'" and "registry_ok ds"
    and "\<forall>b \<in> set ds. to_lower (df_name b) \<in> set names"
  shows "registry_ok ds'"
  using assms
proof (induction names matches ds custom rule: add_definitions.induct)
  case (1 names matches ds)
  then show ?case by simp
next
  case (2 names matches ds d custom)
  from 2(2) have fresh: "\<not> (df_name d = [] \<or> df_kind d = [])" "to_lower (df_name d) \<notin> set names"
    "match_key d \<notin> set matches" "validateDefinition d = None"
    by (auto split: if_splits option.splits)
  with 2(2) obtain ds1 where add: "add_definition ds d = Inr ds1"
    and rest: "add_definitions (to_lower (df_name d) # names) (match_key d # matches) ds1 custom = Inr ds'"
    by (auto split: sum.splits)
  from add_definition_ok [OF add 2(3) fresh(4) 2(4) fresh(2)]
  have "registry_ok ds1" "\<forall>b \<in> set ds1. to_lower (df_name b) \<in> set (to_lower (df_name d) # names)" by auto
  with 2(1) [OF fresh add rest] show ?case by blast
qed

lemma Load_ok:
  assumes "Load file r = (e, r')" and "registry_ok r"
  shows "registry_ok r' \<and> (e \<noteq> None \<longrightarrow> r' = r)"
  using assms builtins_ok add_definitions_ok
  unfolding Load_def by (fastforce split: adapter_file.splits if_splits sum.splits)

section \<open>Secrets\<close>

text \<open>No sensitive path is projected into the summary of a resource.\<close>

definition safe_keys :: "(string, json) gomap \<Rightarrow> bool" where
  "safe_keys m \<longleftrightarrow> (\<forall>k \<in> fst ` set m. \<not> sensitivePath k)"

lemma safe_keys_update [intro]: "safe_keys m \<Longrightarrow> \<not> sensitivePath k \<Longrightarrow> safe_keys (AList.update k v m)"
  by (auto simp: safe_keys_def dom_update)

lemma safe_keys_project: "\<forall>p \<in> set paths. \<not> sensitivePath p \<Longrightarrow> safe_keys m \<Longrightarrow> safe_keys (project obj paths m)"
  unfolding project_def by (induction paths arbitrary: m) (auto split: option.splits)

lemma native_paths_safe: "\<forall>p \<in> set native_paths. \<not> sensitivePath p"
  "\<not> sensitivePath ''spec.unschedulable''" "\<not> sensitivePath ''containers''" "\<not> sensitivePath ''containers.restarts''"
  "\<not> sensitivePath ''adapter''"
  unfolding list_all_iff [symmetric] by code_simp+

lemma describeNative_safe:
  assumes "describeNative grp obj cs m = (r, m')" and "safe_keys m"
  shows "safe_keys m'"
  using assms safe_keys_project [OF native_paths_safe(1) assms(2), of obj] native_paths_safe(2-)
  unfolding describeNative_def Let_def by (auto split: if_splits prod.splits)

lemma status_fields_safe:
  "status_fields obj fs observed warning m = (r, m') \<Longrightarrow> \<forall>f \<in> set fs. \<not> sensitivePath (sf_path f) \<Longrightarrow> safe_keys m \<Longrightarrow> safe_keys m'"
  by (induction obj fs observed warning m rule: status_fields.induct) (auto simp: Let_def split: if_splits)

lemma describe_selected_safe:
  assumes "describe_selected d obj cs m = (st, reason, m')" and "\<forall>f \<in> set (df_status d). \<not> sensitivePath (sf_path f)" and "safe_keys m"
  shows "safe_keys m'"
  using assms status_fields_safe unfolding describe_selected_def Let_def
  by (fastforce split: if_splits option.splits prod.splits sum.splits)

lemma validDefinition_paths:
  assumes "validateDefinition d = None"
  shows "\<forall>p \<in> set (df_description d @ df_summary d). \<not> sensitivePath p" "\<forall>f \<in> set (df_status d). \<not> sensitivePath (sf_path f)"
proof -
  from assms have "find bad_path (df_description d @ df_summary d) = None"
    by (auto simp: validateDefinition_def split: if_splits option.splits)
  then show "\<forall>p \<in> set (df_description d @ df_summary d). \<not> sensitivePath p"
    by (auto simp: find_None_iff bad_path_def)
  from assms show "\<forall>f \<in> set (df_status d). \<not> sensitivePath (sf_path f)"
    by (auto simp: validateDefinition_def list_ex_iff bad_status_field_def bad_path_def split: if_splits option.splits)
qed

lemma select_best_cases: "select_best score best x f ds = x \<or> (\<exists>d \<in> set ds. select_best score best x f ds = f d)"
  by (induction score best x f ds rule: select_best.induct) auto

lemma selected_valid: "registry_ok r \<Longrightarrow> validateDefinition (select_best score best generic id r) = None"
proof -
  assume r: "registry_ok r"
  have "validateDefinition generic = None" by code_simp
  with r select_best_cases [of score best generic id r] show ?thesis by (auto simp: registry_ok_def)
qed

lemma Describe_safe:
  assumes "registry_ok r" and "Describe r grp obj cs = (st, reason, m)"
  shows "safe_keys m"
proof -
  define d where "d = select_best (\<lambda>d. matchScore d grp (object_kind obj)) (-1) generic id r"
  define m0 where "m0 = project obj (df_description d @ df_summary d) [(''adapter'', JStr (df_name d))]"
  have valid: "validateDefinition d = None" unfolding d_def by (rule selected_valid [OF assms(1)])
  note paths = validDefinition_paths [OF valid]
  have m0: "safe_keys m0"
    unfolding m0_def by (rule safe_keys_project [OF paths(1)]) (simp add: safe_keys_def native_paths_safe)
  obtain nr nm where native: "describeNative grp obj cs m0 = (nr, nm)" by fastforce
  have nm: "safe_keys nm" by (rule describeNative_safe [OF native m0])
  from assms(2) have "Describe r grp obj cs = (st, reason, m)" .
  then have "m = nm \<or> (\<exists>m1. safe_keys m1 \<and> describe_selected d obj cs m1 = (st, reason, m))"
    unfolding Describe_def Let_def d_def [symmetric] m0_def [symmetric] native
    using m0 nm by (auto split: if_splits option.splits)
  with nm describe_selected_safe [OF _ paths(2)] show ?thesis by blast
qed

text \<open>C24: Loading an adapter file, whatever it holds, leaves a registry of valid definitions with distinct
  names (the old one after any error), and no description under such a registry projects a
  path that names a token, secret, password, credential, authorization or private key.\<close>

theorem no_secret_projected:
  assumes "registry_ok r" and "Load file r = (e, r')"
  shows "registry_ok r' \<and> (e \<noteq> None \<longrightarrow> r' = r)
    \<and> (\<forall>grp obj cs k. k \<in> fst ` set (snd (snd (Describe r' grp obj cs))) \<longrightarrow> \<not> sensitivePath k)"
proof -
  from Load_ok [OF assms(2,1)] have ok: "registry_ok r' \<and> (e \<noteq> None \<longrightarrow> r' = r)" .
  have "safe_keys (snd (snd (Describe r' grp obj cs)))" for grp obj cs
    using ok Describe_safe [of r' grp obj cs] by (metis prod.collapse)
  with ok show ?thesis unfolding safe_keys_def by blast
qed

definition sample_widget :: adapter_def where
  "sample_widget = (blank_definition ''widget'' ''example.com'' ''Widget'')\<lparr>df_summary := [''status.phase'', ''spec.size'']\<rparr>"

lemma sample_load: "fst (Load (Adapters 1 [sample_widget]) builtins) = None"
  "fst (Load (Adapters 1 [sample_widget\<lparr>df_summary := [''spec.secretName'']\<rparr>]) builtins) = Some (InvalidPath ''spec.secretName'')"
  by code_simp+

lemma no_secret_projected_witness:
  "fst (Load (Adapters 1 [sample_widget]) builtins) = None \<and> registry_ok (snd (Load (Adapters 1 [sample_widget]) builtins))
   \<and> fst (Load (Adapters 1 [sample_widget\<lparr>df_summary := [''spec.secretName'']\<rparr>]) builtins) \<noteq> None"
  using no_secret_projected [OF builtins_ok prod.collapse [symmetric, of "Load (Adapters 1 [sample_widget]) builtins"]]
  by (simp add: sample_load)

section \<open>States\<close>

lemma describeNode_known: "known_state (fst (describeNode cs))"
  by (simp add: describeNode_def Let_def known_state_def)

lemma state_known [simp]: "known_state StateOK" "known_state StateWarning" "known_state StateCritical" "known_state StateUnknown"
  by (simp_all add: known_state_def)

text \<open>Pushing \<open>known_state\<close> through the branches, without looking at their conditions.\<close>

lemma known_if: "known_state (fst (if b then x else y)) = (if b then known_state (fst x) else known_state (fst y))"
  and known_case: "known_state (fst (case z of None \<Rightarrow> x | Some c \<Rightarrow> f c)) = (case z of None \<Rightarrow> known_state (fst x) | Some c \<Rightarrow> known_state (fst (f c)))"
  by (auto split: option.split)

lemma case_True: "(case z of None \<Rightarrow> True | Some c \<Rightarrow> True) = True"
  by (cases z) simp_all

lemmas known_branches = known_if known_case case_True if_cancel fst_conv state_known

lemma describe_pod_known: "known_state (fst (describe_pod obj cs))"
  by (simp only: describe_pod_def Let_def known_branches)

lemma describe_workload_known: "known_state (fst (describe_workload kind obj cs))"
  by (simp only: describe_workload_def Let_def known_branches)

lemma describe_job_known: "known_state (fst (describe_job obj cs))"
  by (simp only: describe_job_def known_branches)

lemma describe_volume_known: "known_state (fst (describe_volume kind obj))"
  by (simp only: describe_volume_def Let_def known_branches)

definition known_result :: "(state \<times> string) option \<Rightarrow> bool" where
  "known_result r = (case r of None \<Rightarrow> True | Some x \<Rightarrow> known_state (fst x))"

lemma known_result_simps: "known_result None = True" "known_result (Some x) = known_state (fst x)"
  "known_result (fst (if b then y else z)) = (if b then known_result (fst y) else known_result (fst z))"
  by (simp_all add: known_result_def)

lemma describeNative_known:
  assumes "describeNative grp obj cs m = (Some (st, reason), m')"
  shows "known_state st"
proof -
  have "known_result (fst (describeNative grp obj cs m))"
    by (simp only: describeNative_def Let_def prod.case_eq_if known_result_simps known_branches describeNode_known
        describe_pod_known describe_workload_known describe_job_known describe_volume_known)
  with assms show ?thesis by (simp add: known_result_simps)
qed

lemma Describe_known:
  assumes "Describe r grp obj cs = (st, reason, m)"
  shows "known_state st"
proof -
  have selected: "describe_selected d obj cs m0 = (st, reason, m) \<Longrightarrow> known_state st" for d m0
    unfolding describe_selected_def Let_def
    by (auto simp: known_state_def split: if_splits option.splits prod.splits sum.splits)
  from assms show ?thesis
    unfolding Describe_def Let_def using selected describeNative_known
    by (auto split: if_splits option.splits prod.splits)
qed

text \<open>
  What a node's state means, said by its conditions alone: a failure is a \<open>Ready\<close> that is false or
  a pressure that is true; doubt is a relevant condition that is neither, or no \<open>Ready\<close> at all.
\<close>

definition node_state :: "condition list \<Rightarrow> state" where
  "node_state cs =
     (if \<exists>c \<in> set cs. c_type c = ''Ready'' \<and> c_status c = ''False''
         \<or> c_type c \<in> {''DiskPressure'', ''MemoryPressure'', ''PIDPressure'', ''NetworkUnavailable''} \<and> c_status c = ''True''
      then StateCritical
      else if (\<forall>c \<in> set cs. c_type c \<noteq> ''Ready'') \<or> (\<exists>c \<in> set cs. c_type c \<in> set node_kinds \<and> c_status c \<notin> {''True'', ''False''})
      then StateUnknown else StateOK)"

lemma node_relevant: "set (concat (map (\<lambda>kind. filter (\<lambda>c. c_type c = kind) cs) ks)) = {c \<in> set cs. c_type c \<in> set ks}"
  by auto

text \<open>A node is reported by all its conditions together, in whatever order they come: critical as soon
  as it is not ready or under any pressure, unknown when a relevant condition is undecided or
  \<open>Ready\<close> is missing, and ok otherwise.\<close>

theorem describeNode_states: "fst (describeNode cs) = node_state cs"
proof -
  let ?rel = "concat (map (\<lambda>kind. filter (\<lambda>c. c_type c = kind) cs) node_kinds)"
  have problems: "filter (\<lambda>c. \<not> node_unknown c \<and> node_problem c) ?rel \<noteq> [] \<longleftrightarrow>
      (\<exists>c \<in> set cs. c_type c = ''Ready'' \<and> c_status c = ''False''
         \<or> c_type c \<in> {''DiskPressure'', ''MemoryPressure'', ''PIDPressure'', ''NetworkUnavailable''} \<and> c_status c = ''True'')"
    unfolding filter_empty_conv node_relevant
    by (auto simp: node_unknown_def node_problem_def node_kinds_def)
  have unknown: "filter node_unknown ?rel \<noteq> [] \<longleftrightarrow> (\<exists>c \<in> set cs. c_type c \<in> set node_kinds \<and> c_status c \<notin> {''True'', ''False''})"
    unfolding filter_empty_conv node_relevant by (auto simp: node_unknown_def)
  have ready: "list_ex (\<lambda>c. c_type c = ''Ready'') cs \<longleftrightarrow> \<not> (\<forall>c \<in> set cs. c_type c \<noteq> ''Ready'')" by (simp add: list_ex_iff)
  have map_empty: "map node_detail xs @ (if b then [] else [y]) \<noteq> [] \<longleftrightarrow> xs \<noteq> [] \<or> \<not> b" for xs b y by simp
  have "fst (describeNode cs) = (if filter (\<lambda>c. \<not> node_unknown c \<and> node_problem c) ?rel \<noteq> [] then StateCritical
      else if filter node_unknown ?rel \<noteq> [] \<or> \<not> list_ex (\<lambda>c. c_type c = ''Ready'') cs then StateUnknown else StateOK)"
    unfolding describeNode_def Let_def map_empty map_is_Nil_conv if_distrib [of fst] fst_conv ..
  also have "\<dots> = node_state cs"
    unfolding problems unknown ready node_state_def not_not by (simp only: disj_commute)
  finally show ?thesis .
qed

end
