(* ===== verification/Projection.thy ===== *)
theory Projection
  imports Adapter
begin

text \<open>
  How \<open>internal/v2/collector/collector.go\<close> turns a Kubernetes object into an ingest event: bounded
  copies of labels, annotations, conditions and summary, and the identity of the event. The
  parsers and printers of times, the SHA-1 UUIDs and the text of a resource type are arguments.
\<close>

section \<open>Resource types and the context of a collector\<close>

record gvr =
  g_group :: string
  g_version :: string
  g_resource :: string

text \<open>
  The collector's context: its cluster, the adapters, and the third-party functions it calls.
\<close>

record collector_env =
  ce_cluster :: string
  ce_adapters :: "adapter_def list"
  ce_parse :: "string \<Rightarrow> time option"
  ce_float :: "string \<Rightarrow> string"
  ce_sha1 :: "string \<Rightarrow> string"
  ce_stamp :: "time \<Rightarrow> string"
  ce_gvr :: "gvr \<Rightarrow> string"

section \<open>Bounded copies\<close>

text \<open>\<open>truncate\<close>: cut at the limit, then drop bytes until what is left is valid UTF-8.\<close>

function trim_invalid :: "string \<Rightarrow> string" where
  "trim_invalid v = (if valid_utf8 v then v else trim_invalid (butlast v))"
  by pat_completeness auto
termination
proof (relation "measure length")
  fix v :: string
  assume "\<not> valid_utf8 v"
  then have "v \<noteq> []" by auto
  then show "(butlast v, v) \<in> measure length" by simp
qed simp

declare trim_invalid.simps [simp del]

definition truncate :: "string \<Rightarrow> nat \<Rightarrow> string" where
  "truncate v limit = (if length v \<le> limit then v else trim_invalid (take limit v))"

text \<open>\<open>fmt.Sprint\<close> of a JSON value; \<open>ff\<close> prints a float the encoder writes as its argument.\<close>

fun sprint :: "(string \<Rightarrow> string) \<Rightarrow> json \<Rightarrow> string"
  and sprint_list :: "(string \<Rightarrow> string) \<Rightarrow> json list \<Rightarrow> string list"
  and sprint_members :: "(string \<Rightarrow> string) \<Rightarrow> (string \<times> json) list \<Rightarrow> (string \<times> string) list" where
  "sprint ff JNull = ''<nil>''"
| "sprint ff (JBool b) = (if b then ''true'' else ''false'')"
| "sprint ff (JInt i) = int_str i"
| "sprint ff (JFloat t) = ff t"
| "sprint ff (JStr s) = s"
| "sprint ff (JArr xs) = ''['' @ join '' '' (sprint_list ff xs) @ '']''"
| "sprint ff (JObj kvs) = ''map['' @ join '' '' (map (\<lambda>(k, v). k @ '':'' @ v) (sort_key fst (sprint_members ff kvs))) @ '']''"
| "sprint_list ff [] = []"
| "sprint_list ff (x # xs) = sprint ff x # sprint_list ff xs"
| "sprint_members ff [] = []"
| "sprint_members ff ((k, v) # kvs) = (k, sprint ff v) # sprint_members ff kvs"

definition text_of :: "(string \<Rightarrow> string) \<Rightarrow> json option \<Rightarrow> string" where
  "text_of ff v = (case v of None \<Rightarrow> [] | Some JNull \<Rightarrow> [] | Some w \<Rightarrow> sprint ff w)"

definition copy_entry :: "(string, string) gomap \<Rightarrow> nat \<Rightarrow> nat \<Rightarrow> nat \<Rightarrow> nat \<Rightarrow> bool
    \<Rightarrow> (string, string) gomap \<times> nat \<Rightarrow> string \<Rightarrow> (string, string) gomap \<times> nat" where
  "copy_entry m maxItems maxKey maxValue maxBytes filterSensitive acc key =
     (case acc of (out, used) \<Rightarrow>
        if length out = maxItems \<or> length key > maxKey
           \<or> filterSensitive \<and> contains_any (to_lower key) sensitive_needles then (out, used)
        else let v = truncate (the (map_of m key)) maxValue in
        if used + length key + length v > maxBytes then (out, used)
        else (out @ [(key, v)], used + length key + length v))"

definition boundedStringMap :: "(string, string) gomap \<Rightarrow> nat \<Rightarrow> nat \<Rightarrow> nat \<Rightarrow> nat \<Rightarrow> bool \<Rightarrow> (string, string) gomap" where
  "boundedStringMap m maxItems maxKey maxValue maxBytes filterSensitive =
     fst (foldl (copy_entry m maxItems maxKey maxValue maxBytes filterSensitive) ([], 0) (sort (map fst m)))"

definition safeAnnotations :: "(string, string) gomap \<Rightarrow> (string, string) gomap" where
  "safeAnnotations m = boundedStringMap m 256 253 4096 (64 * 1024) True"

definition boundedSummary :: "(string, json) gomap \<Rightarrow> nat \<Rightarrow> (string, json) gomap" where
  "boundedSummary m maxBytes =
     foldl (\<lambda>out key. let out' = out @ [(key, the (map_of m key))]
       in if length (json_encode (JObj out')) > maxBytes then out else out') [] (sort (map fst m))"

section \<open>Objects\<close>

definition string_map :: "json option \<Rightarrow> (string, string) gomap" where
  \<comment> \<open>\<open>NestedStringMap\<close>: nothing unless every member is a string.\<close>
  "string_map v = (let m = members v in
     if list_all (\<lambda>(k, w). case w of JStr s \<Rightarrow> True | _ \<Rightarrow> False) m
     then map (\<lambda>(k, w). (k, case w of JStr s \<Rightarrow> s | _ \<Rightarrow> [])) m else [])"

definition owner_refs :: "json \<Rightarrow> (string, json) gomap list" where
  "owner_refs obj = map (\<lambda>v. members (Some v))
     (filter (\<lambda>v. case v of JObj _ \<Rightarrow> True | _ \<Rightarrow> False) (nested_slice obj [''metadata'', ''ownerReferences'']))"

definition owner_of :: "(string, json) gomap \<Rightarrow> owner" where
  "owner_of m = \<lparr>o_uid = truncate (member_string m ''uid'') 512, o_api_version = truncate (member_string m ''apiVersion'') 512,
     o_kind = truncate (member_string m ''kind'') 512, o_name = truncate (member_string m ''name'') 512,
     o_controller = (map_of m ''controller'' = Some (JBool True))\<rparr>"

definition condition_of :: "(string \<Rightarrow> time option) \<Rightarrow> (string \<Rightarrow> string) \<Rightarrow> json \<Rightarrow> condition option" where
  "condition_of parse ff v = (case v of
      JObj m \<Rightarrow>
        let c = \<lparr>c_type = truncate (text_of ff (map_of m ''type'')) 512, c_status = truncate (text_of ff (map_of m ''status'')) 512,
               c_reason = truncate (text_of ff (map_of m ''reason'')) 1024, c_message = truncate (text_of ff (map_of m ''message'')) 4096,
               c_transition = parse (text_of ff (map_of m ''lastTransitionTime''))\<rparr>
        in if c_type c = [] \<or> c_status c = [] then None else Some c
    | _ \<Rightarrow> None)"

definition raw_conditions :: "gvr \<Rightarrow> json \<Rightarrow> json list" where
  "raw_conditions g obj =
     (let raw = nested_slice obj [''status'', ''conditions''] in
      if g_group g = ''route.openshift.io'' \<and> object_kind obj = ''Route''
      then raw @ concat (map (\<lambda>e. case e of JObj m \<Rightarrow> nested_slice e [''conditions''] | _ \<Rightarrow> [])
             (nested_slice obj [''status'', ''ingress'']))
      else raw)"

definition normalizeWithRegistry :: "(string \<Rightarrow> time option) \<Rightarrow> (string \<Rightarrow> string) \<Rightarrow> time \<Rightarrow> string \<Rightarrow> gvr \<Rightarrow> json
    \<Rightarrow> adapter_def list \<Rightarrow> resource" where
  "normalizeWithRegistry parse ff now cluster g obj registry =
     (let grp = (if g_group g = [] then ''core'' else g_group g);
          owners = map owner_of (take 64 (owner_refs obj));
          conditions = take 64 (List.map_filter (condition_of parse ff) (raw_conditions g obj));
          (state, reason, objectSummary) = Describe registry (g_group g) obj conditions
      in Normalize now
        \<lparr>r_id = [], r_cluster = cluster, r_uid = text_at obj ''metadata.uid'', r_group = grp, r_version = g_version g,
         r_kind = object_kind obj, r_namespace = text_at obj ''metadata.namespace'', r_name = text_at obj ''metadata.name'',
         r_resource_version = text_at obj ''metadata.resourceVersion'',
         r_labels = boundedStringMap (string_map (field_at obj ''metadata.labels'')) 256 253 256 (64 * 1024) False,
         r_annotations = safeAnnotations (string_map (field_at obj ''metadata.annotations'')),
         r_owners = owners, r_conditions = conditions, r_summary = boundedSummary objectSummary (64 * 1024),
         r_state = state, r_reason = truncate reason 4096, r_observed = now, r_deleted = None, r_freshness = []\<rparr>)"

section \<open>Events\<close>

definition NUL :: string where "NUL = [CHR 0x00]"

definition event :: "collector_env \<Rightarrow> time \<Rightarrow> string \<Rightarrow> gvr \<Rightarrow> json \<Rightarrow> ingest_event" where
  "event c now action g obj =
     \<lparr>e_id = ce_sha1 c (''projection-v2'' @ NUL @ ce_cluster c @ NUL @ ce_gvr c g @ NUL @ text_at obj ''metadata.uid'' @ NUL
         @ text_at obj ''metadata.resourceVersion'' @ NUL @ action),
      e_action = action,
      e_resource = normalizeWithRegistry (ce_parse c) (ce_float c) now (ce_cluster c) g obj (ce_adapters c)\<rparr>"

definition snapshotEvent :: "collector_env \<Rightarrow> time \<Rightarrow> gvr \<Rightarrow> json \<Rightarrow> time \<Rightarrow> ingest_event" where
  "snapshotEvent c now g obj started =
     (let e = event c now ''upsert'' g obj
      in e\<lparr>e_id := ce_sha1 c (e_id e @ NUL @ ''snapshot'' @ NUL @ ce_stamp c started)\<rparr>)"

section \<open>Facts about truncation\<close>

lemma trim_invalid_valid: "valid_utf8 (trim_invalid v)"
proof (induction v rule: trim_invalid.induct)
  case (1 v)
  then show ?case by (subst trim_invalid.simps) auto
qed

lemma trim_invalid_prefix: "\<exists>n \<le> length v. trim_invalid v = take n v"
proof (induction v rule: trim_invalid.induct)
  case (1 v)
  show ?case
  proof (cases "valid_utf8 v")
    case True
    then show ?thesis by (intro exI [of _ "length v"]) (simp add: trim_invalid.simps)
  next
    case False
    with 1 obtain n where n: "n \<le> length (butlast v)" "trim_invalid (butlast v) = take n (butlast v)" by blast
    have "0 < length v" using False by auto
    with n(1) have "n < length v" unfolding length_butlast by linarith
    then have "take n (butlast v) = take n v" by (rule take_butlast)
    with n False show ?thesis by (intro exI [of _ n]) (subst trim_invalid.simps, simp)
  qed
qed

lemma trim_invalid_longest: "valid_utf8 (take k v) \<Longrightarrow> k \<le> length v \<Longrightarrow> k \<le> length (trim_invalid v)"
proof (induction v rule: trim_invalid.induct)
  case (1 v)
  show ?case
  proof (cases "valid_utf8 v")
    case True
    with 1 show ?thesis by (simp add: trim_invalid.simps)
  next
    case False
    with 1(2,3) have "k < length v" by (cases "k = length v") auto
    then have "take k (butlast v) = take k v" "k \<le> length (butlast v)" by (simp_all add: take_butlast)
    with 1 False show ?thesis by (subst trim_invalid.simps) simp
  qed
qed

lemma length_truncate: "length (truncate v limit) \<le> limit"
proof -
  obtain n where "n \<le> length (take limit v)" "trim_invalid (take limit v) = take n (take limit v)"
    using trim_invalid_prefix by blast
  then show ?thesis by (simp add: truncate_def)
qed

lemma truncate_valid: "valid_utf8 v \<Longrightarrow> valid_utf8 (truncate v limit)"
  by (simp add: truncate_def trim_invalid_valid)

lemma truncate_nonempty:
  assumes "valid_utf8 v" and "v \<noteq> []" and "4 \<le> limit"
  shows "truncate v limit \<noteq> []"
proof (cases "length v \<le> limit")
  case True
  with assms(2) show ?thesis by (simp add: truncate_def)
next
  case False
  obtain n where n: "rune_len v = Some n" using assms(1,2) by (cases v) (auto simp: valid_utf8.simps split: option.splits)
  then have "0 < n" using rune_len_pos by blast
  have "n \<le> 4" using n by (cases v) (auto split: if_splits list.splits)
  have "valid_utf8 (take n v)"
    using valid_utf8_step [OF rune_len_take [OF n order_refl]] by simp
  then have "valid_utf8 (take n (take limit v))" using \<open>n \<le> 4\<close> assms(3) by (simp add: min_def)
  then have "n \<le> length (trim_invalid (take limit v))"
    by (rule trim_invalid_longest) (use \<open>n \<le> 4\<close> assms(3) False in simp)
  with \<open>0 < n\<close> False show ?thesis by (auto simp: truncate_def)
qed

section \<open>Facts about the bounded copies\<close>

text \<open>The invariant of the loop of \<open>boundedStringMap\<close>.\<close>

lemma copy_entries:
  assumes "foldl (copy_entry m maxItems maxKey maxValue maxBytes filterSensitive) (out, used) keys = (out', used')"
    and "length out \<le> maxItems" and "\<forall>(k, v) \<in> set out. length k \<le> maxKey \<and> length v \<le> maxValue
           \<and> (filterSensitive \<longrightarrow> \<not> contains_any (to_lower k) sensitive_needles)"
    and "used = sum_list (map (\<lambda>(k, v). length k + length v) out)" and "used \<le> maxBytes"
  shows "length out' \<le> maxItems \<and> (\<forall>(k, v) \<in> set out'. length k \<le> maxKey \<and> length v \<le> maxValue
           \<and> (filterSensitive \<longrightarrow> \<not> contains_any (to_lower k) sensitive_needles))
    \<and> sum_list (map (\<lambda>(k, v). length k + length v) out') \<le> maxBytes"
  using assms
proof (induction keys arbitrary: out used)
  case Nil
  then show ?case by simp
next
  case (Cons key keys)
  obtain out1 used1 where one: "copy_entry m maxItems maxKey maxValue maxBytes filterSensitive (out, used) key = (out1, used1)"
    by fastforce
  with Cons.prems(1) have rest: "foldl (copy_entry m maxItems maxKey maxValue maxBytes filterSensitive) (out1, used1) keys = (out', used')"
    by simp
  show ?case
    by (rule Cons.IH [OF rest])
      (use one Cons.prems(2-) length_truncate in \<open>auto simp: copy_entry_def Let_def split: if_splits\<close>)
qed

lemma boundedStringMap_bounds:
  "length (boundedStringMap m maxItems maxKey maxValue maxBytes filterSensitive) \<le> maxItems"
  "kv \<in> set (boundedStringMap m maxItems maxKey maxValue maxBytes filterSensitive) \<Longrightarrow>
     length (fst kv) \<le> maxKey \<and> length (snd kv) \<le> maxValue
     \<and> (filterSensitive \<longrightarrow> \<not> contains_any (to_lower (fst kv)) sensitive_needles)"
  "sum_list (map (\<lambda>(k, v). length k + length v) (boundedStringMap m maxItems maxKey maxValue maxBytes filterSensitive)) \<le> maxBytes"
proof -
  obtain out used where run: "foldl (copy_entry m maxItems maxKey maxValue maxBytes filterSensitive) ([], 0) (sort (map fst m)) = (out, used)"
    by fastforce
  from copy_entries [OF run] run
  show "length (boundedStringMap m maxItems maxKey maxValue maxBytes filterSensitive) \<le> maxItems"
    "kv \<in> set (boundedStringMap m maxItems maxKey maxValue maxBytes filterSensitive) \<Longrightarrow>
     length (fst kv) \<le> maxKey \<and> length (snd kv) \<le> maxValue
     \<and> (filterSensitive \<longrightarrow> \<not> contains_any (to_lower (fst kv)) sensitive_needles)"
    "sum_list (map (\<lambda>(k, v). length k + length v) (boundedStringMap m maxItems maxKey maxValue maxBytes filterSensitive)) \<le> maxBytes"
    by (auto simp: boundedStringMap_def)
qed

lemma boundedSummary_bound:
  assumes "2 \<le> maxBytes"
  shows "length (json_encode (JObj (boundedSummary m maxBytes))) \<le> maxBytes"
proof -
  have "length (json_encode (JObj (foldl (\<lambda>out key. let out' = out @ [(key, the (map_of m key))]
       in if length (json_encode (JObj out')) > maxBytes then out else out') out keys))) \<le> maxBytes"
    if "length (json_encode (JObj out)) \<le> maxBytes" for out keys
    using that by (induction keys arbitrary: out) (simp_all add: Let_def del: json_encode.simps)
  from this [of "[]" "sort (map fst m)"] assms show ?thesis by (simp add: boundedSummary_def)
qed

section \<open>What the API accepts\<close>

text \<open>
  What the Kubernetes API server guarantees of an object and its owner references: a uid, a kind,
  a name and a resource version within its limits, and valid UTF-8 throughout.
\<close>

definition served :: "gvr \<Rightarrow> json \<Rightarrow> bool" where
  "served g obj \<longleftrightarrow> length (g_group g) \<le> 253 \<and> 0 < length (g_version g) \<and> length (g_version g) \<le> 63
     \<and> 0 < length (text_at obj ''metadata.uid'') \<and> length (text_at obj ''metadata.uid'') \<le> 128
     \<and> 0 < length (object_kind obj) \<and> length (object_kind obj) \<le> 63
     \<and> 0 < length (text_at obj ''metadata.name'') \<and> length (text_at obj ''metadata.name'') \<le> 253
     \<and> 0 < length (text_at obj ''metadata.resourceVersion'') \<and> length (text_at obj ''metadata.resourceVersion'') \<le> 128
     \<and> length (text_at obj ''metadata.namespace'') \<le> 63
     \<and> list_all (\<lambda>m. list_all (\<lambda>k. member_string m k \<noteq> [] \<and> valid_utf8 (member_string m k)) [''uid'', ''kind'', ''name'']) (owner_refs obj)"

lemma owner_of_good:
  assumes "list_all (\<lambda>k. member_string m k \<noteq> [] \<and> valid_utf8 (member_string m k)) [''uid'', ''kind'', ''name'']"
  shows "\<not> bad_owner (owner_of m)"
  using assms truncate_nonempty [of _ 512] by (simp add: bad_owner_def owner_of_def not_less length_truncate)

lemma condition_of_good: "condition_of parse ff v = Some c \<Longrightarrow> \<not> bad_condition c"
  by (auto simp: condition_of_def bad_condition_def Let_def not_less length_truncate split: json.splits if_splits)

lemma normalize_fields:
  fixes now :: time
  assumes "normalizeWithRegistry parse ff now cluster g obj registry = r"
  shows "r_cluster r = cluster" "r_uid r = text_at obj ''metadata.uid''" "r_id r = StableID cluster (r_uid r)"
    and "r_group r = (if g_group g = [] then ''core'' else g_group g)" "r_version r = g_version g" "r_kind r = object_kind obj"
    and "r_namespace r = text_at obj ''metadata.namespace''" "r_name r = text_at obj ''metadata.name''"
    and "r_resource_version r = text_at obj ''metadata.resourceVersion''"
    and "r_labels r = boundedStringMap (string_map (field_at obj ''metadata.labels'')) 256 253 256 (64 * 1024) False"
    and "r_annotations r = safeAnnotations (string_map (field_at obj ''metadata.annotations''))"
    and "r_owners r = map owner_of (take 64 (owner_refs obj))"
    and "r_conditions r = take 64 (List.map_filter (condition_of parse ff) (raw_conditions g obj))"
    and "\<exists>m. r_summary r = boundedSummary m (64 * 1024)" "\<exists>s. r_reason r = truncate s 4096"
    and "known_state (r_state r)" "now \<noteq> zero_time \<Longrightarrow> r_observed r = now" "r_deleted r = None"
proof -
  let ?cs = "take 64 (List.map_filter (condition_of parse ff) (raw_conditions g obj))"
  obtain st reason summary where d: "Describe registry (g_group g) obj ?cs = (st, reason, summary)"
    by (metis prod_cases3)
  have known: "known_state st" by (rule Describe_known [OF d])
  then have "st \<noteq> []" by (auto simp: known_state_def state_defs)
  then show "r_cluster r = cluster" "r_uid r = text_at obj ''metadata.uid''" "r_id r = StableID cluster (r_uid r)"
    "r_group r = (if g_group g = [] then ''core'' else g_group g)" "r_version r = g_version g" "r_kind r = object_kind obj"
    "r_namespace r = text_at obj ''metadata.namespace''" "r_name r = text_at obj ''metadata.name''"
    "r_resource_version r = text_at obj ''metadata.resourceVersion''"
    "r_labels r = boundedStringMap (string_map (field_at obj ''metadata.labels'')) 256 253 256 (64 * 1024) False"
    "r_annotations r = safeAnnotations (string_map (field_at obj ''metadata.annotations''))"
    "r_owners r = map owner_of (take 64 (owner_refs obj))" "r_conditions r = ?cs"
    "\<exists>m. r_summary r = boundedSummary m (64 * 1024)" "\<exists>s. r_reason r = truncate s 4096"
    "known_state (r_state r)" "now \<noteq> zero_time \<Longrightarrow> r_observed r = now" "r_deleted r = None"
    using assms known by (auto simp: normalizeWithRegistry_def Let_def d Normalize_def)
qed

lemma projection_validates:
  assumes "served g obj" and "now \<noteq> zero_time"
  shows "validate_resource cluster (normalizeWithRegistry parse ff now cluster g obj registry) = None"
proof -
  define r where "r = normalizeWithRegistry parse ff now cluster g obj registry"
  note f = normalize_fields [OF r_def [symmetric]]
  have fields: "find bad_field (identity_fields r) = None"
    using assms(1) by (auto simp: find_None_iff identity_fields_def bad_field_def f served_def)
  have labels: "length (r_labels r) \<le> 256" "find bad_label (r_labels r) = None"
    unfolding f find_None_iff using boundedStringMap_bounds(1,2) [where filterSensitive = False]
    by (fastforce simp: bad_label_def)+
  have annotations: "length (r_annotations r) \<le> 256" "find bad_annotation (r_annotations r) = None"
    unfolding f find_None_iff safeAnnotations_def using boundedStringMap_bounds(1,2) [where filterSensitive = True]
    by (fastforce simp: bad_annotation_def containsSensitiveName_def contains_any_def)+
  have owners: "length (r_owners r) \<le> 64" "first_index bad_owner (r_owners r) = None"
    unfolding f first_index_None using assms(1) owner_of_good
    by (auto simp: served_def list_all_iff dest!: in_set_takeD)
  have conditions: "length (r_conditions r) \<le> 64" "first_index bad_condition (r_conditions r) = None"
    unfolding f first_index_None using condition_of_good
    by (auto simp: map_filter_def dest!: in_set_takeD)
  have "length (json_encode (JObj (r_summary r))) \<le> 64 * 1024"
    using f(14) boundedSummary_bound [of "64 * 1024"] by (auto simp del: json_encode.simps)
  moreover have "length (r_reason r) \<le> 4096" using f(15) length_truncate by auto
  moreover have "r_uid r \<noteq> []" "length (r_uid r) \<le> 512" "length (r_namespace r) \<le> 253"
    using assms(1) by (auto simp: f served_def)
  ultimately show ?thesis
    unfolding r_def [symmetric] validate_resource_def
    using fields labels annotations owners conditions f(1,3,16) f(17) [OF assms(2)] assms(2)
    by (simp del: json_encode.simps)
qed

end
