(* ===== verification/Shards.thy ===== *)
theory Shards
  imports Projection
begin

text \<open>
  Which shards a collector watches: the allow-list, the permissions found by discovery and
  access reviews, the partition of namespaces over leases, targeted resyncs and the periodic
  \<open>reconcile\<close> of \<open>internal/v2/collector/collector.go\<close>, with \<open>resync.go\<close>. A Go map with boolean
  values is the list of its keys. What Kubernetes answers during a refresh is the record \<open>refresh\<close>.
\<close>

record lease_shard =
  ls_gvr :: gvr
  ls_partition :: nat

type_synonym 'k namespaces = "('k \<times> string list) list"

definition namespaces_of :: "'k namespaces \<Rightarrow> 'k \<Rightarrow> string list" where
  "namespaces_of m k = (case map_of m k of None \<Rightarrow> [] | Some nss \<Rightarrow> nss)"

definition add_namespace :: "'k \<Rightarrow> string \<Rightarrow> 'k namespaces \<Rightarrow> 'k namespaces" where
  "add_namespace k ns m = AList.update k (List.insert ns (namespaces_of m k)) m"

section \<open>The allow-list\<close>

definition namespacedAllowlist :: "(string \<times> string list) list" where
  "namespacedAllowlist =
     [([], [''endpoints'', ''events'', ''persistentvolumeclaims'', ''pods'', ''replicationcontrollers'', ''services'']),
      (''apps'', [''daemonsets'', ''deployments'', ''replicasets'', ''statefulsets'']),
      (''batch'', [''cronjobs'', ''jobs'']),
      (''autoscaling'', [''horizontalpodautoscalers'']),
      (''policy'', [''poddisruptionbudgets'']),
      (''networking.k8s.io'', [''ingresses'', ''networkpolicies'']),
      (''discovery.k8s.io'', [''endpointslices'']),
      (''route.openshift.io'', [''routes''])]"

definition clusterAllowlist :: "(string \<times> string list) list" where
  "clusterAllowlist = [([], [''namespaces'', ''nodes'']), (''config.openshift.io'', [''clusterversions'', ''clusteroperators''])]"

definition has :: "string list \<Rightarrow> string \<Rightarrow> bool" where
  "has vs want \<longleftrightarrow> want \<in> set vs"

definition allowlisted :: "(string \<times> string list) list \<Rightarrow> gvr \<Rightarrow> bool" where
  "allowlisted catalog g = (case map_of catalog (g_group g) of None \<Rightarrow> False | Some rs \<Rightarrow> has rs (g_resource g))"

section \<open>Permissions\<close>

record resource_rule =
  ru_verbs :: "string list"
  ru_groups :: "string list"
  ru_resources :: "string list"
  ru_names :: "string list"

definition ruleAllows :: "resource_rule list \<Rightarrow> gvr \<Rightarrow> string list \<Rightarrow> bool" where
  "ruleAllows rules g verbs = list_ex (\<lambda>rule. ru_names rule = []
     \<and> (has (ru_groups rule) (g_group g) \<or> has (ru_groups rule) ''*'')
     \<and> (has (ru_resources rule) (g_resource g) \<or> has (ru_resources rule) ''*'')
     \<and> list_all (\<lambda>verb. has (ru_verbs rule) verb \<or> has (ru_verbs rule) ''*'') verbs) rules"

text \<open>An answer of the Kubernetes API; \<open>Denied\<close> is Forbidden or Unauthorized.\<close>

datatype 'a answer = Answer 'a | Denied | Failed string

text \<open>The loop over the verbs of one resource: permitted, and the verb whose review failed.\<close>

fun probe :: "(string \<Rightarrow> bool answer) \<Rightarrow> string list \<Rightarrow> bool \<times> string option" where
  "probe review [] = (True, None)"
| "probe review (v # vs) = (case review v of
      Answer True \<Rightarrow> probe review vs
    | Answer False \<Rightarrow> (False, None)
    | _ \<Rightarrow> (False, Some v))"

datatype refresh_error = ListNamespaces | RulesReview string | AccessReview string gvr | DiscoveryFailed string
  | ResyncFailed | ResyncChanged string

text \<open>The first error is kept.\<close>

definition first_error :: "refresh_error option \<Rightarrow> refresh_error \<Rightarrow> refresh_error option" where
  "first_error e new = (case e of None \<Rightarrow> Some new | Some old \<Rightarrow> Some old)"

type_synonym rules_result = "(string \<times> resource_rule list) list \<times> bool \<times> refresh_error option"

definition probe_resource :: "(string \<Rightarrow> bool answer) \<Rightarrow> string \<Rightarrow> gvr \<Rightarrow> rules_result \<Rightarrow> rules_result" where
  "probe_resource review ns g acc =
     (case acc of (rules, complete, e) \<Rightarrow>
        (case probe review [''list'', ''watch''] of
           (_, Some verb) \<Rightarrow> (rules, False, first_error e (AccessReview verb g))
         | (False, None) \<Rightarrow> (rules, complete, e)
         | (True, None) \<Rightarrow>
             (AList.update ns ((case map_of rules ns of None \<Rightarrow> [] | Some rs \<Rightarrow> rs)
                @ [\<lparr>ru_verbs = [''list'', ''watch''], ru_groups = [g_group g], ru_resources = [g_resource g], ru_names = []\<rparr>]) rules,
              complete, e)))"

definition review_namespace :: "(string \<Rightarrow> (resource_rule list \<times> bool) answer) \<Rightarrow> (string \<Rightarrow> gvr \<Rightarrow> string \<Rightarrow> bool answer)
    \<Rightarrow> (gvr \<times> bool) list \<Rightarrow> rules_result \<Rightarrow> string \<Rightarrow> rules_result" where
  "review_namespace review access preferred acc ns =
     (case acc of (rules, complete, e) \<Rightarrow>
        (case review ns of
           Answer (rs, incomplete) \<Rightarrow> (AList.update ns rs rules, complete \<and> \<not> incomplete, e)
         | Failed err \<Rightarrow> (rules, False, first_error e (RulesReview ns))
         | Denied \<Rightarrow> foldl (\<lambda>acc (g, namespaced). if namespaced then probe_resource (access ns g) ns g acc else acc)
                       (rules, complete, e) preferred))"

definition effectiveRules :: "string \<Rightarrow> string list answer \<Rightarrow> (string \<Rightarrow> (resource_rule list \<times> bool) answer)
    \<Rightarrow> (string \<Rightarrow> gvr \<Rightarrow> string \<Rightarrow> bool answer) \<Rightarrow> (gvr \<times> bool) list \<Rightarrow> rules_result" where
  "effectiveRules lease nslist review access preferred =
     (let (nss, complete, e) = (case nslist of
             Answer names \<Rightarrow> (sort names, True, None)
           | Denied \<Rightarrow> ([lease], True, None)
           | Failed err \<Rightarrow> ([lease], False, Some ListNamespaces))
      in foldl (review_namespace review access preferred) ([], complete, e) nss)"

definition effectiveClusterPermissions :: "(gvr \<Rightarrow> string \<Rightarrow> bool answer) \<Rightarrow> (gvr \<times> bool) list
    \<Rightarrow> (gvr \<times> bool) list \<times> bool \<times> refresh_error option" where
  "effectiveClusterPermissions access preferred =
     foldl (\<lambda>(allowed, complete, e) (g, namespaced).
         if namespaced then (allowed, complete, e)
         else case probe (access g) [''list'', ''watch''] of
           (ok, None) \<Rightarrow> (AList.update g ok allowed, complete, e)
         | (ok, Some verb) \<Rightarrow> (AList.update g ok allowed, False, first_error e (AccessReview verb g)))
       ([], True, None) preferred"

section \<open>Partitions\<close>

definition namespaceLeasePartitions :: nat where "namespaceLeasePartitions = 16"

definition partition_of :: "string \<Rightarrow> nat" where
  "partition_of ns = (if ns = [] then 0 else unat (crc32 ns) mod namespaceLeasePartitions)"

definition partition_type :: "gvr \<Rightarrow> string list \<Rightarrow> lease_shard namespaces \<Rightarrow> lease_shard namespaces" where
  "partition_type g nss result =
     foldl (\<lambda>result ns. add_namespace \<lparr>ls_gvr = g, ls_partition = partition_of ns\<rparr> ns result) result nss"

definition partitionNamespaces :: "gvr namespaces \<Rightarrow> lease_shard namespaces" where
  "partitionNamespaces wanted = foldl (\<lambda>result (g, nss). partition_type g nss result) [] wanted"

definition preserve_one :: "lease_shard namespaces \<Rightarrow> lease_shard \<times> string list \<Rightarrow> lease_shard namespaces" where
  "preserve_one wanted st = (case st of (target, nss) \<Rightarrow>
     foldl (\<lambda>wanted ns. add_namespace target ns wanted)
       (if map_of wanted target = None then AList.update target [] wanted else wanted) nss)"

definition preserveExistingNamespaces :: "lease_shard namespaces \<Rightarrow> lease_shard namespaces \<Rightarrow> lease_shard namespaces" where
  "preserveExistingNamespaces wanted existing = foldl preserve_one wanted existing"

section \<open>Resync requests\<close>

record resync_request =
  rq_id :: string
  rq_group :: string
  rq_version :: string
  rq_resource :: string

definition request_gvr :: "resync_request \<Rightarrow> gvr" where
  "request_gvr r = \<lparr>g_group = rq_group r, g_version = rq_version r, g_resource = rq_resource r\<rparr>"

definition alphanumeric :: "char \<Rightarrow> bool" where
  "alphanumeric c \<longleftrightarrow> CHR ''A'' \<le> c \<and> c \<le> CHR ''Z'' \<or> CHR ''a'' \<le> c \<and> c \<le> CHR ''z'' \<or> CHR ''0'' \<le> c \<and> c \<le> CHR ''9''"

text \<open>The pattern \<open>^[A-Za-z0-9][A-Za-z0-9_.-]{0,127}$\<close>.\<close>

definition resync_id :: "string \<Rightarrow> bool" where
  "resync_id s = (case s of [] \<Rightarrow> False
     | c # r \<Rightarrow> alphanumeric c \<and> length r \<le> 127 \<and> list_all (\<lambda>c. alphanumeric c \<or> c \<in> set ''_.-'') r)"

datatype resync_file = NoFile | UnreadableFile string | MalformedFile string | ResyncDocument int "resync_request list"

datatype resync_error = CannotRead string | CannotDecode string | UnsupportedVersion int | TooManyRequests
  | InvalidRequest string | DuplicateRequest string

text \<open>\<open>subdomain\<close> and \<open>label\<close> are the DNS-1123 and DNS-1035 checks of apimachinery.\<close>

fun check_requests :: "(string \<Rightarrow> bool) \<Rightarrow> (string \<Rightarrow> bool) \<Rightarrow> string list \<Rightarrow> resync_request list \<Rightarrow> resync_error option" where
  "check_requests subdomain label seen [] = None"
| "check_requests subdomain label seen (r # rs) =
     (if \<not> resync_id (rq_id r) \<or> rq_group r \<noteq> [] \<and> \<not> subdomain (rq_group r) \<or> \<not> label (rq_version r) \<or> \<not> label (rq_resource r)
        then Some (InvalidRequest (rq_id r))
      else if rq_id r \<in> set seen then Some (DuplicateRequest (rq_id r))
      else check_requests subdomain label (rq_id r # seen) rs)"

definition loadResyncRequests :: "(string \<Rightarrow> bool) \<Rightarrow> (string \<Rightarrow> bool) \<Rightarrow> resync_file \<Rightarrow> resync_error + resync_request list" where
  "loadResyncRequests subdomain label f = (case f of
      NoFile \<Rightarrow> Inr []
    | UnreadableFile err \<Rightarrow> Inl (CannotRead err)
    | MalformedFile err \<Rightarrow> Inl (CannotDecode err)
    | ResyncDocument version rs \<Rightarrow>
        if version \<noteq> 1 then Inl (UnsupportedVersion version)
        else if length rs > 32 then Inl TooManyRequests
        else case check_requests subdomain label [] rs of Some err \<Rightarrow> Inl err | None \<Rightarrow> Inr rs)"

section \<open>The collector\<close>

text \<open>
  \<open>cl_states\<close> are the shards with their namespaces, \<open>cl_shards\<close> the keys of the cancel functions and
  \<open>cl_log\<close> what happened to the goroutines of the shards, oldest first.
\<close>

datatype shard_event = Started lease_shard "string list" | Updated lease_shard "string list" | Stopped lease_shard

record collector =
  cl_shards :: "lease_shard list"
  cl_states :: "lease_shard namespaces"
  cl_resync :: "(string \<times> gvr) list"
  cl_log :: "shard_event list"

definition stop_shard :: "lease_shard \<Rightarrow> collector \<Rightarrow> collector" where
  "stop_shard t c = c\<lparr>cl_shards := removeAll t (cl_shards c), cl_states := AList.delete t (cl_states c),
     cl_log := cl_log c @ [Stopped t]\<rparr>"

definition stop_shards :: "(lease_shard \<Rightarrow> bool) \<Rightarrow> collector \<Rightarrow> collector" where
  "stop_shards p c = foldl (\<lambda>c t. stop_shard t c) c (filter p (cl_shards c))"

fun applyResyncRequests :: "resync_request list \<Rightarrow> gvr namespaces \<Rightarrow> collector \<Rightarrow> refresh_error option \<times> collector" where
  "applyResyncRequests [] wanted c = (None, c)"
| "applyResyncRequests (r # rs) wanted c =
     (let g = request_gvr r in
      case map_of (cl_resync c) (rq_id r) of
        Some previous \<Rightarrow> if previous \<noteq> g then (Some (ResyncChanged (rq_id r)), c) else applyResyncRequests rs wanted c
      | None \<Rightarrow>
          if map_of wanted g = None then applyResyncRequests rs wanted c
          else let c = stop_shards (\<lambda>t. ls_gvr t = g) c
               in applyResyncRequests rs wanted (c\<lparr>cl_resync := AList.update (rq_id r) g (cl_resync c)\<rparr>))"

definition collectorReady :: "bool \<Rightarrow> bool \<Rightarrow> nat \<Rightarrow> bool" where
  "collectorReady discovered permissionsComplete activeShards \<longleftrightarrow> discovered \<and> permissionsComplete \<or> activeShards > 0"

definition canApplyResync :: "bool \<Rightarrow> bool \<Rightarrow> bool" where
  "canApplyResync discovered permissionsComplete \<longleftrightarrow> discovered \<and> permissionsComplete"

text \<open>Starting or updating one wanted shard.\<close>

definition want_shard :: "collector \<Rightarrow> lease_shard \<times> string list \<Rightarrow> collector" where
  "want_shard c tn = (case tn of (t, nss) \<Rightarrow>
     if map_of (cl_states c) t \<noteq> None
     then c\<lparr>cl_states := AList.update t nss (cl_states c), cl_log := cl_log c @ [Updated t nss]\<rparr>
     else c\<lparr>cl_shards := List.insert t (cl_shards c), cl_states := AList.update t nss (cl_states c),
            cl_log := cl_log c @ [Started t nss]\<rparr>)"

record api_resource =
  ar_name :: string
  ar_namespaced :: bool
  ar_verbs :: "string list"

text \<open>What Kubernetes and the resync file answer during one refresh.\<close>

record refresh =
  rf_lists :: "((string \<times> string) option \<times> api_resource list) list"
  rf_discovery_error :: "string option"
  rf_namespaces :: "string list answer"
  rf_rules :: "string \<Rightarrow> (resource_rule list \<times> bool) answer"
  rf_access :: "string \<Rightarrow> gvr \<Rightarrow> string \<Rightarrow> bool answer"
  rf_cluster_access :: "gvr \<Rightarrow> string \<Rightarrow> bool answer"
  rf_resync :: "resync_error + resync_request list"

text \<open>The preferred resources: a list whose group version does not parse is skipped.\<close>

definition preferred_resource :: "string \<times> string \<Rightarrow> (gvr \<times> bool) list \<Rightarrow> api_resource \<Rightarrow> (gvr \<times> bool) list" where
  "preferred_resource gv preferred r =
     (let g = \<lparr>g_group = fst gv, g_version = snd gv, g_resource = ar_name r\<rparr> in
      if contains_str (ar_name r) ''/'' \<or> \<not> has (ar_verbs r) ''list'' \<or> \<not> has (ar_verbs r) ''watch'' then preferred
      else if ar_namespaced r \<and> allowlisted namespacedAllowlist g \<or> \<not> ar_namespaced r \<and> allowlisted clusterAllowlist g
        then AList.update g (ar_namespaced r) preferred
      else preferred)"

definition preferred_resources :: "((string \<times> string) option \<times> api_resource list) list \<Rightarrow> (gvr \<times> bool) list" where
  "preferred_resources rls =
     foldl (\<lambda>preferred (gv, rs). case gv of None \<Rightarrow> preferred | Some gv \<Rightarrow> foldl (preferred_resource gv) preferred rs) [] rls"

definition wanted_namespaced :: "(string \<times> resource_rule list) list \<Rightarrow> (gvr \<times> bool) list \<Rightarrow> gvr namespaces" where
  "wanted_namespaced rulesByNamespace preferred =
     foldl (\<lambda>wanted (ns, rules).
         foldl (\<lambda>wanted (g, namespaced). if namespaced \<and> ruleAllows rules g [''list'', ''watch''] then add_namespace g ns wanted else wanted)
           wanted preferred) [] rulesByNamespace"

definition wanted_cluster :: "(gvr \<times> bool) list \<Rightarrow> (gvr \<times> bool) list \<Rightarrow> gvr namespaces \<Rightarrow> gvr namespaces" where
  "wanted_cluster permissions preferred wanted =
     foldl (\<lambda>wanted (g, namespaced). if \<not> namespaced \<and> map_of permissions g = Some True then AList.update g [[]] wanted else wanted)
       wanted preferred"

definition reconcile :: "string \<Rightarrow> refresh \<Rightarrow> collector \<Rightarrow> refresh_error option \<times> bool \<times> collector" where
  "reconcile lease env c =
     (let preferred = preferred_resources (rf_lists env);
          (rules, rulesComplete, rulesErr) = effectiveRules lease (rf_namespaces env) (rf_rules env) (rf_access env) preferred;
          (permissions, clusterComplete, clusterErr) = effectiveClusterPermissions (rf_cluster_access env) preferred;
          wanted = wanted_cluster permissions preferred (wanted_namespaced rules preferred);
          discovered = (rf_discovery_error env = None);
          complete = (rulesComplete \<and> clusterComplete);
          (resyncErr, c) = (case rf_resync env of
             Inl _ \<Rightarrow> (Some ResyncFailed, c)
           | Inr requests \<Rightarrow> if canApplyResync discovered complete then applyResyncRequests requests wanted c else (None, c));
          election = partitionNamespaces wanted;
          election = (if \<not> complete then preserveExistingNamespaces election (cl_states c) else election);
          c = foldl want_shard c election;
          c = (if discovered \<and> complete then stop_shards (\<lambda>t. map_of election t = None) c else c);
          ready = collectorReady discovered complete (length (cl_shards c));
          err = (case rf_discovery_error env of Some e \<Rightarrow> Some (DiscoveryFailed e)
                 | None \<Rightarrow> if resyncErr \<noteq> None then resyncErr else if rulesErr \<noteq> None then rulesErr else clusterErr)
      in (err, ready, c))"

section \<open>Facts about namespace maps\<close>

lemma namespaces_of_update [simp]:
  "namespaces_of (AList.update k nss m) l = (if l = k then nss else namespaces_of m l)"
  by (simp add: namespaces_of_def)

lemma in_add_namespace [simp]:
  "x \<in> set (namespaces_of (add_namespace k ns m) l) \<longleftrightarrow> l = k \<and> x = ns \<or> x \<in> set (namespaces_of m l)"
  by (auto simp: add_namespace_def)

lemma key_add_namespace [simp]: "map_of (add_namespace k ns m) l = None \<longleftrightarrow> l \<noteq> k \<and> map_of m l = None"
  by (auto simp: add_namespace_def)

text \<open>A map without empty entries and with every key once.\<close>

definition proper :: "'k namespaces \<Rightarrow> bool" where
  "proper m \<longleftrightarrow> distinct (map fst m) \<and> (\<forall>k. map_of m k \<noteq> Some [])"

lemma proper_Nil [simp]: "proper []"
  by (simp add: proper_def)

lemma proper_update [intro]: "proper m \<Longrightarrow> nss \<noteq> [] \<Longrightarrow> proper (AList.update k nss m)"
  by (auto simp: proper_def distinct_update)

lemma proper_add [intro]: "proper m \<Longrightarrow> proper (add_namespace k ns m)"
  unfolding add_namespace_def by (rule proper_update) (auto simp: List.insert_def)

lemma proper_None: "proper m \<Longrightarrow> map_of m k = None \<longleftrightarrow> namespaces_of m k = []"
  by (auto simp: proper_def namespaces_of_def split: option.splits)

lemma proper_in: "proper m \<Longrightarrow> (k, nss) \<in> set m \<longleftrightarrow> nss \<noteq> [] \<and> namespaces_of m k = nss"
proof -
  assume m: "proper m"
  then have "(k, nss) \<in> set m \<longleftrightarrow> map_of m k = Some nss" by (simp add: proper_def map_of_eq_Some_iff)
  with m show ?thesis by (auto simp: proper_def namespaces_of_def split: option.splits dest: eq_key_imp_eq_value)
qed

section \<open>Facts about partitions\<close>

lemma partition_of_less: "partition_of ns < namespaceLeasePartitions"
  by (simp add: partition_of_def namespaceLeasePartitions_def)

lemma target_eq: "t = \<lparr>ls_gvr = g, ls_partition = p\<rparr> \<longleftrightarrow> ls_gvr t = g \<and> ls_partition t = p"
  by (cases t) simp

lemma partition_type_in:
  "x \<in> set (namespaces_of (partition_type g nss result) t) \<longleftrightarrow>
     ls_gvr t = g \<and> ls_partition t = partition_of x \<and> x \<in> set nss \<or> x \<in> set (namespaces_of result t)"
  unfolding partition_type_def by (induction nss arbitrary: result) (simp, simp add: target_eq, blast)

lemma partition_type_proper: "proper result \<Longrightarrow> proper (partition_type g nss result)"
  unfolding partition_type_def by (induction nss arbitrary: result) auto

lemma partitionNamespaces_proper: "proper (partitionNamespaces wanted)"
proof -
  have "proper result \<Longrightarrow> proper (foldl (\<lambda>result (g, nss). partition_type g nss result) result wanted)" for result
    by (induction wanted arbitrary: result) (auto intro: partition_type_proper)
  then show ?thesis by (simp add: partitionNamespaces_def)
qed

lemma partitionNamespaces_in:
  assumes "distinct (map fst wanted)"
  shows "x \<in> set (namespaces_of (partitionNamespaces wanted) t) \<longleftrightarrow>
     ls_partition t = partition_of x \<and> x \<in> set (namespaces_of wanted (ls_gvr t))"
proof -
  have "x \<in> set (namespaces_of (foldl (\<lambda>result (g, nss). partition_type g nss result) result wanted) t) \<longleftrightarrow>
      ls_partition t = partition_of x \<and> (\<exists>nss. (ls_gvr t, nss) \<in> set wanted \<and> x \<in> set nss) \<or> x \<in> set (namespaces_of result t)" for result
  proof (induction wanted arbitrary: result)
    case Nil
    then show ?case by simp
  next
    case (Cons w wanted)
    obtain g nss where w: "w = (g, nss)" by fastforce
    show ?case unfolding w foldl_Cons prod.case Cons.IH partition_type_in by auto
  qed
  from this [of "[]"] show ?thesis
    using assms by (auto simp: partitionNamespaces_def namespaces_of_def map_of_eq_Some_iff split: option.splits dest: map_of_SomeD)
qed

lemma preserve_one_proper: "proper m \<Longrightarrow> nss \<noteq> [] \<Longrightarrow> proper (preserve_one m (t, nss))"
proof -
  assume m: "proper m" "nss \<noteq> []"
  have step: "proper m' \<Longrightarrow> proper (foldl (\<lambda>m ns. add_namespace t ns m) m' xs)" for m' xs
    by (induction xs arbitrary: m') auto
  have "add_namespace t ns (if map_of m t = None then AList.update t [] m else m) = add_namespace t ns m" for ns
    by (simp add: add_namespace_def namespaces_of_def)
  with m step show ?thesis by (cases nss) (auto simp: preserve_one_def)
qed

lemma preserve_one_in:
  "x \<in> set (namespaces_of (preserve_one m (t, nss)) u) \<longleftrightarrow> u = t \<and> x \<in> set nss \<or> x \<in> set (namespaces_of m u)"
proof -
  have "x \<in> set (namespaces_of (foldl (\<lambda>m ns. add_namespace t ns m) m' nss) u) \<longleftrightarrow> u = t \<and> x \<in> set nss \<or> x \<in> set (namespaces_of m' u)" for m'
    by (induction nss arbitrary: m') auto
  moreover have "set (namespaces_of (if map_of m t = None then AList.update t [] m else m) u) = set (namespaces_of m u)"
    by (auto simp: namespaces_of_def)
  ultimately show ?thesis by (simp add: preserve_one_def)
qed

lemma preserve_proper: "proper wanted \<Longrightarrow> \<forall>(t, nss) \<in> set existing. nss \<noteq> [] \<Longrightarrow> proper (preserveExistingNamespaces wanted existing)"
  unfolding preserveExistingNamespaces_def
  by (induction existing arbitrary: wanted) (auto intro: preserve_one_proper)

lemma preserve_in:
  assumes "distinct (map fst existing)"
  shows "x \<in> set (namespaces_of (preserveExistingNamespaces wanted existing) t) \<longleftrightarrow>
     x \<in> set (namespaces_of existing t) \<or> x \<in> set (namespaces_of wanted t)"
proof -
  have "x \<in> set (namespaces_of (foldl preserve_one wanted existing) t) \<longleftrightarrow>
      (\<exists>nss. (t, nss) \<in> set existing \<and> x \<in> set nss) \<or> x \<in> set (namespaces_of wanted t)"
    by (induction existing arbitrary: wanted) (auto simp: preserve_one_in)
  then show ?thesis
    using assms by (auto simp: preserveExistingNamespaces_def namespaces_of_def map_of_eq_Some_iff split: option.splits dest: map_of_SomeD)
qed

section \<open>What is permitted\<close>

text \<open>
  The permission the answers of Kubernetes give, said without the loops and functions of the code. A type is
  offered when discovery lists it with both verbs and the allow-list of its scope names it.
\<close>

abbreviation list_watch :: "string list" where "list_watch \<equiv> [''list'', ''watch'']"

definition in_catalog :: "gvr \<Rightarrow> bool \<Rightarrow> bool" where
  "in_catalog g b \<longleftrightarrow> (\<exists>rs. (g_group g, rs) \<in> set (if b then namespacedAllowlist else clusterAllowlist) \<and> g_resource g \<in> set rs)"

definition offered :: "refresh \<Rightarrow> gvr \<Rightarrow> bool \<Rightarrow> bool" where
  "offered env g b \<longleftrightarrow> in_catalog g b
     \<and> (\<exists>rs. (Some (g_group g, g_version g), rs) \<in> set (rf_lists env)
          \<and> (\<exists>r \<in> set rs. ar_name r = g_resource g \<and> ar_namespaced r = b \<and> {''list'', ''watch''} \<subseteq> set (ar_verbs r)))"

text \<open>A rule covers a type when it names no single objects and, by name or by \<open>*\<close>, the group, the resource and both verbs.\<close>

definition covers :: "resource_rule \<Rightarrow> gvr \<Rightarrow> bool" where
  "covers rule g \<longleftrightarrow> ru_names rule = []
     \<and> (g_group g \<in> set (ru_groups rule) \<or> ''*'' \<in> set (ru_groups rule))
     \<and> (g_resource g \<in> set (ru_resources rule) \<or> ''*'' \<in> set (ru_resources rule))
     \<and> (''*'' \<in> set (ru_verbs rule) \<or> {''list'', ''watch''} \<subseteq> set (ru_verbs rule))"

definition granted :: "(string \<Rightarrow> bool answer) \<Rightarrow> bool" where
  "granted review \<longleftrightarrow> review ''list'' = Answer True \<and> review ''watch'' = Answer True"

text \<open>The namespaces asked about, and whether a namespace's rules or, where these may not be read, its access reviews allow a type.\<close>

definition listed :: "string \<Rightarrow> refresh \<Rightarrow> string list" where
  "listed lease env = (case rf_namespaces env of Answer names \<Rightarrow> names | _ \<Rightarrow> [lease])"

definition may_watch :: "refresh \<Rightarrow> string \<Rightarrow> gvr \<Rightarrow> bool" where
  "may_watch env ns g = (case rf_rules env ns of
      Answer (rules, incomplete) \<Rightarrow> \<exists>rule \<in> set rules. covers rule g
    | Denied \<Rightarrow> \<exists>h. offered env h True \<and> g_group h = g_group g \<and> g_resource h = g_resource g \<and> granted (rf_access env ns h)
    | Failed err \<Rightarrow> False)"

definition permitted :: "string \<Rightarrow> refresh \<Rightarrow> gvr \<Rightarrow> string \<Rightarrow> bool" where
  "permitted lease env g ns \<longleftrightarrow>
     offered env g True \<and> ns \<in> set (listed lease env) \<and> may_watch env ns g
     \<or> ns = [] \<and> offered env g False \<and> granted (rf_cluster_access env g)"

text \<open>
  The answers are complete when the namespaces, the rules of each or else its access reviews for every
  namespaced type, and the access reviews of every cluster type were all answered; the second verb is asked
  only after the first was granted.
\<close>

definition answered :: "(string \<Rightarrow> bool answer) \<Rightarrow> bool" where
  "answered review \<longleftrightarrow> review ''list'' = Answer False \<or> review ''list'' = Answer True \<and> (\<exists>b. review ''watch'' = Answer b)"

definition permissions_complete :: "string \<Rightarrow> refresh \<Rightarrow> bool" where
  "permissions_complete lease env \<longleftrightarrow>
     (\<forall>err. rf_namespaces env \<noteq> Failed err)
     \<and> (\<forall>ns \<in> set (listed lease env). case rf_rules env ns of
          Answer (rules, incomplete) \<Rightarrow> \<not> incomplete
        | Denied \<Rightarrow> \<forall>g. offered env g True \<longrightarrow> answered (rf_access env ns g)
        | Failed err \<Rightarrow> False)
     \<and> (\<forall>g. offered env g False \<longrightarrow> answered (rf_cluster_access env g))"

text \<open>The same in the terms of the code.\<close>

definition grant :: "gvr \<Rightarrow> resource_rule" where
  "grant g = \<lparr>ru_verbs = list_watch, ru_groups = [g_group g], ru_resources = [g_resource g], ru_names = []\<rparr>"

definition preferred_of :: "refresh \<Rightarrow> gvr \<Rightarrow> bool option" where
  "preferred_of env g = map_of (preferred_resources (rf_lists env)) g"

definition rules_allow :: "refresh \<Rightarrow> string \<Rightarrow> gvr \<Rightarrow> bool" where
  "rules_allow env ns g = (case rf_rules env ns of
      Answer (rules, incomplete) \<Rightarrow> ruleAllows rules g list_watch
    | Denied \<Rightarrow> \<exists>h. preferred_of env h = Some True \<and> granted (rf_access env ns h) \<and> ruleAllows [grant h] g list_watch
    | Failed err \<Rightarrow> False)"

lemma ruleAllows_covers: "ruleAllows rules g list_watch \<longleftrightarrow> (\<exists>rule \<in> set rules. covers rule g)"
  unfolding ruleAllows_def list_ex_iff covers_def has_def by auto

lemma allowlisted_catalog: "(if b then allowlisted namespacedAllowlist g else allowlisted clusterAllowlist g) \<longleftrightarrow> in_catalog g b"
proof -
  have "distinct (map fst namespacedAllowlist)" "distinct (map fst clusterAllowlist)"
    by (simp_all add: namespacedAllowlist_def clusterAllowlist_def)
  note keys = this [THEN map_of_eq_Some_iff]
  have "allowlisted catalog g \<longleftrightarrow> (\<exists>rs. map_of catalog (g_group g) = Some rs \<and> g_resource g \<in> set rs)" for catalog
    by (auto simp: allowlisted_def has_def split: option.splits)
  then show ?thesis by (simp add: in_catalog_def keys)
qed

lemma catalog_scope: "in_catalog g b \<Longrightarrow> in_catalog g b' \<Longrightarrow> b = b'"
  by (cases b; cases b') (auto simp: in_catalog_def namespacedAllowlist_def clusterAllowlist_def)

lemma catalog_names:
  assumes "in_catalog g b"
  shows "\<not> contains_str (g_resource g) ''/''" and "g_group g \<noteq> ''*''" and "g_resource g \<noteq> ''*''"
proof -
  have all: "list_all (\<lambda>(k, rs). k \<noteq> ''*'' \<and> list_all (\<lambda>r. \<not> contains_str r ''/'' \<and> r \<noteq> ''*'') rs) (namespacedAllowlist @ clusterAllowlist)"
    by code_simp
  from assms obtain rs where "(g_group g, rs) \<in> set (namespacedAllowlist @ clusterAllowlist)" "g_resource g \<in> set rs"
    by (auto simp: in_catalog_def split: if_splits)
  with all show "\<not> contains_str (g_resource g) ''/''" "g_group g \<noteq> ''*''" "g_resource g \<noteq> ''*''"
    unfolding list_all_iff by fastforce+
qed

lemma ruleAllows_grant: "in_catalog h b \<Longrightarrow> ruleAllows [grant h] g list_watch \<longleftrightarrow> g_group h = g_group g \<and> g_resource h = g_resource g"
  using catalog_names(2,3) [of h b] by (auto simp: ruleAllows_covers covers_def grant_def)

definition allowed_map :: "(gvr \<times> bool) list \<Rightarrow> bool" where
  "allowed_map ps \<longleftrightarrow> (\<forall>g b. map_of ps g = Some b \<longrightarrow> (if b then allowlisted namespacedAllowlist g else allowlisted clusterAllowlist g))"

lemma allowed_map_step: "allowed_map ps \<Longrightarrow> allowed_map (preferred_resource gv ps r)"
proof -
  let ?g = "\<lparr>g_group = fst gv, g_version = snd gv, g_resource = ar_name r\<rparr>"
  have "preferred_resource gv ps r = ps \<or> preferred_resource gv ps r = AList.update ?g (ar_namespaced r) ps
      \<and> (if ar_namespaced r then allowlisted namespacedAllowlist ?g else allowlisted clusterAllowlist ?g)"
    unfolding preferred_resource_def Let_def by (simp only: split: if_split) blast
  moreover assume "allowed_map ps"
  ultimately show ?thesis unfolding allowed_map_def by (elim disjE) simp_all
qed

lemma allowed_map_list: "allowed_map ps \<Longrightarrow> allowed_map (foldl (preferred_resource gv) ps rs)"
  by (induction rs arbitrary: ps) (auto intro: allowed_map_step)

lemma allowed_map_preferred: "allowed_map (preferred_resources ls)"
proof -
  have "allowed_map (foldl (\<lambda>preferred (gv, rs). case gv of None \<Rightarrow> preferred | Some gv \<Rightarrow> foldl (preferred_resource gv) preferred rs) ps ls)"
    if "allowed_map ps" for ps
    using that
  proof (induction ls arbitrary: ps)
    case (Cons l ls)
    obtain gv rs where l: "l = (gv, rs)" by fastforce
    have "allowed_map (case gv of None \<Rightarrow> ps | Some gv \<Rightarrow> foldl (preferred_resource gv) ps rs)"
      using Cons.prems allowed_map_list by (cases gv) simp_all
    then show ?case unfolding l foldl_Cons prod.case by (rule Cons.IH)
  qed simp
  from this [of "[]"] show ?thesis by (simp add: preferred_resources_def allowed_map_def)
qed

definition lists_type :: "string \<times> string \<Rightarrow> api_resource \<Rightarrow> gvr \<Rightarrow> bool \<Rightarrow> bool" where
  "lists_type gv r g b \<longleftrightarrow> in_catalog g b \<and> gv = (g_group g, g_version g) \<and> ar_name r = g_resource g \<and> ar_namespaced r = b
     \<and> {''list'', ''watch''} \<subseteq> set (ar_verbs r)"

lemma preferred_resource_lists:
  assumes "allowed_map ps"
  shows "map_of (preferred_resource gv ps r) g = Some b \<longleftrightarrow> lists_type gv r g b \<or> map_of ps g = Some b"
proof -
  define h where "h = \<lparr>g_group = fst gv, g_version = snd gv, g_resource = ar_name r\<rparr>"
  have same: "h = g \<longleftrightarrow> gv = (g_group g, g_version g) \<and> ar_name r = g_resource g"
    by (cases g; cases gv) (auto simp: h_def)
  have name: "g_resource h = ar_name r" by (simp add: h_def)
  have unfold: "preferred_resource gv ps r =
      (if in_catalog h (ar_namespaced r) \<and> {''list'', ''watch''} \<subseteq> set (ar_verbs r) then AList.update h (ar_namespaced r) ps else ps)"
    using catalog_names(1) [of h "ar_namespaced r"] allowlisted_catalog [of "ar_namespaced r" h]
    unfolding preferred_resource_def Let_def h_def [symmetric] has_def name by (cases "ar_namespaced r") auto
  have at: "in_catalog g c \<Longrightarrow> map_of ps g = Some b \<Longrightarrow> b = c" for c
    using assms catalog_scope unfolding allowed_map_def allowlisted_catalog by blast
  show ?thesis
  proof (cases "h = g")
    case True
    then show ?thesis using at same unfolding unfold lists_type_def by auto
  next
    case False
    then show ?thesis using same unfolding unfold lists_type_def by auto
  qed
qed

lemma preferred_list_lists:
  assumes "allowed_map ps"
  shows "map_of (foldl (preferred_resource gv) ps rs) g = Some b \<longleftrightarrow> (\<exists>r \<in> set rs. lists_type gv r g b) \<or> map_of ps g = Some b"
  using assms by (induction rs arbitrary: ps) (auto simp: preferred_resource_lists allowed_map_step)

lemma preferred_offered: "preferred_of env g = Some b \<longleftrightarrow> offered env g b"
proof -
  have "map_of (foldl (\<lambda>preferred (gv, rs). case gv of None \<Rightarrow> preferred | Some gv \<Rightarrow> foldl (preferred_resource gv) preferred rs) ps ls) g = Some b
      \<longleftrightarrow> (\<exists>gv rs. (Some gv, rs) \<in> set ls \<and> (\<exists>r \<in> set rs. lists_type gv r g b)) \<or> map_of ps g = Some b"
    if "allowed_map ps" for ps ls
    using that
  proof (induction ls arbitrary: ps)
    case (Cons l ls)
    obtain gv rs where l: "l = (gv, rs)" by fastforce
    show ?case
    proof (cases gv)
      case None
      with Cons show ?thesis by (auto simp: l)
    next
      case (Some v)
      have "allowed_map (foldl (preferred_resource v) ps rs)" by (rule allowed_map_list [OF Cons.prems])
      from Cons.IH [OF this] preferred_list_lists [OF Cons.prems, of v rs g b] show ?thesis
        by (simp add: l Some del: split_paired_Ex) blast
    qed
  qed simp
  from this [of "[]"] show ?thesis
    by (auto simp: preferred_of_def preferred_resources_def offered_def lists_type_def allowed_map_def)
qed

lemma rules_allow_may_watch: "rules_allow env ns g \<longleftrightarrow> may_watch env ns g"
proof -
  have "preferred_of env h = Some True \<and> granted (rf_access env ns h) \<and> ruleAllows [grant h] g list_watch \<longleftrightarrow>
      offered env h True \<and> g_group h = g_group g \<and> g_resource h = g_resource g \<and> granted (rf_access env ns h)" for h
    using ruleAllows_grant [of h True g] by (auto simp: preferred_offered offered_def)
  then show ?thesis by (simp add: rules_allow_def may_watch_def ruleAllows_covers split: answer.splits)
qed

lemma permitted_computed:
  "permitted lease env g ns \<longleftrightarrow>
     preferred_of env g = Some True \<and> ns \<in> set (listed lease env) \<and> rules_allow env ns g
     \<or> ns = [] \<and> preferred_of env g = Some False \<and> granted (rf_cluster_access env g)"
  by (simp add: permitted_def preferred_offered rules_allow_may_watch)

text \<open>Namespaces have names, each once.\<close>

definition refresh_ok :: "string \<Rightarrow> refresh \<Rightarrow> bool" where
  "refresh_ok lease env \<longleftrightarrow> lease \<noteq> [] \<and> (case rf_namespaces env of Answer names \<Rightarrow> distinct names \<and> [] \<notin> set names | _ \<Rightarrow> True)"

lemma probe_list_watch: "probe review list_watch = (b, e) \<Longrightarrow> b \<longleftrightarrow> granted review"
  "probe review list_watch = (b, Some v) \<Longrightarrow> \<not> b"
  by (auto simp: granted_def split: answer.splits bool.splits)

lemma ruleAllows_Nil [simp]: "ruleAllows [] g vs = False"
  by (simp add: ruleAllows_def)

lemma ruleAllows_append [simp]: "ruleAllows (as @ bs) g vs \<longleftrightarrow> ruleAllows as g vs \<or> ruleAllows bs g vs"
  by (simp add: ruleAllows_def)

definition rules_at :: "(string \<times> resource_rule list) list \<Rightarrow> string \<Rightarrow> resource_rule list" where
  "rules_at rules ns = (case map_of rules ns of None \<Rightarrow> [] | Some rs \<Rightarrow> rs)"

lemma rules_at_update [simp]: "rules_at (AList.update k rs m) l = (if l = k then rs else rules_at m l)"
  by (simp add: rules_at_def)

lemma probe_resource_rules:
  assumes "probe_resource review ns g (rules, complete, e) = (rules', complete', e')"
  shows "rules' = (if granted review then AList.update ns (rules_at rules ns @ [grant g]) rules else rules)"
proof -
  obtain b e1 where pr: "probe review list_watch = (b, e1)" by fastforce
  show ?thesis
    using assms probe_list_watch(1) [OF pr] probe_list_watch(2) [of review b] pr
    by (cases e1; cases b) (auto simp: probe_resource_def rules_at_def grant_def simp del: probe.simps)
qed

definition probe_resources :: "(gvr \<Rightarrow> string \<Rightarrow> bool answer) \<Rightarrow> string \<Rightarrow> rules_result \<Rightarrow> (gvr \<times> bool) list \<Rightarrow> rules_result" where
  "probe_resources access ns = foldl (\<lambda>acc (g, namespaced). if namespaced then probe_resource (access g) ns g acc else acc)"

lemma probe_resources_rules:
  assumes "probe_resources access ns (rules, complete, e) preferred = (rules', complete', e')" and "distinct (map fst rules)"
  shows "(ruleAllows (rules_at rules' ns) x list_watch \<longleftrightarrow> ruleAllows (rules_at rules ns) x list_watch
      \<or> (\<exists>h. (h, True) \<in> set preferred \<and> granted (access h) \<and> ruleAllows [grant h] x list_watch))
    \<and> (\<forall>m. m \<noteq> ns \<longrightarrow> rules_at rules' m = rules_at rules m)
    \<and> distinct (map fst rules') \<and> fst ` set rules' \<subseteq> insert ns (fst ` set rules)"
  using assms
proof (induction preferred arbitrary: rules complete e)
  case Nil
  then show ?case by (auto simp: probe_resources_def)
next
  case (Cons p preferred)
  obtain g namespaced where p: "p = (g, namespaced)" by fastforce
  define acc where "acc = (if namespaced then probe_resource (access g) ns g (rules, complete, e) else (rules, complete, e))"
  obtain rules1 complete1 e1 where one: "acc = (rules1, complete1, e1)" by (cases acc)
  have rules1: "rules1 = (if namespaced \<and> granted (access g) then AList.update ns (rules_at rules ns @ [grant g]) rules else rules)"
    using one probe_resource_rules [of "access g" ns g rules complete e rules1 complete1 e1] by (auto simp: acc_def split: if_splits)
  have "probe_resources access ns acc preferred = (rules', complete', e')"
    using Cons.prems(1) by (simp add: probe_resources_def p acc_def)
  moreover have "distinct (map fst rules1)" using Cons.prems(2) by (simp add: rules1 distinct_update)
  ultimately have "(ruleAllows (rules_at rules' ns) x list_watch \<longleftrightarrow> ruleAllows (rules_at rules1 ns) x list_watch
      \<or> (\<exists>h. (h, True) \<in> set preferred \<and> granted (access h) \<and> ruleAllows [grant h] x list_watch))
    \<and> (\<forall>m. m \<noteq> ns \<longrightarrow> rules_at rules' m = rules_at rules1 m)
    \<and> distinct (map fst rules') \<and> fst ` set rules' \<subseteq> insert ns (fst ` set rules1)"
    unfolding one by (rule Cons.IH)
  then show ?case by (auto simp: rules1 p dom_update split: if_splits)
qed

text \<open>One namespace's review decides the rules of that namespace only.\<close>

definition preferred_map :: "refresh \<Rightarrow> (gvr \<times> bool) list" where
  "preferred_map env = preferred_resources (rf_lists env)"

lemma preferred_distinct: "distinct (map fst (preferred_map env))"
proof -
  have inner: "distinct (map fst ps) \<Longrightarrow> distinct (map fst (foldl (preferred_resource gv) ps rs))" for gv ps rs
    by (induction rs arbitrary: ps) (auto simp: preferred_resource_def Let_def distinct_update)
  have "distinct (map fst ps) \<Longrightarrow> distinct (map fst (foldl (\<lambda>preferred (gv, rs). case gv of None \<Rightarrow> preferred
      | Some gv \<Rightarrow> foldl (preferred_resource gv) preferred rs) ps ls))" for ps ls
  proof (induction ls arbitrary: ps)
    case (Cons l ls)
    obtain gv rs where l: "l = (gv, rs)" by fastforce
    show ?case unfolding l foldl_Cons prod.case by (rule Cons.IH) (auto intro: inner Cons.prems split: option.split)
  qed simp
  then show ?thesis by (simp add: preferred_map_def preferred_resources_def)
qed

lemma preferred_in: "(g, b) \<in> set (preferred_map env) \<longleftrightarrow> preferred_of env g = Some b"
  using map_of_eq_Some_iff [OF preferred_distinct] by (simp add: preferred_of_def preferred_map_def)

lemma review_namespace_rules:
  assumes "review_namespace (rf_rules env) (rf_access env) (preferred_map env) (rules, complete, e) ns = (rules', complete', e')"
    and "distinct (map fst rules)" and "ns \<notin> fst ` set rules"
  shows "(ruleAllows (rules_at rules' ns) x list_watch \<longleftrightarrow> rules_allow env ns x)
    \<and> (\<forall>m. m \<noteq> ns \<longrightarrow> rules_at rules' m = rules_at rules m)
    \<and> distinct (map fst rules') \<and> fst ` set rules' \<subseteq> insert ns (fst ` set rules)"
proof -
  have none: "rules_at rules ns = []" using assms(3) by (simp add: rules_at_def map_of_eq_None_iff [THEN iffD2])
  show ?thesis
  proof (cases "rf_rules env ns")
    case (Answer a)
    then obtain rs incomplete where rs: "rf_rules env ns = Answer (rs, incomplete)" by (cases a) auto
    with assms(1) have "rules' = AList.update ns rs rules" by (simp add: review_namespace_def)
    with rs assms(2) show ?thesis by (simp add: rules_allow_def dom_update distinct_update)
  next
    case Denied
    with assms(1) have "probe_resources (rf_access env ns) ns (rules, complete, e) (preferred_map env) = (rules', complete', e')"
      by (simp add: review_namespace_def probe_resources_def)
    from probe_resources_rules [OF this assms(2), of x] show ?thesis
      by (simp add: rules_allow_def Denied none preferred_in)
  next
    case (Failed err)
    with assms(1) have "rules' = rules" by (simp add: review_namespace_def)
    with assms(2) Failed none show ?thesis by (auto simp: rules_allow_def)
  qed
qed

lemma review_namespaces_rules:
  assumes "foldl (review_namespace (rf_rules env) (rf_access env) (preferred_map env)) (rules, complete, e) nss = (rules', complete', e')"
    and "distinct (map fst rules)" and "set nss \<inter> fst ` set rules = {}" and "distinct nss"
  shows "distinct (map fst rules') \<and> fst ` set rules' \<subseteq> set nss \<union> fst ` set rules
    \<and> (\<forall>m. ruleAllows (rules_at rules' m) x list_watch \<longleftrightarrow> (if m \<in> set nss then rules_allow env m x else ruleAllows (rules_at rules m) x list_watch))"
  using assms
proof (induction nss arbitrary: rules complete e)
  case Nil
  then show ?case by auto
next
  case (Cons ns nss)
  obtain rules1 complete1 e1
    where one: "review_namespace (rf_rules env) (rf_access env) (preferred_map env) (rules, complete, e) ns = (rules1, complete1, e1)"
    by (metis prod_cases3)
  have "ns \<notin> fst ` set rules" using Cons.prems(3) by auto
  note first = review_namespace_rules [OF one Cons.prems(2) this, of x]
  have "foldl (review_namespace (rf_rules env) (rf_access env) (preferred_map env)) (rules1, complete1, e1) nss = (rules', complete', e')"
    using Cons.prems(1) by (simp add: one)
  moreover have "distinct (map fst rules1)" "set nss \<inter> fst ` set rules1 = {}" "distinct nss"
  proof -
    show "distinct (map fst rules1)" "distinct nss" using first Cons.prems(4) by simp_all
    have "fst ` set rules1 \<subseteq> insert ns (fst ` set rules)" using first by blast
    with Cons.prems(3,4) show "set nss \<inter> fst ` set rules1 = {}" unfolding distinct.simps list.set by blast
  qed
  ultimately have "distinct (map fst rules') \<and> fst ` set rules' \<subseteq> set nss \<union> fst ` set rules1
    \<and> (\<forall>m. ruleAllows (rules_at rules' m) x list_watch \<longleftrightarrow> (if m \<in> set nss then rules_allow env m x else ruleAllows (rules_at rules1 m) x list_watch))"
    by (rule Cons.IH)
  note rest = this
  have "fst ` set rules' \<subseteq> set nss \<union> fst ` set rules1" "fst ` set rules1 \<subseteq> insert ns (fst ` set rules)"
    using rest first by blast+
  then have "fst ` set rules' \<subseteq> set (ns # nss) \<union> fst ` set rules" unfolding list.set by blast
  moreover have "ruleAllows (rules_at rules' m) x list_watch \<longleftrightarrow>
      (if m \<in> set (ns # nss) then rules_allow env m x else ruleAllows (rules_at rules m) x list_watch)" for m
    using rest first Cons.prems(4) by (cases "m = ns"; cases "m \<in> set nss") simp_all
  ultimately show ?case using rest by simp
qed

lemma effectiveRules_allow:
  assumes "effectiveRules lease (rf_namespaces env) (rf_rules env) (rf_access env) (preferred_map env) = (rules, complete, e)"
    and "refresh_ok lease env"
  shows "distinct (map fst rules)"
    and "ruleAllows (rules_at rules ns) x list_watch \<longleftrightarrow> ns \<in> set (listed lease env) \<and> rules_allow env ns x"
    and "fst ` set rules \<subseteq> set (listed lease env)"
proof -
  obtain nss complete0 e0 where nss: "(case rf_namespaces env of Answer names \<Rightarrow> (sort names, True, None)
      | Denied \<Rightarrow> ([lease], True, None) | Failed err \<Rightarrow> ([lease], False, Some ListNamespaces)) = (nss, complete0, e0)"
    by (metis prod_cases3)
  then have "distinct nss" "set nss = set (listed lease env)"
    using assms(2) by (auto simp: refresh_ok_def listed_def split: answer.splits)
  moreover have "foldl (review_namespace (rf_rules env) (rf_access env) (preferred_map env)) ([], complete0, e0) nss = (rules, complete, e)"
    using assms(1) by (simp add: effectiveRules_def nss)
  ultimately show "distinct (map fst rules)" "fst ` set rules \<subseteq> set (listed lease env)"
    "ruleAllows (rules_at rules ns) x list_watch \<longleftrightarrow> ns \<in> set (listed lease env) \<and> rules_allow env ns x"
    using review_namespaces_rules [of env "[]" complete0 e0 nss rules complete e x] by (auto simp: rules_at_def)
qed

section \<open>What is wanted\<close>

text \<open>A loop over pairs that changes its map for some of them.\<close>

lemma foldl_in:
  assumes "\<And>m p. p \<in> set ps \<Longrightarrow> x \<in> set (namespaces_of (f m p) l) \<longleftrightarrow> P p \<or> x \<in> set (namespaces_of m l)"
  shows "x \<in> set (namespaces_of (foldl f m ps) l) \<longleftrightarrow> (\<exists>p \<in> set ps. P p) \<or> x \<in> set (namespaces_of m l)"
  using assms by (induction ps arbitrary: m) auto

lemma foldl_proper: "proper m \<Longrightarrow> (\<And>m p. proper m \<Longrightarrow> proper (f m p)) \<Longrightarrow> proper (foldl f m ps)"
  by (induction ps arbitrary: m) auto

definition wanted_types :: "(gvr \<Rightarrow> bool) \<Rightarrow> string \<Rightarrow> (gvr \<times> bool) list \<Rightarrow> gvr namespaces \<Rightarrow> gvr namespaces" where
  "wanted_types P ns preferred wanted =
     foldl (\<lambda>wanted (g, namespaced). if namespaced \<and> P g then add_namespace g ns wanted else wanted) wanted preferred"

lemma wanted_types_in:
  "x \<in> set (namespaces_of (wanted_types P ns preferred wanted) g) \<longleftrightarrow>
     x = ns \<and> (g, True) \<in> set preferred \<and> P g \<or> x \<in> set (namespaces_of wanted g)"
proof -
  have "x \<in> set (namespaces_of (wanted_types P ns preferred wanted) g) \<longleftrightarrow>
      (\<exists>p \<in> set preferred. p = (g, True) \<and> x = ns \<and> P g) \<or> x \<in> set (namespaces_of wanted g)"
    unfolding wanted_types_def by (rule foldl_in) (auto split: prod.split)
  then show ?thesis by blast
qed

lemma wanted_types_proper: "proper wanted \<Longrightarrow> proper (wanted_types P ns preferred wanted)"
  unfolding wanted_types_def by (erule foldl_proper) (auto split: prod.split)

lemma wanted_namespaced_fold:
  "wanted_namespaced rbn preferred = foldl (\<lambda>wanted (ns, rules). wanted_types (\<lambda>g. ruleAllows rules g list_watch) ns preferred wanted) [] rbn"
  by (simp add: wanted_namespaced_def wanted_types_def [abs_def])

lemma wanted_namespaced_in:
  assumes "distinct (map fst rbn)"
  shows "x \<in> set (namespaces_of (wanted_namespaced rbn preferred) g) \<longleftrightarrow>
     (g, True) \<in> set preferred \<and> ruleAllows (rules_at rbn x) g list_watch"
proof -
  have "x \<in> set (namespaces_of (wanted_namespaced rbn preferred) g) \<longleftrightarrow>
     (\<exists>r \<in> set rbn. x = fst r \<and> (g, True) \<in> set preferred \<and> ruleAllows (snd r) g list_watch) \<or> x \<in> set (namespaces_of [] g)"
    unfolding wanted_namespaced_fold by (rule foldl_in) (auto simp only: wanted_types_in prod.case_eq_if)
  also have "\<dots> \<longleftrightarrow> (\<exists>rules. (x, rules) \<in> set rbn \<and> (g, True) \<in> set preferred \<and> ruleAllows rules g list_watch)"
    by (force simp: namespaces_of_def)
  also have "\<dots> \<longleftrightarrow> (g, True) \<in> set preferred \<and> ruleAllows (rules_at rbn x) g list_watch"
  proof (cases "map_of rbn x")
    case None
    then have "rules_at rbn x = []" "(x, rules) \<notin> set rbn" for rules
      by (simp_all add: rules_at_def) (force simp: map_of_eq_None_iff)
    then show ?thesis by simp
  next
    case (Some rules)
    with assms have "(x, rules') \<in> set rbn \<longleftrightarrow> rules' = rules" for rules'
      by (auto dest: map_of_SomeD eq_key_imp_eq_value)
    with Some show ?thesis by (auto simp: rules_at_def)
  qed
  finally show ?thesis .
qed

lemma wanted_namespaced_proper: "proper (wanted_namespaced rbn preferred)"
  unfolding wanted_namespaced_fold by (rule foldl_proper) (auto intro: wanted_types_proper)

lemma wanted_cluster_in:
  assumes "distinct (map fst preferred)"
  shows "namespaces_of (wanted_cluster permissions preferred wanted) g =
     (if (g, False) \<in> set preferred \<and> map_of permissions g = Some True then [[]] else namespaces_of wanted g)"
proof -
  let ?f = "\<lambda>wanted (g, namespaced). if \<not> namespaced \<and> map_of permissions g = Some True then AList.update g [[]] wanted else wanted"
  have kept: "namespaces_of (foldl ?f wanted ps) g = namespaces_of wanted g" if "g \<notin> fst ` set ps" for ps wanted
    using that by (induction ps arbitrary: wanted) (auto split: prod.split)
  have "namespaces_of (foldl ?f wanted preferred) g =
     (if (g, False) \<in> set preferred \<and> map_of permissions g = Some True then [[]] else namespaces_of wanted g)"
    using assms
  proof (induction preferred arbitrary: wanted)
    case (Cons p ps)
    obtain h b where p: "p = (h, b)" by fastforce
    show ?case
    proof (cases "h = g")
      case True
      with Cons.prems p have "g \<notin> fst ` set ps" "(g, c) \<notin> set ps" for c by force+
      with kept [OF this(1)] show ?thesis by (simp add: p True)
    next
      case False
      with Cons.prems show ?thesis by (simp add: p Cons.IH)
    qed
  qed simp
  then show ?thesis by (simp add: wanted_cluster_def)
qed

lemma wanted_cluster_proper: "proper wanted \<Longrightarrow> proper (wanted_cluster permissions preferred wanted)"
  unfolding wanted_cluster_def by (erule foldl_proper) (auto split: prod.split)

definition cluster_review :: "(gvr \<Rightarrow> string \<Rightarrow> bool answer) \<Rightarrow> (gvr \<times> bool) list \<times> bool \<times> refresh_error option
    \<Rightarrow> gvr \<times> bool \<Rightarrow> (gvr \<times> bool) list \<times> bool \<times> refresh_error option" where
  "cluster_review access = (\<lambda>(allowed, complete, e) (g, namespaced).
         if namespaced then (allowed, complete, e)
         else case probe (access g) list_watch of
           (ok, None) \<Rightarrow> (AList.update g ok allowed, complete, e)
         | (ok, Some verb) \<Rightarrow> (AList.update g ok allowed, False, first_error e (AccessReview verb g)))"

lemma cluster_review_allowed:
  "map_of (fst (cluster_review access acc (g, namespaced))) =
     (if namespaced then map_of (fst acc) else (map_of (fst acc))(g \<mapsto> granted (access g)))"
proof -
  obtain b e where pr: "probe (access g) list_watch = (b, e)" by fastforce
  obtain allowed complete e0 where acc: "acc = (allowed, complete, e0)" by (cases acc)
  show ?thesis using probe_list_watch(1) [OF pr] pr
    by (cases e) (simp_all add: cluster_review_def acc del: probe.simps)
qed

lemma effectiveClusterPermissions_allowed:
  assumes "distinct (map fst preferred)" and "(g, False) \<in> set preferred"
  shows "map_of (fst (effectiveClusterPermissions access preferred)) g = Some (granted (access g))"
proof -
  have kept: "map_of (fst (foldl (cluster_review access) acc preferred)) g = map_of (fst acc) g"
    if "g \<notin> fst ` set preferred" for acc preferred
    using that by (induction preferred arbitrary: acc) (auto simp: cluster_review_allowed)
  have "map_of (fst (foldl (cluster_review access) acc preferred)) g = Some (granted (access g))" for acc
    using assms
  proof (induction preferred arbitrary: acc)
    case (Cons p preferred)
    show ?case
    proof (cases "p = (g, False)")
      case True
      with Cons.prems(1) have "g \<notin> fst ` set preferred" by simp
      from kept [OF this] show ?thesis by (simp add: True cluster_review_allowed)
    next
      case False
      with Cons.prems show ?thesis by (simp add: Cons.IH)
    qed
  qed simp
  then show ?thesis by (simp add: effectiveClusterPermissions_def cluster_review_def)
qed

text \<open>The types and namespaces a refresh wants, before they are partitioned.\<close>

definition wanted_of :: "string \<Rightarrow> refresh \<Rightarrow> gvr namespaces" where
  "wanted_of lease env = wanted_cluster (fst (effectiveClusterPermissions (rf_cluster_access env) (preferred_map env))) (preferred_map env)
     (wanted_namespaced (fst (effectiveRules lease (rf_namespaces env) (rf_rules env) (rf_access env) (preferred_map env))) (preferred_map env))"

lemma wanted_of_proper: "proper (wanted_of lease env)"
  unfolding wanted_of_def by (intro wanted_cluster_proper wanted_namespaced_proper)

lemma wanted_of_in:
  assumes "refresh_ok lease env"
  shows "ns \<in> set (namespaces_of (wanted_of lease env) g) \<longleftrightarrow> permitted lease env g ns"
proof -
  obtain rules complete e
    where r: "effectiveRules lease (rf_namespaces env) (rf_rules env) (rf_access env) (preferred_map env) = (rules, complete, e)"
    by (metis prod_cases3)
  have inner: "ns \<in> set (namespaces_of (wanted_namespaced rules (preferred_map env)) g) \<longleftrightarrow>
      preferred_of env g = Some True \<and> ns \<in> set (listed lease env) \<and> rules_allow env ns g"
    unfolding wanted_namespaced_in [OF effectiveRules_allow(1) [OF r assms]] effectiveRules_allow(2) [OF r assms] preferred_in ..
  have cluster: "map_of (fst (effectiveClusterPermissions (rf_cluster_access env) (preferred_map env))) g = Some (granted (rf_cluster_access env g))"
    if "preferred_of env g = Some False"
    by (rule effectiveClusterPermissions_allowed [OF preferred_distinct]) (simp add: preferred_in that)
  have "namespaces_of (wanted_of lease env) g =
      (if preferred_of env g = Some False \<and> granted (rf_cluster_access env g) then [[]] else namespaces_of (wanted_namespaced rules (preferred_map env)) g)"
    unfolding wanted_of_def r fst_conv wanted_cluster_in [OF preferred_distinct] preferred_in
    using cluster by auto
  then show ?thesis using inner by (auto simp: permitted_computed)
qed

section \<open>Facts about the collector\<close>

definition watchable :: "gvr \<Rightarrow> string \<Rightarrow> bool" where
  "watchable g ns = (if ns = [] then allowlisted clusterAllowlist g else allowlisted namespacedAllowlist g)"

definition collector_ok :: "collector \<Rightarrow> bool" where
  "collector_ok c \<longleftrightarrow> proper (cl_states c) \<and> distinct (cl_shards c) \<and> set (cl_shards c) = fst ` set (cl_states c)
     \<and> (\<forall>t ns. ns \<in> set (namespaces_of (cl_states c) t) \<longrightarrow> ls_partition t = partition_of ns \<and> watchable (ls_gvr t) ns)"

lemma collector_shards: "collector_ok c \<Longrightarrow> t \<in> set (cl_shards c) \<longleftrightarrow> namespaces_of (cl_states c) t \<noteq> []"
  using proper_None [of "cl_states c" t] by (auto simp: collector_ok_def map_of_eq_None_iff)

lemma namespaces_of_delete [simp]: "namespaces_of (AList.delete t m) u = (if u = t then [] else namespaces_of m u)"
  by (simp add: namespaces_of_def delete_conv')

lemma keys_delete: "fst ` set (AList.delete k al) = fst ` set al - {k}"
  by (metis delete_keys list.set_map set_removeAll)

lemma proper_delete: "proper m \<Longrightarrow> proper (AList.delete t m)"
  by (auto simp: proper_def distinct_delete delete_conv')

lemma stop_shard_ok: "collector_ok c \<Longrightarrow> collector_ok (stop_shard t c)"
  unfolding collector_ok_def stop_shard_def by (auto simp: proper_delete distinct_removeAll keys_delete split: if_splits)

lemma stop_shards_fold:
  assumes "collector_ok c"
  shows "collector_ok (foldl (\<lambda>c t. stop_shard t c) c ts)
    \<and> (\<forall>t. namespaces_of (cl_states (foldl (\<lambda>c t. stop_shard t c) c ts)) t = (if t \<in> set ts then [] else namespaces_of (cl_states c) t))
    \<and> cl_log (foldl (\<lambda>c t. stop_shard t c) c ts) = cl_log c @ map Stopped ts"
  using assms
proof (induction ts arbitrary: c)
  case (Cons t ts)
  from Cons.IH [OF stop_shard_ok [OF Cons.prems, of t]] show ?case by (simp add: stop_shard_def)
qed simp

lemma stop_shards_spec:
  assumes "collector_ok c"
  shows "collector_ok (stop_shards p c)"
    and "namespaces_of (cl_states (stop_shards p c)) t = (if p t then [] else namespaces_of (cl_states c) t)"
    and "cl_log (stop_shards p c) = cl_log c @ map Stopped (filter p (cl_shards c))"
  using stop_shards_fold [OF assms, of "filter p (cl_shards c)"] collector_shards [OF assms, of t]
  by (auto simp: stop_shards_def)

lemma collector_ok_resync [simp]: "collector_ok (c\<lparr>cl_resync := r\<rparr>) = collector_ok c"
  by (simp add: collector_ok_def)

lemma applyResync_spec:
  assumes "applyResyncRequests rs wanted c = (e, c')" and "collector_ok c"
  shows "collector_ok c' \<and> (\<forall>t. namespaces_of (cl_states c') t = namespaces_of (cl_states c) t
    \<or> namespaces_of (cl_states c') t = [] \<and> map_of wanted (ls_gvr t) \<noteq> None)"
  using assms
proof (induction rs wanted c rule: applyResyncRequests.induct)
  case (1 wanted c)
  then show ?case by simp
next
  case (2 r rs wanted c)
  let ?g = "request_gvr r"
  show ?case
  proof (cases "map_of (cl_resync c) (rq_id r)")
    case (Some previous)
    with 2 show ?thesis by (auto split: if_splits)
  next
    case None
    show ?thesis
    proof (cases "map_of wanted ?g = None")
      case True
      with 2 None show ?thesis by simp
    next
      case False
      let ?c = "stop_shards (\<lambda>t. ls_gvr t = ?g) c"
      have "applyResyncRequests rs wanted (?c\<lparr>cl_resync := AList.update (rq_id r) ?g (cl_resync ?c)\<rparr>) = (e, c')"
        using 2(4) None False by (simp add: Let_def)
      moreover have "collector_ok (?c\<lparr>cl_resync := AList.update (rq_id r) ?g (cl_resync ?c)\<rparr>)"
        using stop_shards_spec(1) [OF 2(5)] by simp
      ultimately have "collector_ok c' \<and> (\<forall>t. namespaces_of (cl_states c') t = namespaces_of (cl_states ?c) t
          \<or> namespaces_of (cl_states c') t = [] \<and> map_of wanted (ls_gvr t) \<noteq> None)"
        using "2.IH"(2) [OF refl None False refl] by simp
      note rest = this
      show ?thesis
      proof (intro conjI allI)
        show "collector_ok c'" using rest by blast
        fix t
        have "namespaces_of (cl_states ?c) t = (if ls_gvr t = ?g then [] else namespaces_of (cl_states c) t)"
          by (rule stop_shards_spec(2) [OF 2(5)])
        with rest False show "namespaces_of (cl_states c') t = namespaces_of (cl_states c) t
            \<or> namespaces_of (cl_states c') t = [] \<and> map_of wanted (ls_gvr t) \<noteq> None"
          by (cases "ls_gvr t = ?g") metis+
      qed
    qed
  qed
qed

lemma want_shard_spec:
  assumes "collector_ok c" and "nss \<noteq> []" and "\<And>ns. ns \<in> set nss \<Longrightarrow> ls_partition t = partition_of ns \<and> watchable (ls_gvr t) ns"
  shows "collector_ok (want_shard c (t, nss))"
    and "namespaces_of (cl_states (want_shard c (t, nss))) u = (if u = t then nss else namespaces_of (cl_states c) u)"
proof -
  have st: "cl_states (want_shard c (t, nss)) = AList.update t nss (cl_states c)" by (simp add: want_shard_def)
  have sh: "set (cl_shards (want_shard c (t, nss))) = insert t (set (cl_shards c))" "distinct (cl_shards (want_shard c (t, nss)))"
    using assms(1) proper_None [of "cl_states c" t] collector_shards [OF assms(1), of t]
    by (auto simp: want_shard_def collector_ok_def)
  show "namespaces_of (cl_states (want_shard c (t, nss))) u = (if u = t then nss else namespaces_of (cl_states c) u)"
    by (simp add: st)
  show "collector_ok (want_shard c (t, nss))"
    using assms sh unfolding collector_ok_def st by (auto simp: dom_update)
qed

lemma want_shards_spec:
  assumes "collector_ok c" and "proper election"
    and "\<And>t ns. ns \<in> set (namespaces_of election t) \<Longrightarrow> ls_partition t = partition_of ns \<and> watchable (ls_gvr t) ns"
  shows "collector_ok (foldl want_shard c election)"
    and "namespaces_of (cl_states (foldl want_shard c election)) t =
      (if map_of election t = None then namespaces_of (cl_states c) t else namespaces_of election t)"
proof -
  have "collector_ok (foldl want_shard c election) \<and> (\<forall>t. namespaces_of (cl_states (foldl want_shard c election)) t =
      (if map_of election t = None then namespaces_of (cl_states c) t else namespaces_of election t))"
    using assms
  proof (induction election arbitrary: c)
    case Nil
    then show ?case by simp
  next
    case (Cons p election)
    obtain t nss where p: "p = (t, nss)" by fastforce
    have el_at: "namespaces_of (p # election) u = (if u = t then nss else namespaces_of election u)" for u
      by (auto simp: namespaces_of_def p)
    have dist: "t \<notin> fst ` set election" using Cons.prems(2) by (simp add: proper_def p)
    then have none: "map_of election t = None" by (simp add: map_of_eq_None_iff)
    have wf: "proper election" "nss \<noteq> []"
      using Cons.prems(2) none unfolding proper_def p by (auto split: if_splits)
    have good: "ls_partition t = partition_of ns \<and> watchable (ls_gvr t) ns" if "ns \<in> set nss" for ns
      using Cons.prems(3) [of ns t] that by (simp add: el_at)
    note wanted_one = want_shard_spec [OF Cons.prems(1) wf(2) good]
    have "collector_ok (foldl want_shard (want_shard c p) election) \<and> (\<forall>t. namespaces_of (cl_states (foldl want_shard (want_shard c p) election)) t =
      (if map_of election t = None then namespaces_of (cl_states (want_shard c p)) t else namespaces_of election t))"
    proof (rule Cons.IH [OF _ wf(1)])
      show "collector_ok (want_shard c p)" unfolding p by (rule wanted_one(1))
      fix u ns
      assume "ns \<in> set (namespaces_of election u)"
      moreover have "namespaces_of election t = []" using none by (simp add: namespaces_of_def)
      ultimately show "ls_partition u = partition_of ns \<and> watchable (ls_gvr u) ns"
        using Cons.prems(3) [of ns u] el_at by (cases "u = t") auto
    qed
    then show ?case using none by (simp add: p wanted_one(2) el_at [unfolded p])
  qed
  then show "collector_ok (foldl want_shard c election)"
    and "namespaces_of (cl_states (foldl want_shard c election)) t =
      (if map_of election t = None then namespaces_of (cl_states c) t else namespaces_of election t)" by blast+
qed

section \<open>A refresh\<close>

text \<open>Whether the answers are complete, as the loops report it.\<close>

lemma probe_answered: "snd (probe review list_watch) = None \<longleftrightarrow> answered review"
  by (auto simp: answered_def split: answer.splits bool.splits)

lemma probe_resource_complete:
  "fst (snd (probe_resource review ns g acc)) \<longleftrightarrow> fst (snd acc) \<and> answered review"
  using probe_answered [of review]
  by (auto simp: probe_resource_def simp del: probe.simps split: prod.splits option.splits bool.splits)

lemma probe_resources_complete:
  "fst (snd (probe_resources access ns acc preferred)) \<longleftrightarrow> fst (snd acc) \<and> (\<forall>g. (g, True) \<in> set preferred \<longrightarrow> answered (access g))"
proof (induction preferred arbitrary: acc)
  case (Cons p preferred)
  obtain g b where p: "p = (g, b)" by fastforce
  from Cons show ?case by (cases b) (auto simp: probe_resources_def p probe_resource_complete)
qed (simp add: probe_resources_def)

lemma review_namespace_complete:
  "fst (snd (review_namespace (rf_rules env) (rf_access env) (preferred_map env) acc ns)) \<longleftrightarrow>
     fst (snd acc) \<and> (case rf_rules env ns of Answer (rules, incomplete) \<Rightarrow> \<not> incomplete
        | Denied \<Rightarrow> \<forall>g. offered env g True \<longrightarrow> answered (rf_access env ns g) | Failed err \<Rightarrow> False)"
proof (cases "rf_rules env ns")
  case Denied
  then show ?thesis
    using probe_resources_complete [of "rf_access env ns" ns acc "preferred_map env"]
    by (cases acc) (simp add: review_namespace_def probe_resources_def preferred_in preferred_offered)
qed (auto simp: review_namespace_def split: prod.splits)

lemma review_namespaces_complete:
  "fst (snd (foldl (review_namespace (rf_rules env) (rf_access env) (preferred_map env)) acc nss)) \<longleftrightarrow>
     fst (snd acc) \<and> (\<forall>ns \<in> set nss. case rf_rules env ns of Answer (rules, incomplete) \<Rightarrow> \<not> incomplete
        | Denied \<Rightarrow> \<forall>g. offered env g True \<longrightarrow> answered (rf_access env ns g) | Failed err \<Rightarrow> False)"
  by (induction nss arbitrary: acc) (simp_all add: review_namespace_complete conj_assoc)

lemma cluster_complete:
  "fst (snd (effectiveClusterPermissions access preferred)) \<longleftrightarrow> (\<forall>g. (g, False) \<in> set preferred \<longrightarrow> answered (access g))"
proof -
  have one: "fst (snd (cluster_review access acc (g, b))) \<longleftrightarrow> fst (snd acc) \<and> (b \<or> answered (access g))" for acc g b
    using probe_answered [of "access g"]
    by (cases acc) (auto simp: cluster_review_def simp del: probe.simps split: prod.splits option.splits)
  have "fst (snd (foldl (cluster_review access) acc preferred)) \<longleftrightarrow> fst (snd acc) \<and> (\<forall>g. (g, False) \<in> set preferred \<longrightarrow> answered (access g))" for acc
    by (induction preferred arbitrary: acc) (auto simp: one)
  then show ?thesis by (simp add: effectiveClusterPermissions_def cluster_review_def)
qed

lemma permissions_complete_computed:
  "permissions_complete lease env \<longleftrightarrow>
     fst (snd (effectiveRules lease (rf_namespaces env) (rf_rules env) (rf_access env) (preferred_map env)))
     \<and> fst (snd (effectiveClusterPermissions (rf_cluster_access env) (preferred_map env)))"
proof -
  have cluster: "fst (snd (effectiveClusterPermissions (rf_cluster_access env) (preferred_map env)))
      \<longleftrightarrow> (\<forall>g. offered env g False \<longrightarrow> answered (rf_cluster_access env g))"
    by (simp add: cluster_complete preferred_in preferred_offered)
  show ?thesis
  proof (cases "rf_namespaces env")
    case (Answer names)
    then have "listed lease env = names" by (simp add: listed_def)
    with Answer show ?thesis by (simp add: permissions_complete_def cluster effectiveRules_def review_namespaces_complete)
  next
    case Denied
    then have own: "listed lease env = [lease]" by (simp add: listed_def)
    show ?thesis unfolding permissions_complete_def own using Denied
      by (auto simp: cluster effectiveRules_def review_namespace_complete)
  next
    case (Failed err)
    then show ?thesis by (simp add: permissions_complete_def cluster effectiveRules_def review_namespace_complete)
  qed
qed

definition resync_step :: "string \<Rightarrow> refresh \<Rightarrow> collector \<Rightarrow> refresh_error option \<times> collector" where
  "resync_step lease env c = (case rf_resync env of
      Inl _ \<Rightarrow> (Some ResyncFailed, c)
    | Inr requests \<Rightarrow> if canApplyResync (rf_discovery_error env = None) (permissions_complete lease env)
        then applyResyncRequests requests (wanted_of lease env) c else (None, c))"

definition election_of :: "string \<Rightarrow> refresh \<Rightarrow> collector \<Rightarrow> lease_shard namespaces" where
  "election_of lease env c =
     (if \<not> permissions_complete lease env then preserveExistingNamespaces (partitionNamespaces (wanted_of lease env)) (cl_states c)
      else partitionNamespaces (wanted_of lease env))"

text \<open>The state a refresh leaves, in the terms above.\<close>

lemma reconcile_state:
  "snd (snd (reconcile lease env c)) =
     (let c1 = snd (resync_step lease env c); election = election_of lease env c1; c2 = foldl want_shard c1 election
      in if rf_discovery_error env = None \<and> permissions_complete lease env then stop_shards (\<lambda>t. map_of election t = None) c2 else c2)"
  unfolding reconcile_def Let_def resync_step_def election_of_def wanted_of_def permissions_complete_computed preferred_map_def
  by (simp add: prod.case_eq_if split: sum.split)

lemma preferred_allowlisted:
  "preferred_of env g = Some True \<Longrightarrow> allowlisted namespacedAllowlist g"
  "preferred_of env g = Some False \<Longrightarrow> allowlisted clusterAllowlist g"
  using allowed_map_preferred [of "rf_lists env"] unfolding allowed_map_def preferred_of_def by fastforce+

lemma permitted_watchable: "refresh_ok lease env \<Longrightarrow> permitted lease env g ns \<Longrightarrow> watchable g ns"
  using preferred_allowlisted by (auto simp: permitted_computed watchable_def refresh_ok_def listed_def split: answer.splits)

lemma election_spec:
  assumes "collector_ok c" and "refresh_ok lease env"
  shows "proper (election_of lease env c)"
    and "ns \<in> set (namespaces_of (election_of lease env c) t) \<longleftrightarrow>
      ls_partition t = partition_of ns \<and> permitted lease env (ls_gvr t) ns
      \<or> \<not> permissions_complete lease env \<and> ns \<in> set (namespaces_of (cl_states c) t)"
proof -
  have states: "proper (cl_states c)" using assms(1) by (simp add: collector_ok_def)
  then have "nss \<noteq> []" if "(t, nss) \<in> set (cl_states c)" for t nss
    using that proper_in by fastforce
  then show "proper (election_of lease env c)"
    unfolding election_of_def using partitionNamespaces_proper by (auto intro: preserve_proper)
  have "distinct (map fst (wanted_of lease env))" using wanted_of_proper by (simp add: proper_def)
  note part = partitionNamespaces_in [OF this, of ns t]
  have "distinct (map fst (cl_states c))" using states by (simp add: proper_def)
  note kept = preserve_in [OF this, of ns "partitionNamespaces (wanted_of lease env)" t]
  show "ns \<in> set (namespaces_of (election_of lease env c) t) \<longleftrightarrow>
      ls_partition t = partition_of ns \<and> permitted lease env (ls_gvr t) ns
      \<or> \<not> permissions_complete lease env \<and> ns \<in> set (namespaces_of (cl_states c) t)"
    unfolding election_of_def using part kept wanted_of_in [OF assms(2), of ns "ls_gvr t"] by auto
qed

lemma resync_step_spec:
  assumes "collector_ok c"
  shows "collector_ok (snd (resync_step lease env c))"
    and "\<not> permissions_complete lease env \<Longrightarrow> snd (resync_step lease env c) = c"
  using assms applyResync_spec [of _ "wanted_of lease env" c]
  by (auto simp: resync_step_def canApplyResync_def split: sum.split) (metis prod.collapse)

lemma reconcile_spec:
  assumes "collector_ok c" and "refresh_ok lease env" and "reconcile lease env c = (e, ready, c')"
  shows "collector_ok c'"
    and "permissions_complete lease env \<Longrightarrow> rf_discovery_error env = None \<Longrightarrow>
      ns \<in> set (namespaces_of (cl_states c') t) \<longleftrightarrow> ls_partition t = partition_of ns \<and> permitted lease env (ls_gvr t) ns"
    and "\<not> permissions_complete lease env \<Longrightarrow> ns \<in> set (namespaces_of (cl_states c') t) \<longleftrightarrow>
      ls_partition t = partition_of ns \<and> permitted lease env (ls_gvr t) ns \<or> ns \<in> set (namespaces_of (cl_states c) t)"
    and "permissions_complete lease env \<Longrightarrow> rf_discovery_error env \<noteq> None \<Longrightarrow> ns \<in> set (namespaces_of (cl_states c') t) \<longleftrightarrow>
      ls_partition t = partition_of ns \<and> permitted lease env (ls_gvr t) ns
      \<or> ns \<in> set (namespaces_of (cl_states c) t) \<and> (\<forall>m. ls_partition t = partition_of m \<longrightarrow> \<not> permitted lease env (ls_gvr t) m)"
proof -
  define c1 where "c1 = snd (resync_step lease env c)"
  define election where "election = election_of lease env c1"
  define c2 where "c2 = foldl want_shard c1 election"
  have c1: "collector_ok c1" unfolding c1_def by (rule resync_step_spec(1) [OF assms(1)])
  note el = election_spec [OF c1 assms(2), folded election_def]
  have good: "ls_partition t = partition_of ns \<and> watchable (ls_gvr t) ns" if "ns \<in> set (namespaces_of election t)" for t ns
    using that c1 permitted_watchable [OF assms(2)] unfolding el(2) collector_ok_def by blast
  note c2 = want_shards_spec [OF c1 el(1) good, folded c2_def]
  have c': "c' = (if rf_discovery_error env = None \<and> permissions_complete lease env then stop_shards (\<lambda>t. map_of election t = None) c2 else c2)"
    using assms(3) reconcile_state [of lease env c] by (simp add: Let_def c1_def election_def c2_def)
  show "collector_ok c'" unfolding c' using c2(1) stop_shards_spec(1) [OF c2(1)] by simp
  have none: "map_of election t = None \<longleftrightarrow> namespaces_of election t = []" for t by (rule proper_None [OF el(1)])
  { assume full: "permissions_complete lease env" "rf_discovery_error env = None"
    then have "namespaces_of (cl_states c') t = namespaces_of election t"
      unfolding c' using stop_shards_spec(2) [OF c2(1), of "\<lambda>t. map_of election t = None" t] c2(2) [of t] none by auto
    with el(2) [of ns t] full
    show "ns \<in> set (namespaces_of (cl_states c') t) \<longleftrightarrow> ls_partition t = partition_of ns \<and> permitted lease env (ls_gvr t) ns"
      by simp }
  { assume part: "\<not> permissions_complete lease env"
    then have "c1 = c" unfolding c1_def by (rule resync_step_spec(2) [OF assms(1)])
    moreover have "c' = c2" using part by (simp add: c')
    ultimately show "ns \<in> set (namespaces_of (cl_states c') t) \<longleftrightarrow>
      ls_partition t = partition_of ns \<and> permitted lease env (ls_gvr t) ns \<or> ns \<in> set (namespaces_of (cl_states c) t)"
      using c2(2) [of t] el(2) [of ns t] part none [of t] by auto }
  { assume full: "permissions_complete lease env" and failed: "rf_discovery_error env \<noteq> None"
    have "c1 = c" using failed by (simp add: c1_def resync_step_def canApplyResync_def del: not_None_eq split: sum.split)
    moreover have "c' = c2" using failed by (simp add: c' del: not_None_eq)
    moreover have "namespaces_of election t = [] \<longleftrightarrow> (\<forall>m. ls_partition t = partition_of m \<longrightarrow> \<not> permitted lease env (ls_gvr t) m)"
    proof -
      have "set (namespaces_of election t) = {m. ls_partition t = partition_of m \<and> permitted lease env (ls_gvr t) m}"
        using el(2) [of _ t] full by auto
      then show ?thesis by (simp add: set_empty [symmetric] del: set_empty)
    qed
    ultimately show "ns \<in> set (namespaces_of (cl_states c') t) \<longleftrightarrow>
      ls_partition t = partition_of ns \<and> permitted lease env (ls_gvr t) ns
      \<or> ns \<in> set (namespaces_of (cl_states c) t) \<and> (\<forall>m. ls_partition t = partition_of m \<longrightarrow> \<not> permitted lease env (ls_gvr t) m)"
      using c2(2) [of t] el(2) [of ns t] full none [of t] by auto }
qed

section \<open>Properties of the refresh\<close>

text \<open>The collector as a machine: each step is one refresh, whatever Kubernetes answers.\<close>

inductive refresh_step :: "string \<Rightarrow> collector \<Rightarrow> collector \<Rightarrow> bool" for lease where
  refreshed: "refresh_ok lease env \<Longrightarrow> reconcile lease env c = (e, ready, c') \<Longrightarrow> refresh_step lease c c'"

inductive_cases refresh_stepE: "refresh_step lease c c'"

definition collector_init :: "collector \<Rightarrow> bool" where
  "collector_init c \<longleftrightarrow> cl_shards c = [] \<and> cl_states c = [] \<and> cl_resync c = [] \<and> cl_log c = []"

interpretation refreshing: machine collector_init "refresh_step lease" collector_ok
proof unfold_locales
  show "collector_init c \<Longrightarrow> collector_ok c" for c
    by (simp add: collector_init_def collector_ok_def namespaces_of_def)
  show "refresh_step lease c c' \<Longrightarrow> collector_ok c \<Longrightarrow> collector_ok c'" for c c'
    by (erule refresh_stepE) (rule reconcile_spec(1))
qed

definition watched :: "collector \<Rightarrow> gvr \<Rightarrow> string \<Rightarrow> bool" where
  "watched c g ns \<longleftrightarrow> ns \<in> set (namespaces_of (cl_states c) \<lparr>ls_gvr = g, ls_partition = partition_of ns\<rparr>)"

lemma allowlisted_not_secrets: "watchable g ns \<Longrightarrow> g_resource g \<noteq> ''secrets'' \<and> g_resource g \<noteq> ''configmaps''"
  by (auto simp: watchable_def allowlisted_def has_def namespacedAllowlist_def clusterAllowlist_def split: if_splits)

text \<open>C22: Whatever Kubernetes answers in any number of refreshes, a collector only ever watches allow-listed
  types (never Secrets or ConfigMaps), a namespaced type never cluster-wide, and every namespace of a
  type belongs to exactly one of sixteen lease partitions, the one its name hashes to.\<close>

theorem watched_allowlisted:
  assumes "collector_init c" and "(refresh_step lease)\<^sup>*\<^sup>* c c'" and "ns \<in> set (namespaces_of (cl_states c') t)"
  shows "watchable (ls_gvr t) ns \<and> g_resource (ls_gvr t) \<noteq> ''secrets'' \<and> g_resource (ls_gvr t) \<noteq> ''configmaps''
    \<and> ls_partition t = partition_of ns \<and> ls_partition t < 16"
proof -
  have "collector_ok c'" by (rule refreshing.reachable_inv [OF assms(1,2)])
  with assms(3) have "ls_partition t = partition_of ns" "watchable (ls_gvr t) ns" by (simp_all add: collector_ok_def)
  then show ?thesis using allowlisted_not_secrets partition_of_less [of ns] by (simp add: namespaceLeasePartitions_def)
qed

text \<open>C7: After a refresh with complete answers a collector watches exactly the types and namespaces the answers
  permit. When an answer about permissions is missing, it watches these and everything it watched before.
  When only the discovery of types was incomplete, it watches what is permitted and leaves as it was every
  shard (a type and one of its sixteen partitions) in which nothing known is permitted; so a failing API
  server never reads as a revocation of a type it did not answer for.\<close>

theorem refresh_follows_permissions:
  assumes "collector_ok c" and "refresh_ok lease env" and "reconcile lease env c = (e, ready, c')"
  shows "(permissions_complete lease env \<and> rf_discovery_error env = None \<longrightarrow> (watched c' g ns \<longleftrightarrow> permitted lease env g ns))
    \<and> (\<not> permissions_complete lease env \<longrightarrow> (watched c' g ns \<longleftrightarrow> permitted lease env g ns \<or> watched c g ns))
    \<and> (permissions_complete lease env \<and> rf_discovery_error env \<noteq> None \<longrightarrow> (watched c' g ns \<longleftrightarrow> permitted lease env g ns
        \<or> watched c g ns \<and> (\<forall>m. partition_of m = partition_of ns \<longrightarrow> \<not> permitted lease env g m)))
    \<and> (rf_discovery_error env \<noteq> None \<and> \<not> offered env g True \<and> \<not> offered env g False \<longrightarrow> (watched c g ns \<longrightarrow> watched c' g ns))"
proof -
  let ?t = "\<lparr>ls_gvr = g, ls_partition = partition_of ns\<rparr>"
  note spec = reconcile_spec(2-4) [OF assms, of ns ?t]
  have "\<not> offered env g True \<Longrightarrow> \<not> offered env g False \<Longrightarrow> \<not> permitted lease env g m" for m
    by (simp add: permitted_def)
  with spec show ?thesis by (simp add: watched_def) metis
qed

section \<open>A collector at work\<close>

definition pods :: gvr where "pods = \<lparr>g_group = [], g_version = ''v1'', g_resource = ''pods''\<rparr>"

definition sample_rules :: "string \<Rightarrow> (resource_rule list \<times> bool) answer" where
  "sample_rules ns = (if ns = ''team-a'' then Answer ([\<lparr>ru_verbs = [''*''], ru_groups = [[]], ru_resources = [''pods''], ru_names = []\<rparr>], False)
     else Denied)"

definition sample_refresh :: "bool \<Rightarrow> refresh" where
  "sample_refresh allowed = \<lparr>rf_lists = [(Some ([], ''v1''), [\<lparr>ar_name = ''pods'', ar_namespaced = True, ar_verbs = list_watch\<rparr>,
        \<lparr>ar_name = ''secrets'', ar_namespaced = True, ar_verbs = list_watch\<rparr>])],
     rf_discovery_error = None, rf_namespaces = Answer [''team-b'', ''team-a''], rf_rules = (if allowed then sample_rules else (\<lambda>_. Denied)),
     rf_access = (\<lambda>ns g verb. Answer False), rf_cluster_access = (\<lambda>g verb. Denied), rf_resync = Inr []\<rparr>"

definition idle_collector :: collector where
  "idle_collector = \<lparr>cl_shards = [], cl_states = [], cl_resync = [], cl_log = []\<rparr>"

definition sample_collector :: collector where
  "sample_collector = snd (snd (reconcile ''icinga'' (sample_refresh True) idle_collector))"

lemma sample_refresh_ok: "refresh_ok ''icinga'' (sample_refresh b)" "permissions_complete ''icinga'' (sample_refresh b)"
  by (simp_all add: refresh_ok_def permissions_complete_computed sample_refresh_def) (cases b; code_simp)+

lemma sample_permitted: "permitted ''icinga'' (sample_refresh True) pods ''team-a''" "\<not> permitted ''icinga'' (sample_refresh False) pods ns"
proof -
  have pref: "preferred_of (sample_refresh b) g = (if g = pods then Some True else None)" for b g
  proof -
    have "preferred_resources (rf_lists (sample_refresh b)) = [(pods, True)]"
      by (simp add: sample_refresh_def preferred_resources_def preferred_resource_def pods_def has_def allowlisted_def namespacedAllowlist_def)
    then show ?thesis by (simp add: preferred_of_def)
  qed
  show "permitted ''icinga'' (sample_refresh True) pods ''team-a''"
    by (simp add: permitted_computed pref) (simp add: listed_def sample_refresh_def rules_allow_def sample_rules_def ruleAllows_def has_def pods_def)
  show "\<not> permitted ''icinga'' (sample_refresh False) pods ns"
    by (simp add: permitted_computed pref) (simp add: sample_refresh_def rules_allow_def granted_def)
qed

lemma idle_ok: "collector_init idle_collector" "collector_ok idle_collector"
  by (simp_all add: idle_collector_def collector_init_def collector_ok_def namespaces_of_def)

lemma sample_refreshed:
  "reconcile ''icinga'' (sample_refresh True) idle_collector
     = (fst (reconcile ''icinga'' (sample_refresh True) idle_collector), fst (snd (reconcile ''icinga'' (sample_refresh True) idle_collector)), sample_collector)"
  by (simp add: sample_collector_def)

lemma refresh_follows_permissions_witness: "watched sample_collector pods ''team-a''"
proof -
  have "rf_discovery_error (sample_refresh True) = None" by (simp add: sample_refresh_def)
  with refresh_follows_permissions [OF idle_ok(2) sample_refresh_ok(1) sample_refreshed, of pods "''team-a''"]
    sample_refresh_ok(2) [of True] sample_permitted(1) show ?thesis by blast
qed

lemma sample_watched: "''team-a'' \<in> set (namespaces_of (cl_states sample_collector) \<lparr>ls_gvr = pods, ls_partition = partition_of ''team-a''\<rparr>)"
proof -
  have "rf_discovery_error (sample_refresh True) = None" by (simp add: sample_refresh_def)
  with reconcile_spec(2) [OF idle_ok(2) sample_refresh_ok(1) sample_refreshed] sample_permitted(1) sample_refresh_ok(2) [of True]
  show ?thesis by simp
qed

lemma watched_allowlisted_witness: "watchable pods ''team-a'' \<and> partition_of ''team-a'' < 16"
proof -
  have "refresh_step ''icinga'' idle_collector sample_collector"
    by (rule refreshed [OF sample_refresh_ok(1) sample_refreshed])
  then have "(refresh_step ''icinga'')\<^sup>*\<^sup>* idle_collector sample_collector" by (rule r_into_rtranclp)
  from watched_allowlisted [OF idle_ok(1) this sample_watched] show ?thesis by simp
qed

end
