(* ===== verification/Spool.thy ===== *)
theory Spool
  imports Model "HOL-Library.Word"
begin

text \<open>
  The collector's \<open>Sender\<close> of \<open>internal/v2/collector/client.go\<close> with \<open>spool_space.go\<close>: a batch is split
  to the request limit, posted to the API, or kept as a file of the spool directory until a
  later replay posts it. The encoder of one event is the argument \<open>enc\<close>; what the file system,
  the clock and the API answer during a call are arguments of that call. \<open>delivered\<close> lists the
  batches the API has accepted.
\<close>

unbundle bit_operations_syntax

section \<open>Splitting a batch\<close>

definition maxIngestBatchBytes :: nat where
  "maxIngestBatchBytes = 2 * 1024 * 1024 - 64 * 1024"

datatype split_error = EmptyBatch | EventTooLarge nat

text \<open>\<open>json.Marshal\<close> of a batch: the struct's fields in order, the events separated by commas.\<close>

definition envelope :: "string \<Rightarrow> string \<Rightarrow> string" where
  "envelope cluster shard = ''{'' @ json_quote ''cluster'' @ '':'' @ json_quote cluster @ '','' @ json_quote ''shard'' @ '':''
     @ json_quote shard @ '','' @ json_quote ''events'' @ '':['' "

definition marshal_batch :: "(ingest_event \<Rightarrow> string) \<Rightarrow> ingest_batch \<Rightarrow> string" where
  "marshal_batch enc b = envelope (b_cluster b) (b_shard b) @ join '','' (map enc (b_events b)) @ '']}''"

definition with_events :: "ingest_batch \<Rightarrow> ingest_event list \<Rightarrow> ingest_batch" where
  "with_events b es = \<lparr>b_cluster = b_cluster b, b_shard = b_shard b, b_events = es\<rparr>"

text \<open>
  The loop over the events: \<open>current\<close> and \<open>bytes\<close> describe the chunk being filled, which the
  code closes when the next event does not fit.
\<close>

fun split_loop :: "(ingest_event \<Rightarrow> string) \<Rightarrow> nat \<Rightarrow> nat \<Rightarrow> nat \<Rightarrow> ingest_event list \<Rightarrow> nat \<Rightarrow> ingest_event list
    \<Rightarrow> split_error + ingest_event list list" where
  "split_loop enc base limit index current bytes [] = Inr [current]"
| "split_loop enc base limit index current bytes (e # es) =
     (let n = length (enc e) in
      if base + n + 2 > limit then Inl (EventTooLarge index)
      else let separator = (if length current > 0 then 1 else 0) in
      if length current > 0 \<and> bytes + separator + n + 2 > limit
      then (case split_loop enc base limit (Suc index) [e] (base + n) es of
              Inl err \<Rightarrow> Inl err | Inr rest \<Rightarrow> Inr (current # rest))
      else split_loop enc base limit (Suc index) (current @ [e]) (bytes + separator + n) es)"

definition splitBatch :: "(ingest_event \<Rightarrow> string) \<Rightarrow> ingest_batch \<Rightarrow> nat \<Rightarrow> split_error + ingest_batch list" where
  "splitBatch enc b limit =
     (if b_events b = [] then Inl EmptyBatch
      else let base = length (marshal_batch enc (with_events b [])) - 2
      in case split_loop enc base limit 0 [] base (b_events b) of
           Inl err \<Rightarrow> Inl err | Inr parts \<Rightarrow> Inr (map (with_events b) parts))"

section \<open>Disk space\<close>

record spoolDiskSpace =
  ds_available :: "64 word"
  ds_total :: "64 word"
  ds_freeInodes :: "64 word"
  ds_inodes :: "64 word"

definition canWrite :: "spoolDiskSpace \<Rightarrow> 64 word \<Rightarrow> bool" where
  "canWrite s bytes =
     (let reserve = max (push_bit 20 64) (ds_total s div 20);
          needed = bytes + push_bit 10 64
      in if ds_available s \<le> reserve \<or> needed \<ge> ds_available s - reserve then False
         else ds_inodes s = 0 \<or> ds_freeInodes s > max 128 (ds_inodes s div 100))"

section \<open>The spool\<close>

record spool_file =
  sf_size :: int
  sf_batch :: "string + ingest_batch"

text \<open>
  A file is its size and what its bytes decode to: a batch, or the error \<open>json.Unmarshal\<close> reports.
  A file \<open>spool\<close> has written decodes to the batch it was written from.
\<close>

record sender =
  sp_dir :: "(string \<times> spool_file) list"
  sp_files :: int
  sp_bytes :: int
  delivered :: "ingest_batch list"

text \<open>
  An error of the operating system: \<open>ENOSPC\<close> or \<open>EDQUOT\<close>, which the deferred function of \<open>spool\<close>
  turns into \<open>errSpoolFull\<close> wherever they come from, or another one.
\<close>

datatype os_error = NoSpace | OsError string

record spool_env =
  se_mkdir :: "os_error option"
  se_space :: "os_error + spoolDiskSpace"
  se_name :: string
  se_write :: "os_error option"

datatype send_error = SpoolFull | SendFailed string | Cancelled | SplitFailed split_error

fun spool_error :: "os_error \<Rightarrow> send_error" where
  "spool_error NoSpace = SpoolFull"
| "spool_error (OsError err) = SendFailed err"

definition spool :: "(ingest_event \<Rightarrow> string) \<Rightarrow> int \<Rightarrow> spool_env \<Rightarrow> ingest_batch \<Rightarrow> sender \<Rightarrow> send_error option \<times> sender" where
  "spool enc maxBytes env b s =
     (let n = int (length (marshal_batch enc b)) in
      case se_mkdir env of Some err \<Rightarrow> (Some (spool_error err), s) | None \<Rightarrow>
      if sp_bytes s + n > maxBytes then (Some SpoolFull, s)
      else case se_space env of Inl err \<Rightarrow> (Some (spool_error err), s)
      | Inr space \<Rightarrow>
          if \<not> canWrite space (word_of_int n) then (Some SpoolFull, s)
          else case se_write env of Some err \<Rightarrow> (Some (spool_error err), s)
          | None \<Rightarrow> (None, s\<lparr>sp_dir := AList.update (se_name env) \<lparr>sf_size = n, sf_batch = Inr b\<rparr> (sp_dir s),
                             sp_files := sp_files s + 1, sp_bytes := sp_bytes s + n\<rparr>))"

definition spool_name :: "string \<Rightarrow> bool" where
  "spool_name n \<longleftrightarrow> \<not> has_prefix n ''.'' \<and> has_suffix n ''.json''"

text \<open>What happens to one file of a replay.\<close>

datatype file_outcome = Unreadable | Refused | NotRemoved | Accepted

fun replay_files :: "(nat \<Rightarrow> file_outcome) \<Rightarrow> nat \<Rightarrow> string list \<Rightarrow> sender \<Rightarrow> send_error option \<times> sender" where
  "replay_files outs i [] s = (None, s)"
| "replay_files outs i (n # ns) s =
     (case map_of (sp_dir s) n of None \<Rightarrow> (Some (SendFailed ''read''), s)
      | Some f \<Rightarrow>
          if outs i = Unreadable then (Some (SendFailed ''read''), s)
          else case sf_batch f of Inl err \<Rightarrow> (Some (SendFailed (''invalid spool file '' @ n)), s)
          | Inr b \<Rightarrow>
              if outs i = Refused then (Some (SendFailed ''post''), s)
              else if outs i = NotRemoved then (Some (SendFailed ''remove''), s\<lparr>delivered := delivered s @ [b]\<rparr>)
              else replay_files outs (Suc i) ns
                (s\<lparr>delivered := delivered s @ [b], sp_dir := AList.delete n (sp_dir s),
                   sp_files := sp_files s - 1, sp_bytes := sp_bytes s - sf_size f\<rparr>))"

datatype dir_outcome = Listed | Missing | Unlisted

definition spool_names :: "sender \<Rightarrow> string list" where
  "spool_names s = sort (filter spool_name (map fst (sp_dir s)))"

definition replay :: "dir_outcome \<Rightarrow> (nat \<Rightarrow> file_outcome) \<Rightarrow> sender \<Rightarrow> send_error option \<times> sender" where
  "replay dir outs s =
     (case dir of Missing \<Rightarrow> (None, s) | Unlisted \<Rightarrow> (Some (SendFailed ''readdir''), s)
      | Listed \<Rightarrow> replay_files outs 0 (spool_names s) s)"

definition spoolUsage :: "sender \<Rightarrow> int \<times> int" where
  "spoolUsage s = (let fs = filter (\<lambda>(n, f). spool_name n) (sp_dir s)
     in (int (length fs), sum_list (map (\<lambda>(n, f). sf_size f) fs)))"

section \<open>Sending\<close>

text \<open>
  What the environment does in one turn of the backpressure loop: whether the context is done
  before or while waiting, how the spool attempt goes and what the replay and the post meet.
\<close>

record turn =
  tn_done :: bool
  tn_spool :: spool_env
  tn_dir :: dir_outcome
  tn_outs :: "nat \<Rightarrow> file_outcome"
  tn_post :: bool
  tn_done_waiting :: bool

text \<open>
  The loop may go on for ever, so it runs over the turns there are: \<open>None\<close> means it is still
  waiting for space after the last one.
\<close>

fun spoolWithBackpressure :: "(ingest_event \<Rightarrow> string) \<Rightarrow> int \<Rightarrow> turn list \<Rightarrow> ingest_batch \<Rightarrow> sender
    \<Rightarrow> (send_error option \<times> sender) option" where
  "spoolWithBackpressure enc maxBytes [] b s = None"
| "spoolWithBackpressure enc maxBytes (t # ts) b s =
     (if tn_done t then Some (Some Cancelled, s)
      else case spool enc maxBytes (tn_spool t) b s of
        (None, s1) \<Rightarrow> Some (None, s1)
      | (Some err, s1) \<Rightarrow>
          if err \<noteq> SpoolFull then Some (Some err, s1)
          else case replay (tn_dir t) (tn_outs t) s1 of (r, s2) \<Rightarrow>
            if r = None \<and> tn_post t then Some (None, s2\<lparr>delivered := delivered s2 @ [b]\<rparr>)
            else if tn_done_waiting t then Some (Some Cancelled, s2)
            else spoolWithBackpressure enc maxBytes ts b s2)"

record send_env =
  sd_dir :: dir_outcome
  sd_outs :: "nat \<Rightarrow> file_outcome"
  sd_post :: bool
  sd_turns :: "turn list"

definition sendChunk :: "(ingest_event \<Rightarrow> string) \<Rightarrow> int \<Rightarrow> send_env \<Rightarrow> ingest_batch \<Rightarrow> sender
    \<Rightarrow> (send_error option \<times> sender) option" where
  "sendChunk enc maxBytes env b s =
     (case replay (sd_dir env) (sd_outs env) s of
        (Some err, s1) \<Rightarrow> spoolWithBackpressure enc maxBytes (sd_turns env) b s1
      | (None, s1) \<Rightarrow>
          if sd_post env then Some (None, s1\<lparr>delivered := delivered s1 @ [b]\<rparr>)
          else spoolWithBackpressure enc maxBytes (sd_turns env) b s1)"

fun send_chunks :: "(ingest_event \<Rightarrow> string) \<Rightarrow> int \<Rightarrow> (nat \<Rightarrow> send_env) \<Rightarrow> nat \<Rightarrow> ingest_batch list \<Rightarrow> sender
    \<Rightarrow> (send_error option \<times> sender) option" where
  "send_chunks enc maxBytes envs i [] s = Some (None, s)"
| "send_chunks enc maxBytes envs i (c # cs) s =
     (case sendChunk enc maxBytes (envs i) c s of None \<Rightarrow> None
      | Some (Some err, s1) \<Rightarrow> Some (Some err, s1)
      | Some (None, s1) \<Rightarrow> send_chunks enc maxBytes envs (Suc i) cs s1)"

definition Send :: "(ingest_event \<Rightarrow> string) \<Rightarrow> int \<Rightarrow> (nat \<Rightarrow> send_env) \<Rightarrow> ingest_batch \<Rightarrow> sender
    \<Rightarrow> (send_error option \<times> sender) option" where
  "Send enc maxBytes envs b s =
     (case splitBatch enc b maxIngestBatchBytes of Inl err \<Rightarrow> Some (Some (SplitFailed err), s)
      | Inr parts \<Rightarrow> send_chunks enc maxBytes envs 0 parts s)"

section \<open>Facts about splitting\<close>

definition events_bytes :: "(ingest_event \<Rightarrow> string) \<Rightarrow> ingest_event list \<Rightarrow> nat" where
  "events_bytes enc es = length (join '','' (map enc es))"

lemma length_join_snoc:
  "length (join '','' (xs @ [x])) = length (join '','' xs) + (if xs = [] then 0 else 1) + length x"
  by (induction "'',''" xs rule: join.induct) auto

lemma events_bytes_snoc [simp]:
  "events_bytes enc (es @ [e]) = events_bytes enc es + (if es = [] then 0 else 1) + length (enc e)"
  by (simp add: events_bytes_def length_join_snoc)

lemma events_bytes_Nil [simp]: "events_bytes enc [] = 0"
  by (simp add: events_bytes_def)

lemma length_marshal_batch:
  "length (marshal_batch enc b) = length (envelope (b_cluster b) (b_shard b)) + events_bytes enc (b_events b) + 2"
  by (simp add: marshal_batch_def events_bytes_def)

text \<open>What the loop returns when the chunk in progress is within the limit.\<close>

lemma split_loop_spec:
  assumes "split_loop enc base limit index current bytes es = Inr parts"
    and "bytes = base + events_bytes enc current" and "current \<noteq> [] \<Longrightarrow> bytes + 2 \<le> limit"
    and "current \<noteq> [] \<or> es \<noteq> []"
  shows "concat parts = current @ es \<and> (\<forall>p \<in> set parts. p \<noteq> [] \<and> base + events_bytes enc p + 2 \<le> limit)"
  using assms
proof (induction enc base limit index current bytes es arbitrary: parts rule: split_loop.induct)
  case (1 enc base limit index current bytes)
  then show ?case by auto
next
  case (2 enc base limit index current bytes e es)
  let ?n = "length (enc e)" and ?sep = "if length current > 0 then 1 else 0 :: nat"
  have fits: "\<not> base + ?n + 2 > limit" using "2.prems"(1) by (auto simp: Let_def split: if_splits)
  show ?case
  proof (cases "length current > 0 \<and> bytes + ?sep + ?n + 2 > limit")
    case True
    with "2.prems"(1) fits obtain rest where rest: "split_loop enc base limit (Suc index) [e] (base + ?n) es = Inr rest"
      and parts: "parts = current # rest" by (auto simp: Let_def split: sum.splits)
    have one: "events_bytes enc [e] = ?n" using events_bytes_snoc [of enc "[]" e] by simp
    from "2.IH"(1) [OF refl fits refl True rest] fits
    have "concat rest = e # es \<and> (\<forall>p \<in> set rest. p \<noteq> [] \<and> base + events_bytes enc p + 2 \<le> limit)"
      by (simp add: one)
    with True "2.prems"(2,3) show ?thesis by (auto simp: parts)
  next
    case False
    with "2.prems"(1) fits have run: "split_loop enc base limit (Suc index) (current @ [e]) (bytes + ?sep + ?n) es = Inr parts"
      by (auto simp: Let_def split: if_splits)
    have "concat parts = (current @ [e]) @ es \<and> (\<forall>p \<in> set parts. p \<noteq> [] \<and> base + events_bytes enc p + 2 \<le> limit)"
    proof (rule "2.IH"(2) [OF refl fits refl False run])
      show "bytes + ?sep + ?n = base + events_bytes enc (current @ [e])" using "2.prems"(2) by simp
      show "bytes + ?sep + ?n + 2 \<le> limit" if "current @ [e] \<noteq> []"
        using False fits "2.prems"(2) by (cases "current = []") auto
    qed simp
    then show ?thesis by simp
  qed
qed

lemma split_loop_error:
  assumes "split_loop enc base limit index current bytes es = Inl err"
  shows "\<exists>i < length es. err = EventTooLarge (index + i) \<and> base + length (enc (es ! i)) + 2 > limit
    \<and> (\<forall>j < i. base + length (enc (es ! j)) + 2 \<le> limit)"
  using assms
proof (induction enc base limit index current bytes es rule: split_loop.induct)
  case (1 enc base limit index current bytes)
  then show ?case by simp
next
  case (2 enc base limit index current bytes e es)
  let ?n = "length (enc e)" and ?sep = "if length current > 0 then 1 else 0 :: nat"
  show ?case
  proof (cases "base + ?n + 2 > limit")
    case True
    with 2(3) show ?thesis by (intro exI [of _ 0]) (simp add: Let_def)
  next
    case False
    have "\<exists>i < length es. err = EventTooLarge (Suc index + i) \<and> base + length (enc (es ! i)) + 2 > limit
        \<and> (\<forall>j < i. base + length (enc (es ! j)) + 2 \<le> limit)"
    proof (cases "length current > 0 \<and> bytes + ?sep + ?n + 2 > limit")
      case True
      with False 2(3) have "split_loop enc base limit (Suc index) [e] (base + ?n) es = Inl err"
        by (auto simp: Let_def split: sum.splits)
      from 2(1) [OF refl False refl True this] show ?thesis .
    next
      case no: False
      with False 2(3) have "split_loop enc base limit (Suc index) (current @ [e]) (bytes + ?sep + ?n) es = Inl err"
        by (auto simp: Let_def split: if_splits)
      from 2(2) [OF refl False refl no this] show ?thesis .
    qed
    then obtain i where "i < length es" "err = EventTooLarge (Suc index + i)" "base + length (enc (es ! i)) + 2 > limit"
      "\<forall>j < i. base + length (enc (es ! j)) + 2 \<le> limit" by blast
    with False show ?thesis by (intro exI [of _ "Suc i"]) (auto simp: less_Suc_eq_0_disj)
  qed
qed

text \<open>C36: Splitting loses, reorders and duplicates nothing: the events of the chunks are those of the
  batch in their order, every chunk carries its cluster and shard, has at least one event and
  encodes to at most the request limit; and splitting only fails on an empty batch or on an
  event that does not fit a request by itself.\<close>

theorem splitBatch_correct:
  shows "case splitBatch enc b limit of
      Inr parts \<Rightarrow> concat (map b_events parts) = b_events b
        \<and> (\<forall>p \<in> set parts. b_cluster p = b_cluster b \<and> b_shard p = b_shard b \<and> b_events p \<noteq> []
             \<and> length (marshal_batch enc p) \<le> limit)
    | Inl err \<Rightarrow> b_events b = [] \<or> (\<exists>e \<in> set (b_events b). length (marshal_batch enc (with_events b [e])) > limit)"
proof -
  let ?base = "length (marshal_batch enc (with_events b [])) - 2"
  have base: "?base = length (envelope (b_cluster b) (b_shard b))"
    by (simp add: length_marshal_batch with_events_def)
  have one: "length (marshal_batch enc (with_events b [e])) = ?base + length (enc e) + 2" for e
    using events_bytes_snoc [of enc "[]" e] by (simp add: length_marshal_batch with_events_def)
  show ?thesis
  proof (cases "b_events b = []")
    case True
    then show ?thesis by (simp add: splitBatch_def)
  next
    case False
    show ?thesis
    proof (cases "split_loop enc ?base limit 0 [] ?base (b_events b)")
      case (Inl err)
      from split_loop_error [OF this] have "\<exists>e \<in> set (b_events b). length (marshal_batch enc (with_events b [e])) > limit"
        unfolding one by auto
      with False Inl show ?thesis by (simp add: splitBatch_def)
    next
      case (Inr parts)
      from split_loop_spec [OF this] False
      have parts: "concat parts = b_events b" "\<forall>p \<in> set parts. p \<noteq> [] \<and> ?base + events_bytes enc p + 2 \<le> limit"
        by simp_all
      have len: "length (marshal_batch enc (with_events b p)) = ?base + events_bytes enc p + 2" for p
        unfolding base by (simp add: length_marshal_batch with_events_def)
      have split: "splitBatch enc b limit = Inr (map (with_events b) parts)"
        unfolding splitBatch_def Let_def Inr using False by simp
      have "b_events (with_events b p) = p" "b_cluster (with_events b p) = b_cluster b" "b_shard (with_events b p) = b_shard b" for p
        by (simp_all add: with_events_def)
      note fields = this
      have "concat (map b_events (map (with_events b) parts)) = b_events b"
        using parts(1) by (simp add: comp_def fields)
      moreover have "length (marshal_batch enc p) \<le> limit \<and> b_cluster p = b_cluster b \<and> b_shard p = b_shard b \<and> b_events p \<noteq> []"
        if "p \<in> set (map (with_events b) parts)" for p
      proof -
        from that obtain q where q: "q \<in> set parts" "p = with_events b q" by auto
        from parts(2) q(1) have "q \<noteq> []" "?base + events_bytes enc q + 2 \<le> limit" by simp_all
        then show ?thesis unfolding q(2) fields using len [of q] by (intro conjI refl) linarith+
      qed
      ultimately show ?thesis unfolding split sum.case by blast
    qed
  qed
qed

section \<open>Facts about the sender\<close>

text \<open>
  The accounting invariant (file count and bytes are those of the directory, never above the
  quota) and the order of a sender that loses nothing: what was kept or delivered stays kept
  or delivered.
\<close>

definition sender_ok :: "int \<Rightarrow> sender \<Rightarrow> bool" where
  "sender_ok maxBytes s \<longleftrightarrow> distinct (map fst (sp_dir s)) \<and> (\<forall>(n, f) \<in> set (sp_dir s). spool_name n)
     \<and> sp_files s = int (length (sp_dir s)) \<and> sp_bytes s = sum_list (map (\<lambda>(n, f). sf_size f) (sp_dir s))
     \<and> sp_bytes s \<le> maxBytes \<and> (\<forall>(n, f) \<in> set (sp_dir s). 0 \<le> sf_size f)"

definition kept :: "sender \<Rightarrow> ingest_batch set" where
  "kept s = {b. \<exists>n f. map_of (sp_dir s) n = Some f \<and> sf_batch f = Inr b} \<union> set (delivered s)"

definition keeps :: "sender \<Rightarrow> sender \<Rightarrow> bool" where
  "keeps s t \<longleftrightarrow> kept s \<subseteq> kept t \<and> (\<exists>new. delivered t = delivered s @ new)"

lemma keeps_refl [simp]: "keeps s s"
  by (simp add: keeps_def)

lemma keeps_trans: "keeps s t \<Longrightarrow> keeps t u \<Longrightarrow> keeps s u"
  unfolding keeps_def by (metis append.assoc dual_order.trans)

lemma keeps_deliver [simp]: "keeps s (s\<lparr>delivered := delivered s @ [b]\<rparr>)" "b \<in> kept (s\<lparr>delivered := delivered s @ [b]\<rparr>)"
  by (auto simp: keeps_def kept_def)

lemma spool_outcome:
  assumes "spool enc maxBytes env b s = (r, t)"
  shows "r \<noteq> None \<and> t = s \<or> r = None \<and> sp_bytes s + int (length (marshal_batch enc b)) \<le> maxBytes
    \<and> t = s\<lparr>sp_dir := AList.update (se_name env) \<lparr>sf_size = int (length (marshal_batch enc b)), sf_batch = Inr b\<rparr> (sp_dir s),
            sp_files := sp_files s + 1, sp_bytes := sp_bytes s + int (length (marshal_batch enc b))\<rparr>"
  using assms unfolding spool_def Let_def
  by (auto split: if_splits option.splits sum.splits)

text \<open>The name of a new spool file (a time and a random UUID) is not taken.\<close>

definition fresh_name :: "spool_env \<Rightarrow> sender \<Rightarrow> bool" where
  "fresh_name env s \<longleftrightarrow> spool_name (se_name env) \<and> se_name env \<notin> fst ` set (sp_dir s)"

lemma spool_keeps:
  assumes "spool enc maxBytes env b s = (r, t)" and "fresh_name env s"
  shows "keeps s t" and "r = None \<Longrightarrow> b \<in> kept t"
proof -
  have none: "map_of (sp_dir s) (se_name env) = None"
    using assms(2) by (simp add: fresh_name_def map_of_eq_None_iff)
  from spool_outcome [OF assms(1)] have "keeps s t \<and> (r = None \<longrightarrow> b \<in> kept t)"
  proof
    assume t: "r = None \<and> sp_bytes s + int (length (marshal_batch enc b)) \<le> maxBytes
      \<and> t = s\<lparr>sp_dir := AList.update (se_name env) \<lparr>sf_size = int (length (marshal_batch enc b)), sf_batch = Inr b\<rparr> (sp_dir s),
            sp_files := sp_files s + 1, sp_bytes := sp_bytes s + int (length (marshal_batch enc b))\<rparr>"
    have "map_of (sp_dir t) n = Some f" if "map_of (sp_dir s) n = Some f" for n f
      using that none t by auto
    moreover have "map_of (sp_dir t) (se_name env) = Some \<lparr>sf_size = int (length (marshal_batch enc b)), sf_batch = Inr b\<rparr>"
      "delivered t = delivered s" using t by simp_all
    ultimately show ?thesis unfolding keeps_def kept_def by fastforce
  qed auto
  then show "keeps s t" "r = None \<Longrightarrow> b \<in> kept t" by blast+
qed

lemma sum_list_update_new:
  "k \<notin> fst ` set al \<Longrightarrow> sum_list (map g (AList.update k v al)) = sum_list (map g al) + (g (k, v) :: int)
     \<and> length (AList.update k v al) = Suc (length al)"
  by (induction al) auto

lemma spool_ok:
  assumes "spool enc maxBytes env b s = (r, t)" and "fresh_name env s" and "sender_ok maxBytes s"
  shows "sender_ok maxBytes t"
proof -
  have new: "se_name env \<notin> fst ` set (sp_dir s)" "spool_name (se_name env)"
    using assms(2) by (simp_all add: fresh_name_def)
  have dist: "distinct (map fst (sp_dir s))" using assms(3) by (simp add: sender_ok_def)
  note sums = sum_list_update_new [OF new(1), where g = "\<lambda>(n, f). sf_size f"]
  show ?thesis
    using spool_outcome [OF assms(1)] assms(3) new
    by (auto simp: sender_ok_def sums set_update_keyed [OF dist] dist)
qed

lemma replay_files_keeps:
  "replay_files outs i ns s = (r, t) \<Longrightarrow> keeps s t"
proof (induction outs i ns s rule: replay_files.induct)
  case (1 outs i s)
  then show ?case by simp
next
  case (2 outs i n ns s)
  show ?case
  proof (cases "map_of (sp_dir s) n")
    case None
    with 2 show ?thesis by simp
  next
    case (Some f)
    show ?thesis
    proof (cases "outs i = Unreadable \<or> outs i = Refused \<or> outs i = NotRemoved \<or> (\<exists>e. sf_batch f = Inl e)")
      case True
      with 2(2) Some show ?thesis by (auto split: if_splits sum.splits)
    next
      case False
      then obtain b where b: "sf_batch f = Inr b" by (cases "sf_batch f") auto
      let ?s = "s\<lparr>delivered := delivered s @ [b], sp_dir := AList.delete n (sp_dir s),
        sp_files := sp_files s - 1, sp_bytes := sp_bytes s - sf_size f\<rparr>"
      from False b Some 2(2) have "replay_files outs (Suc i) ns ?s = (r, t)" by simp
      with 2(1) [OF Some _ b] False have "keeps ?s t" by blast
      moreover have "keeps s ?s"
      proof -
        have "map_of (sp_dir ?s) m = Some g \<or> g = f" if "map_of (sp_dir s) m = Some g" for m g
          using that Some by (cases "m = n") auto
        then show ?thesis unfolding keeps_def kept_def using b by fastforce
      qed
      ultimately show ?thesis by (blast intro: keeps_trans)
    qed
  qed
qed

lemma sum_list_delete_keyed:
  assumes "distinct (map fst al)" and "map_of al k = Some v"
  shows "sum_list (map g (AList.delete k al)) = sum_list (map g al) - (g (k, v) :: int)
    \<and> length al = Suc (length (AList.delete k al))"
  using assms by (induction al) (auto simp: image_iff)

lemma replay_files_ok:
  "replay_files outs i ns s = (r, t) \<Longrightarrow> sender_ok maxBytes s \<Longrightarrow> sender_ok maxBytes t"
proof (induction outs i ns s rule: replay_files.induct)
  case (1 outs i s)
  then show ?case by simp
next
  case (2 outs i n ns s)
  show ?case
  proof (cases "map_of (sp_dir s) n")
    case None
    with 2 show ?thesis by simp
  next
    case (Some f)
    show ?thesis
    proof (cases "outs i = Unreadable \<or> outs i = Refused \<or> outs i = NotRemoved \<or> (\<exists>e. sf_batch f = Inl e)")
      case True
      with 2(2,3) Some show ?thesis by (auto simp: sender_ok_def split: if_splits sum.splits)
    next
      case False
      then obtain b where b: "sf_batch f = Inr b" by (cases "sf_batch f") auto
      let ?s = "s\<lparr>delivered := delivered s @ [b], sp_dir := AList.delete n (sp_dir s),
        sp_files := sp_files s - 1, sp_bytes := sp_bytes s - sf_size f\<rparr>"
      have dist: "distinct (map fst (sp_dir s))" using 2(3) by (simp add: sender_ok_def)
      note del = sum_list_delete_keyed [OF dist Some, where g = "\<lambda>(n, f). sf_size f"]
      have "(n, f) \<in> set (sp_dir s)" using Some by (rule map_of_SomeD)
      then have "0 \<le> sf_size f" using 2(3) by (auto simp: sender_ok_def)
      then have "sender_ok maxBytes ?s"
        using 2(3) del by (auto simp: sender_ok_def distinct_map_filter AList.delete_eq)
      with False b Some 2(2) 2(1) [OF Some _ b] show ?thesis by simp
    qed
  qed
qed

text \<open>The sender as a machine that keeps its accounts and loses nothing.\<close>

inductive sender_step :: "(ingest_event \<Rightarrow> string) \<Rightarrow> int \<Rightarrow> sender \<Rightarrow> sender \<Rightarrow> bool" for enc maxBytes where
  spooled: "spool enc maxBytes env b s = (r, t) \<Longrightarrow> fresh_name env s \<Longrightarrow> sender_step enc maxBytes s t"
| replayed: "replay dir outs s = (r, t) \<Longrightarrow> sender_step enc maxBytes s t"
| posted: "sender_step enc maxBytes s (s\<lparr>delivered := delivered s @ [b]\<rparr>)"

lemma replay_keeps: "replay dir outs s = (r, t) \<Longrightarrow> keeps s t"
  unfolding replay_def by (cases dir) (auto intro: replay_files_keeps)

lemma replay_ok: "replay dir outs s = (r, t) \<Longrightarrow> sender_ok maxBytes s \<Longrightarrow> sender_ok maxBytes t"
  unfolding replay_def by (cases dir) (auto intro: replay_files_ok)

definition new_sender :: "int \<Rightarrow> sender \<Rightarrow> bool" where
  \<comment> \<open>What \<open>NewSender\<close> builds over the directory it finds, once within its quota.\<close>
  "new_sender maxBytes s \<longleftrightarrow> distinct (map fst (sp_dir s)) \<and> (\<forall>(n, f) \<in> set (sp_dir s). spool_name n \<and> 0 \<le> sf_size f)
     \<and> (sp_files s, sp_bytes s) = spoolUsage s \<and> sp_bytes s \<le> maxBytes"

lemma new_sender_ok:
  assumes "new_sender maxBytes s"
  shows "sender_ok maxBytes s"
proof -
  have "filter (\<lambda>(n, f). spool_name n) (sp_dir s) = sp_dir s"
    using assms by (auto simp: new_sender_def filter_id_conv)
  with assms show ?thesis by (auto simp: new_sender_def sender_ok_def spoolUsage_def Let_def)
qed

lemma deliver_ok: "sender_ok maxBytes s \<Longrightarrow> sender_ok maxBytes (s\<lparr>delivered := bs\<rparr>)"
  by (simp add: sender_ok_def)

interpretation sending: growing "new_sender maxBytes" "sender_step enc maxBytes" "sender_ok maxBytes" keeps
proof unfold_locales
  fix s t u
  show "new_sender maxBytes s \<Longrightarrow> sender_ok maxBytes s" by (rule new_sender_ok)
  show "sender_step enc maxBytes s t \<Longrightarrow> sender_ok maxBytes s \<Longrightarrow> sender_ok maxBytes t"
    by (erule sender_step.cases) (auto intro: spool_ok replay_ok deliver_ok)
  show "keeps s s" by simp
  show "keeps s t \<Longrightarrow> keeps t u \<Longrightarrow> keeps s u" by (rule keeps_trans)
  show "sender_step enc maxBytes s t \<Longrightarrow> sender_ok maxBytes s \<Longrightarrow> keeps s t"
    by (erule sender_step.cases) (auto intro: spool_keeps(1) replay_keeps)
qed

text \<open>Which files a call can leave behind.\<close>

definition names_within :: "string set \<Rightarrow> sender \<Rightarrow> sender \<Rightarrow> bool" where
  "names_within new s t \<longleftrightarrow> fst ` set (sp_dir t) \<subseteq> fst ` set (sp_dir s) \<union> new"

lemma replay_files_names: "replay_files outs i ns s = (r, t) \<Longrightarrow> fst ` set (sp_dir t) \<subseteq> fst ` set (sp_dir s)"
proof (induction outs i ns s rule: replay_files.induct)
  case (1 outs i s)
  then show ?case by simp
next
  case (2 outs i n ns s)
  show ?case
  proof (cases "map_of (sp_dir s) n")
    case (Some f)
    show ?thesis
    proof (cases "sf_batch f")
      case (Inr b)
      with 2 Some show ?thesis by (force split: if_splits simp: AList.delete_eq)
    qed (use 2 Some in \<open>auto split: if_splits\<close>)
  qed (use 2 in simp)
qed

lemma replay_names: "replay dir outs s = (r, t) \<Longrightarrow> fst ` set (sp_dir t) \<subseteq> fst ` set (sp_dir s)"
  unfolding replay_def by (cases dir) (auto dest: replay_files_names)

lemma fresh_name_mono: "fresh_name env s \<Longrightarrow> fst ` set (sp_dir t) \<subseteq> fst ` set (sp_dir s) \<Longrightarrow> fresh_name env t"
  by (auto simp: fresh_name_def)

lemma spool_failed: "spool enc maxBytes env b s = (Some err, t) \<Longrightarrow> t = s"
  using spool_outcome by blast

lemma backpressure_run:
  assumes "spoolWithBackpressure enc maxBytes ts b s = Some (r, t)" and "\<And>u. u \<in> set ts \<Longrightarrow> fresh_name (tn_spool u) s"
  shows "(sender_step enc maxBytes)\<^sup>*\<^sup>* s t \<and> names_within (se_name ` tn_spool ` set ts) s t \<and> (r = None \<longrightarrow> b \<in> kept t)"
  using assms
proof (induction ts arbitrary: s)
  case Nil
  then show ?case by simp
next
  case (Cons u ts)
  obtain r1 s1 where sp: "spool enc maxBytes (tn_spool u) b s = (r1, s1)" by fastforce
  have fresh: "fresh_name (tn_spool u) s" by (rule Cons.prems(2)) simp
  note step1 = sender_step.spooled [OF sp fresh]
  show ?case
  proof (cases "tn_done u")
    case True
    with Cons.prems(1) have "t = s" "r = Some Cancelled" by simp_all
    then show ?thesis by (auto simp: names_within_def)
  next
    case running: False
    show ?thesis
    proof (cases r1)
      case None
      have "fst ` set (sp_dir s1) \<subseteq> fst ` set (sp_dir s) \<union> {se_name (tn_spool u)}"
        using spool_outcome [OF sp]
      proof
        assume "r1 = None \<and> sp_bytes s + int (length (marshal_batch enc b)) \<le> maxBytes
          \<and> s1 = s\<lparr>sp_dir := AList.update (se_name (tn_spool u)) \<lparr>sf_size = int (length (marshal_batch enc b)), sf_batch = Inr b\<rparr> (sp_dir s),
                sp_files := sp_files s + 1, sp_bytes := sp_bytes s + int (length (marshal_batch enc b))\<rparr>"
        then show ?thesis by (simp add: dom_update)
      qed auto
      with None running sp Cons.prems(1) spool_keeps(2) [OF sp fresh] step1 show ?thesis
        by (auto simp: names_within_def)
    next
      case (Some err)
      with sp have s1: "s1 = s" using spool_failed by blast
      show ?thesis
      proof (cases "err = SpoolFull")
        case False
        with Some running sp Cons.prems(1) have "t = s" "r = Some err" by (simp_all add: s1)
        then show ?thesis by (auto simp: names_within_def)
      next
        case True
        obtain r2 s2 where re: "replay (tn_dir u) (tn_outs u) s = (r2, s2)" by fastforce
        have step2: "sender_step enc maxBytes s s2" by (rule sender_step.replayed [OF re])
        note sub = replay_names [OF re]
        show ?thesis
        proof (cases "r2 = None \<and> tn_post u")
          case True
          with \<open>err = SpoolFull\<close> Some running sp re Cons.prems(1)
          have t: "t = s2\<lparr>delivered := delivered s2 @ [b]\<rparr>" by (simp add: s1)
          have "sender_step enc maxBytes s2 t" unfolding t by (rule sender_step.posted)
          with step2 have "(sender_step enc maxBytes)\<^sup>*\<^sup>* s t" by (rule rtranclp.rtrancl_into_rtrancl [OF r_into_rtranclp])
          with sub show ?thesis by (auto simp: t names_within_def)
        next
          case no: False
          show ?thesis
          proof (cases "tn_done_waiting u")
            case True
            with \<open>err = SpoolFull\<close> Some running sp re no Cons.prems(1) have "t = s2" "r \<noteq> None" by (auto simp: s1)
            with step2 sub show ?thesis by (auto simp: names_within_def)
          next
            case False
            with \<open>err = SpoolFull\<close> Some running sp re no Cons.prems(1)
            have "spoolWithBackpressure enc maxBytes ts b s2 = Some (r, t)" by (auto simp: s1)
            moreover have "fresh_name (tn_spool v) s2" if "v \<in> set ts" for v
              by (rule fresh_name_mono [OF Cons.prems(2) sub]) (simp add: that)
            ultimately have rest: "(sender_step enc maxBytes)\<^sup>*\<^sup>* s2 t \<and> names_within (se_name ` tn_spool ` set ts) s2 t \<and> (r = None \<longrightarrow> b \<in> kept t)"
              by (rule Cons.IH)
            have "(sender_step enc maxBytes)\<^sup>*\<^sup>* s t" using step2 rest by (blast intro: converse_rtranclp_into_rtranclp)
            moreover have "names_within (se_name ` tn_spool ` set (u # ts)) s t"
              using rest sub by (auto simp: names_within_def dest!: subsetD)
            ultimately show ?thesis using rest by blast
          qed
        qed
      qed
    qed
  qed
qed

definition turn_names :: "send_env \<Rightarrow> string set" where
  "turn_names env = se_name ` tn_spool ` set (sd_turns env)"

lemma sendChunk_run:
  assumes "sendChunk enc maxBytes env b s = Some (r, t)" and "\<And>u. u \<in> set (sd_turns env) \<Longrightarrow> fresh_name (tn_spool u) s"
  shows "(sender_step enc maxBytes)\<^sup>*\<^sup>* s t \<and> names_within (turn_names env) s t \<and> (r = None \<longrightarrow> b \<in> kept t)"
proof -
  obtain r1 s1 where re: "replay (sd_dir env) (sd_outs env) s = (r1, s1)" by fastforce
  have step: "sender_step enc maxBytes s s1" by (rule sender_step.replayed [OF re])
  note sub = replay_names [OF re]
  show ?thesis
  proof (cases "r1 = None \<and> sd_post env")
    case True
    with re assms(1) have t: "t = s1\<lparr>delivered := delivered s1 @ [b]\<rparr>" by (simp add: sendChunk_def)
    have "sender_step enc maxBytes s1 t" unfolding t by (rule sender_step.posted)
    with step have "(sender_step enc maxBytes)\<^sup>*\<^sup>* s t" by (rule rtranclp.rtrancl_into_rtrancl [OF r_into_rtranclp])
    with sub show ?thesis by (auto simp: t names_within_def)
  next
    case False
    with re assms(1) have run: "spoolWithBackpressure enc maxBytes (sd_turns env) b s1 = Some (r, t)"
      by (cases r1) (auto simp: sendChunk_def split: if_splits)
    have "fresh_name (tn_spool u) s1" if "u \<in> set (sd_turns env)" for u
      by (rule fresh_name_mono [OF assms(2) [OF that] sub])
    note rest = backpressure_run [OF run this]
    have "(sender_step enc maxBytes)\<^sup>*\<^sup>* s t" using step rest by (blast intro: converse_rtranclp_into_rtranclp)
    moreover have "names_within (turn_names env) s t"
      using rest sub unfolding names_within_def turn_names_def by blast
    ultimately show ?thesis using rest by blast
  qed
qed

text \<open>Spool files named by the clock and a random UUID: new in the directory and never repeated.\<close>

definition fresh_envs :: "(nat \<Rightarrow> send_env) \<Rightarrow> nat \<Rightarrow> sender \<Rightarrow> bool" where
  "fresh_envs envs k s \<longleftrightarrow> (\<forall>i \<ge> k. (\<forall>u \<in> set (sd_turns (envs i)). fresh_name (tn_spool u) s)
     \<and> (\<forall>j > i. turn_names (envs i) \<inter> turn_names (envs j) = {}))"

lemma fresh_envs_step:
  assumes "fresh_envs envs k s" and "names_within (turn_names (envs k)) s t"
  shows "fresh_envs envs (Suc k) t"
  unfolding fresh_envs_def
proof (intro allI impI conjI ballI)
  fix i u
  assume i: "i \<ge> Suc k" and u: "u \<in> set (sd_turns (envs i))"
  from i have ki: "k \<le> i" "k < i" by simp_all
  from assms(1) u ki(1) have "fresh_name (tn_spool u) s" unfolding fresh_envs_def by blast
  moreover from assms(1) ki(2) have "turn_names (envs k) \<inter> turn_names (envs i) = {}"
    unfolding fresh_envs_def by blast
  moreover have "se_name (tn_spool u) \<in> turn_names (envs i)" using u by (simp add: turn_names_def)
  ultimately show "fresh_name (tn_spool u) t"
    using assms(2) unfolding fresh_name_def names_within_def by blast
qed (use assms(1) in \<open>auto simp: fresh_envs_def\<close>)

lemma send_chunks_run:
  assumes "send_chunks enc maxBytes envs k cs s = Some (r, t)" and "fresh_envs envs k s" and "sender_ok maxBytes s"
  shows "sender_ok maxBytes t \<and> keeps s t \<and> (r = None \<longrightarrow> set cs \<subseteq> kept t)"
  using assms
proof (induction cs arbitrary: k s)
  case Nil
  then show ?case by auto
next
  case (Cons c cs)
  from Cons.prems(1) obtain r1 s1 where one: "sendChunk enc maxBytes (envs k) c s = Some (r1, s1)"
    by (auto split: option.splits prod.splits)
  have "fresh_name (tn_spool u) s" if "u \<in> set (sd_turns (envs k))" for u
    using Cons.prems(2) that by (auto simp: fresh_envs_def)
  note run = sendChunk_run [OF one this]
  have ok: "sender_ok maxBytes s1" using run Cons.prems(3) sending.run_inv by blast
  have keep: "keeps s s1" using run Cons.prems(3) sending.run_le by blast
  show ?case
  proof (cases r1)
    case None
    with one Cons.prems(1) have rest: "send_chunks enc maxBytes envs (Suc k) cs s1 = Some (r, t)" by simp
    have "fresh_envs envs (Suc k) s1" using fresh_envs_step [OF Cons.prems(2)] run by blast
    from Cons.IH [OF rest this ok] have rest_ok: "sender_ok maxBytes t \<and> keeps s1 t \<and> (r = None \<longrightarrow> set cs \<subseteq> kept t)" .
    moreover have "c \<in> kept t" using run None rest_ok by (auto simp: keeps_def)
    ultimately show ?thesis using keep keeps_trans by auto
  next
    case (Some err)
    with one Cons.prems(1) have "r = Some err" "t = s1" by simp_all
    with ok keep show ?thesis by simp
  qed
qed

text \<open>C6: A batch \<open>Send\<close> reports as sent is safe: it was cut into chunks within the request limit, and each
  of them was either accepted by the API or lies in the spool directory. Whatever the outcome,
  nothing that was spooled or delivered before is lost, and the spool's file and byte counts
  are those of the directory and within its quota.\<close>

theorem Send_durable:
  assumes "Send enc maxBytes envs b s = Some (r, t)" and "fresh_envs envs 0 s" and "sender_ok maxBytes s"
  shows "sender_ok maxBytes t \<and> kept s \<subseteq> kept t
    \<and> (r = None \<longrightarrow> (\<exists>parts. splitBatch enc b maxIngestBatchBytes = Inr parts \<and> set parts \<subseteq> kept t))"
proof (cases "splitBatch enc b maxIngestBatchBytes")
  case (Inl err)
  with assms(1,3) show ?thesis by (auto simp: Send_def)
next
  case (Inr parts)
  with assms(1) have "send_chunks enc maxBytes envs 0 parts s = Some (r, t)" by (simp add: Send_def)
  from send_chunks_run [OF this assms(2,3)] Inr show ?thesis by (simp add: keeps_def)
qed

section \<open>Replay\<close>

definition file_batch :: "sender \<Rightarrow> string \<Rightarrow> ingest_batch" where
  "file_batch s n = projr (sf_batch (the (map_of (sp_dir s) n)))"

lemma delete_other: "m \<noteq> n \<Longrightarrow> map_of (AList.delete n al) m = map_of al m"
  by (simp add: delete_conv')

lemma replay_files_prefix:
  assumes "replay_files outs i ns s = (r, t)" and "distinct ns"
  shows "\<exists>k \<le> length ns. delivered t = delivered s @ map (file_batch s) (take k ns)
    \<and> (\<forall>n. n \<notin> set (take k ns) \<longrightarrow> map_of (sp_dir t) n = map_of (sp_dir s) n)
    \<and> (r = None \<longrightarrow> k = length ns \<and> (\<forall>n \<in> set ns. map_of (sp_dir t) n = None))"
  using assms
proof (induction outs i ns s rule: replay_files.induct)
  case (1 outs i s)
  then show ?case by simp
next
  case (2 outs i n ns s)
  have stop: ?case if "t = s" "r \<noteq> None"
    using that by (intro exI [of _ 0]) simp
  show ?case
  proof (cases "map_of (sp_dir s) n")
    case None
    with "2.prems"(1) have "t = s" "r \<noteq> None" by auto
    then show ?thesis by (rule stop)
  next
    case (Some f)
    show ?thesis
    proof (cases "outs i = Unreadable \<or> outs i = Refused \<or> (\<exists>e. sf_batch f = Inl e)")
      case True
      with "2.prems"(1) Some have "t = s \<and> r \<noteq> None" by (cases "sf_batch f") (auto split: if_splits)
      then show ?thesis using stop by blast
    next
      case False
      then obtain b where b: "sf_batch f = Inr b" by (cases "sf_batch f") auto
      have fb: "file_batch s n = b" by (simp add: file_batch_def Some b)
      show ?thesis
      proof (cases "outs i = NotRemoved")
        case True
        with False b Some "2.prems"(1) show ?thesis
          by (intro exI [of _ 1]) (auto simp: fb)
      next
        case no: False
        let ?s = "s\<lparr>delivered := delivered s @ [b], sp_dir := AList.delete n (sp_dir s),
          sp_files := sp_files s - 1, sp_bytes := sp_bytes s - sf_size f\<rparr>"
        from no False b Some "2.prems"(1) have run: "replay_files outs (Suc i) ns ?s = (r, t)" by auto
        have "\<exists>k \<le> length ns. delivered t = delivered ?s @ map (file_batch ?s) (take k ns)
          \<and> (\<forall>m. m \<notin> set (take k ns) \<longrightarrow> map_of (sp_dir t) m = map_of (sp_dir ?s) m)
          \<and> (r = None \<longrightarrow> k = length ns \<and> (\<forall>m \<in> set ns. map_of (sp_dir t) m = None))"
          by (rule "2.IH" [OF Some _ b _ _ run]) (use False no "2.prems"(2) in auto)
        then obtain k where k: "k \<le> length ns" "delivered t = delivered ?s @ map (file_batch ?s) (take k ns)"
          "\<And>m. m \<notin> set (take k ns) \<Longrightarrow> map_of (sp_dir t) m = map_of (sp_dir ?s) m"
          "r = None \<Longrightarrow> k = length ns \<and> (\<forall>m \<in> set ns. map_of (sp_dir t) m = None)" by blast
        have notin: "n \<notin> set (take k ns)" using "2.prems"(2) by (auto dest: in_set_takeD)
        then have same: "map (file_batch ?s) (take k ns) = map (file_batch s) (take k ns)"
        proof (intro map_cong refl)
          fix x
          assume "x \<in> set (take k ns)"
          with notin have "x \<noteq> n" by blast
          then show "file_batch ?s x = file_batch s x" by (simp add: file_batch_def delete_other)
        qed
        have gone: "map_of (sp_dir t) n = None" using k(3) [OF notin] by (simp add: delete_conv')
        show ?thesis
          by (intro exI [of _ "Suc k"]) (use k same gone in \<open>auto simp: fb\<close>)
      qed
    qed
  qed
qed

lemma sender_ok_names: "sender_ok maxBytes s \<Longrightarrow> set (spool_names s) = fst ` set (sp_dir s)"
  by (force simp: spool_names_def sender_ok_def)

text \<open>A replay posts the spooled batches strictly in the order of their file names, stops at the
  first one that cannot be read, decoded, posted or removed and leaves all later files alone;
  if it reports success the spool is empty.\<close>

theorem replay_in_order:
  assumes "replay Listed outs s = (r, t)" and "sender_ok maxBytes s"
  shows "\<exists>k \<le> length (spool_names s). delivered t = delivered s @ map (file_batch s) (take k (spool_names s))
    \<and> (\<forall>n \<in> set (drop k (spool_names s)). map_of (sp_dir t) n = map_of (sp_dir s) n)
    \<and> (r = None \<longrightarrow> k = length (spool_names s) \<and> sp_dir t = [])"
proof -
  have dist: "distinct (spool_names s)"
    using assms(2) by (simp add: spool_names_def sender_ok_def distinct_sort)
  have run: "replay_files outs 0 (spool_names s) s = (r, t)" using assms(1) by (simp add: replay_def)
  from replay_files_prefix [OF this dist] obtain k where k: "k \<le> length (spool_names s)"
    "delivered t = delivered s @ map (file_batch s) (take k (spool_names s))"
    "\<And>n. n \<notin> set (take k (spool_names s)) \<Longrightarrow> map_of (sp_dir t) n = map_of (sp_dir s) n"
    "r = None \<Longrightarrow> k = length (spool_names s) \<and> (\<forall>n \<in> set (spool_names s). map_of (sp_dir t) n = None)" by blast
  have "map_of (sp_dir t) n = map_of (sp_dir s) n" if "n \<in> set (drop k (spool_names s))" for n
    using that k(3) set_take_disj_set_drop_if_distinct [OF dist order_refl, of k] by blast
  moreover have "sp_dir t = []" if "r = None"
  proof (rule ccontr)
    assume "sp_dir t \<noteq> []"
    then obtain n f al where t: "sp_dir t = (n, f) # al" by (cases "sp_dir t") auto
    then have "n \<in> fst ` set (sp_dir s)" using replay_names [OF assms(1)] by auto
    also have "fst ` set (sp_dir s) = set (spool_names s)"
      by (rule sender_ok_names [OF assms(2), symmetric])
    finally have "map_of (sp_dir t) n = None" using k(4) [OF that] by blast
    then show False by (simp add: t)
  qed
  ultimately show ?thesis using k by blast
qed

section \<open>A sender at work\<close>

text \<open>
  A collector with one spool file whose API is unreachable: \<open>Send\<close> spools the new batch. Then the
  API answers again and a replay empties the spool.
\<close>

definition sample_event :: "string \<Rightarrow> ingest_event" where
  "sample_event i = \<lparr>e_id = i, e_action = ''upsert'', e_resource = blank_resource\<rparr>"

definition sample_part :: "string \<Rightarrow> ingest_batch" where
  "sample_part i = \<lparr>b_cluster = ''c'', b_shard = ''pods'', b_events = [sample_event i]\<rparr>"

definition sample_sender :: sender where
  "sample_sender = \<lparr>sp_dir = [(''1.json'', \<lparr>sf_size = 60, sf_batch = Inr (sample_part ''a'')\<rparr>)],
     sp_files = 1, sp_bytes = 60, delivered = []\<rparr>"

definition sample_turn :: turn where
  "sample_turn = \<lparr>tn_done = False,
     tn_spool = \<lparr>se_mkdir = None, se_space = Inr \<lparr>ds_available = 1073741824, ds_total = 2147483648,
       ds_freeInodes = 10000, ds_inodes = 20000\<rparr>, se_name = ''2.json'', se_write = None\<rparr>,
     tn_dir = Listed, tn_outs = (\<lambda>_. Refused), tn_post = False, tn_done_waiting = False\<rparr>"

definition sample_env :: "nat \<Rightarrow> send_env" where
  "sample_env i = \<lparr>sd_dir = Listed, sd_outs = (\<lambda>_. Refused), sd_post = False, sd_turns = (if i = 0 then [sample_turn] else [])\<rparr>"

definition sample_spooled :: sender where
  "sample_spooled = sample_sender\<lparr>sp_dir := sp_dir sample_sender @ [(''2.json'', \<lparr>sf_size = 43, sf_batch = Inr (sample_part ''b'')\<rparr>)],
     sp_files := 2, sp_bytes := 103\<rparr>"

definition sample_replayed :: sender where
  "sample_replayed = \<lparr>sp_dir = [], sp_files = 0, sp_bytes = 0, delivered = [sample_part ''a'', sample_part ''b'']\<rparr>"

lemma sample_length: "length (marshal_batch e_id (sample_part ''b'')) = 43"
  by code_simp

lemma sample_split: "splitBatch e_id (sample_part ''b'') maxIngestBatchBytes = Inr [sample_part ''b'']"
proof -
  have "length (marshal_batch e_id (with_events (sample_part ''b'') [])) = 42" by code_simp
  then show ?thesis
    by (simp add: splitBatch_def maxIngestBatchBytes_def with_events_def) (simp add: sample_part_def sample_event_def with_events_def)
qed

lemma sample_send: "Send e_id 1000 sample_env (sample_part ''b'') sample_sender = Some (None, sample_spooled)"
proof -
  have "replay Listed (\<lambda>_. Refused) sample_sender = (Some (SendFailed ''post''), sample_sender)" by code_simp
  moreover have "spool e_id 1000 (tn_spool sample_turn) (sample_part ''b'') sample_sender = (None, sample_spooled)"
    unfolding spool_def sample_length by code_simp
  ultimately show ?thesis
    by (simp add: Send_def sample_split sendChunk_def sample_env_def) (simp add: sample_turn_def)
qed

lemma sample_sender_ok: "sender_ok 1000 sample_sender" "sender_ok 1000 sample_spooled"
  by (simp_all add: sender_ok_def sample_sender_def sample_spooled_def spool_name_def has_suffix_def)

lemma sample_fresh: "fresh_envs sample_env 0 sample_sender"
  by (auto simp: fresh_envs_def sample_env_def turn_names_def fresh_name_def sample_turn_def sample_sender_def
      spool_name_def has_suffix_def)

lemma splitBatch_correct_witness:
  "concat (map b_events [sample_part ''b'']) = b_events (sample_part ''b'')
   \<and> length (marshal_batch e_id (sample_part ''b'')) \<le> maxIngestBatchBytes"
  using splitBatch_correct [where enc = e_id and b = "sample_part ''b''" and limit = maxIngestBatchBytes] by (simp add: sample_split)

lemma Send_durable_witness: "sender_ok 1000 sample_spooled \<and> sample_part ''b'' \<in> kept sample_spooled"
  using Send_durable [OF sample_send sample_fresh sample_sender_ok(1)] by (simp add: sample_split)

lemma sample_replay: "replay Listed (\<lambda>_. Accepted) sample_spooled = (None, sample_replayed)"
  by code_simp

lemma replay_in_order_witness: "sp_dir sample_replayed = []"
  using replay_in_order [OF sample_replay sample_sender_ok(2)] by blast

section \<open>A file the API refuses\<close>

text \<open>
  \<open>post\<close> does not tell a batch the API will never take (a 400) from an API that is down: the
  environments in which every attempt to post the oldest file is refused, and the files
  spooled meanwhile get later names, as their time stamps give them.
\<close>

definition oldest :: "string \<Rightarrow> sender \<Rightarrow> bool" where
  "oldest n s \<longleftrightarrow> spool_name n \<and> n \<in> fst ` set (sp_dir s) \<and> (\<forall>m \<in> fst ` set (sp_dir s). spool_name m \<longrightarrow> n \<le> m)"

definition refuses_oldest :: "string \<Rightarrow> send_env \<Rightarrow> bool" where
  "refuses_oldest n env \<longleftrightarrow> sd_dir env = Listed \<and> sd_outs env 0 = Refused
     \<and> (\<forall>u \<in> set (sd_turns env). tn_dir u = Listed \<and> tn_outs u 0 = Refused \<and> n < se_name (tn_spool u))"

lemma oldest_first:
  assumes "oldest n s"
  obtains ns where "spool_names s = n # ns"
proof (cases "spool_names s")
  case Nil
  with assms show ?thesis by (force simp: oldest_def spool_names_def filter_empty_conv dest: arg_cong [where f = set])
next
  case (Cons m ns)
  have set: "set (spool_names s) = {m \<in> fst ` set (sp_dir s). spool_name m}" by (auto simp: spool_names_def)
  have "sorted (m # ns)" using Cons by (metis spool_names_def sorted_sort)
  moreover have "n \<in> set (m # ns)" using assms set Cons by (simp add: oldest_def)
  ultimately have "m \<le> n" by auto
  moreover have "m \<in> {m \<in> fst ` set (sp_dir s). spool_name m}" using set Cons by (metis list.set_intros(1))
  then have "n \<le> m" using assms unfolding oldest_def by blast
  ultimately show ?thesis using that Cons by auto
qed

lemma replay_blocked:
  assumes "oldest n s" and "outs 0 = Refused"
  obtains err where "replay Listed outs s = (Some err, s)"
proof -
  obtain ns where names: "spool_names s = n # ns" using assms(1) by (rule oldest_first)
  have "map_of (sp_dir s) n \<noteq> None" using assms(1) by (simp add: oldest_def map_of_eq_None_iff)
  then obtain f where "map_of (sp_dir s) n = Some f" by blast
  with names assms(2) have "\<exists>err. replay Listed outs s = (Some err, s)"
    by (cases "sf_batch f") (auto simp: replay_def)
  with that show ?thesis by blast
qed

lemma spool_oldest:
  assumes "spool enc maxBytes env b s = (r, t)" and "oldest n s" and "n < se_name env"
  shows "oldest n t \<and> delivered t = delivered s"
  using spool_outcome [OF assms(1)]
proof
  assume "r = None \<and> sp_bytes s + int (length (marshal_batch enc b)) \<le> maxBytes
    \<and> t = s\<lparr>sp_dir := AList.update (se_name env) \<lparr>sf_size = int (length (marshal_batch enc b)), sf_batch = Inr b\<rparr> (sp_dir s),
          sp_files := sp_files s + 1, sp_bytes := sp_bytes s + int (length (marshal_batch enc b))\<rparr>"
  then have "fst ` set (sp_dir t) = insert (se_name env) (fst ` set (sp_dir s))" "delivered t = delivered s"
    by (simp_all add: dom_update)
  with assms(2,3) show ?thesis unfolding oldest_def by auto
qed (use assms(2) in simp)

lemma backpressure_blocked:
  assumes "spoolWithBackpressure enc maxBytes ts b s = Some (r, t)" and "oldest n s"
    and "\<And>u. u \<in> set ts \<Longrightarrow> tn_dir u = Listed \<and> tn_outs u 0 = Refused \<and> n < se_name (tn_spool u)"
  shows "oldest n t \<and> delivered t = delivered s"
  using assms
proof (induction ts arbitrary: s)
  case Nil
  then show ?case by simp
next
  case (Cons u ts)
  from Cons.prems(3) [of u] have u: "tn_dir u = Listed" "tn_outs u 0 = Refused" "n < se_name (tn_spool u)" by simp_all
  obtain r1 s1 where sp: "spool enc maxBytes (tn_spool u) b s = (r1, s1)" by fastforce
  have s1: "oldest n s1 \<and> delivered s1 = delivered s" by (rule spool_oldest [OF sp Cons.prems(2) u(3)])
  then obtain err where re: "replay Listed (tn_outs u) s1 = (Some err, s1)" using u(2) replay_blocked by blast
  show ?case
  proof (cases "tn_done u \<or> r1 = None \<or> (\<exists>err. r1 = Some err \<and> err \<noteq> SpoolFull) \<or> tn_done_waiting u")
    case True
    with Cons.prems(1,2) sp s1 u re show ?thesis by (auto split: if_splits option.splits)
  next
    case False
    then have "\<not> tn_done u" "r1 = Some SpoolFull" "\<not> tn_done_waiting u" by auto
    with Cons.prems(1) sp u(1) re have run: "spoolWithBackpressure enc maxBytes ts b s1 = Some (r, t)" by simp
    have "oldest n t \<and> delivered t = delivered s1"
      by (rule Cons.IH [OF run]) (use s1 Cons.prems(3) in simp_all)
    then show ?thesis using s1 by simp
  qed
qed

lemma sendChunk_blocked:
  assumes "sendChunk enc maxBytes env b s = Some (r, t)" and "oldest n s" and "refuses_oldest n env"
  shows "oldest n t \<and> delivered t = delivered s"
proof -
  have env: "sd_dir env = Listed" "sd_outs env 0 = Refused" using assms(3) by (simp_all add: refuses_oldest_def)
  obtain err where "replay Listed (sd_outs env) s = (Some err, s)" using assms(2) env(2) replay_blocked by blast
  with assms(1) env(1) have "spoolWithBackpressure enc maxBytes (sd_turns env) b s = Some (r, t)"
    by (simp add: sendChunk_def)
  then show ?thesis
    by (rule backpressure_blocked [OF _ assms(2)]) (use assms(3) in \<open>simp add: refuses_oldest_def\<close>)
qed

lemma send_chunks_blocked:
  assumes "send_chunks enc maxBytes envs k cs s = Some (r, t)" and "oldest n s" and "\<And>i. refuses_oldest n (envs i)"
  shows "oldest n t \<and> delivered t = delivered s"
  using assms(1,2)
proof (induction cs arbitrary: k s)
  case Nil
  then show ?case by simp
next
  case (Cons c cs)
  from Cons.prems(1) obtain r1 s1 where one: "sendChunk enc maxBytes (envs k) c s = Some (r1, s1)"
    by (auto split: option.splits prod.splits)
  have s1: "oldest n s1 \<and> delivered s1 = delivered s" by (rule sendChunk_blocked [OF one Cons.prems(2) assms(3)])
  show ?case
  proof (cases r1)
    case None
    with one Cons.prems(1) have "send_chunks enc maxBytes envs (Suc k) cs s1 = Some (r, t)" by simp
    from Cons.IH [OF this] s1 show ?thesis by simp
  qed (use one s1 Cons.prems(1) in simp)
qed

text \<open>One batch the API refuses for good stops the collector: while the oldest spool file is
  refused, nothing that is sent reaches the API any more, not even batches it would take, and
  the refused file stays the oldest, so the same holds for every later \<open>Send\<close>.\<close>

theorem refused_file_blocks:
  assumes "Send enc maxBytes envs b s = Some (r, t)" and "oldest n s" and "\<And>i. refuses_oldest n (envs i)"
  shows "delivered t = delivered s \<and> oldest n t"
proof (cases "splitBatch enc b maxIngestBatchBytes")
  case (Inl err)
  with assms(1,2) show ?thesis by (simp add: Send_def)
next
  case (Inr parts)
  with assms(1) have "send_chunks enc maxBytes envs 0 parts s = Some (r, t)" by (simp add: Send_def)
  from send_chunks_blocked [OF this assms(2,3)] show ?thesis by simp
qed

lemma refused_file_blocks_witness: "delivered sample_spooled = [] \<and> oldest ''1.json'' sample_spooled"
proof -
  have "oldest ''1.json'' sample_sender"
    by (simp add: oldest_def sample_sender_def spool_name_def has_suffix_def)
  moreover have "(''1.json'' :: string) < ''2.json''" by code_simp
  then have "refuses_oldest ''1.json'' (sample_env i)" for i
    by (simp add: refuses_oldest_def sample_env_def sample_turn_def)
  ultimately show ?thesis using refused_file_blocks [OF sample_send] by (simp add: sample_sender_def)
qed

section \<open>The reserve\<close>

text \<open>A batch is only written when, with 64 KiB to spare, it leaves more than the reserve free: 64 MiB or
  a twentieth of the file system, whichever is more, and more than 128 inodes and a hundredth
  of them where the file system counts inodes. No subtraction or addition of the test wraps
  around for any batch short of 16 EiB.\<close>

theorem canWrite_reserve:
  assumes "canWrite space bytes" and "unat bytes < 2 ^ 64 - 65536"
  shows "unat (ds_available space) > unat bytes + 65536 + max (2 ^ 26) (unat (ds_total space) div 20)
    \<and> (ds_inodes space \<noteq> 0 \<longrightarrow> unat (ds_freeInodes space) > max 128 (unat (ds_inodes space) div 100))"
proof -
  let ?reserve = "max (push_bit 20 64) (ds_total space div 20) :: 64 word" and ?needed = "bytes + push_bit 10 64 :: 64 word"
  have res: "unat ?reserve = max (2 ^ 26) (unat (ds_total space) div 20)"
    by (simp add: max_def word_le_nat_alt unat_div push_bit_eq_mult)
  have need: "unat ?needed = unat bytes + 65536"
    using assms(2) by (simp add: unat_word_ariths push_bit_eq_mult)
  from assms(1) have lt: "?reserve < ds_available space" "?needed < ds_available space - ?reserve"
    and ino: "ds_inodes space = 0 \<or> max 128 (ds_inodes space div 100) < ds_freeInodes space"
    unfolding canWrite_def Let_def by (simp_all add: not_le split: if_splits)
  from lt(1) have "unat (ds_available space - ?reserve) = unat (ds_available space) - unat ?reserve"
    by (intro unat_sub less_imp_le)
  with lt have "unat (ds_available space) > unat bytes + 65536 + max (2 ^ 26) (unat (ds_total space) div 20)"
    unfolding word_less_nat_alt need res [symmetric] by linarith
  moreover have "ds_inodes space \<noteq> 0 \<longrightarrow> unat (ds_freeInodes space) > max 128 (unat (ds_inodes space) div 100)"
    using ino by (auto simp: max_def word_less_nat_alt word_le_nat_alt unat_div split: if_splits)
  ultimately show ?thesis by blast
qed

lemma canWrite_reserve_witness:
  "unat (ds_available (projr (se_space (tn_spool sample_turn)))) > unat (43 :: 64 word) + 65536 + 2 ^ 26"
proof -
  have "canWrite (projr (se_space (tn_spool sample_turn))) 43" by code_simp
  from canWrite_reserve [OF this] show ?thesis by simp linarith
qed

end
