(* ===== verification/Watch.thy ===== *)
theory Watch
  imports Shards Spool
begin

text \<open>
  What a running shard of \<open>internal/v2/collector/collector.go\<close> does: the watchers of its namespaces,
  the paginated list, the reconcile marker after it, the watch and the batches flushed, with the
  markers and heartbeats \<open>client.go\<close> builds. The answers of the Kubernetes API and the ticks of the
  clock are the inputs, in the order the loops see them.
\<close>

section \<open>Markers and heartbeats\<close>

definition shardName :: "collector_env \<Rightarrow> gvr \<Rightarrow> string \<Rightarrow> string" where
  "shardName c g ns = (if ns = [] then ce_gvr c g else ce_gvr c g @ ''@'' @ ns)"

definition marker_resource :: "collector_env \<Rightarrow> string \<Rightarrow> time \<Rightarrow> resource" where
  "marker_resource c shard cutoff =
     (let uid = ''reconcile:'' @ shard in
      blank_resource\<lparr>r_id := StableID (ce_cluster c) uid, r_cluster := ce_cluster c, r_uid := uid, r_group := ''icinga-kubernetes.io'',
        r_version := ''v2'', r_kind := ''ReconcileMarker'', r_name := shard, r_resource_version := ce_stamp c cutoff,
        r_state := StateOK, r_observed := cutoff\<rparr>)"

definition reconcile_marker :: "collector_env \<Rightarrow> string \<Rightarrow> time \<Rightarrow> ingest_batch" where
  "reconcile_marker c shard cutoff =
     \<lparr>b_cluster = ce_cluster c, b_shard = shard,
      b_events = [\<lparr>e_id = ce_sha1 c (ce_cluster c @ NUL @ shard @ NUL @ ''reconcile'' @ NUL @ ce_stamp c cutoff),
        e_action = ''reconcile'', e_resource = marker_resource c shard cutoff\<rparr>]\<rparr>"

definition Heartbeat :: "collector_env \<Rightarrow> time \<Rightarrow> ingest_batch" where
  "Heartbeat c observed =
     \<lparr>b_cluster = ce_cluster c, b_shard = ''__heartbeat__'',
      b_events = [\<lparr>e_id = ce_sha1 c (ce_cluster c @ NUL @ ''heartbeat'' @ NUL @ ce_stamp c observed), e_action = ''heartbeat'',
        e_resource = blank_resource\<lparr>r_id := StableID (ce_cluster c) ''heartbeat'', r_cluster := ce_cluster c, r_uid := ''heartbeat'',
          r_group := ''icinga-kubernetes.io'', r_version := ''v2'', r_kind := ''Heartbeat'', r_name := ''collector'',
          r_resource_version := ce_stamp c observed, r_state := StateOK, r_observed := observed\<rparr>\<rparr>]\<rparr>"

section \<open>Flushing\<close>

text \<open>The batches handed to \<open>Send\<close>, in order; an empty one is not sent.\<close>

definition flush :: "collector_env \<Rightarrow> gvr \<Rightarrow> string \<Rightarrow> ingest_event list \<Rightarrow> ingest_batch list" where
  "flush c g ns events =
     (if events = [] then [] else [\<lparr>b_cluster = ce_cluster c, b_shard = shardName c g ns, b_events = events\<rparr>])"

text \<open>The loop over the items of a page, with the events collected so far.\<close>

fun flush_full :: "nat \<Rightarrow> (ingest_event list \<Rightarrow> ingest_batch list) \<Rightarrow> ingest_event list \<Rightarrow> ingest_event list \<Rightarrow> ingest_batch list" where
  "flush_full limit fl events [] = fl events"
| "flush_full limit fl events (e # es) =
     (let events = events @ [e] in
      if length events \<ge> limit then fl events @ flush_full limit fl [] es else flush_full limit fl events es)"

record list_page =
  pg_items :: "(json \<times> time) list"
  pg_version :: string
  pg_continue :: string

text \<open>The items come with the time their event is built. \<open>None\<close> is a failed request.\<close>

definition page_events :: "collector_env \<Rightarrow> gvr \<Rightarrow> time \<Rightarrow> list_page \<Rightarrow> ingest_event list" where
  "page_events c g started p = map (\<lambda>(obj, now). snapshotEvent c now g obj started) (pg_items p)"

fun list_pages :: "collector_env \<Rightarrow> nat \<Rightarrow> gvr \<Rightarrow> string \<Rightarrow> time \<Rightarrow> list_page option list \<Rightarrow> ingest_batch list \<times> string option" where
  "list_pages c limit g ns started [] = ([], None)"
| "list_pages c limit g ns started (None # ps) = ([], None)"
| "list_pages c limit g ns started (Some p # ps) =
     (let sent = flush_full limit (flush c g ns) [] (page_events c g started p) in
      if pg_continue p = [] then (sent, Some (pg_version p))
      else case list_pages c limit g ns started ps of (rest, rv) \<Rightarrow> (sent @ rest, rv))"

section \<open>Watching\<close>

datatype watch_type = Upserted | Deleted | Bookmark | WatchError

datatype input = Done | Tick | Closed | Event watch_type "json option" time

text \<open>The resource version to resume from and the batches sent; \<open>None\<close> is an object of another type.\<close>

fun consume :: "collector_env \<Rightarrow> nat \<Rightarrow> gvr \<Rightarrow> string \<Rightarrow> input list \<Rightarrow> string \<Rightarrow> ingest_event list \<Rightarrow> string \<times> ingest_batch list" where
  "consume c limit g ns [] rv batch = (rv, [])"
| "consume c limit g ns (Done # ins) rv batch = (rv, flush c g ns batch)"
| "consume c limit g ns (Closed # ins) rv batch = (rv, flush c g ns batch)"
| "consume c limit g ns (Tick # ins) rv batch =
     (case consume c limit g ns ins rv [] of (rv', rest) \<Rightarrow> (rv', flush c g ns batch @ rest))"
| "consume c limit g ns (Event ty None now # ins) rv batch = consume c limit g ns ins rv batch"
| "consume c limit g ns (Event ty (Some obj) now # ins) rv batch =
     (let rv = text_at obj ''metadata.resourceVersion'' in
      if ty = Bookmark then consume c limit g ns ins rv batch
      else if ty = WatchError then (rv, flush c g ns batch)
      else let batch = batch @ [event c now (if ty = Deleted then ''delete'' else ''upsert'') g obj] in
      if length batch \<ge> limit
      then (case consume c limit g ns ins rv [] of (rv', rest) \<Rightarrow> (rv', flush c g ns batch @ rest))
      else consume c limit g ns ins rv batch)"

text \<open>
  One round of \<open>watch\<close>: the snapshot, its marker unless the list failed, then the watch if it opens.
\<close>

record round =
  rd_started :: time
  rd_pages :: "list_page option list"
  rd_watch :: "input list option"

definition watch_round :: "collector_env \<Rightarrow> nat \<Rightarrow> gvr \<Rightarrow> string \<Rightarrow> round \<Rightarrow> ingest_batch list" where
  "watch_round c limit g ns r =
     (case list_pages c limit g ns (rd_started r) (rd_pages r) of
        (sent, None) \<Rightarrow> sent
      | (sent, Some rv) \<Rightarrow> sent @ [reconcile_marker c (shardName c g ns) (rd_started r)]
          @ (case rd_watch r of None \<Rightarrow> [] | Some ins \<Rightarrow> snd (consume c limit g ns ins rv [])))"

definition watch :: "collector_env \<Rightarrow> nat \<Rightarrow> gvr \<Rightarrow> string \<Rightarrow> round list \<Rightarrow> ingest_batch list" where
  "watch c limit g ns rounds = concat (map (watch_round c limit g ns) rounds)"

section \<open>The watchers of a shard\<close>

datatype signal = Changed "string list" time | Cancelled

text \<open>
  \<open>watchNamespaces\<close> keeps a watcher per wanted namespace and sends a marker for each it stops because the
  namespace is no longer wanted. The result is the namespaces still watched and the markers.
\<close>

definition sync_watchers :: "collector_env \<Rightarrow> gvr \<Rightarrow> string list \<Rightarrow> time \<Rightarrow> string list \<Rightarrow> string list \<times> ingest_batch list" where
  "sync_watchers c g wanted now watchers =
     (let running = watchers @ filter (\<lambda>ns. ns \<notin> set watchers) wanted
      in (filter (\<lambda>ns. ns \<in> set wanted) running,
          map (\<lambda>ns. reconcile_marker c (shardName c g ns) now) (filter (\<lambda>ns. ns \<notin> set wanted) running)))"

fun watchNamespaces :: "collector_env \<Rightarrow> gvr \<Rightarrow> signal list \<Rightarrow> string list \<Rightarrow> string list \<times> ingest_batch list" where
  "watchNamespaces c g [] watchers = (watchers, [])"
| "watchNamespaces c g (Cancelled # ss) watchers = ([], [])"
| "watchNamespaces c g (Changed wanted now # ss) watchers =
     (case sync_watchers c g wanted now watchers of (running, markers) \<Rightarrow>
        (case watchNamespaces c g ss running of (final, rest) \<Rightarrow> (final, markers @ rest)))"

text \<open>What the collector's log tells the goroutine of a shard that is running.\<close>

fun signals :: "lease_shard \<Rightarrow> time \<Rightarrow> shard_event list \<Rightarrow> signal list" where
  "signals t now [] = []"
| "signals t now (Updated u nss # es) = (if u = t then Changed nss now # signals t now es else signals t now es)"
| "signals t now (Stopped u # es) = (if u = t then [Cancelled] else signals t now es)"
| "signals t now (Started u nss # es) = signals t now es"

section \<open>Facts about batches\<close>

lemma flush_full_events:
  "concat (map b_events (flush_full limit (flush c g ns) events es)) = events @ es"
  by (induction limit "flush c g ns" events es rule: flush_full.induct) (auto simp: flush_def Let_def)

lemma flush_full_size:
  assumes "1 \<le> limit" and "length events < limit" and "b \<in> set (flush_full limit (flush c g ns) events es)"
  shows "b_cluster b = ce_cluster c \<and> b_shard b = shardName c g ns \<and> b_events b \<noteq> [] \<and> length (b_events b) \<le> limit"
  using assms
proof (induction limit "flush c g ns" events es rule: flush_full.induct)
  case (1 limit events)
  then show ?case by (auto simp: flush_def split: if_splits)
next
  case (2 limit events e es)
  show ?case
  proof (cases "length (events @ [e]) \<ge> limit")
    case True
    with "2.prems" have "b \<in> set (flush c g ns (events @ [e])) \<or> b \<in> set (flush_full limit (flush c g ns) [] es)"
      by (auto simp: Let_def)
    with True 2 show ?thesis by (auto simp: flush_def)
  next
    case False
    with 2 show ?thesis by (simp add: Let_def)
  qed
qed

section \<open>Snapshots\<close>

text \<open>The pages of a list up to the last one or to a failed request, and whether the list is complete.\<close>

fun listing :: "list_page option list \<Rightarrow> list_page list \<times> bool" where
  "listing [] = ([], False)"
| "listing (None # ps) = ([], False)"
| "listing (Some p # ps) = (if pg_continue p = [] then ([p], True)
     else case listing ps of (pages, complete) \<Rightarrow> (p # pages, complete))"

definition chunk_ok :: "collector_env \<Rightarrow> nat \<Rightarrow> gvr \<Rightarrow> string \<Rightarrow> ingest_batch \<Rightarrow> bool" where
  "chunk_ok c limit g ns b \<longleftrightarrow> b_cluster b = ce_cluster c \<and> b_shard b = shardName c g ns \<and> b_events b \<noteq> [] \<and> length (b_events b) \<le> limit"

lemma list_pages_spec:
  assumes "1 \<le> limit" and "list_pages c limit g ns started ps = (sent, rv)"
  shows "concat (map b_events sent) = concat (map (page_events c g started) (fst (listing ps)))
    \<and> (\<forall>b \<in> set sent. chunk_ok c limit g ns b) \<and> (rv \<noteq> None \<longleftrightarrow> snd (listing ps))"
  using assms(2)
proof (induction ps arbitrary: sent rv)
  case Nil
  then show ?case by auto
next
  case (Cons q ps)
  show ?case
  proof (cases q)
    case None
    with Cons.prems show ?thesis by auto
  next
    case (Some p)
    let ?sent = "flush_full limit (flush c g ns) [] (page_events c g started p)"
    have here: "concat (map b_events ?sent) = page_events c g started p" "\<forall>b \<in> set ?sent. chunk_ok c limit g ns b"
      using flush_full_size [OF assms(1), of "[]"] assms(1) by (simp_all add: flush_full_events chunk_ok_def)
    show ?thesis
    proof (cases "pg_continue p = []")
      case True
      with Cons.prems Some here show ?thesis by auto
    next
      case False
      obtain rest rv' where rest: "list_pages c limit g ns started ps = (rest, rv')" by fastforce
      from Cons.IH [OF rest] False Cons.prems Some here rest show ?thesis
        by (auto simp: Let_def split: prod.splits)
    qed
  qed
qed

text \<open>C15: A round of \<open>watch\<close> first sends every listed object, once and in the order of the list, in
  batches of at most the batch size, and sends the shard's reconcile marker right after them if
  and only if the list was complete: a page that fails ends the round without a marker.\<close>

theorem snapshot_before_marker:
  assumes "1 \<le> limit"
  shows "\<exists>sent rest. watch_round c limit g ns r = sent @ rest
    \<and> concat (map b_events sent) = concat (map (page_events c g (rd_started r)) (fst (listing (rd_pages r))))
    \<and> list_all (chunk_ok c limit g ns) sent
    \<and> (if snd (listing (rd_pages r)) then rest \<noteq> [] \<and> hd rest = reconcile_marker c (shardName c g ns) (rd_started r) else rest = [])"
proof -
  obtain sent rv where l: "list_pages c limit g ns (rd_started r) (rd_pages r) = (sent, rv)" by fastforce
  show ?thesis
  proof (cases rv)
    case None
    with list_pages_spec [OF assms l] l show ?thesis
      by (intro exI [of _ sent] exI [of _ "[]"]) (simp add: watch_round_def list_all_iff)
  next
    case (Some v)
    let ?rest = "reconcile_marker c (shardName c g ns) (rd_started r) # (case rd_watch r of None \<Rightarrow> [] | Some ins \<Rightarrow> snd (consume c limit g ns ins v []))"
    have "watch_round c limit g ns r = sent @ ?rest" using l Some by (simp add: watch_round_def)
    with list_pages_spec [OF assms l] Some show ?thesis
      by (intro exI [of _ sent] exI [of _ ?rest]) (simp add: list_all_iff)
  qed
qed

section \<open>What the API accepts\<close>

text \<open>
  The context a validated configuration and the Kubernetes API give: a cluster name, type names and
  UUIDs within the limits, printed times, objects within the limits of the API server.
\<close>

definition env_ok :: "(string \<Rightarrow> bool) \<Rightarrow> collector_env \<Rightarrow> gvr \<Rightarrow> string \<Rightarrow> bool" where
  "env_ok uuid_ok c g ns \<longleftrightarrow> ce_cluster c \<noteq> [] \<and> length (ce_cluster c) \<le> 253 \<and> ce_gvr c g \<noteq> [] \<and> length (ce_gvr c g) + length ns \<le> 500
     \<and> (\<forall>s. uuid_ok (ce_sha1 c s)) \<and> (\<forall>t. ce_stamp c t \<noteq> [] \<and> length (ce_stamp c t) \<le> 512)"

definition input_served :: "gvr \<Rightarrow> input \<Rightarrow> bool" where
  "input_served g i = (case i of Event ty (Some obj) now \<Rightarrow> served g obj \<and> now \<noteq> zero_time | _ \<Rightarrow> True)"

definition round_served :: "gvr \<Rightarrow> round \<Rightarrow> bool" where
  "round_served g r \<longleftrightarrow> rd_started r \<noteq> zero_time
     \<and> list_all (\<lambda>p. case p of None \<Rightarrow> True | Some p \<Rightarrow> list_all (\<lambda>(obj, now). served g obj \<and> now \<noteq> zero_time) (pg_items p)) (rd_pages r)
     \<and> (case rd_watch r of None \<Rightarrow> True | Some ins \<Rightarrow> list_all (input_served g) ins)"

definition good_event :: "(string \<Rightarrow> bool) \<Rightarrow> string \<Rightarrow> ingest_event \<Rightarrow> bool" where
  "good_event uuid_ok cluster e \<longleftrightarrow> uuid_ok (e_id e) \<and> e_action e \<in> {''upsert'', ''delete'', ''reconcile'', ''heartbeat''}
     \<and> validate_resource cluster (e_resource e) = None"

lemma good_batch:
  assumes "list_all (good_event uuid_ok (b_cluster b)) (b_events b)" and "b_cluster b \<noteq> []" and "length (b_cluster b) \<le> 253"
    and "b_shard b \<noteq> []" and "length (b_shard b) \<le> 512" and "b_events b \<noteq> []" and "length (b_events b) \<le> 1000"
  shows "Validate uuid_ok b = None"
proof -
  have "event_error uuid_ok (b_cluster b) i (b_events b ! i) = None" if "i < length (b_events b)" for i
    using assms(1) that by (auto simp: list_all_length good_event_def event_error_def)
  then have "validate_events uuid_ok (b_cluster b) 0 (b_events b) = None" by (simp add: validate_events_None)
  moreover have "\<not> length (b_events b) < 1" using assms(6) by (cases "b_events b") simp_all
  ultimately show ?thesis using assms by (simp add: Validate_def)
qed

lemma event_good:
  assumes "env_ok uuid_ok c g ns" and "served g obj" and "now \<noteq> zero_time" and "action \<in> {''upsert'', ''delete''}"
  shows "good_event uuid_ok (ce_cluster c) (event c now action g obj)"
    and "good_event uuid_ok (ce_cluster c) (snapshotEvent c now g obj started)"
  using assms projection_validates [OF assms(2,3)]
  by (auto simp: good_event_def event_def snapshotEvent_def env_ok_def)

lemma shard_ok: "env_ok uuid_ok c g ns \<Longrightarrow> shardName c g ns \<noteq> [] \<and> length (shardName c g ns) \<le> 501"
  by (auto simp: shardName_def env_ok_def)

lemma marker_good:
  assumes "env_ok uuid_ok c g ns" and "cutoff \<noteq> zero_time"
  shows "Validate uuid_ok (reconcile_marker c (shardName c g ns) cutoff) = None"
proof -
  have stamp: "\<not> 512 < length (ce_stamp c cutoff)" "ce_stamp c cutoff \<noteq> []" using assms(1) by (simp_all add: env_ok_def not_less)
  have "validate_resource (ce_cluster c) (marker_resource c (shardName c g ns) cutoff) = None"
    using assms shard_ok [OF assms(1)] stamp
    by (auto simp: validate_resource_def marker_resource_def Let_def blank_resource_def identity_fields_def bad_field_def
        known_state_def env_ok_def)
  then show ?thesis
    using assms shard_ok [OF assms(1)]
    by (intro good_batch) (auto simp: reconcile_marker_def good_event_def env_ok_def)
qed

lemma consume_good:
  assumes "env_ok uuid_ok c g ns" and "1 \<le> limit" and "list_all (input_served g) ins"
    and "list_all (good_event uuid_ok (ce_cluster c)) batch" and "length batch < limit"
    and "b \<in> set (snd (consume c limit g ns ins rv batch))"
  shows "chunk_ok c limit g ns b \<and> list_all (good_event uuid_ok (ce_cluster c)) (b_events b)"
  using assms
proof (induction c limit g ns ins rv batch rule: consume.induct)
  case (6 c limit g ns ty obj now ins rv batch)
  let ?b = "batch @ [event c now (if ty = Deleted then ''delete'' else ''upsert'') g obj]"
  have good: "list_all (good_event uuid_ok (ce_cluster c)) ?b"
    using 6(6,7) event_good(1) [OF 6(4), of obj now] by (simp add: input_served_def)
  have fl: "chunk_ok c limit g ns b \<and> list_all (good_event uuid_ok (ce_cluster c)) (b_events b)"
    if "b \<in> set (flush c g ns batch')" "list_all (good_event uuid_ok (ce_cluster c)) batch'" "length batch' \<le> limit" for batch'
    using that by (auto simp: flush_def chunk_ok_def split: if_splits)
  consider "ty = Bookmark" | "ty \<noteq> Bookmark" "ty = WatchError" | "ty \<noteq> Bookmark" "ty \<noteq> WatchError" "length ?b \<ge> limit"
    | "ty \<noteq> Bookmark" "ty \<noteq> WatchError" "\<not> length ?b \<ge> limit" by blast
  then show ?case
  proof cases
    case 1
    with 6(1) [OF refl 1] 6(4-9) show ?thesis by (simp add: Let_def)
  next
    case 2
    with 6(7-9) fl [of batch] show ?thesis by (simp add: Let_def)
  next
    case 3
    obtain rv' rest where rest: "consume c limit g ns ins (text_at obj ''metadata.resourceVersion'') [] = (rv', rest)" by fastforce
    from 3 6(9) have "b \<in> set (flush c g ns ?b) \<or> b \<in> set rest" by (simp add: Let_def rest)
    then show ?thesis
    proof
      assume "b \<in> set rest"
      with 6(2) [OF refl 3(1,2) refl 3(3)] 6(4-6) rest show ?thesis by simp
    qed (use fl [OF _ good] 6(8) in simp)
  next
    case 4
    with 6(3) [OF refl 4(1,2) refl 4(3)] 6(4-6,9) good show ?thesis by (simp add: Let_def)
  qed
qed (auto simp: flush_def chunk_ok_def split: if_splits prod.splits)

text \<open>Whatever the collector sends describes something that exists or is named by its action: no event carries a
  deletion time of its own, which only the store sets.\<close>

definition sends_live :: "ingest_batch \<Rightarrow> bool" where
  "sends_live b \<longleftrightarrow> list_all (\<lambda>e. r_deleted (e_resource e) = None) (b_events b)"

lemma event_live: "r_deleted (e_resource (event c now action g obj)) = None"
  "r_deleted (e_resource (snapshotEvent c now g obj started)) = None"
  using normalize_fields(18) [OF refl] by (simp_all add: event_def snapshotEvent_def)

lemma flush_live: "list_all (\<lambda>e. r_deleted (e_resource e) = None) es \<Longrightarrow> list_all sends_live (flush c g ns es)"
  by (simp add: flush_def sends_live_def)

lemma flush_full_live:
  assumes "list_all (\<lambda>e. r_deleted (e_resource e) = None) (events @ es)"
  shows "list_all sends_live (flush_full limit (flush c g ns) events es)"
proof -
  have "\<forall>b \<in> set (flush_full limit (flush c g ns) events es). set (b_events b) \<subseteq> set (events @ es)"
    using flush_full_events [of limit c g ns events es] by (metis UN_upper set_concat set_map image_eqI UN_I subsetI)
  with assms show ?thesis by (auto simp: list_all_iff sends_live_def)
qed

lemma list_pages_live: "list_all sends_live (fst (list_pages c limit g ns started ps))"
proof (induction c limit g ns started ps rule: list_pages.induct)
  case (3 c limit g ns started p ps)
  have "list_all sends_live (flush_full limit (flush c g ns) [] (page_events c g started p))"
    by (rule flush_full_live) (auto simp: page_events_def list_all_iff event_live)
  with 3 show ?case by (auto simp: Let_def split: prod.splits)
qed simp_all

lemma consume_live:
  assumes "list_all (\<lambda>e. r_deleted (e_resource e) = None) batch"
  shows "list_all sends_live (snd (consume c limit g ns ins rv batch))"
  using assms
proof (induction c limit g ns ins rv batch rule: consume.induct)
  case (6 c limit g ns ty obj now ins rv batch)
  let ?b = "batch @ [event c now (if ty = Deleted then ''delete'' else ''upsert'') g obj]"
  have "list_all (\<lambda>e. r_deleted (e_resource e) = None) ?b" using 6(4) by (simp add: event_live)
  with 6 flush_live [OF this] flush_live [OF 6(4)] show ?case
    by (auto simp: Let_def split: prod.splits)
qed (auto simp: flush_live split: prod.splits)

lemma collector_sends_live: "b \<in> set (watch c limit g ns rounds) \<Longrightarrow> sends_live b"
  "sends_live (reconcile_marker c shard cutoff)" "sends_live (Heartbeat c observed)"
proof -
  have marker: "sends_live (reconcile_marker c s t)" for s t
    by (simp add: sends_live_def reconcile_marker_def marker_resource_def blank_resource_def Let_def)
  have "list_all sends_live (watch_round c limit g ns r)" for r
    using list_pages_live [of c limit g ns "rd_started r" "rd_pages r"] consume_live [of "[]"]
    by (auto simp: watch_round_def marker split: prod.splits option.splits)
  then show "b \<in> set (watch c limit g ns rounds) \<Longrightarrow> sends_live b" by (auto simp: watch_def list_all_iff)
  show "sends_live (reconcile_marker c shard cutoff)" by (rule marker)
  show "sends_live (Heartbeat c observed)" by (simp add: sends_live_def Heartbeat_def blank_resource_def)
qed


section \<open>Revoked namespaces\<close>

lemma want_shards_log:
  "cl_log (foldl want_shard c election) = cl_log c @ map (\<lambda>(t, nss).
     if map_of (cl_states c) t \<noteq> None then Updated t nss else Started t nss) election" if "distinct (map fst election)"
  using that
proof (induction election arbitrary: c)
  case (Cons p election)
  obtain t nss where p: "p = (t, nss)" by fastforce
  have same: "map_of (cl_states (want_shard c p)) u = map_of (cl_states c) u" if "u \<in> fst ` set election" for u
    using that Cons.prems by (auto simp: p want_shard_def)
  have "map (\<lambda>(t, nss). if map_of (cl_states (want_shard c p)) t \<noteq> None then Updated t nss else Started t nss) election
      = map (\<lambda>(t, nss). if map_of (cl_states c) t \<noteq> None then Updated t nss else Started t nss) election"
  proof (intro map_cong refl)
    fix x
    assume "x \<in> set election"
    then have "fst x \<in> fst ` set election" by simp
    from same [OF this] show "(case x of (t, nss) \<Rightarrow> if map_of (cl_states (want_shard c p)) t \<noteq> None then Updated t nss else Started t nss)
        = (case x of (t, nss) \<Rightarrow> if map_of (cl_states c) t \<noteq> None then Updated t nss else Started t nss)"
      by (simp only: prod.case_eq_if)
  qed
  note tail = this
  have "cl_log (want_shard c p) = cl_log c @ [if map_of (cl_states c) t \<noteq> None then Updated t nss else Started t nss]"
    by (simp add: p want_shard_def)
  then show ?case
    using Cons.prems unfolding foldl_Cons by (subst Cons.IH) (simp_all only: tail, simp_all add: p)
qed simp

lemma signals_append: "Cancelled \<notin> set (signals t now es) \<Longrightarrow> signals t now (es @ fs) = signals t now es @ signals t now fs"
  by (induction t now es rule: signals.induct) (auto split: if_splits)

lemma signals_other: "(\<And>e. e \<in> set es \<Longrightarrow> (\<forall>nss. e \<noteq> Updated t nss) \<and> e \<noteq> Stopped t) \<Longrightarrow> signals t now es = []"
  by (induction t now es rule: signals.induct) auto

lemma signals_stopped: "signals t now (map Stopped ts) = (if t \<in> set ts then [Cancelled] else [])"
  by (induction ts) auto

definition new_log :: "collector \<Rightarrow> collector \<Rightarrow> shard_event list" where
  "new_log c c' = drop (length (cl_log c)) (cl_log c')"

lemma refresh_log:
  assumes "collector_ok c" and "refresh_ok lease env" and "reconcile lease env c = (e, ready, c')"
    and "permissions_complete lease env" and "rf_discovery_error env = None" and "rf_resync env = Inr []"
  shows "new_log c c' = map (\<lambda>(t, nss). if map_of (cl_states c) t \<noteq> None then Updated t nss else Started t nss) (election_of lease env c)
    @ map Stopped (filter (\<lambda>t. map_of (election_of lease env c) t = None) (cl_shards (foldl want_shard c (election_of lease env c))))"
proof -
  define election where "election = election_of lease env c"
  note el = election_spec [OF assms(1,2), folded election_def]
  have good: "ls_partition t = partition_of ns \<and> watchable (ls_gvr t) ns" if "ns \<in> set (namespaces_of election t)" for t ns
    using that assms(1) permitted_watchable [OF assms(2)] unfolding el(2) collector_ok_def by blast
  note c2 = want_shards_spec [OF assms(1) el(1) good]
  have "resync_step lease env c = (None, c)" using assms(6) by (simp add: resync_step_def)
  then have "c' = stop_shards (\<lambda>t. map_of election t = None) (foldl want_shard c election)"
    using reconcile_state [of lease env c] assms(3-5) by (simp add: Let_def election_def)
  then show ?thesis
    using stop_shards_spec(3) [OF c2(1)] want_shards_log [of election c] el(1)
    by (simp add: new_log_def proper_def election_def)
qed

text \<open>When a complete refresh finds that a shard has lost some of its namespaces, the goroutine of the shard
  sends the reconcile marker of each of them; but when it has lost its last one the shard is
  cancelled instead, no marker is sent, and nothing tombstones the resources of these namespaces.\<close>

theorem last_revocation_unmarked:
  assumes "collector_ok c" and "refresh_ok lease env" and "reconcile lease env c = (e, ready, c')"
    and "permissions_complete lease env" and "rf_discovery_error env = None" and "rf_resync env = Inr []"
    and "ns \<in> set (namespaces_of (cl_states c) t)" and "\<not> permitted lease env (ls_gvr t) ns"
  shows "snd (watchNamespaces cenv (ls_gvr t) (signals t now (new_log c c')) (namespaces_of (cl_states c) t)) =
    (if namespaces_of (cl_states c') t = [] then []
     else map (\<lambda>ns. reconcile_marker cenv (shardName cenv (ls_gvr t) ns) now)
       (filter (\<lambda>ns. ns \<notin> set (namespaces_of (cl_states c') t)) (namespaces_of (cl_states c) t)))"
proof -
  define election where "election = election_of lease env c"
  note el = election_spec [OF assms(1,2), folded election_def]
  let ?started = "map (\<lambda>(t, nss). if map_of (cl_states c) t \<noteq> None then Updated t nss else Started t nss) election"
  let ?stopped = "filter (\<lambda>t. map_of election t = None) (cl_shards (foldl want_shard c election))"
  have good: "ls_partition t = partition_of ns \<and> watchable (ls_gvr t) ns" if "ns \<in> set (namespaces_of election t)" for t ns
    using that assms(1) permitted_watchable [OF assms(2)] unfolding el(2) collector_ok_def by blast
  note c2 = want_shards_spec [OF assms(1) el(1) good]
  have log: "new_log c c' = ?started @ map Stopped ?stopped"
    unfolding election_def by (rule refresh_log [OF assms(1-6)])
  have states: "ns \<in> set (namespaces_of (cl_states c') t) \<longleftrightarrow> ns \<in> set (namespaces_of election t)" for ns
    using reconcile_spec(2) [OF assms(1-5)] el(2) assms(4) by simp
  have exact: "namespaces_of (cl_states c') t = namespaces_of election t"
  proof -
    have "c' = stop_shards (\<lambda>t. map_of election t = None) (foldl want_shard c election)"
      using reconcile_state [of lease env c] assms(3-6) by (simp add: Let_def election_def resync_step_def)
    then show ?thesis
      using stop_shards_spec(2) [OF c2(1), of "\<lambda>t. map_of election t = None" t] c2(2) [of t] proper_None [OF el(1), of t] by auto
  qed
  have there: "map_of (cl_states c) t \<noteq> None" using assms(7) by (cases "map_of (cl_states c) t") (simp_all add: namespaces_of_def)
  have none: "map_of election t = None \<longleftrightarrow> namespaces_of (cl_states c') t = []"
    unfolding exact by (rule proper_None [OF el(1)])
  show ?thesis
  proof (cases "namespaces_of (cl_states c') t = []")
    case True
    with none have "t \<notin> fst ` set election" by (simp add: map_of_eq_None_iff)
    then have "u \<noteq> t" if "(u, nss) \<in> set election" for u nss using that by force
    then have "signals t now ?started = []" by (intro signals_other) (auto split: prod.splits if_splits)
    moreover have "t \<in> set ?stopped"
      using True none assms(7) c2(2) [of t] collector_shards [OF c2(1), of t] by auto
    ultimately have "signals t now (new_log c c') = [Cancelled]"
      by (simp add: log signals_append signals_stopped)
    with True show ?thesis by simp
  next
    case False
    let ?nss = "namespaces_of (cl_states c') t"
    from False none have "(t, ?nss) \<in> set election"
      using proper_in [OF el(1)] by (simp add: exact)
    then obtain before after where split: "election = before @ (t, ?nss) # after" by (meson split_list)
    have "t \<notin> fst ` set before" "t \<notin> fst ` set after" using el(1) by (auto simp: proper_def split)
    then have key: "u \<noteq> t" if "(u, nss) \<in> set before \<union> set after" for u nss using that by force
    then have quiet: "signals t now (map (\<lambda>(t, nss). if map_of (cl_states c) t \<noteq> None then Updated t nss else Started t nss) xs) = []"
      if "set xs \<subseteq> set before \<union> set after" for xs
    proof (intro signals_other)
      have "u \<noteq> t" if "(u, nss) \<in> set xs" for u nss using key \<open>set xs \<subseteq> set before \<union> set after\<close> that by blast
      then show "(\<forall>nss. e \<noteq> Updated t nss) \<and> e \<noteq> Stopped t"
        if "e \<in> set (map (\<lambda>(t, nss). if map_of (cl_states c) t \<noteq> None then Updated t nss else Started t nss) xs)" for e
        using that by (auto split: prod.splits if_splits)
    qed
    have "signals t now ?started = [Changed ?nss now]"
      using there quiet by (simp add: split signals_append)
    moreover have "t \<notin> set ?stopped" using False none by simp
    ultimately have "signals t now (new_log c c') = [Changed ?nss now]"
      by (simp add: log signals_append signals_stopped)
    then show ?thesis using False by (simp add: sync_watchers_def filter_empty_conv)
  qed
qed

section \<open>Concrete rounds\<close>

definition sample_env :: collector_env where
  "sample_env = \<lparr>ce_cluster = ''prod'', ce_adapters = builtins, ce_parse = (\<lambda>_. None), ce_float = (\<lambda>s. s), ce_sha1 = (\<lambda>s. ''id''),
     ce_stamp = (\<lambda>t. ''t''), ce_gvr = (\<lambda>g. g_resource g)\<rparr>"

definition sample_rounds :: "round list" where
  "sample_rounds = [\<lparr>rd_started = zero_time + 1, rd_pages = [Some \<lparr>pg_items = [], pg_version = ''7'', pg_continue = []\<rparr>],
     rd_watch = Some [Event Bookmark None (zero_time + 2), Tick, Done]\<rparr>]"

definition sample_marker :: ingest_batch where
  "sample_marker = reconcile_marker sample_env (shardName sample_env pods ''team-a'') (zero_time + 1)"

lemma sample_env_ok: "env_ok (\<lambda>s. s = ''id'') sample_env pods ''team-a''"
  by (simp add: env_ok_def sample_env_def pods_def)

lemma snapshot_before_marker_witness:
  "\<exists>sent rest. watch_round sample_env 2 pods ''team-a'' (hd sample_rounds) = sent @ rest \<and> hd rest = sample_marker"
  using snapshot_before_marker [of 2 sample_env pods "''team-a''" "hd sample_rounds"]
  by (auto simp: sample_rounds_def sample_marker_def)


definition sample_pods :: lease_shard where
  "sample_pods = \<lparr>ls_gvr = pods, ls_partition = partition_of ''team-a''\<rparr>"

lemma last_revocation_unmarked_witness:
  "snd (watchNamespaces sample_env pods (signals sample_pods zero_time
     (new_log sample_collector (snd (snd (reconcile ''icinga'' (sample_refresh False) sample_collector)))))
     (namespaces_of (cl_states sample_collector) sample_pods)) = []"
proof -
  let ?r = "reconcile ''icinga'' (sample_refresh False) sample_collector"
  have ok: "collector_ok sample_collector" using reconcile_spec(1) [OF idle_ok(2) sample_refresh_ok(1) sample_refreshed] by simp
  have r: "?r = (fst ?r, fst (snd ?r), snd (snd ?r))" by simp
  have env: "rf_discovery_error (sample_refresh False) = None" "rf_resync (sample_refresh False) = Inr []" by (simp_all add: sample_refresh_def)
  have none: "namespaces_of (cl_states (snd (snd ?r))) sample_pods = []"
  proof -
    have "ns \<notin> set (namespaces_of (cl_states (snd (snd ?r))) sample_pods)" for ns
      using reconcile_spec(2) [OF ok sample_refresh_ok(1) r sample_refresh_ok(2) env(1)] sample_permitted(2)
      by (simp add: sample_pods_def)
    then show ?thesis using last_in_set by blast
  qed
  have "\<not> permitted ''icinga'' (sample_refresh False) (ls_gvr sample_pods) ''team-a''"
    using sample_permitted(2) by (simp add: sample_pods_def)
  from last_revocation_unmarked [OF ok sample_refresh_ok(1) r sample_refresh_ok(2) env sample_watched [folded sample_pods_def] this] none
  show ?thesis by (simp add: sample_pods_def)
qed

end
