(* ===== verification/Mirror.thy ===== *)
theory Mirror
  imports Inbox Watch "HOL-Library.Multiset"
begin

text \<open>
  Collector and store together: after a complete snapshot of a shard and its reconcile marker have been applied, in
  whatever order the inbox holds the events of the snapshot, the inventory of the shard is what the
  Kubernetes API listed.
\<close>

section \<open>One observation\<close>

text \<open>Validation lets in no resource under another id than the stable id of its uid, so every row is filed under it.\<close>

definition home :: "db \<Rightarrow> bool" where
  "home d \<longleftrightarrow> (\<forall>i x. lookup_resource d i = Some x \<longrightarrow> i = StableID (r_cluster (rr_res x)) (r_uid (rr_res x)))"

text \<open>
  An observation of a resource that exists, made at or after \<open>t\<close>, of which the store knows nothing newer than
  \<open>t\<close>; its id is not that of a resource of another cluster.
\<close>

definition observation :: "string \<Rightarrow> time \<Rightarrow> db \<Rightarrow> resource \<Rightarrow> bool" where
  "observation cluster t d r \<longleftrightarrow> r_cluster r = cluster \<and> r_id r = StableID cluster (r_uid r) \<and> known_state (r_state r)
     \<and> distinct (map o_uid (r_owners r)) \<and> r_deleted r = None \<and> t \<le> round_us (r_observed r)
     \<and> (\<forall>x. lookup_resource d (r_id r) = Some x \<longrightarrow> r_cluster (rr_res x) = cluster \<and> r_observed (rr_res x) \<le> t)"

text \<open>The row that shows it; a warning event may have been recognised as resolved when it was stored.\<close>

definition shown_by :: "string \<Rightarrow> string \<Rightarrow> resource \<Rightarrow> res_row \<Rightarrow> bool" where
  "shown_by cluster shard r x \<longleftrightarrow> r_cluster (rr_res x) = cluster \<and> rr_shard x = shard \<and> r_deleted (rr_res x) = None
     \<and> r_observed (rr_res x) = round_us (r_observed r) \<and> r_uid (rr_res x) = r_uid r
     \<and> (\<not> warningEvent r \<longrightarrow> r_state (rr_res x) = r_state r \<and> r_reason (rr_res x) = r_reason r \<and> r_labels (rr_res x) = r_labels r)"

definition caught_up :: "string \<Rightarrow> string \<Rightarrow> time \<Rightarrow> db \<Rightarrow> bool" where
  "caught_up cluster shard t d \<longleftrightarrow> inventory_ok d \<and> home d \<and> \<not> before_watermark d (cluster, shard) t"

lemma write_resource_succeeds:
  assumes "home d" and "inventory_ok d" and "r_id r = StableID (r_cluster r) (r_uid r)"
    and "\<And>x. lookup_resource d (r_id r) = Some x \<Longrightarrow> r_cluster (rr_res x) = r_cluster r"
    and "known_state (r_state r)" and "distinct (map o_uid (r_owners r))"
  shows "\<exists>d'. write_resource now dbnow ''upsert'' shard r d = Inr d'"
proof -
  have own: "r_cluster (stored d None r) = r_cluster r"
    using assms(4) by (auto simp: stored_def split: option.splits)
  have "r_id (rr_res x) = r_id r" if "x \<in> snd ` set (t_resources d)" "r_cluster (rr_res x) = r_cluster r" "r_uid (rr_res x) = r_uid r" for x
  proof -
    from that(1) obtain k where k: "(k, x) \<in> set (t_resources d)" by auto
    then have "lookup_resource d k = Some x"
      using assms(2) by (simp add: lookup_resource_def inventory_ok_def rows_ok_def)
    with assms(1) have "k = StableID (r_cluster (rr_res x)) (r_uid (rr_res x))" unfolding home_def by blast
    with inventory_row_id [OF assms(2) k] assms(3) that(2,3) show ?thesis by simp
  qed
  then have "matching (uid_taken (stored d (deletion_time now ''upsert'' r) r)) d = []"
    using own by (auto simp: matching_def filter_empty_conv uid_taken_def deletion_time_def stored_def)
  then obtain d1 where d1: "put_resource dbnow shard (deletion_time now ''upsert'' r) r d = Inr d1"
    using assms(5) by (simp add: put_resource_def)
  have "\<exists>d2. insert_owners (r_id r) (new_owners ''upsert'' r) (clear_owners (r_id r) d1) = Inr d2"
    using assms(6) by (intro insert_owners_succeeds) (auto simp: clear_owners_def new_owners_def)
  with d1 show ?thesis
    unfolding write_resource_def Let_def deletion_time_def [symmetric] new_owners_def [symmetric] by auto
qed

lemma upsert_shows:
  assumes "caught_up cluster shard t d" and "observation cluster t d r"
  shows "\<exists>d' x. applyResource parse now dbnow ''upsert'' shard r d = Inr d' \<and> caught_up cluster shard t d' \<and> shown_by cluster shard r x
    \<and> (\<forall>i. lookup_resource d' i = (if i = r_id r then Some x else lookup_resource d i))"
proof -
  let ?r = "resolveEvent parse now d (r\<lparr>r_observed := round_us (r_observed r)\<rparr>)"
  note ok = assms(1) [unfolded caught_up_def] and r = assms(2) [unfolded observation_def]
  have known: "known_state (r_state ?r)"
    using r by (auto simp: resolveEvent_def Let_def mark_resolved_def known_state_def split: list.splits)
  from write_resource_succeeds [of d ?r now dbnow shard] ok r known
  obtain d' where d': "write_resource now dbnow ''upsert'' shard ?r d = Inr d'" by auto
  have "\<not> before_watermark d (r_cluster r, shard) (round_us (r_observed r))"
    using ok r by (auto simp: before_watermark_def split: option.splits)
  moreover have "\<not> r_observed ?r < r_observed (rr_res x)" if "lookup_resource d (r_id r) = Some x" for x
    using r that by fastforce
  ultimately have apply': "applyResource parse now dbnow ''upsert'' shard r d = Inr d'"
    using d' by (simp add: applyResource_def Let_def split: option.splits)
  let ?x = "new_row d dbnow shard (deletion_time now ''upsert'' ?r) ?r"
  note effect = write_resource_effect [OF d']
  have cluster: "r_cluster (rr_res ?x) = cluster"
    using r by (auto simp: new_row_def stored_def split: option.splits)
  have "warningEvent (r\<lparr>r_observed := u\<rparr>) = warningEvent r" for u
    by (simp add: warningEvent_def)
  then have "shown_by cluster shard r ?x"
    using cluster r by (simp add: shown_by_def new_row_def stored_def deletion_time_def resolveEvent_other)
  moreover have "caught_up cluster shard t d'"
  proof -
    have "home d'" using ok r cluster effect(1) by (auto simp: home_def new_row_def stored_def)
    moreover have "\<not> before_watermark d' (cluster, shard) t"
      using ok watermark_cong [OF effect(2)] by (simp add: before_watermark_def)
    ultimately show ?thesis using ok applyResource_ok [OF _ apply'] by (simp add: caught_up_def)
  qed
  ultimately show ?thesis using apply' effect(1) by auto
qed

section \<open>A snapshot\<close>

text \<open>What \<open>ApplyShard\<close> applies for an event, with the clocks of the worker and of the database.\<close>

type_synonym applied = "time \<times> time \<times> string \<times> string \<times> resource"

definition applied_resource :: "applied \<Rightarrow> resource" where "applied_resource u = (case u of (now, dbnow, action, shard, r) \<Rightarrow> r)"

lemma snapshot_applied:
  assumes "caught_up cluster shard t d" and "\<forall>(now, dbnow, action, s, r) \<in> set us. action = ''upsert'' \<and> s = shard \<and> observation cluster t d r"
    and "distinct (map (r_id \<circ> applied_resource) us)"
  shows "\<exists>d'. applyEvents parse us d = Inr d' \<and> caught_up cluster shard t d'
    \<and> (\<forall>i. i \<notin> set (map (r_id \<circ> applied_resource) us) \<longrightarrow> lookup_resource d' i = lookup_resource d i)
    \<and> (\<forall>r \<in> set (map applied_resource us). \<exists>x. lookup_resource d' (r_id r) = Some x \<and> shown_by cluster shard r x)"
  using assms
proof (induction us arbitrary: d)
  case (Cons u us)
  obtain now dbnow action s r where u: "u = (now, dbnow, action, s, r)" by (metis prod_cases5)
  with Cons.prems have r: "action = ''upsert''" "s = shard" "observation cluster t d r" by auto
  from upsert_shows [OF Cons.prems(1) r(3), of parse now dbnow] obtain d1 x where
    1: "applyResource parse now dbnow ''upsert'' shard r d = Inr d1" "caught_up cluster shard t d1" "shown_by cluster shard r x"
      "\<And>i. lookup_resource d1 i = (if i = r_id r then Some x else lookup_resource d i)" by blast
  have fresh: "r_id (applied_resource v) \<noteq> r_id r" if "v \<in> set us" for v
    using Cons.prems(3) that by (force simp: u applied_resource_def)
  have "\<forall>(now, dbnow, action, s, r') \<in> set us. action = ''upsert'' \<and> s = shard \<and> observation cluster t d1 r'"
    using Cons.prems(2) fresh 1(4) by (fastforce simp: observation_def applied_resource_def)
  from Cons.IH [OF 1(2) this] Cons.prems(3) obtain d2 where
    2: "applyEvents parse us d1 = Inr d2" "caught_up cluster shard t d2"
      "\<And>i. i \<notin> set (map (r_id \<circ> applied_resource) us) \<Longrightarrow> lookup_resource d2 i = lookup_resource d1 i"
      "\<forall>r \<in> set (map applied_resource us). \<exists>x. lookup_resource d2 (r_id r) = Some x \<and> shown_by cluster shard r x" by auto
  have "r_id r \<notin> set (map (r_id \<circ> applied_resource) us)" using fresh by force
  from 2(3) [OF this] 1(4) have "lookup_resource d2 (r_id r) = Some x" by simp
  moreover have "applyEvents parse (u # us) d = Inr d2" using 1(1) 2(1) by (simp add: u r)
  ultimately show ?case using 1(3,4) 2 by (auto simp: u applied_resource_def)
qed simp

lemma applyEvents_append: "applyEvents parse us d = Inr d1 \<Longrightarrow> applyEvents parse (us @ vs) d = applyEvents parse vs d1"
  by (induction parse us d rule: applyEvents.induct) (auto split: sum.splits)

text \<open>The marker removes what the snapshot did not show and was not observed since.\<close>

lemma snapshot_and_marker:
  assumes "caught_up cluster shard (round_us t) d" and "\<forall>(now, dbnow, action, s, r) \<in> set us. action = ''upsert'' \<and> s = shard \<and> observation cluster (round_us t) d r"
    and "distinct (map (r_id \<circ> applied_resource) us)" and "r_cluster m = cluster" "r_observed m = t"
  shows "\<exists>d'. applyEvents parse (us @ [(now, dbnow, ''reconcile'', shard, m)]) d = Inr d'
    \<and> live d' cluster shard = set (map (r_id \<circ> applied_resource) us)
        \<union> {i \<in> live d cluster shard. \<exists>u. observed_at d i = Some u \<and> round_us t \<le> u}
    \<and> (\<forall>r \<in> set (map applied_resource us). \<exists>x. lookup_resource d' (r_id r) = Some x \<and> shown_by cluster shard r x)"
proof -
  from snapshot_applied [OF assms(1-3), of parse] obtain d1 where
    1: "applyEvents parse us d = Inr d1" "caught_up cluster shard (round_us t) d1"
      "\<And>i. i \<notin> set (map (r_id \<circ> applied_resource) us) \<Longrightarrow> lookup_resource d1 i = lookup_resource d i"
      "\<And>r. r \<in> applied_resource ` set us \<Longrightarrow> \<exists>x. lookup_resource d1 (r_id r) = Some x \<and> shown_by cluster shard r x" by auto
  let ?m = "m\<lparr>r_observed := round_us t\<rparr>"
  let ?d = "reconcile_shard dbnow shard ?m d1"
  let ?ids = "set (map (r_id \<circ> applied_resource) us)"
  have run: "applyEvents parse (us @ [(now, dbnow, ''reconcile'', shard, m)]) d = Inr ?d"
    using 1(2) assms(4,5) by (simp add: applyEvents_append [OF 1(1)] applyResource_def caught_up_def)
  have recent: "round_us t \<le> round_us (r_observed r)" if "r \<in> applied_resource ` set us" for r
    using assms(2) that by (auto simp: observation_def applied_resource_def split: prod.splits)
  have kept: "\<not> missed cluster shard (round_us t) x" if "shown_by cluster shard r x" "r \<in> applied_resource ` set us" for r x
    using that(1) recent [OF that(2)] by (auto simp: shown_by_def missed_def)
  have "i \<in> live ?d cluster shard \<longleftrightarrow> i \<in> ?ids \<or> (i \<in> live d cluster shard \<and> (\<exists>u. observed_at d i = Some u \<and> round_us t \<le> u))" for i
  proof (cases "i \<in> ?ids")
    case True
    then obtain r where r: "r \<in> applied_resource ` set us" "i = r_id r" by auto
    from 1(4) [OF r(1)] obtain x where x: "lookup_resource d1 i = Some x" "shown_by cluster shard r x" unfolding r(2) by blast
    with kept [OF x(2) r(1)] have "i \<in> live ?d cluster shard" by (auto simp: live_reconcile assms(4) shown_by_def)
    with True show ?thesis by blast
  next
    case False
    with 1(3) have "lookup_resource d1 i = lookup_resource d i" by blast
    with False show ?thesis unfolding live_reconcile by (auto simp: assms(4) live_def observed_at_def missed_def)
  qed
  moreover have "\<exists>x. lookup_resource ?d (r_id r) = Some x \<and> shown_by cluster shard r x" if r: "r \<in> applied_resource ` set us" for r
    using 1(4) [OF r] kept [OF _ r] by (auto simp: reconcile_shard_effect assms(4))
  ultimately show ?thesis using run by auto
qed

section \<open>From the list to the inventory\<close>

text \<open>The objects the API listed, with the time each was projected, and the id its row has.\<close>

definition listed_objects :: "round \<Rightarrow> (json \<times> time) list" where
  "listed_objects r = concat (map pg_items (fst (listing (rd_pages r))))"

definition object_id :: "collector_env \<Rightarrow> json \<times> time \<Rightarrow> string" where
  "object_id c p = StableID (ce_cluster c) (text_at (fst p) ''metadata.uid'')"

definition shown_object :: "collector_env \<Rightarrow> gvr \<Rightarrow> string \<Rightarrow> db \<Rightarrow> json \<times> time \<Rightarrow> bool" where
  "shown_object c g shard d p \<longleftrightarrow> (\<exists>x. lookup_resource d (object_id c p) = Some x
     \<and> shown_by (ce_cluster c) shard (e_resource (event c (snd p) ''upsert'' g (fst p))) x)"

text \<open>
  What the API server and the clock guarantee of a listed object, and what the store may know of it:
  nothing observed after the list began.
\<close>

definition list_current :: "collector_env \<Rightarrow> gvr \<Rightarrow> time \<Rightarrow> db \<Rightarrow> json \<times> time \<Rightarrow> bool" where
  "list_current c g started d p \<longleftrightarrow> started \<le> snd p \<and> snd p \<noteq> zero_time
     \<and> distinct (map o_uid (map owner_of (take 64 (owner_refs (fst p)))))
     \<and> (\<forall>x. lookup_resource d (object_id c p) = Some x \<longrightarrow> r_cluster (rr_res x) = ce_cluster c \<and> r_observed (rr_res x) \<le> round_us started)"

text \<open>An inbox holds a batch when it has a row for each of its events, in any order.\<close>

definition holds_events :: "string \<Rightarrow> ingest_event list \<Rightarrow> ingest_row list \<Rightarrow> bool" where
  "holds_events shard es xs \<longleftrightarrow> (\<forall>x \<in> set xs. ie_shard x = shard)
     \<and> mset (map (\<lambda>x. (ie_action x, ie_payload x)) xs) = mset (map (\<lambda>e. (e_action e, Inr (e_resource e))) es)"

lemma event_observation:
  assumes "list_current c g started d p"
  shows "observation (ce_cluster c) (round_us started) d (e_resource (event c (snd p) ''upsert'' g (fst p)))"
    and "Normalize now (e_resource (event c (snd p) ''upsert'' g (fst p))) = e_resource (event c (snd p) ''upsert'' g (fst p))"
    and "r_id (e_resource (event c (snd p) ''upsert'' g (fst p))) = object_id c p"
proof -
  define r where "r = e_resource (event c (snd p) ''upsert'' g (fst p))"
  note f = normalize_fields [of "ce_parse c" "ce_float c" "snd p" "ce_cluster c" g "fst p" "ce_adapters c" r]
  have r: "normalizeWithRegistry (ce_parse c) (ce_float c) (snd p) (ce_cluster c) g (fst p) (ce_adapters c) = r"
    by (simp add: r_def event_def)
  note f = f [OF r]
  from assms have seen: "r_observed r = snd p" "r_observed r \<noteq> zero_time" using f(17) by (auto simp: list_current_def)
  show "r_id r = object_id c p" by (simp add: f object_id_def)
  then show "observation (ce_cluster c) (round_us started) d r"
    using assms seen(1) round_us_mono [of started "snd p"]
    by (simp add: observation_def list_current_def f(1,2,12,16,18) object_id_def)
  have "r_state r \<noteq> []" "r_id r \<noteq> []" using f(16) by (auto simp: known_state_def state_defs f(3))
  with seen(2) show "Normalize now r = r" by (simp add: Normalize_def)
qed

lemma snapshot_events:
  "map (\<lambda>e. (e_action e, e_resource e)) (concat (map (page_events c g started) pages))
     = map (\<lambda>p. (''upsert'', e_resource (event c (snd p) ''upsert'' g (fst p)))) (concat (map pg_items pages))"
  by (induction pages) (simp_all add: page_events_def snapshotEvent_def Let_def event_def split_beta)

lemma holds_upserts:
  assumes "holds_events shard es xs" and "map (\<lambda>e. (e_action e, e_resource e)) es = map (\<lambda>p. (''upsert'', f p)) ps"
    and "\<And>p now. p \<in> set ps \<Longrightarrow> Normalize now (f p) = f p"
  shows "\<forall>(now, dbnow, action, s, r) \<in> set (batch_events wall clk i xs). action = ''upsert'' \<and> s = shard \<and> r \<in> f ` set ps"
    and "mset (map applied_resource (batch_events wall clk i xs)) = mset (map f ps)"
proof -
  have es: "map (\<lambda>e. (e_action e, Inr (e_resource e))) es = map (\<lambda>p. (''upsert'', Inr (f p))) ps"
    using arg_cong [OF assms(2), of "map (\<lambda>(a, r). (a, Inr r))"] by (simp add: comp_def)
  have rows: "mset (map (\<lambda>x. (ie_action x, ie_payload x)) xs) = mset (map (\<lambda>p. (''upsert'', Inr (f p))) ps)"
    using assms(1) unfolding holds_events_def es by blast
  have row: "ie_action x = ''upsert'' \<and> ie_payload x \<in> Inr ` f ` set ps" if "x \<in> set xs" for x
  proof -
    have "(ie_action x, ie_payload x) \<in> (\<lambda>p. (''upsert'', Inr (f p))) ` set ps"
      using imageI [OF that, of "\<lambda>x. (ie_action x, ie_payload x)"] mset_eq_setD [OF rows, unfolded list.set_map] by simp
    then show ?thesis by blast
  qed
  have norm: "Normalize now (projr (ie_payload x)) = projr (ie_payload x)" if "x \<in> set xs" for x now
    using row [OF that] assms(3) by auto
  have "snd p \<in> set xs" if "p \<in> set (enumerate i xs)" for p
    using that by (metis in_set_zip enumerate_eq_zip nth_mem)
  with row norm assms(1)
  show "\<forall>(now, dbnow, action, s, r) \<in> set (batch_events wall clk i xs). action = ''upsert'' \<and> s = shard \<and> r \<in> f ` set ps"
    by (fastforce simp: batch_events_def holds_events_def)
  have "map applied_resource (batch_events wall clk i xs) = map (\<lambda>x. projr (ie_payload x)) xs"
  proof (rule nth_equalityI)
    fix j
    assume "j < length (map applied_resource (batch_events wall clk i xs))"
    then show "map applied_resource (batch_events wall clk i xs) ! j = map (\<lambda>x. projr (ie_payload x)) xs ! j"
      using norm by (simp add: batch_events_def applied_resource_def nth_enumerate_eq)
  qed (simp add: batch_events_def)
  moreover have "mset (map (\<lambda>x. projr (ie_payload x)) xs) = mset (map f ps)"
    using arg_cong [OF rows, of "image_mset (\<lambda>p. projr (snd p))"] by (simp add: image_mset.compositionality comp_def)
  ultimately show "mset (map applied_resource (batch_events wall clk i xs)) = mset (map f ps)" by simp
qed

lemma batch_events_append:
  "batch_events wall clk i (xs @ ys) = batch_events wall clk i xs @ batch_events wall clk (i + length xs) ys"
  by (simp add: batch_events_def enumerate_append_eq)

text \<open>C3: Collector and store together: a round of \<open>watch\<close> whose list is complete sends the list and then its
  marker, and once a worker has applied these batches, in whatever order the inbox holds the events
  of the list, and then the marker, every object the API listed has a
  live row that shows its projection, and every other resource of the shard is tombstoned unless it
  was observed after the list began. No event of the snapshot fails.\<close>

theorem snapshot_mirrored:
  assumes "1 \<le> limit" and "list_pages c limit g ns (rd_started r) (rd_pages r) = (sent, Some rv)"
    and "caught_up (ce_cluster c) (shardName c g ns) (round_us (rd_started r)) d" and "rd_started r \<noteq> zero_time"
    and "\<forall>p \<in> set (listed_objects r). list_current c g (rd_started r) d p" and "distinct (map (object_id c) (listed_objects r))"
    and "holds_events (shardName c g ns) (concat (map b_events sent)) xs"
    and "holds_events (shardName c g ns) (b_events (reconcile_marker c (shardName c g ns) (rd_started r))) [m]"
  shows "(\<exists>rest. watch_round c limit g ns r = sent @ reconcile_marker c (shardName c g ns) (rd_started r) # rest)
    \<and> (\<exists>d'. applyEvents parse (batch_events wall clk i (xs @ [m])) d = Inr d'
    \<and> live d' (ce_cluster c) (shardName c g ns) = object_id c ` set (listed_objects r)
        \<union> {j \<in> live d (ce_cluster c) (shardName c g ns). \<exists>u. observed_at d j = Some u \<and> round_us (rd_started r) \<le> u}
    \<and> (\<forall>p \<in> set (listed_objects r). shown_object c g (shardName c g ns) d' p))"
proof -
  let ?f = "\<lambda>p. e_resource (event c (snd p) ''upsert'' g (fst p))"
  let ?s = "shardName c g ns" let ?us = "batch_events wall clk i xs"
  let ?m = "marker_resource c ?s (rd_started r)"
  note good = event_observation [OF assms(5) [rule_format]]
  have "map (\<lambda>e. (e_action e, e_resource e)) (concat (map b_events sent)) = map (\<lambda>p. (''upsert'', ?f p)) (listed_objects r)"
    using list_pages_spec [OF assms(1,2)] by (simp add: snapshot_events listed_objects_def)
  note up = holds_upserts [OF assms(7) this good(2)]
  have set_us: "applied_resource ` set ?us = ?f ` set (listed_objects r)"
    using mset_eq_setD [OF up(2) [of wall clk i]] by simp
  have ids: "mset (map (r_id \<circ> applied_resource) ?us) = mset (map (object_id c) (listed_objects r))"
  proof -
    have "mset (map (r_id \<circ> applied_resource) ?us) = mset (map (\<lambda>p. r_id (?f p)) (listed_objects r))"
      using arg_cong [OF up(2) [of wall clk i], of "image_mset r_id"] by (simp add: image_mset.compositionality comp_def)
    also have "map (\<lambda>p. r_id (?f p)) (listed_objects r) = map (object_id c) (listed_objects r)" using good(3) by simp
    finally show ?thesis .
  qed
  have obs: "\<forall>(now, dbnow, action, s, r') \<in> set ?us. action = ''upsert'' \<and> s = ?s
      \<and> observation (ce_cluster c) (round_us (rd_started r)) d r'"
    using up(1) [of wall clk i] good(1) by fastforce
  have m: "ie_shard m = ?s" "ie_action m = ''reconcile''" "ie_payload m = Inr ?m"
    using assms(8) by (simp_all add: holds_events_def reconcile_marker_def)
  have "Normalize (wall (i + length xs)) ?m = ?m"
    using assms(4) by (simp add: Normalize_def marker_resource_def Let_def state_defs)
  then have all: "batch_events wall clk i (xs @ [m])
      = ?us @ [(wall (i + length xs), clk (i + length xs), ''reconcile'', ?s, ?m)]"
    using m by (simp add: batch_events_append) (simp add: batch_events_def)
  have "r_cluster ?m = ce_cluster c" "r_observed ?m = rd_started r" by (simp_all add: marker_resource_def Let_def)
  from snapshot_and_marker [OF assms(3) obs _ this, of parse "wall (i + length xs)" "clk (i + length xs)"]
    mset_eq_imp_distinct_iff [OF ids] mset_eq_setD [OF ids] assms(6) set_us good(3)
  have "\<exists>d'. applyEvents parse (batch_events wall clk i (xs @ [m])) d = Inr d'
    \<and> live d' (ce_cluster c) ?s = object_id c ` set (listed_objects r)
        \<union> {j \<in> live d (ce_cluster c) ?s. \<exists>u. observed_at d j = Some u \<and> round_us (rd_started r) \<le> u}
    \<and> (\<forall>p \<in> set (listed_objects r). shown_object c g ?s d' p)"
    unfolding all shown_object_def by auto
  moreover have "\<exists>rest. watch_round c limit g ns r = sent @ reconcile_marker c ?s (rd_started r) # rest"
    using assms(2) by (simp add: watch_round_def)
  ultimately show ?thesis by blast
qed

section \<open>A concrete snapshot\<close>

definition listed_pod :: json where
  "listed_pod = JObj [(''kind'', JStr ''Pod''), (''metadata'', JObj [(''uid'', JStr ''u1''), (''name'', JStr ''web'')])]"

definition pod_round :: round where
  "pod_round = \<lparr>rd_started = zero_time + 1,
     rd_pages = [Some \<lparr>pg_items = [(listed_pod, zero_time + 2)], pg_version = ''7'', pg_continue = []\<rparr>], rd_watch = None\<rparr>"

definition inbox_row :: "string \<Rightarrow> ingest_event \<Rightarrow> ingest_row" where
  "inbox_row shard e = new_event (e_id e) (0, 0) ''prod'' shard e"

definition pod_shard :: string where "pod_shard = shardName sample_env pods ''team-a''"

lemma snapshot_mirrored_witness:
  "\<exists>d'. applyEvents (\<lambda>_. None) (batch_events (\<lambda>_. 0) (\<lambda>_. 0) 2
      ([inbox_row pod_shard (snapshotEvent sample_env (zero_time + 2) pods listed_pod (zero_time + 1))]
       @ [inbox_row pod_shard (hd (b_events (reconcile_marker sample_env pod_shard (zero_time + 1))))])) empty_db = Inr d'
    \<and> live d' ''prod'' pod_shard = {StableID ''prod'' ''u1''}"
proof -
  have sent: "list_pages sample_env 2 pods ''team-a'' (rd_started pod_round) (rd_pages pod_round)
      = (flush sample_env pods ''team-a'' [snapshotEvent sample_env (zero_time + 2) pods listed_pod (zero_time + 1)], Some ''7'')"
    by (simp add: pod_round_def page_events_def)
  have pod: "text_at listed_pod ''metadata.uid'' = ''u1''" "owner_refs listed_pod = []"
    by code_simp+
  have none: "lookup_resource empty_db j = None" "watermark empty_db k = None" for j k
    by (simp_all add: watermark_def lookup_head_def lookup_resource_def empty_db_def)
  then have empty: "caught_up cluster shard t empty_db" "live empty_db cluster shard = {}" for cluster shard t
    by (simp_all add: caught_up_def home_def before_watermark_def live_def)
  have listed: "listed_objects pod_round = [(listed_pod, zero_time + 2)]" by (simp add: listed_objects_def pod_round_def)
  have holds: "holds_events pod_shard [e] [inbox_row pod_shard e]" for e
    by (simp add: holds_events_def inbox_row_def new_event_def)
  have marker: "b_events (reconcile_marker sample_env pod_shard t) = [hd (b_events (reconcile_marker sample_env pod_shard t))]" for t
    by (simp add: reconcile_marker_def)
  have flushed: "concat (map b_events (flush sample_env pods ''team-a'' [e])) = [e]" for e by (simp add: flush_def)
  have started: "rd_started pod_round = zero_time + 1" by (simp add: pod_round_def)
  have batch: "list_current sample_env pods (rd_started pod_round) empty_db (listed_pod, zero_time + 2)"
    by (simp add: list_current_def started none pod)
  have xs: "holds_events (shardName sample_env pods ''team-a'')
      (concat (map b_events (flush sample_env pods ''team-a'' [snapshotEvent sample_env (zero_time + 2) pods listed_pod (zero_time + 1)])))
      [inbox_row pod_shard (snapshotEvent sample_env (zero_time + 2) pods listed_pod (zero_time + 1))]"
    unfolding flushed pod_shard_def [symmetric] by (rule holds)
  have m: "holds_events (shardName sample_env pods ''team-a'')
      (b_events (reconcile_marker sample_env (shardName sample_env pods ''team-a'') (rd_started pod_round)))
      [inbox_row pod_shard (hd (b_events (reconcile_marker sample_env pod_shard (zero_time + 1))))]"
    unfolding pod_shard_def [symmetric] started by (subst marker) (rule holds)
  have "ce_cluster sample_env = ''prod''" by (simp add: sample_env_def)
  then show ?thesis
    using snapshot_mirrored [of 2 sample_env pods "''team-a''" pod_round, OF _ sent empty(1) _ _ _ xs m,
        where parse = "\<lambda>_. None" and wall = "\<lambda>_. 0" and clk = "\<lambda>_. 0" and i = 2] batch
    by (auto simp: listed started none empty object_id_def pod pod_shard_def [symmetric])
qed

end
