(* ===== verification/Listing.thy ===== *)
theory Listing
  imports Records "HOL-Library.Product_Lexorder"
begin

text \<open>
  The read side of \<open>internal/v2/store/store.go\<close>: the filter of a resource list, keyset pagination
  (\<open>List\<close>), the inventories of types and namespaces, selectors, lookups by id and the children of a
  resource. The snapshot stamp of an answer is not modelled. A cursor is modelled after its base64
  and JSON decoding, which \<open>Cursors\<close> adds: \<open>Identifier\<close> holds the canonical text of a cursor that parses as a UUID.
\<close>

section \<open>Filters\<close>

datatype cursor = Undecodable | Number int | Identifier string | NamePair string int

record list_filter =
  lf_cluster :: string
  lf_group :: string
  lf_version :: string
  lf_kind :: string
  lf_namespace :: string
  lf_name :: string
  lf_prefix :: string
  lf_pattern :: string
  lf_event_for :: string
  lf_labels :: "(string, string) gomap"
  lf_states :: "string list"
  lf_owner :: string
  lf_limit :: int
  lf_cursor :: "cursor option"
  lf_by_id :: bool
  lf_hide :: bool

text \<open>\<open>LIKE ... ESCAPE '\'\<close> on a string of one-byte characters.\<close>

fun like :: "string \<Rightarrow> string \<Rightarrow> bool" where
  "like [] s \<longleftrightarrow> s = []"
| "like (c # p) s \<longleftrightarrow>
     (if c = backslash then (case p of [] \<Rightarrow> False | d # q \<Rightarrow> (case s of [] \<Rightarrow> False | x # t \<Rightarrow> x = d \<and> like q t))
      else if c = CHR ''%'' then like p s \<or> (case s of [] \<Rightarrow> False | x # t \<Rightarrow> like (c # p) t)
      else case s of [] \<Rightarrow> False | x # t \<Rightarrow> (c = CHR ''_'' \<or> x = c) \<and> like p t)"

declare like.simps(2) [simp del]

text \<open>The replacers of the two name filters; only the one of a pattern turns \<open>*\<close> into \<open>%\<close>.\<close>

definition escape_char :: "bool \<Rightarrow> char \<Rightarrow> string" where
  "escape_char star c = (if c = backslash \<or> c = CHR ''%'' \<or> c = CHR ''_'' then [backslash, c]
     else if star \<and> c = CHR ''*'' then ''%'' else [c])"

definition escape_like :: "bool \<Rightarrow> string \<Rightarrow> string" where
  "escape_like star s = concat (map (escape_char star) (to_lower s))"

text \<open>\<open>->>\<close> of a JSON object: the text of a member, SQL null for a missing or null one.\<close>

definition member_text :: "(string, json) gomap \<Rightarrow> string \<Rightarrow> string option" where
  "member_text m k = (case map_of m k of None \<Rightarrow> None | Some JNull \<Rightarrow> None | Some (JStr s) \<Rightarrow> Some s | Some v \<Rightarrow> Some (json_encode v))"

definition coalesce :: "'a option \<Rightarrow> 'a \<Rightarrow> 'a" where
  "coalesce v d = (case v of None \<Rightarrow> d | Some w \<Rightarrow> w)"

definition zero_replica_set :: "resource \<Rightarrow> bool" where
  "zero_replica_set r \<longleftrightarrow> r_group r = ''apps'' \<and> r_kind r = ''ReplicaSet''
     \<and> coalesce (member_text (r_summary r) ''spec.replicas'') [] = ''0''
     \<and> coalesce (member_text (r_summary r) ''status.readyReplicas'') ''0'' = ''0''
     \<and> coalesce (member_text (r_summary r) ''status.availableReplicas'') ''0'' = ''0''"

definition event_for :: "string \<Rightarrow> resource \<Rightarrow> bool" where
  "event_for uid r \<longleftrightarrow> r_kind r = ''Event''
     \<and> (case member_text (r_summary r) ''regarding.uid'' of None \<Rightarrow> member_text (r_summary r) ''involvedObject.uid'' | v \<Rightarrow> v) = Some uid"

text \<open>\<open>strings.Split\<close> and, but for the empty text, \<open>string_to_array\<close>.\<close>

fun split_char :: "char \<Rightarrow> string \<Rightarrow> string list" where
  "split_char d [] = [[]]"
| "split_char d (c # s) = (if c = d then [] # split_char d s
     else case split_char d s of [] \<Rightarrow> [[c]] | p # ps \<Rightarrow> (c # p) # ps)"

definition string_to_array :: "string \<Rightarrow> string list" where
  "string_to_array s = (if s = [] then [] else split_char (CHR '','') s)"

definition chosen :: "string \<Rightarrow> string \<Rightarrow> bool" where
  "chosen wanted value \<longleftrightarrow> wanted = [] \<or> value = wanted"

definition where_clause :: "list_filter \<Rightarrow> db \<Rightarrow> res_row \<Rightarrow> bool" where
  "where_clause f d x =
     (let r = rr_res x in
      r_deleted r = None
      \<and> (lf_hide f \<longrightarrow> \<not> zero_replica_set r)
      \<and> chosen (lf_cluster f) (r_cluster r) \<and> chosen (lf_group f) (r_group r) \<and> chosen (lf_version f) (r_version r)
      \<and> chosen (lf_kind f) (r_kind r) \<and> chosen (lf_namespace f) (r_namespace r) \<and> chosen (lf_name f) (r_name r)
      \<and> (lf_pattern f \<noteq> [] \<longrightarrow> like (escape_like True (lf_pattern f)) (to_lower (r_name r)))
      \<and> (lf_event_for f \<noteq> [] \<longrightarrow> event_for (lf_event_for f) r)
      \<and> (lf_prefix f \<noteq> [] \<longrightarrow> like (escape_like False (lf_prefix f) @ ''%'') (to_lower (r_name r)))
      \<and> list_all (\<lambda>(k, v). map_of (r_labels r) k = Some v) (lf_labels f)
      \<and> (lf_states f \<noteq> [] \<longrightarrow> r_state r \<in> set (string_to_array (join '','' (lf_states f))))
      \<and> (lf_owner f \<noteq> [] \<longrightarrow> list_ex (\<lambda>(i, w). i = r_id r \<and> o_uid w = lf_owner f) (t_owners d)))"

definition buildResourceFilter :: "list_filter \<Rightarrow> bool \<Rightarrow> db \<Rightarrow> store_error + (res_row \<Rightarrow> bool)" where
  "buildResourceFilter f includeCursor d =
     (case (if includeCursor then lf_cursor f else None) of
        None \<Rightarrow> Inr (where_clause f d)
      | Some c \<Rightarrow>
          if lf_by_id f then (case c of
              Identifier i \<Rightarrow> Inr (\<lambda>x. where_clause f d x \<and> r_id (rr_res x) > i) | _ \<Rightarrow> Inl InvalidCursor)
          else (case c of
              Number n \<Rightarrow> if n < 1 then Inl InvalidCursor else Inr (\<lambda>x. where_clause f d x \<and> rr_sort x > n)
            | _ \<Rightarrow> Inl InvalidCursor))"

section \<open>Lists\<close>

definition decodeNameCursor :: "cursor \<Rightarrow> (string \<times> int) option" where
  "decodeNameCursor c = (case c of NamePair n i \<Rightarrow> if i < 1 \<or> length n > 512 then None else Some (n, i) | _ \<Rightarrow> None)"

text \<open>\<open>scanResource\<close> reads the columns of the row, so owners and freshness stay empty.\<close>

definition scanResource :: "res_row \<Rightarrow> resource" where
  "scanResource x = (rr_res x)\<lparr>r_owners := [], r_freshness := []\<rparr>"

definition table :: "db \<Rightarrow> res_row list" where
  "table d = map snd (t_resources d)"

definition id_key :: "res_row \<Rightarrow> string" where "id_key x = r_id (rr_res x)"
definition name_key :: "res_row \<Rightarrow> string \<times> int" where "name_key x = (to_lower (r_name (rr_res x)), rr_sort x)"

record page =
  pg_resources :: "resource list"
  pg_next :: "cursor option"
  pg_freshness :: string

definition list_limit :: "list_filter \<Rightarrow> nat" where
  "list_limit f = nat (if lf_limit f < 1 then 100 else if lf_limit f > 1000 then 1000 else lf_limit f)"

definition list_rows :: "list_filter \<Rightarrow> db \<Rightarrow> store_error + res_row list" where
  "list_rows f d =
     (case buildResourceFilter f (lf_prefix f = []) d of Inl e \<Rightarrow> Inl e
      | Inr p \<Rightarrow>
          if lf_by_id f then Inr (sort_key id_key (filter p (table d)))
          else if lf_prefix f \<noteq> [] then
            (case lf_cursor f of None \<Rightarrow> Inr (sort_key name_key (filter p (table d)))
             | Some c \<Rightarrow> (case decodeNameCursor c of None \<Rightarrow> Inl InvalidCursor
                 | Some k \<Rightarrow> Inr (sort_key name_key (filter (\<lambda>x. p x \<and> name_key x > k) (table d)))))
          else Inr (sort_key rr_sort (filter p (table d))))"

definition row_cursor :: "list_filter \<Rightarrow> res_row \<Rightarrow> cursor" where
  "row_cursor f x = (if lf_by_id f then Identifier (id_key x)
     else if lf_prefix f \<noteq> [] then NamePair (to_lower (r_name (rr_res x))) (rr_sort x) else Number (rr_sort x))"

definition List_page :: "list_filter \<Rightarrow> db \<Rightarrow> store_error + page" where
  "List_page f d =
     (case list_rows f d of Inl e \<Rightarrow> Inl e
      | Inr found \<Rightarrow>
          let rows = take (list_limit f + 1) found in
          if length rows > list_limit f
          then Inr \<lparr>pg_resources = map scanResource (take (list_limit f) rows),
                    pg_next = Some (row_cursor f (rows ! (list_limit f - 1))), pg_freshness = ''live''\<rparr>
          else Inr \<lparr>pg_resources = map scanResource rows, pg_next = None, pg_freshness = ''live''\<rparr>)"

text \<open>A client that follows the cursor of each answer; the databases it meets may differ.\<close>

fun follow_pages :: "nat \<Rightarrow> list_filter \<Rightarrow> (nat \<Rightarrow> db) \<Rightarrow> resource list option" where
  "follow_pages 0 f ds = None"
| "follow_pages (Suc n) f ds =
     (case List_page f (ds 0) of Inl e \<Rightarrow> None
      | Inr p \<Rightarrow> (case pg_next p of None \<Rightarrow> Some (pg_resources p)
          | Some c \<Rightarrow> map_option (\<lambda>rest. pg_resources p @ rest) (follow_pages n (f\<lparr>lf_cursor := Some c\<rparr>) (ds \<circ> Suc))))"

section \<open>Inventories, selectors and lookups\<close>

definition ResourceNamespaces :: "list_filter \<Rightarrow> db \<Rightarrow> store_error + string list" where
  "ResourceNamespaces f d =
     (if lf_cluster f = [] then Inl ClusterRequired
      else case buildResourceFilter f False d of Inl e \<Rightarrow> Inl e
      | Inr p \<Rightarrow>
          let nss = take 4097 (sort (remdups (map (r_namespace \<circ> rr_res)
                (filter (\<lambda>x. p x \<and> r_namespace (rr_res x) \<noteq> []) (table d))))) in
          if length nss > 4096 then Inl InventoryTooLarge else Inr nss)"

record resource_type =
  rt_group :: string
  rt_version :: string
  rt_kind :: string
  rt_count :: nat

definition type_of_row :: "res_row \<Rightarrow> string \<times> string \<times> string" where
  "type_of_row x = (r_group (rr_res x), r_version (rr_res x), r_kind (rr_res x))"

definition ResourceTypes :: "string \<Rightarrow> list_filter \<Rightarrow> db \<Rightarrow> store_error + resource_type list" where
  "ResourceTypes cluster f d =
     (if cluster = [] then Inl ClusterRequired
      else case buildResourceFilter (f\<lparr>lf_cluster := cluster\<rparr>) False d of Inl e \<Rightarrow> Inl e
      | Inr p \<Rightarrow>
          let rows = filter p (table d);
              types = map (\<lambda>(g, v, k). \<lparr>rt_group = g, rt_version = v, rt_kind = k,
                  rt_count = length (filter (\<lambda>x. type_of_row x = (g, v, k)) rows)\<rparr>) (remdups (map type_of_row rows));
              found = take 4097 (sort_key (\<lambda>t. (to_lower (rt_kind t), rt_group t, rt_version t)) types)
          in if length found > 4096 then Inl InventoryTooLarge else Inr found)"

record resolution =
  rs_items :: "resource list"
  rs_matched :: nat
  rs_counts :: "(string, nat) gomap"

definition count_state :: "string \<Rightarrow> res_row list \<Rightarrow> nat" where
  "count_state st rows = length (filter (\<lambda>x. r_state (rr_res x) = st) rows)"

text \<open>The window counts come with every row, so an empty answer carries none.\<close>

definition ResolveSelector :: "list_filter \<Rightarrow> db \<Rightarrow> store_error + resolution" where
  "ResolveSelector f d =
     (case buildResourceFilter f False d of Inl e \<Rightarrow> Inl e
      | Inr p \<Rightarrow>
          let rows = filter p (table d) in
          Inr \<lparr>rs_items = map scanResource (take 1000 (sort_key id_key rows)), rs_matched = length rows,
               rs_counts = (if rows = [] then []
                 else map (\<lambda>st. (st, count_state st rows)) [StateOK, StateWarning, StateCritical, StateUnknown])\<rparr>)"

text \<open>\<open>cast\<close> is PostgreSQL's reading of a uuid: the canonical text, or an error.\<close>

definition GetIDs :: "(string \<Rightarrow> string option) \<Rightarrow> string list \<Rightarrow> db \<Rightarrow> store_error + resource list" where
  "GetIDs cast ids d =
     (if ids = [] then Inr []
      else if length ids > 1000 then Inl TooManyIds
      else case find (\<lambda>i. cast i = None) ids of Some i \<Rightarrow> Inl (BadCast i)
      | None \<Rightarrow> Inr (map scanResource (filter (\<lambda>x. r_deleted (rr_res x) = None \<and> Some (id_key x) \<in> cast ` set ids) (table d))))"

definition add_child :: "(string, resource list) gomap \<Rightarrow> string \<Rightarrow> resource \<Rightarrow> (string, resource list) gomap" where
  "add_child m k r = AList.update k ((case map_of m k of None \<Rightarrow> [] | Some rs \<Rightarrow> rs) @ [r]) m"

definition ChildrenMany :: "(string \<Rightarrow> string option) \<Rightarrow> string list \<Rightarrow> db \<Rightarrow> store_error + (string, resource list) gomap" where
  "ChildrenMany cast ids d =
     (case GetIDs cast ids d of Inl e \<Rightarrow> Inl e
      | Inr parents \<Rightarrow>
          let result = foldl (\<lambda>m p. AList.update (r_id p) [] m) [] parents;
              byUID = foldl (\<lambda>m p. AList.update (r_uid p) (r_id p) m) [] parents
          in Inr (foldl (\<lambda>m (i, w). case map_of byUID (o_uid w) of None \<Rightarrow> m
               | Some parent \<Rightarrow> (case lookup_resource d i of None \<Rightarrow> m
                   | Some x \<Rightarrow> if r_deleted (rr_res x) \<noteq> None then m else add_child m parent (scanResource x)))
             result (t_owners d)))"

section \<open>Keyset pagination\<close>

text \<open>
  What following the pages of a list relies on: the rows are ordered by a key that tells any two of
  them apart. A page holds the first rows past the key of the cursor, and names the key of its last
  row when more follow.
\<close>

locale keyset =
  fixes key :: "'r \<Rightarrow> 'k::linorder" and listable :: "'r list \<Rightarrow> bool"
  assumes distinct_keys: "listable rows \<Longrightarrow> distinct (map key rows)"
begin

definition past :: "'k option \<Rightarrow> 'r list \<Rightarrow> 'r list" where
  "past c rows = filter (\<lambda>x. case c of None \<Rightarrow> True | Some k \<Rightarrow> k < key x) rows"

definition page_after :: "nat \<Rightarrow> 'k option \<Rightarrow> 'r list \<Rightarrow> 'r list \<times> 'k option" where
  "page_after lim c rows =
     (let found = take (lim + 1) (sort_key key (past c rows))
      in if length found > lim then (take lim found, Some (key (found ! (lim - 1)))) else (found, None))"

fun walk :: "nat \<Rightarrow> nat \<Rightarrow> 'k option \<Rightarrow> (nat \<Rightarrow> 'r list) \<Rightarrow> 'r list option" where
  "walk 0 lim c rs = None"
| "walk (Suc n) lim c rs =
     (case page_after lim c (rs 0) of
        (xs, None) \<Rightarrow> Some xs
      | (xs, Some k) \<Rightarrow> map_option (\<lambda>rest. xs @ rest) (walk n lim (Some k) (rs \<circ> Suc)))"

lemma strictly_sorted:
  assumes "listable rows"
  shows "sorted_wrt (<) (map key (sort_key key (past c rows)))"
proof -
  have "distinct (map key (past c rows))"
    using distinct_keys [OF assms] by (simp add: past_def distinct_map_filter)
  then have "distinct (map key (sort_key key (past c rows)))"
    by (simp add: distinct_map)
  then show ?thesis by (simp add: strict_sorted_iff)
qed

lemma page_spec:
  assumes "listable rows" and "1 \<le> lim" and "page_after lim c rows = (xs, nxt)"
  shows "sorted_wrt (<) (map key xs)" and "set xs \<subseteq> set (past c rows)" and "length xs \<le> lim"
    and "nxt = None \<Longrightarrow> set xs = set (past c rows)"
    and "nxt = Some k \<Longrightarrow> (\<exists>x \<in> set (past c rows). key x = k) \<and> (\<forall>x \<in> set xs. key x \<le> k)
      \<and> (\<forall>x \<in> set (past c rows). key x \<le> k \<longrightarrow> x \<in> set xs)"
proof -
  define found where "found = sort_key key (past c rows)"
  have sorted: "sorted_wrt (<) (map key found)" and set: "set found = set (past c rows)"
    using strictly_sorted [OF assms(1)] by (simp_all add: found_def)
  have p: "xs = take lim found" "nxt = (if length found > lim then Some (key (found ! (lim - 1))) else None)"
    using assms(2,3) by (auto simp: page_after_def found_def [symmetric] Let_def min_def split: if_splits)
  show "sorted_wrt (<) (map key xs)" using sorted by (simp add: p take_map [symmetric] sorted_wrt_take)
  show "set xs \<subseteq> set (past c rows)" "length xs \<le> lim" by (auto simp: p set [symmetric] dest: in_set_takeD)
  show "set xs = set (past c rows)" if "nxt = None" using that by (simp add: p set split: if_splits)
  show "(\<exists>x \<in> set (past c rows). key x = k) \<and> (\<forall>x \<in> set xs. key x \<le> k)
      \<and> (\<forall>x \<in> set (past c rows). key x \<le> k \<longrightarrow> x \<in> set xs)" if "nxt = Some k"
  proof -
    from that have long: "lim < length found" and k: "k = key (found ! (lim - 1))" by (simp_all add: p split: if_splits)
    have less: "key (found ! i) < key (found ! j)" if "i < j" "j < length found" for i j
      using sorted_wrt_nth_less [OF sorted, of i j] that by simp
    have last: "found ! (lim - 1) \<in> set (past c rows)" using long assms(2) by (simp add: set [symmetric])
    have "key x \<le> k" if "x \<in> set xs" for x
    proof -
      from that obtain i where "i < lim" "x = found ! i" using long by (auto simp: p in_set_conv_nth)
      with less [of i "lim - 1"] long show ?thesis
        by (cases "i = lim - 1") (auto simp: k intro: order.strict_implies_order)
    qed
    moreover have "x \<in> set xs" if "x \<in> set (past c rows)" "key x \<le> k" for x
    proof -
      from that(1) obtain j where j: "j < length found" "x = found ! j" by (auto simp: set [symmetric] in_set_conv_nth)
      have "\<not> lim - 1 < j" using less [of "lim - 1" j] j that(2) by (auto simp: k dest: leD)
      then have "j < lim" using assms(2) by linarith
      with j show ?thesis by (auto simp: p in_set_conv_nth)
    qed
    ultimately show ?thesis using last k by blast
  qed
qed

text \<open>However the rows change between the answers: no key comes twice, and a key that is there all the time comes.\<close>

lemma walk_sound:
  assumes "\<And>i. listable (rs i)" and "1 \<le> lim" and "walk n lim c rs = Some xs"
  shows "sorted_wrt (<) (map key xs) \<and> set xs \<subseteq> (\<Union>i. set (past c (rs i)))
    \<and> (\<forall>k. (\<forall>i. k \<in> key ` set (past c (rs i))) \<longrightarrow> k \<in> key ` set xs)"
  using assms(1,3)
proof (induction n arbitrary: c rs xs)
  case (Suc n)
  obtain ys nxt where page: "page_after lim c (rs 0) = (ys, nxt)" by fastforce
  note this_page = page_spec [OF Suc.prems(1) assms(2) page]
  show ?case
  proof (cases nxt)
    case None
    with Suc.prems(2) page have "xs = ys" by simp
    with this_page(1,4) None show ?thesis by blast
  next
    case (Some k)
    with Suc.prems(2) page obtain rest where rest: "walk n lim (Some k) (rs \<circ> Suc) = Some rest" "xs = ys @ rest" by auto
    from Suc.IH [OF _ rest(1)] Suc.prems(1) have ih: "sorted_wrt (<) (map key rest)"
      "set rest \<subseteq> (\<Union>i. set (past (Some k) (rs (Suc i))))"
      "\<And>l. (\<forall>i. l \<in> key ` set (past (Some k) (rs (Suc i)))) \<Longrightarrow> l \<in> key ` set rest" by auto
    from this_page(5) [OF Some] have k: "\<exists>x \<in> set (past c (rs 0)). key x = k" "\<forall>x \<in> set ys. key x \<le> k"
      "\<And>x. x \<in> set (past c (rs 0)) \<Longrightarrow> key x \<le> k \<Longrightarrow> x \<in> set ys" by auto
    have beyond: "set (past (Some k) r) \<subseteq> set (past c r)" for r
      using k(1) by (auto simp: past_def split: option.splits)
    have "key y < key x" if "y \<in> set ys" "x \<in> set rest" for x y
      using that k(2) ih(2) by (fastforce simp: past_def)
    then have sorted: "sorted_wrt (<) (map key xs)"
      using this_page(1) ih(1) by (auto simp: rest(2) sorted_wrt_append sorted_wrt_map)
    have sub: "set xs \<subseteq> (\<Union>i. set (past c (rs i)))"
      using this_page(2) ih(2) beyond by (fastforce simp: rest(2))
    have "l \<in> key ` set xs" if l: "\<forall>i. l \<in> key ` set (past c (rs i))" for l
    proof (cases "l \<le> k")
      case True
      with l k(3) show ?thesis by (auto simp: rest(2) image_iff dest!: spec [of _ 0])
    next
      case False
      then have "\<forall>i. l \<in> key ` set (past (Some k) (rs (Suc i)))"
        using l by (fastforce simp: past_def image_iff)
      from ih(3) [OF this] show ?thesis by (simp add: rest(2) image_Un)
    qed
    with sorted sub show ?thesis by blast
  qed
qed simp

lemma walk_once:
  assumes "\<And>i. listable (rs i)" and "1 \<le> lim" and "walk n lim None rs = Some xs" and "\<And>i. k \<in> key ` set (rs i)"
  shows "length (filter (\<lambda>x. key x = k) xs) = 1"
proof -
  from walk_sound [OF assms(1-3)] assms(4) have "sorted_wrt (<) (map key xs)" "k \<in> key ` set xs"
    by (auto simp: past_def)
  then show ?thesis by (induction xs) (auto simp: filter_empty_conv)
qed

lemma walk_total:
  assumes "listable rows" and "1 \<le> lim" and "length (past c rows) < n"
  shows "walk n lim c (\<lambda>_. rows) \<noteq> None"
  using assms(3)
proof (induction n arbitrary: c)
  case (Suc n)
  obtain ys nxt where page: "page_after lim c rows = (ys, nxt)" by fastforce
  show ?case
  proof (cases nxt)
    case (Some k)
    from page_spec(5) [OF assms(1,2) page Some] obtain x where x: "x \<in> set (past c rows)" "key x = k" by blast
    have "past (Some k) rows = filter (\<lambda>y. k < key y) (past c rows)"
      using x unfolding past_def filter_filter by (intro filter_cong refl) (auto split: option.splits)
    then have "length (past (Some k) rows) < length (past c rows)"
      using length_filter_less [OF x(1), of "\<lambda>y. k < key y"] x(2) by simp
    with Suc.prems Suc.IH [of "Some k"] page Some show ?thesis by (simp add: comp_def)
  qed (simp add: page)
qed simp

lemma walk_all:
  assumes "listable rows" and "1 \<le> lim" and "length rows < n"
  shows "walk n lim None (\<lambda>_. rows) = Some (sort_key key rows)"
proof -
  have past: "past None rows = rows" by (simp add: past_def)
  from walk_total [OF assms(1,2), of None n] assms(3) obtain xs where xs: "walk n lim None (\<lambda>_. rows) = Some xs"
    by (auto simp: past)
  from walk_sound [OF assms(1,2) xs] have sorted: "sorted_wrt (<) (map key xs)" and sub: "set xs \<subseteq> set rows"
    and keys: "key ` set rows \<subseteq> key ` set xs" by (auto simp: past)
  have inj: "inj_on key (set rows)" using distinct_keys [OF assms(1)] by (simp add: distinct_map)
  have "set xs = set rows" using sub keys inj unfolding inj_on_def by blast
  moreover have "map key xs = map key (sort_key key rows)"
    using sorted strictly_sorted [OF assms(1), of None] calculation
    by (intro sorted_distinct_set_unique) (simp_all add: past strict_sorted_iff)
  ultimately have "xs = sort_key key rows" using inj by (intro map_inj_on [of key]) simp_all
  with xs show ?thesis by simp
qed

end

text \<open>The rows of the inventory can be listed: every order of the code tells them apart.\<close>

definition listable :: "res_row list \<Rightarrow> bool" where
  "listable rows \<longleftrightarrow> distinct (map id_key rows) \<and> distinct (map rr_sort rows)
     \<and> list_all (\<lambda>x. 1 \<le> rr_sort x \<and> length (r_name (rr_res x)) \<le> 512) rows"

interpretation by_id: keyset id_key listable
  by unfold_locales (simp add: listable_def)

interpretation by_sort: keyset rr_sort listable
  by unfold_locales (simp add: listable_def)

interpretation by_name: keyset name_key listable
proof
  fix rows
  assume "listable rows"
  then have "distinct (map snd (map name_key rows))" by (simp add: listable_def name_key_def comp_def)
  then show "distinct (map name_key rows)" by (auto simp: distinct_map dest: inj_on_imageI2)
qed

lemma listable_filter: "listable rows \<Longrightarrow> listable (filter p rows)"
  by (auto simp: listable_def distinct_map_filter list_all_iff)

lemma where_clause_cursor [simp]: "where_clause (f\<lparr>lf_cursor := c\<rparr>) d = where_clause f d"
  by (rule ext) (simp add: where_clause_def)

definition matching_rows :: "list_filter \<Rightarrow> db \<Rightarrow> res_row list" where
  "matching_rows f d = filter (where_clause f d) (table d)"

definition page_of :: "(res_row list \<times> 'k option) \<Rightarrow> ('k \<Rightarrow> cursor) \<Rightarrow> page" where
  "page_of found enc = \<lparr>pg_resources = map scanResource (fst found), pg_next = map_option enc (snd found), pg_freshness = ''live''\<rparr>"

lemma list_limit_bounds: "1 \<le> list_limit f" "list_limit f \<le> 1000" "list_limit (f\<lparr>lf_cursor := c\<rparr>) = list_limit f"
  by (auto simp: list_limit_def)

lemma page_shape:
  assumes "keyset key well" and "list_rows f d = Inr (sort_key key (keyset.past key c (matching_rows f d)))"
    and "\<And>x. row_cursor f x = enc (key x)"
  shows "List_page f d = Inr (page_of (keyset.page_after key (list_limit f) c (matching_rows f d)) enc)"
  using list_limit_bounds(1) [of f]
  by (simp add: List_page_def assms(2,3) page_of_def keyset.page_after_def [OF assms(1)] Let_def)

definition id_cursor :: "string \<Rightarrow> bool" where "id_cursor i \<longleftrightarrow> True"
definition sort_cursor :: "int \<Rightarrow> bool" where "sort_cursor n \<longleftrightarrow> 1 \<le> n"
definition name_cursor :: "string \<times> int \<Rightarrow> bool" where "name_cursor k \<longleftrightarrow> 1 \<le> snd k \<and> length (fst k) \<le> 512"

definition valid_cursor :: "('k \<Rightarrow> bool) \<Rightarrow> 'k option \<Rightarrow> bool" where
  "valid_cursor ok c \<longleftrightarrow> (case c of None \<Rightarrow> True | Some k \<Rightarrow> ok k)"

lemma past_filters:
  "by_id.past c (matching_rows f d) = filter (\<lambda>x. where_clause f d x \<and> (case c of None \<Rightarrow> True | Some k \<Rightarrow> k < id_key x)) (table d)"
  "by_sort.past n (matching_rows f d) = filter (\<lambda>x. where_clause f d x \<and> (case n of None \<Rightarrow> True | Some k \<Rightarrow> k < rr_sort x)) (table d)"
  "by_name.past k (matching_rows f d) = filter (\<lambda>x. where_clause f d x \<and> (case k of None \<Rightarrow> True | Some k \<Rightarrow> k < name_key x)) (table d)"
  by (simp_all add: by_id.past_def by_sort.past_def by_name.past_def matching_rows_def) 

lemma matching_rows_cursor [simp]: "matching_rows (f\<lparr>lf_cursor := c\<rparr>) d = matching_rows f d"
  by (simp add: matching_rows_def)

lemma page_by_id:
  assumes "lf_by_id f" and "lf_prefix f = []"
  shows "List_page (f\<lparr>lf_cursor := map_option Identifier c\<rparr>) d
    = Inr (page_of (by_id.page_after (list_limit f) c (matching_rows f d)) Identifier)"
proof -
  let ?f = "f\<lparr>lf_cursor := map_option Identifier c\<rparr>"
  have "list_rows ?f d = Inr (sort_key id_key (by_id.past c (matching_rows ?f d)))"
    unfolding matching_rows_cursor past_filters
    using assms by (cases c) (simp_all add: list_rows_def buildResourceFilter_def id_key_def)
  from page_shape [OF by_id.keyset_axioms this, of Identifier] assms show ?thesis
    by (simp add: row_cursor_def list_limit_bounds(3))
qed

lemma page_by_sort:
  assumes "\<not> lf_by_id f" and "lf_prefix f = []" and "valid_cursor sort_cursor c"
  shows "List_page (f\<lparr>lf_cursor := map_option Number c\<rparr>) d
    = Inr (page_of (by_sort.page_after (list_limit f) c (matching_rows f d)) Number)"
proof -
  let ?f = "f\<lparr>lf_cursor := map_option Number c\<rparr>"
  have "list_rows ?f d = Inr (sort_key rr_sort (by_sort.past c (matching_rows ?f d)))"
    unfolding matching_rows_cursor past_filters
    using assms by (cases c) (simp_all add: list_rows_def buildResourceFilter_def valid_cursor_def sort_cursor_def)
  from page_shape [OF by_sort.keyset_axioms this, of Number] assms show ?thesis
    by (simp add: row_cursor_def list_limit_bounds(3))
qed

lemma page_by_name:
  assumes "\<not> lf_by_id f" and "lf_prefix f \<noteq> []" and "valid_cursor name_cursor c"
  shows "List_page (f\<lparr>lf_cursor := map_option (\<lambda>(n, i). NamePair n i) c\<rparr>) d
    = Inr (page_of (by_name.page_after (list_limit f) c (matching_rows f d)) (\<lambda>(n, i). NamePair n i))"
proof -
  let ?f = "f\<lparr>lf_cursor := map_option (\<lambda>(n, i). NamePair n i) c\<rparr>"
  have "list_rows ?f d = Inr (sort_key name_key (by_name.past c (matching_rows ?f d)))"
    unfolding matching_rows_cursor past_filters
    using assms by (cases c) (auto simp: list_rows_def buildResourceFilter_def valid_cursor_def name_cursor_def decodeNameCursor_def)
  from page_shape [OF by_name.keyset_axioms this, of "\<lambda>(n, i). NamePair n i"] assms show ?thesis
    by (simp add: row_cursor_def list_limit_bounds(3) name_key_def)
qed

text \<open>A client that follows the pages walks over the rows that match.\<close>

lemma follow_walk:
  assumes "keyset key well"
    and page: "\<And>c d. valid_cursor ok c \<Longrightarrow> List_page (f\<lparr>lf_cursor := map_option enc c\<rparr>) d
      = Inr (page_of (keyset.page_after key (list_limit f) c (matching_rows f d)) enc)"
    and "\<And>i. well (matching_rows f (ds i))" and "\<And>i x. x \<in> set (matching_rows f (ds i)) \<Longrightarrow> ok (key x)"
    and "valid_cursor ok c"
  shows "follow_pages n (f\<lparr>lf_cursor := map_option enc c\<rparr>) ds
    = map_option (map scanResource) (keyset.walk key n (list_limit f) c (\<lambda>i. matching_rows f (ds i)))"
  using assms(3-5)
proof (induction n arbitrary: c ds)
  case 0
  then show ?case by (simp add: keyset.walk.simps [OF assms(1)])
next
  case (Suc n)
  obtain xs nxt where pg: "keyset.page_after key (list_limit f) c (matching_rows f (ds 0)) = (xs, nxt)" by fastforce
  show ?case
  proof (cases nxt)
    case None
    with page [OF Suc.prems(3)] pg show ?thesis by (simp add: keyset.walk.simps [OF assms(1)] page_of_def)
  next
    case (Some k)
    have "\<exists>x \<in> set (keyset.past key c (matching_rows f (ds 0))). key x = k"
      using keyset.page_spec(5) [OF assms(1) Suc.prems(1) list_limit_bounds(1) pg Some] by blast
    then have "valid_cursor ok (Some k)"
      using Suc.prems(2) by (auto simp: valid_cursor_def keyset.past_def [OF assms(1)])
    from Suc.IH [OF _ _ this, of "ds \<circ> Suc"] Suc.prems have
      "follow_pages n (f\<lparr>lf_cursor := Some (enc k)\<rparr>) (ds \<circ> Suc)
        = map_option (map scanResource) (keyset.walk key n (list_limit f) (Some k) (\<lambda>i. matching_rows f (ds (Suc i))))"
      by (simp add: comp_def)
    with page [OF Suc.prems(3)] pg Some show ?thesis
      by (simp add: keyset.walk.simps [OF assms(1)] page_of_def option.map_comp comp_def)
  qed
qed

definition list_order :: "list_filter \<Rightarrow> res_row list \<Rightarrow> res_row list" where
  "list_order f rows = (if lf_by_id f then sort_key id_key rows
     else if lf_prefix f \<noteq> [] then sort_key name_key rows else sort_key rr_sort rows)"

definition first_page :: "list_filter \<Rightarrow> bool" where
  "first_page f \<longleftrightarrow> lf_cursor f = None \<and> (lf_by_id f \<longrightarrow> lf_prefix f = [])"

lemma follow_cases:
  assumes "first_page f" and "\<And>i. listable (table (ds i))"
  obtains "list_order f = sort_key id_key"
    "\<And>n. follow_pages n f ds = map_option (map scanResource) (by_id.walk n (list_limit f) None (\<lambda>i. matching_rows f (ds i)))"
  | "list_order f = sort_key rr_sort"
    "\<And>n. follow_pages n f ds = map_option (map scanResource) (by_sort.walk n (list_limit f) None (\<lambda>i. matching_rows f (ds i)))"
  | "list_order f = sort_key name_key"
    "\<And>n. follow_pages n f ds = map_option (map scanResource) (by_name.walk n (list_limit f) None (\<lambda>i. matching_rows f (ds i)))"
proof -
  have f: "f\<lparr>lf_cursor := None\<rparr> = f" using assms(1) by (simp add: first_page_def)
  have ok: "listable (matching_rows f (ds i))" for i
    using assms(2) by (simp add: matching_rows_def listable_filter)
  then have keys: "sort_cursor (rr_sort x)" "name_cursor (name_key x)" if "x \<in> set (matching_rows f (ds i))" for i x
    using that by (auto simp: listable_def list_all_iff sort_cursor_def name_cursor_def name_key_def)
  have start: "valid_cursor ok' None" for ok' :: "'b \<Rightarrow> bool" by (simp add: valid_cursor_def)
  consider "lf_by_id f" "lf_prefix f = []" | "\<not> lf_by_id f" "lf_prefix f = []" | "\<not> lf_by_id f" "lf_prefix f \<noteq> []"
    using assms(1) by (auto simp: first_page_def)
  then show thesis
  proof cases
    case 1
    have "follow_pages n f ds = map_option (map scanResource) (by_id.walk n (list_limit f) None (\<lambda>i. matching_rows f (ds i)))" for n
      using follow_walk [where ok = id_cursor and c = None, OF by_id.keyset_axioms page_by_id [OF 1] ok _ start]
      by (simp add: f id_cursor_def)
    with 1 that(1) show thesis by (simp add: list_order_def fun_eq_iff)
  next
    case 2
    have "follow_pages n f ds = map_option (map scanResource) (by_sort.walk n (list_limit f) None (\<lambda>i. matching_rows f (ds i)))" for n
      using follow_walk [where ok = sort_cursor and c = None, OF by_sort.keyset_axioms page_by_sort [OF 2] ok keys(1) start]
      by (simp add: f)
    with 2 that(2) show thesis by (simp add: list_order_def fun_eq_iff)
  next
    case 3
    have "follow_pages n f ds = map_option (map scanResource) (by_name.walk n (list_limit f) None (\<lambda>i. matching_rows f (ds i)))" for n
      using follow_walk [where ok = name_cursor and c = None, OF by_name.keyset_axioms page_by_name [OF 3] ok keys(2) start]
      by (simp add: f)
    with 3 that(3) show thesis by (simp add: list_order_def fun_eq_iff)
  qed
qed

text \<open>Following the cursors of a list over an unchanged inventory comes to an end, after at most one page
  more than there are matching resources, and gives exactly the matching resources, each once, in the
  order asked for: by id, by name below a prefix, or by age.\<close>

theorem pages_enumerate:
  assumes "first_page f" and "listable (table d)"
  shows "follow_pages (length (matching_rows f d) + 1) f (\<lambda>_. d) = Some (map scanResource (list_order f (matching_rows f d)))"
proof -
  have ok: "listable (matching_rows f d)" using assms(2) by (simp add: matching_rows_def listable_filter)
  have len: "length (matching_rows f d) < length (matching_rows f d) + 1" by simp
  note all = by_id.walk_all [OF ok list_limit_bounds(1) len] by_sort.walk_all [OF ok list_limit_bounds(1) len]
    by_name.walk_all [OF ok list_limit_bounds(1) len]
  show ?thesis
    using assms(2) by (rule follow_cases [OF assms(1), of "\<lambda>_. d"]) (simp_all only: all option.map)
qed

text \<open>C18: While other transactions change the inventory between the pages, a resource that matches all the time
  and keeps its name is listed exactly once by a client that reaches the last page.\<close>

theorem pages_stable:
  assumes "first_page f" and "\<And>i. listable (table (ds i))" and "follow_pages n f ds = Some rs"
    and "\<And>i. x i \<in> set (matching_rows f (ds i))"
    and "\<And>i. id_key (x i) = k" and "\<And>i. rr_sort (x i) = s" and "\<And>i. r_name (rr_res (x i)) = name"
  shows "length (filter (\<lambda>r. r_id r = k) rs) = 1"
proof -
  have ok: "listable (matching_rows f (ds i))" for i using assms(2) by (simp add: matching_rows_def listable_filter)
  have once: "length (filter (\<lambda>r. r_id r = k) rs) = 1"
    if K: "keyset key listable" and walk: "keyset.walk key n (list_limit f) None (\<lambda>i. matching_rows f (ds i)) = Some xs"
      and rs: "rs = map scanResource xs" and key: "\<And>i. key (x i) = l" for key :: "res_row \<Rightarrow> 'k::linorder" and l xs
  proof -
    have "x i \<in> set (matching_rows f (ds i))" for i by (rule assms(4))
    then have "length (filter (\<lambda>y. key y = l) xs) = 1"
      using keyset.walk_once [OF K ok list_limit_bounds(1) walk, of l] key by (metis image_eqI)
    moreover have "key y = l \<longleftrightarrow> id_key y = k" if "y \<in> set xs" for y
    proof -
      from keyset.walk_sound [OF K ok list_limit_bounds(1) walk] that obtain i where i: "y \<in> set (matching_rows f (ds i))"
        by (auto simp: keyset.past_def [OF K])
      have "inj_on key (set (matching_rows f (ds i)))" "inj_on id_key (set (matching_rows f (ds i)))"
        using keyset.distinct_keys [OF K ok] by_id.distinct_keys [OF ok] by (simp_all add: distinct_map)
      with i assms(4) [of i] assms(5) [of i] key [of i] show ?thesis unfolding inj_on_def by metis
    qed
    ultimately show ?thesis by (simp add: rs filter_map comp_def scanResource_def id_key_def cong: filter_cong)
  qed
  show ?thesis
  proof (rule follow_cases [OF assms(1), of ds])
    show "listable (table (ds i))" for i by (rule assms(2))
  next
    assume "\<And>n. follow_pages n f ds = map_option (map scanResource) (by_id.walk n (list_limit f) None (\<lambda>i. matching_rows f (ds i)))"
    with assms(3) obtain xs where "by_id.walk n (list_limit f) None (\<lambda>i. matching_rows f (ds i)) = Some xs" "rs = map scanResource xs" by auto
    then show ?thesis by (rule once [OF by_id.keyset_axioms]) (rule assms(5))
  next
    assume "\<And>n. follow_pages n f ds = map_option (map scanResource) (by_sort.walk n (list_limit f) None (\<lambda>i. matching_rows f (ds i)))"
    with assms(3) obtain xs where "by_sort.walk n (list_limit f) None (\<lambda>i. matching_rows f (ds i)) = Some xs" "rs = map scanResource xs" by auto
    then show ?thesis by (rule once [OF by_sort.keyset_axioms]) (rule assms(6))
  next
    assume "\<And>n. follow_pages n f ds = map_option (map scanResource) (by_name.walk n (list_limit f) None (\<lambda>i. matching_rows f (ds i)))"
    with assms(3) obtain xs where "by_name.walk n (list_limit f) None (\<lambda>i. matching_rows f (ds i)) = Some xs" "rs = map scanResource xs" by auto
    moreover have "name_key (x i) = (to_lower name, s)" for i using assms(6,7) by (simp add: name_key_def)
    ultimately show ?thesis by (rule once [OF by_name.keyset_axioms])
  qed
qed

section \<open>Name filters\<close>

text \<open>What the two name filters mean: a pattern in which \<open>*\<close> stands for any text, and a prefix.\<close>

fun glob :: "string \<Rightarrow> string \<Rightarrow> bool" where
  "glob [] s \<longleftrightarrow> s = []"
| "glob (c # p) s \<longleftrightarrow>
     (if c = CHR ''*'' then glob p s \<or> (case s of [] \<Rightarrow> False | x # t \<Rightarrow> glob (c # p) t)
      else case s of [] \<Rightarrow> False | x # t \<Rightarrow> x = c \<and> glob p t)"

declare glob.simps(2) [simp del]

lemma like_percent:
  "like (CHR ''%'' # p) [] \<longleftrightarrow> like p []"
  "like (CHR ''%'' # p) (x # t) \<longleftrightarrow> like p (x # t) \<or> like (CHR ''%'' # p) t"
  by (subst like.simps(2), simp add: backslash_def)+

lemma glob_star:
  "glob (CHR ''*'' # p) [] \<longleftrightarrow> glob p []"
  "glob (CHR ''*'' # p) (x # t) \<longleftrightarrow> glob p (x # t) \<or> glob (CHR ''*'' # p) t"
  "c \<noteq> CHR ''*'' \<Longrightarrow> glob (c # p) s \<longleftrightarrow> (case s of [] \<Rightarrow> False | x # t \<Rightarrow> x = c \<and> glob p t)"
  by (subst glob.simps(2), simp)+

lemma like_char: "\<not> (star \<and> c = CHR ''*'') \<Longrightarrow>
  like (escape_char star c @ p) s \<longleftrightarrow> (case s of [] \<Rightarrow> False | x # t \<Rightarrow> x = c \<and> like p t)"
proof (cases "c = backslash \<or> c = CHR ''%'' \<or> c = CHR ''_''")
  case True
  then have "escape_char star c @ p = backslash # c # p" by (simp add: escape_char_def)
  then show ?thesis by (simp only:) (subst like.simps(2), simp)
next
  case False
  assume "\<not> (star \<and> c = CHR ''*'')"
  with False have "escape_char star c @ p = c # p" by (simp add: escape_char_def)
  with False show ?thesis by (simp only:) (subst like.simps(2), simp split: list.split)
qed

lemma like_glob: "like (concat (map (escape_char True) p)) s \<longleftrightarrow> glob p s"
proof (induction p s rule: glob.induct)
  case (2 c p s)
  show ?case
  proof (cases "c = CHR ''*''")
    case True
    then have "escape_char True c = ''%''" by (simp add: escape_char_def backslash_def)
    with True 2 show ?thesis by (cases s) (simp_all add: like_percent glob_star)
  next
    case False
    with 2 show ?thesis by (cases s) (simp_all add: like_char glob_star)
  qed
qed simp

lemma like_prefix: "like (concat (map (escape_char False) p) @ ''%'') s \<longleftrightarrow> has_prefix s p"
proof (induction p arbitrary: s)
  case Nil
  have "like ''%'' s" by (induction s) (simp_all add: like_percent)
  then show ?case by (simp add: has_prefix_iff)
next
  case (Cons c p)
  then show ?case by (cases s) (auto simp: like_char has_prefix_iff)
qed

text \<open>The name filters take what the client types literally: in a pattern only \<open>*\<close> has a meaning and
  stands for any text, a prefix has no wildcards at all, and both ignore case, so \<open>%\<close>, \<open>_\<close> and \<open>\\<close>
  reach the database as ordinary characters.\<close>

theorem name_filters_literal:
  "like (escape_like True p) (to_lower name) = glob (to_lower p) (to_lower name)
   \<and> like (escape_like False p @ ''%'') (to_lower name) = has_prefix (to_lower name) (to_lower p)"
  unfolding escape_like_def by (simp_all only: like_glob like_prefix)

section \<open>A list of two pages\<close>

definition sample_row :: "string \<Rightarrow> int \<Rightarrow> res_row" where
  "sample_row i n = \<lparr>rr_sort = n, rr_shard = ''pods'', rr_res = blank_resource\<lparr>r_id := i, r_name := i, r_state := StateOK\<rparr>, rr_changed = 0\<rparr>"

definition sample_listing :: db where
  "sample_listing = empty_db\<lparr>t_resources := [(''a'', sample_row ''a'' 2), (''b'', sample_row ''b'' 1)]\<rparr>"

definition sample_filter :: list_filter where
  "sample_filter = \<lparr>lf_cluster = [], lf_group = [], lf_version = [], lf_kind = [], lf_namespace = [], lf_name = [],
     lf_prefix = [], lf_pattern = [], lf_event_for = [], lf_labels = [], lf_states = [], lf_owner = [], lf_limit = 1,
     lf_cursor = None, lf_by_id = False, lf_hide = False\<rparr>"

lemma sample_listable: "first_page sample_filter" "listable (table sample_listing)"
  "matching_rows sample_filter sample_listing = [sample_row ''a'' 2, sample_row ''b'' 1]"
  by (simp_all add: first_page_def sample_filter_def listable_def table_def sample_listing_def sample_row_def id_key_def
      matching_rows_def where_clause_def Let_def blank_resource_def chosen_def)

lemma pages_enumerate_witness:
  "follow_pages 3 sample_filter (\<lambda>_. sample_listing) = Some (map scanResource [sample_row ''b'' 1, sample_row ''a'' 2])"
proof -
  have "list_order sample_filter [sample_row ''a'' 2, sample_row ''b'' 1] = [sample_row ''b'' 1, sample_row ''a'' 2]"
    by (simp add: list_order_def sample_filter_def sample_row_def)
  with pages_enumerate [OF sample_listable(1,2)] show ?thesis by (simp add: sample_listable(3) numeral_3_eq_3)
qed

lemma sample_follow: "follow_pages 3 sample_filter (\<lambda>_. sample_listing) = Some (map scanResource [sample_row ''b'' 1, sample_row ''a'' 2])"
  by code_simp

lemma pages_stable_witness:
  "length (filter (\<lambda>r. r_id r = ''a'') (map scanResource [sample_row ''b'' 1, sample_row ''a'' 2])) = 1"
proof (rule pages_stable [OF sample_listable(1)])
  show "follow_pages 3 sample_filter (\<lambda>_. sample_listing) = Some (map scanResource [sample_row ''b'' 1, sample_row ''a'' 2])"
    by (rule sample_follow)
  show "sample_row ''a'' 2 \<in> set (matching_rows sample_filter sample_listing)" by (simp add: sample_listable(3))
qed (simp_all add: sample_listable sample_row_def id_key_def)

end
