(* ===== verification/Freshness.thy ===== *)
theory Freshness
  imports Listing
begin

text \<open>
  How \<open>internal/v2/api/server.go\<close> judges data: the freshness of an answer and of the local store,
  the rewriting of a federated body, and the state of a set of resources. The \<open>ranked\<close> interface is what
  both the worse of two freshness values and the worst of the states rely on.
\<close>

section \<open>Freshness\<close>

text \<open>The abstract order: live is better than stale, stale better than unavailable.\<close>

datatype freshness = Live | Stale | Unavailable

fun freshness_rank :: "freshness \<Rightarrow> nat" where
  "freshness_rank Live = 0"
| "freshness_rank Stale = 1"
| "freshness_rank Unavailable = 2"

instantiation freshness :: linorder
begin

definition less_eq_freshness :: "freshness \<Rightarrow> freshness \<Rightarrow> bool" where
  "less_eq_freshness a b \<longleftrightarrow> freshness_rank a \<le> freshness_rank b"

definition less_freshness :: "freshness \<Rightarrow> freshness \<Rightarrow> bool" where
  "less_freshness a b \<longleftrightarrow> freshness_rank a < freshness_rank b"

instance
proof
  fix a b c :: freshness
  show "a < b \<longleftrightarrow> a \<le> b \<and> \<not> b \<le> a" "a \<le> a" "a \<le> b \<or> b \<le> a"
    by (auto simp: less_eq_freshness_def less_freshness_def)
  show "a \<le> c" if "a \<le> b" "b \<le> c" using that by (simp add: less_eq_freshness_def)
  show "a = b" if "a \<le> b" "b \<le> a" using that by (cases a; cases b) (simp_all add: less_eq_freshness_def)
qed

end

text \<open>The Go code keeps it as text; any other text has the rank of \<open>live\<close>.\<close>

definition rank_freshness :: "string \<Rightarrow> nat" where
  "rank_freshness s = (if s = ''stale'' then 1 else if s = ''unavailable'' then 2 else 0)"

definition worseFreshness :: "string \<Rightarrow> string \<Rightarrow> string" where
  "worseFreshness left right = (if rank_freshness right > rank_freshness left then right else left)"

definition validFreshness :: "string \<Rightarrow> bool" where
  "validFreshness v \<longleftrightarrow> v = ''live'' \<or> v = ''stale'' \<or> v = ''unavailable''"

definition federationFreshness :: "duration \<Rightarrow> duration \<Rightarrow> duration \<Rightarrow> string" where
  "federationFreshness age staleAfter unavailableAfter =
     (if age \<ge> unavailableAfter then ''unavailable'' else if age \<ge> staleAfter then ''stale'' else ''live'')"

text \<open>\<open>status\<close> is \<open>None\<close> when the store could not be asked.\<close>

definition localFreshness :: "time \<Rightarrow> time \<Rightarrow> duration \<Rightarrow> duration \<Rightarrow> status option \<Rightarrow> string" where
  "localFreshness now started staleAfter unavailableAfter st =
     (case st of None \<Rightarrow> ''unavailable''
      | Some s \<Rightarrow>
          let reference = (case st_oldest_event s of Some oldest \<Rightarrow> oldest
                | None \<Rightarrow> (case st_last_applied s of Some applied \<Rightarrow> applied | None \<Rightarrow> zero_time)) in
          if reference = zero_time then (if now - started \<ge> staleAfter then ''unavailable'' else ''live'')
          else let age = now - reference in
            if age \<ge> unavailableAfter then ''unavailable'' else if age \<ge> staleAfter then ''stale'' else ''live'')"

text \<open>\<open>setFreshness\<close> overwrites the freshness of an answer, of its items and of theirs.\<close>

definition set_object :: "string \<Rightarrow> json \<Rightarrow> bool \<times> json" where
  "set_object fresh v = (case v of
      JObj m \<Rightarrow> (case map_of m ''freshness'' of None \<Rightarrow> (False, v)
        | Some _ \<Rightarrow> (True, JObj (AList.update ''freshness'' (JStr fresh) m)))
    | _ \<Rightarrow> (False, v))"

fun setFreshness :: "string \<Rightarrow> json \<Rightarrow> bool \<times> json"
  and set_items :: "string \<Rightarrow> (string \<times> json) list \<Rightarrow> bool \<times> (string \<times> json) list" where
  "setFreshness fresh (JObj m) =
     (case set_items fresh m of (changed, m') \<Rightarrow>
        (case set_object fresh (JObj m') of (own, v) \<Rightarrow> (own \<or> changed, v)))"
| "setFreshness fresh (JArr xs) =
     (list_ex (\<lambda>x. fst (set_object fresh x)) xs, JArr (map (\<lambda>x. snd (set_object fresh x)) xs))"
| "setFreshness fresh v = (False, v)"
| "set_items fresh [] = (False, [])"
| "set_items fresh ((k, v) # m) =
     (case set_items fresh m of (changed, m') \<Rightarrow>
        if k = ''items'' then (case setFreshness fresh v of (c, v') \<Rightarrow> (c \<or> changed, (k, v') # m')) else (changed, (k, v) # m'))"

text \<open>\<open>parse\<close> is \<open>json.Unmarshal\<close> into \<open>any\<close>.\<close>

definition withFreshness :: "(string \<Rightarrow> json option) \<Rightarrow> string \<Rightarrow> string \<Rightarrow> string" where
  "withFreshness parse body fresh =
     (case parse body of None \<Rightarrow> body
      | Some v \<Rightarrow> (case setFreshness fresh v of (False, _) \<Rightarrow> body | (True, v') \<Rightarrow> json_encode v'))"

section \<open>States\<close>

definition rank_state :: "string \<Rightarrow> nat" where
  "rank_state s = (if s = StateWarning then 1 else if s = StateUnknown then 2 else if s = StateCritical then 3 else 0)"

definition worse_state :: "string \<Rightarrow> string \<Rightarrow> string" where
  "worse_state result s = (if rank_state s > rank_state result then s else result)"

definition worst :: "resource list \<Rightarrow> string" where
  "worst items = foldl (\<lambda>result i. worse_state result (r_state i)) StateOK items"

definition aggregate :: "resource list \<Rightarrow> string \<Rightarrow> string" where
  "aggregate items op =
     (if items = [] then StateUnknown
      else if op = ''or'' then (if list_ex (\<lambda>i. r_state i = StateOK) items then StateOK else worst items)
      else if op = ''and'' then (if list_ex (\<lambda>i. r_state i \<noteq> StateOK) items then worst items else StateOK)
      else worst items)"

definition count_of :: "(string, nat) gomap \<Rightarrow> string \<Rightarrow> nat" where
  "count_of counts s = (case map_of counts s of None \<Rightarrow> 0 | Some n \<Rightarrow> n)"

definition aggregateCounts :: "(string, nat) gomap \<Rightarrow> nat \<Rightarrow> string \<Rightarrow> string" where
  "aggregateCounts counts matched op =
     (if matched = 0 then StateUnknown
      else if op = ''or'' \<and> count_of counts StateOK > 0 then StateOK
      else if op = ''and'' \<and> count_of counts StateOK = matched then StateOK
      else case find (\<lambda>s. count_of counts s > 0) [StateCritical, StateUnknown, StateWarning, StateOK] of
        None \<Rightarrow> StateUnknown | Some s \<Rightarrow> s)"

section \<open>The worst of several\<close>

locale ranked =
  fixes rank :: "'a \<Rightarrow> nat" and worse :: "'a \<Rightarrow> 'a \<Rightarrow> 'a"
  assumes worse_def: "worse a b = (if rank b > rank a then b else a)"
begin

lemma rank_worse [simp]: "rank (worse a b) = max (rank a) (rank b)"
  by (simp add: worse_def)

lemma worse_cases: "worse a b = a \<or> worse a b = b"
  by (simp add: worse_def)

lemma fold_in: "foldl worse a xs \<in> set (a # xs)"
proof (induction xs arbitrary: a)
  case (Cons x xs)
  from Cons.IH [of "worse a x"] worse_cases [of a x] show ?case by auto
qed simp

lemma rank_fold: "rank (foldl worse a xs) = fold max (map rank xs) (rank a)"
  by (induction xs arbitrary: a) (simp_all add: max.commute)

lemma fold_start: "rank a \<le> rank (foldl worse a xs)"
proof (induction xs arbitrary: a)
  case (Cons x xs)
  have "rank a \<le> rank (worse a x)" by simp
  also have "\<dots> \<le> rank (foldl worse (worse a x) xs)" by (rule Cons.IH)
  finally show ?case by simp
qed simp

lemma fold_upper: "x \<in> set (a # xs) \<Longrightarrow> rank x \<le> rank (foldl worse a xs)"
proof (induction xs arbitrary: a)
  case (Cons y xs)
  show ?case
  proof (cases "x \<in> set xs")
    case True
    with Cons.IH [of "worse a y"] show ?thesis by simp
  next
    case False
    with Cons.prems have "rank x \<le> rank (worse a y)" by auto
    also have "\<dots> \<le> rank (foldl worse (worse a y) xs)" by (rule fold_start)
    finally show ?thesis by simp
  qed
qed simp

lemma fold_worst:
  assumes "x \<in> set (a # xs)" and "\<And>y. y \<in> set (a # xs) \<Longrightarrow> rank y \<le> rank x"
  shows "rank (foldl worse a xs) = rank x"
  using assms fold_in [of a xs] fold_upper [of x a xs] by (meson le_antisym)

end

interpretation freshness: ranked rank_freshness worseFreshness
  by unfold_locales (rule worseFreshness_def)

interpretation state: ranked rank_state worse_state
  by unfold_locales (rule worse_state_def)

text \<open>The abstraction of a freshness text, and that the code computes the maximum of the order.\<close>

definition fresh_of :: "string \<Rightarrow> freshness" where
  "fresh_of s = (if s = ''stale'' then Stale else if s = ''unavailable'' then Unavailable else Live)"

lemma rank_fresh_of: "freshness_rank (fresh_of s) = rank_freshness s"
  by (simp add: fresh_of_def rank_freshness_def)

lemma fresh_of_worse [simp]: "fresh_of (worseFreshness a b) = max (fresh_of a) (fresh_of b)"
  by (auto simp: max_def less_eq_freshness_def rank_fresh_of worseFreshness_def)
    (simp_all add: fresh_of_def rank_freshness_def split: if_splits)

lemma valid_worse: "validFreshness a \<Longrightarrow> validFreshness b \<Longrightarrow> validFreshness (worseFreshness a b)"
  using freshness.worse_cases [of a b] by auto

lemma valid_federation [simp]: "validFreshness (federationFreshness age st un)"
  by (simp add: federationFreshness_def validFreshness_def)

lemma valid_local [simp]: "validFreshness (localFreshness now started st un status)"
  by (simp add: localFreshness_def validFreshness_def Let_def split: option.split)

lemma live_iff: "validFreshness s \<Longrightarrow> s = ''live'' \<longleftrightarrow> fresh_of s = Live"
  by (auto simp: validFreshness_def fresh_of_def)

section \<open>The state of a selector\<close>

lemma worst_fold: "worst items = foldl worse_state StateOK (map r_state items)"
  unfolding worst_def by (induction items rule: rev_induct) simp_all

lemma rank_known: "known_state s \<Longrightarrow> known_state t \<Longrightarrow> rank_state s = rank_state t \<Longrightarrow> s = t"
  by (auto simp: known_state_def rank_state_def state_defs)

text \<open>The worst state of known states: the first of the ranking that occurs.\<close>

lemma worst_first:
  assumes "items \<noteq> []" and "\<And>i. i \<in> set items \<Longrightarrow> known_state (r_state i)"
  shows "find (\<lambda>s. s \<in> r_state ` set items) [StateCritical, StateUnknown, StateWarning, StateOK] = Some (worst items)"
proof -
  let ?S = "r_state ` set items"
  have known: "known_state s" if "s \<in> ?S" for s using that assms(2) by auto
  have w: "worst items \<in> insert StateOK ?S" using state.fold_in [of StateOK "map r_state items"] by (simp add: worst_fold)
  then have "known_state (worst items)" using known by (auto simp: known_state_def)
  have upper: "rank_state s \<le> rank_state (worst items)" if "s \<in> ?S" for s
    using state.fold_upper [of s StateOK "map r_state items"] that by (simp add: worst_fold)
  have in_S: "worst items \<in> ?S"
  proof (rule ccontr)
    assume "worst items \<notin> ?S"
    with w have ok: "worst items = StateOK" by blast
    from assms(1) obtain s where s: "s \<in> ?S" by (cases items) auto
    with upper [OF s] ok have "rank_state s = rank_state StateOK" by (simp add: rank_state_def state_defs)
    with rank_known [of s StateOK] known [OF s] have "s = StateOK" by (simp add: known_state_def)
    with s ok \<open>worst items \<notin> ?S\<close> show False by simp
  qed
  have none: "t \<notin> ?S" if "rank_state (worst items) < rank_state t" for t using upper [of t] that by auto
  from \<open>known_state (worst items)\<close> consider "worst items = StateCritical" | "worst items = StateUnknown"
    | "worst items = StateWarning" | "worst items = StateOK" by (auto simp: known_state_def)
  then show ?thesis
  proof cases
    case 1
    with in_S show ?thesis by simp
  next
    case 2
    with in_S none [of StateCritical] show ?thesis by (simp add: rank_state_def state_defs)
  next
    case 3
    with in_S none [of StateCritical] none [of StateUnknown] show ?thesis by (simp add: rank_state_def state_defs)
  next
    case 4
    with in_S none [of StateCritical] none [of StateUnknown] none [of StateWarning] show ?thesis
      by (simp add: rank_state_def state_defs)
  qed
qed

lemma count_pos: "0 < count_state st rows \<longleftrightarrow> st \<in> r_state ` set (map rr_res rows)"
  by (auto simp: count_state_def filter_empty_conv)

lemma count_all: "count_state st rows = length rows \<longleftrightarrow> (\<forall>x \<in> set rows. r_state (rr_res x) = st)"
proof
  assume "count_state st rows = length rows"
  then show "\<forall>x \<in> set rows. r_state (rr_res x) = st"
    using length_filter_less [of _ rows "\<lambda>x. r_state (rr_res x) = st"] by (auto simp: count_state_def)
qed (simp add: count_state_def)

text \<open>C20: The state the API reports for a selector is the aggregation of the states of all the resources that
  match it, also when more match than the thousand the answer carries: the window counts of the
  statement decide it exactly as the loop over the resources would.\<close>

theorem selector_state_exact:
  assumes "inventory_ok d" and "ResolveSelector f d = Inr res"
  shows "aggregateCounts (rs_counts res) (rs_matched res) op = aggregate (map rr_res (matching_rows f d)) op"
proof (cases "matching_rows f d = []")
  case True
  with assms(2) show ?thesis
    by (auto simp: ResolveSelector_def buildResourceFilter_def matching_rows_def aggregateCounts_def aggregate_def Let_def)
next
  case False
  define rows where "rows = matching_rows f d"
  have counts: "count_of (rs_counts res) st = count_state st rows" if "known_state st" for st
    using that assms(2) False
    by (auto simp: ResolveSelector_def buildResourceFilter_def rows_def matching_rows_def Let_def count_of_def known_state_def state_defs)
  have matched: "rs_matched res = length rows"
    using assms(2) by (auto simp: ResolveSelector_def buildResourceFilter_def rows_def matching_rows_def Let_def)
  have known: "known_state (r_state i)" if "i \<in> set (map rr_res rows)" for i
    using that assms(1) by (auto simp: rows_def matching_rows_def table_def inventory_ok_def rows_ok_def)
  let ?order = "[StateCritical, StateUnknown, StateWarning, StateOK]"
  have "0 < count_of (rs_counts res) s \<longleftrightarrow> s \<in> r_state ` set (map rr_res rows)" if "s \<in> set ?order" for s
    using that counts [of s] count_pos [of s rows] by (auto simp: known_state_def)
  then have "find (\<lambda>s. count_of (rs_counts res) s > 0) ?order = find (\<lambda>s. s \<in> r_state ` set (map rr_res rows)) ?order"
    by (rule find_cong [OF refl])
  also have "\<dots> = Some (worst (map rr_res rows))"
    using False known by (intro worst_first) (auto simp: rows_def)
  finally have worst: "find (\<lambda>s. count_of (rs_counts res) s > 0) ?order = Some (worst (map rr_res rows))" .
  have ok: "count_of (rs_counts res) StateOK = count_state StateOK rows" by (rule counts) (simp add: known_state_def)
  have some_ok: "0 < count_state StateOK rows \<longleftrightarrow> list_ex (\<lambda>i. r_state i = StateOK) (map rr_res rows)"
    unfolding count_pos list_ex_iff image_iff by metis
  have all_ok: "count_state StateOK rows = length rows \<longleftrightarrow> \<not> list_ex (\<lambda>i. r_state i \<noteq> StateOK) (map rr_res rows)"
    by (simp add: count_all list_ex_iff)
  have "map rr_res rows \<noteq> []" "length rows \<noteq> 0" using False by (simp_all add: rows_def)
  then show ?thesis
    unfolding aggregateCounts_def aggregate_def worst matched ok some_ok all_ok rows_def [symmetric]
    by (cases "op = ''or''"; cases "op = ''and''") simp_all
qed

section \<open>Ageing\<close>

definition age_class :: "duration \<Rightarrow> duration \<Rightarrow> duration \<Rightarrow> freshness" where
  "age_class staleAfter unavailableAfter age =
     (if age \<ge> unavailableAfter then Unavailable else if age \<ge> staleAfter then Stale else Live)"

lemma fresh_of_simps [simp]: "fresh_of ''live'' = Live" "fresh_of ''stale'' = Stale" "fresh_of ''unavailable'' = Unavailable"
  by (simp_all add: fresh_of_def)

lemma freshness_le [simp]: "Live \<le> a" "a \<le> Unavailable" "Stale \<le> a \<longleftrightarrow> a \<noteq> Live" "a \<le> Live \<longleftrightarrow> a = Live"
  by (cases a; simp add: less_eq_freshness_def)+

lemma fresh_federation: "fresh_of (federationFreshness age st un) = age_class st un age"
  unfolding federationFreshness_def age_class_def if_distrib [of fresh_of] by simp

definition store_reference :: "status \<Rightarrow> time" where
  "store_reference s = (case st_oldest_event s of Some oldest \<Rightarrow> oldest
     | None \<Rightarrow> (case st_last_applied s of Some applied \<Rightarrow> applied | None \<Rightarrow> zero_time))"

lemma fresh_local:
  "fresh_of (localFreshness now started st un None) = Unavailable"
  "fresh_of (localFreshness now started st un (Some s)) =
     (if store_reference s = zero_time then (if now - started \<ge> st then Unavailable else Live)
      else age_class st un (now - store_reference s))"
  unfolding localFreshness_def Let_def store_reference_def [symmetric] option.case if_distrib [of fresh_of] age_class_def by simp_all

lemma age_class_mono: "st \<le> un \<Longrightarrow> a \<le> b \<Longrightarrow> age_class st un a \<le> age_class st un b"
  by (simp add: age_class_def)

text \<open>Freshness follows its abstraction: combining answers takes the maximum of the order live, stale,
  unavailable, and the freshness of a cached or a local answer never improves as time passes.\<close>

theorem freshness_refines:
  assumes "staleAfter \<le> unavailableAfter" and "now \<le> later"
  shows "fresh_of (worseFreshness a b) = max (fresh_of a) (fresh_of b)
    \<and> fresh_of (federationFreshness (now - fetched) staleAfter unavailableAfter)
        \<le> fresh_of (federationFreshness (later - fetched) staleAfter unavailableAfter)
    \<and> fresh_of (localFreshness now started staleAfter unavailableAfter st)
        \<le> fresh_of (localFreshness later started staleAfter unavailableAfter st)"
proof -
  have "fresh_of (localFreshness now started staleAfter unavailableAfter st)
      \<le> fresh_of (localFreshness later started staleAfter unavailableAfter st)"
    using assms by (cases st) (auto simp: fresh_local intro: age_class_mono)
  then show ?thesis using assms by (simp add: fresh_federation age_class_mono)
qed

lemma freshness_refines_witness:
  "fresh_of (federationFreshness 10 30 90) \<le> fresh_of (federationFreshness 40 30 90)"
  using freshness_refines [of 30 90 10 40 _ _ 0] by simp

lemma selector_state_exact_witness:
  "aggregateCounts (rs_counts \<lparr>rs_items = [], rs_matched = 0, rs_counts = []\<rparr>) 0 ''and''
     = aggregate (map rr_res (matching_rows sample_filter empty_db)) ''and''"
proof -
  have "ResolveSelector sample_filter empty_db = Inr \<lparr>rs_items = [], rs_matched = 0, rs_counts = []\<rparr>"
    by (simp add: ResolveSelector_def buildResourceFilter_def sample_filter_def table_def empty_db_def)
  from selector_state_exact [OF inventory_ok_empty this, of "''and''"] show ?thesis by simp
qed

end
