(* ===== verification/Federation.thy ===== *)
theory Federation
  imports Freshness
begin

text \<open>
  Reads of other clusters in \<open>internal/v2/api/federation.go\<close>: the cache, the calls in flight, the cool-down
  of a failed target and its recovery probe. Requests and completed calls are the steps of a machine:
  \<open>federationRead\<close> takes its decision in one critical section, a call completes in another. The
  transport, \<open>json.Valid\<close> and the clock are arguments.
\<close>

section \<open>Targets, requests and answers\<close>

record target =
  tg_name :: string
  tg_url :: string

record request =
  rq_method :: string
  rq_path :: string
  rq_body :: string

definition nul_byte :: string where "nul_byte = [CHR 0x00]"

definition federationCacheTTL :: duration where "federationCacheTTL = seconds 5"
definition federationRetryDelay :: duration where "federationRetryDelay = seconds 5"
definition federationMaxPending :: nat where "federationMaxPending = 32"

record response =
  re_status :: int
  re_body :: string
  re_freshness :: string
  re_fetched :: time

datatype federation_error = Cancelled | Unavailable_pending | Cooling_down | Transport string | TooLarge
  | RemoteStatus int | InvalidResponse

text \<open>The key of a cached answer, a SHA-256 of what determines the request.\<close>

definition cache_key :: "target \<Rightarrow> request \<Rightarrow> string" where
  "cache_key t r = hex (sha256 (tg_url t @ nul_byte @ rq_method r @ nul_byte @ rq_path r @ nul_byte @ rq_body r))"

definition before_query :: "string \<Rightarrow> string" where
  "before_query path = takeWhile (\<lambda>c. c \<noteq> CHR ''?'') path"

definition federationLogs :: "string \<Rightarrow> bool" where
  "federationLogs path \<longleftrightarrow> has_prefix path ''/api/v1/live/pods/'' \<and> has_suffix (before_query path) ''/logs''"

text \<open>What the HTTP client returns; an empty freshness is a missing header.\<close>

datatype http_answer = NoAnswer string | Oversized | Answered int string string

definition fetchFederation :: "(string \<Rightarrow> bool) \<Rightarrow> time \<Rightarrow> request \<Rightarrow> http_answer \<Rightarrow> federation_error + response" where
  "fetchFederation valid now r a =
     (case a of NoAnswer e \<Rightarrow> Inl (Transport e) | Oversized \<Rightarrow> Inl TooLarge
      | Answered status body header \<Rightarrow>
          if status \<ge> 500 then Inl (RemoteStatus status)
          else let fresh = (if header = [] then ''live'' else header) in
            if \<not> validFreshness fresh \<or> \<not> federationLogs (rq_path r) \<and> \<not> valid body then Inl InvalidResponse
            else Inr \<lparr>re_status = status, re_body = body, re_freshness = fresh, re_fetched = now\<rparr>)"

section \<open>The calls in flight\<close>

type_synonym target_key = "string \<times> string"
type_synonym flight = "target_key \<times> string"

text \<open>A call keeps its request and whether its target was known to have failed when it started.\<close>

record call =
  cl_target :: target
  cl_request :: request
  cl_probe :: bool

record federation =
  fd_pending :: "(flight \<times> call) list"
  fd_retry :: "(target_key \<times> time) list"
  fd_probe :: "target_key list"

definition target_key :: "target \<Rightarrow> target_key" where
  "target_key t = (tg_name t, tg_url t)"

definition flight_of :: "target \<Rightarrow> request \<Rightarrow> flight" where
  "flight_of t r = (target_key t, cache_key t r)"

definition retry_at :: "federation \<Rightarrow> target_key \<Rightarrow> time" where
  "retry_at s k = (case map_of (fd_retry s) k of None \<Rightarrow> zero_time | Some t \<Rightarrow> t)"

definition known_failed :: "federation \<Rightarrow> target_key \<Rightarrow> bool" where
  "known_failed s k \<longleftrightarrow> retry_at s k \<noteq> zero_time"

definition may_start :: "time \<Rightarrow> target \<Rightarrow> request \<Rightarrow> federation \<Rightarrow> bool" where
  "may_start now t r s \<longleftrightarrow> map_of (fd_pending s) (flight_of t r) = None \<and> target_key t \<notin> set (fd_probe s)
     \<and> now > retry_at s (target_key t) \<and> length (fd_pending s) < federationMaxPending"

definition start_call :: "target \<Rightarrow> request \<Rightarrow> federation \<Rightarrow> federation" where
  "start_call t r s =
     (let failed = known_failed s (target_key t) in
      s\<lparr>fd_pending := fd_pending s @ [(flight_of t r, \<lparr>cl_target = t, cl_request = r, cl_probe = failed\<rparr>)],
        fd_probe := (if failed then target_key t # fd_probe s else fd_probe s)\<rparr>)"

section \<open>Reading\<close>

definition cached :: "(string \<Rightarrow> bool) \<Rightarrow> duration \<Rightarrow> duration \<Rightarrow> time \<Rightarrow> store_error + cache_row \<Rightarrow> response option" where
  "cached valid staleAfter unavailableAfter now found =
     (case found of Inl _ \<Rightarrow> None
      | Inr c \<Rightarrow> if \<not> validFreshness (fc_freshness c) \<or> \<not> valid (fc_response c) then None
          else Some \<lparr>re_status = fc_status c, re_body = fc_response c,
            re_freshness = worseFreshness (fc_freshness c) (federationFreshness (now - fc_fetched c) staleAfter unavailableAfter),
            re_fetched = fc_fetched c\<rparr>)"

definition ready_path :: string where "ready_path = ''/api/v1/health/ready''"

datatype decision = Serve response | Refuse federation_error | Await flight

text \<open>
  What a request decides, with the cached answer it found and \<open>gone\<close> whether its context is over. The
  last component tells whether a call was started in its own goroutine.
\<close>

definition federationRead :: "time \<Rightarrow> target \<Rightarrow> request \<Rightarrow> response option \<Rightarrow> bool \<Rightarrow> federation \<Rightarrow> decision \<times> federation \<times> bool" where
  "federationRead now t r have gone s =
     (case (case have of None \<Rightarrow> None | Some c \<Rightarrow> if now - re_fetched c < federationCacheTTL then Some c else None) of
        Some c \<Rightarrow> (Serve c, s, False)
      | None \<Rightarrow>
          if gone then (Refuse Cancelled, s, False)
          else let call = map_of (fd_pending s) (flight_of t r) \<noteq> None;
                   failed = known_failed s (target_key t);
                   start = may_start now t r s;
                   s' = (if start then start_call t r s else s)
            in (case (if rq_path r = ready_path then None else have) of
                  Some c \<Rightarrow> (Serve c, s', start)
                | None \<Rightarrow>
                    if failed then (Refuse Unavailable_pending, s', start)
                    else if \<not> call \<and> \<not> start then (Refuse Cooling_down, s', start)
                    else (Await (flight_of t r), s', start)))"

text \<open>The end of a call: the entry of the cache, if any, and the bookkeeping under the lock.\<close>

definition cacheable :: "(string \<Rightarrow> bool) \<Rightarrow> request \<Rightarrow> federation_error + response \<Rightarrow> bool" where
  "cacheable valid r res = (case res of Inl _ \<Rightarrow> False
     | Inr p \<Rightarrow> 200 \<le> re_status p \<and> re_status p < 300 \<and> valid (re_body p) \<and> \<not> federationLogs (rq_path r))"

definition store_answer :: "(string \<Rightarrow> bool) \<Rightarrow> bool \<Rightarrow> time \<Rightarrow> target \<Rightarrow> request \<Rightarrow> federation_error + response \<Rightarrow> db \<Rightarrow> db" where
  "store_answer valid connected now t r res d =
     (if cacheable valid r res
      then (case res of Inl _ \<Rightarrow> d | Inr p \<Rightarrow>
        (case PutFederationCache connected now (tg_name t) (cache_key t r) (re_status p) (re_body p) (re_freshness p) d of
           Inl _ \<Rightarrow> d | Inr d' \<Rightarrow> d')) else d)"

definition finish_call :: "time \<Rightarrow> flight \<Rightarrow> call \<Rightarrow> bool \<Rightarrow> federation \<Rightarrow> federation" where
  "finish_call now f c ok s =
     (let k = target_key (cl_target c) in
      s\<lparr>fd_retry := (if ok then AList.delete k (fd_retry s) else AList.update k (now + federationRetryDelay) (fd_retry s)),
        fd_probe := (if cl_probe c then removeAll k (fd_probe s) else fd_probe s),
        fd_pending := AList.delete f (fd_pending s)\<rparr>)"

section \<open>Answering\<close>

text \<open>\<open>callFederated\<close> on the outcome of the read; \<open>federatedResults\<close> asks every target.\<close>

definition callFederated :: "federation_error + response \<Rightarrow> federation_error + string \<times> string" where
  "callFederated res = (case res of Inl e \<Rightarrow> Inl e
     | Inr p \<Rightarrow> if re_status p < 200 \<or> re_status p \<ge> 300 then Inl (RemoteStatus (re_status p)) else Inr (re_body p, re_freshness p))"

definition federatedResults :: "(target \<Rightarrow> federation_error + response) \<Rightarrow> target list \<Rightarrow> (federation_error + string \<times> string) list" where
  "federatedResults read targets = map (\<lambda>t. callFederated (read t)) targets"

datatype proxy_reply = NotFederated | ProxyError int
  | Proxied int string bool string

text \<open>
  \<open>proxyFederated\<close>: status, freshness, whether the stale warning is sent, and body. \<open>body\<close> is \<open>None\<close> when
  the client's body exceeds its bound.
\<close>

definition proxyFederated :: "(string \<Rightarrow> json option) \<Rightarrow> target list \<Rightarrow> string \<Rightarrow> bool \<Rightarrow> string option
    \<Rightarrow> (target \<Rightarrow> string \<Rightarrow> federation_error + response) \<Rightarrow> proxy_reply" where
  "proxyFederated parse targets cluster federationAllowed body read =
     (case find (\<lambda>t. tg_name t = cluster) targets of
        None \<Rightarrow> NotFederated
      | Some t \<Rightarrow>
          if \<not> federationAllowed then ProxyError 508
          else (case body of None \<Rightarrow> ProxyError 413
            | Some b \<Rightarrow> (case read t b of Inl _ \<Rightarrow> ProxyError 503
                | Inr p \<Rightarrow> Proxied (re_status p) (re_freshness p) (re_freshness p \<noteq> ''live'') (withFreshness parse (re_body p) (re_freshness p)))))"

section \<open>The machine\<close>

datatype fed_event =
    Read time target request "response option"
  | Done time target request bool

text \<open>\<open>Done\<close> is the completion of the call in flight for that request.\<close>

inductive fed_step :: "federation \<Rightarrow> fed_event \<Rightarrow> federation \<Rightarrow> bool" where
  reading: "federationRead now t r have gone s = (dec, s', started) \<Longrightarrow> fed_step s (Read now t r have) s'"
| completing: "map_of (fd_pending s) (flight_of t r) = Some c \<Longrightarrow> cl_target c = t \<Longrightarrow> cl_request c = r \<Longrightarrow>
     fed_step s (Done now t r ok) (finish_call now (flight_of t r) c ok s)"

inductive_cases fed_stepE: "fed_step s e s'"

inductive fed_run :: "federation \<Rightarrow> fed_event list \<Rightarrow> federation \<Rightarrow> bool" where
  fed_nil: "fed_run s [] s"
| fed_cons: "fed_step s e s' \<Longrightarrow> fed_run s' es s'' \<Longrightarrow> fed_run s (e # es) s''"

definition fed_init :: "federation \<Rightarrow> bool" where
  "fed_init s \<longleftrightarrow> fd_pending s = [] \<and> fd_retry s = [] \<and> fd_probe s = []"

text \<open>
  The invariant: the calls in flight are distinct requests, at most 32, and the probe marks are exactly
  the targets of the calls that probe, one each.
\<close>

definition probe_keys :: "(flight \<times> call) list \<Rightarrow> target_key list" where
  "probe_keys calls = map (\<lambda>(f, c). target_key (cl_target c)) (filter (\<lambda>(f, c). cl_probe c) calls)"

definition fed_ok :: "federation \<Rightarrow> bool" where
  "fed_ok s \<longleftrightarrow> distinct (map fst (fd_pending s)) \<and> length (fd_pending s) \<le> federationMaxPending
     \<and> list_all (\<lambda>(f, c). f = flight_of (cl_target c) (cl_request c)) (fd_pending s)
     \<and> distinct (probe_keys (fd_pending s)) \<and> set (fd_probe s) = set (probe_keys (fd_pending s))"

section \<open>Facts about the machine\<close>

lemma read_state:
  assumes "federationRead now t r have gone s = (dec, s', started)"
  shows "s' = (if started then start_call t r s else s)" and "started \<Longrightarrow> may_start now t r s"
  using assms by (auto simp: federationRead_def Let_def split: if_splits option.splits)

lemma start_call_simps [simp]:
  "fd_pending (start_call t r s) = fd_pending s @ [(flight_of t r, \<lparr>cl_target = t, cl_request = r, cl_probe = known_failed s (target_key t)\<rparr>)]"
  "fd_retry (start_call t r s) = fd_retry s"
  "fd_probe (start_call t r s) = (if known_failed s (target_key t) then target_key t # fd_probe s else fd_probe s)"
  by (simp_all add: start_call_def Let_def)

lemma finish_call_simps [simp]:
  "fd_pending (finish_call now f c ok s) = AList.delete f (fd_pending s)"
  "fd_retry (finish_call now f c ok s) = (if ok then AList.delete (target_key (cl_target c)) (fd_retry s)
     else AList.update (target_key (cl_target c)) (now + federationRetryDelay) (fd_retry s))"
  "fd_probe (finish_call now f c ok s) = (if cl_probe c then removeAll (target_key (cl_target c)) (fd_probe s) else fd_probe s)"
  by (simp_all add: finish_call_def Let_def)

lemma probe_keys_simps [simp]:
  "probe_keys [] = []" "probe_keys (xs @ ys) = probe_keys xs @ probe_keys ys"
  "probe_keys ((f, c) # xs) = (if cl_probe c then [target_key (cl_target c)] else []) @ probe_keys xs"
  by (simp_all add: probe_keys_def)

lemma start_call_ok:
  assumes "fed_ok s" and "may_start now t r s"
  shows "fed_ok (start_call t r s)"
proof -
  have "flight_of t r \<notin> fst ` set (fd_pending s)" using assms(2) by (simp add: may_start_def map_of_eq_None_iff)
  with assms show ?thesis by (auto simp: fed_ok_def may_start_def)
qed

lemma delete_split:
  fixes m :: "('k \<times> 'v) list"
  assumes "map_of m k = Some v" and "distinct (map fst m)"
  obtains xs ys where "m = xs @ (k, v) # ys" and "AList.delete k m = xs @ ys"
proof -
  from map_of_SomeD [OF assms(1)] obtain xs ys where m: "m = xs @ (k, v) # ys" by (meson split_list)
  with assms(2) have k: "k \<notin> fst ` set xs" "k \<notin> fst ` set ys" by auto
  have "filter (\<lambda>(k', _). k \<noteq> k') zs = zs" if "k \<notin> fst ` set zs" for zs :: "('k \<times> 'v) list"
    using that by (intro filter_True) force
  with m k have "AList.delete k m = xs @ ys" by (simp add: AList.delete_eq)
  with m show thesis by (rule that)
qed

lemma finish_call_ok:
  assumes "fed_ok s" and "map_of (fd_pending s) f = Some c"
  shows "fed_ok (finish_call now f c ok s)"
proof -
  from assms(1) have "distinct (map fst (fd_pending s))" by (simp add: fed_ok_def)
  from delete_split [OF assms(2) this] obtain xs ys where
    m: "fd_pending s = xs @ (f, c) # ys" and d: "AList.delete f (fd_pending s) = xs @ ys" .
  show ?thesis using assms(1) unfolding fed_ok_def finish_call_simps d unfolding m by auto
qed

lemma fed_step_ok: "fed_step s e s' \<Longrightarrow> fed_ok s \<Longrightarrow> fed_ok s'"
proof (induction rule: fed_step.induct)
  case (reading now t r "have" gone s dec s' started)
  from read_state [OF reading(1)] reading(2) start_call_ok show ?case by (auto split: if_splits)
next
  case (completing s t r c now ok)
  then show ?case by (intro finish_call_ok)
qed

interpretation federation: machine fed_init "\<lambda>s s'. \<exists>e. fed_step s e s'" fed_ok
proof
  show "fed_ok s" if "fed_init s" for s
    using that by (simp add: fed_init_def fed_ok_def federationMaxPending_def)
  show "fed_ok t" if "\<exists>e. fed_step s e t" and "fed_ok s" for s t
    using that fed_step_ok by blast
qed

lemma fed_run_steps: "fed_run s es s' \<Longrightarrow> (\<lambda>s s'. \<exists>e. fed_step s e s')\<^sup>*\<^sup>* s s'"
  by (induction rule: fed_run.induct) (auto intro: converse_rtranclp_into_rtranclp)

text \<open>C11: Whatever requests arrive and however the calls end, at most 32 calls to other clusters are in
  flight, no request is sent twice at the same time, and a target known to have failed has at most
  one recovery probe over all its paths.\<close>

theorem federation_bounded:
  assumes "fed_init s" and "fed_run s es s'"
  shows "length (fd_pending s') \<le> 32 \<and> distinct (map fst (fd_pending s'))
    \<and> length (filter (\<lambda>(f, c). cl_probe c \<and> target_key (cl_target c) = k) (fd_pending s')) \<le> 1"
proof -
  have ok: "fed_ok s'" using federation.reachable_inv [OF assms(1) fed_run_steps [OF assms(2)]] .
  have eq: "length (filter (\<lambda>(f, c). cl_probe c \<and> target_key (cl_target c) = k) m) = length (filter (\<lambda>l. l = k) (probe_keys m))" for m
    by (induction m) (auto split: if_splits)
  have "length (filter (\<lambda>l. l = k) ls) \<le> 1" if "distinct ls" for ls :: "target_key list"
    using that by (induction ls) (auto simp: filter_empty_conv)
  with ok show ?thesis by (simp add: fed_ok_def federationMaxPending_def eq)
qed

text \<open>
  The cool-down of a target: between the failure of a call and the end of the delay nobody starts a call
  to it, unless another call to it, which was in flight already, succeeds.
\<close>

definition calls_to :: "target_key \<Rightarrow> federation \<Rightarrow> flight set" where
  "calls_to k s = {f \<in> fst ` set (fd_pending s). fst f = k}"

fun event_time :: "fed_event \<Rightarrow> time" where
  "event_time (Read now t r have) = now"
| "event_time (Done now t r ok) = now"

fun succeeds_for :: "target_key \<Rightarrow> fed_event \<Rightarrow> bool" where
  "succeeds_for k (Done now t r ok) \<longleftrightarrow> ok \<and> target_key t = k"
| "succeeds_for k (Read now t r have) \<longleftrightarrow> False"

lemma retry_finish:
  "retry_at (finish_call now f c ok s) k = (if k \<noteq> target_key (cl_target c) then retry_at s k
     else if ok then zero_time else now + federationRetryDelay)"
  by (simp add: retry_at_def delete_conv' AList.update_conv')

lemma cooling_step:
  assumes "fed_step s e s'" and "until \<le> retry_at s k" and "\<not> succeeds_for k e"
    and "event_time e < until" and "until \<le> event_time e + federationRetryDelay"
  shows "until \<le> retry_at s' k \<and> calls_to k s' \<subseteq> calls_to k s"
  using assms(1)
proof cases
  case (reading now t r "have" gone dec started)
  note state = read_state [OF reading(2)]
  show ?thesis
  proof (cases started)
    case True
    with state(2) have "retry_at s (target_key t) < now" by (simp add: may_start_def)
    with assms(2,4) reading(1) have "target_key t \<noteq> k" by auto
    with True state(1) assms(2) show ?thesis
      by (auto simp: retry_at_def calls_to_def flight_of_def)
  next
    case False
    with state(1) assms(2) show ?thesis by simp
  qed
next
  case (completing t r c now ok)
  have "fst ` set (AList.delete f m) \<subseteq> fst ` set m" for f and m :: "(flight \<times> call) list"
    by (auto simp: AList.delete_eq)
  then have "fst ` set (fd_pending s') \<subseteq> fst ` set (fd_pending s)" unfolding completing(2) finish_call_simps by blast
  then have "calls_to k s' \<subseteq> calls_to k s" unfolding calls_to_def by blast
  moreover have "until \<le> retry_at s' k"
    using assms(2-5) completing by (auto simp: retry_finish)
  ultimately show ?thesis by blast
qed

text \<open>After a call to another cluster has failed, no request starts a call to that cluster for five seconds,
  whatever else happens in the meantime, unless a call to it that was in flight already succeeds.\<close>

theorem federation_cooldown:
  assumes "fed_step s (Done now t r False) s1" and "fed_run s1 es s2"
    and "list_all (\<lambda>e. now \<le> event_time e \<and> event_time e < now + federationRetryDelay \<and> \<not> succeeds_for (target_key t) e) es"
  shows "calls_to (target_key t) s2 \<subseteq> calls_to (target_key t) s1"
proof -
  have "now + federationRetryDelay \<le> retry_at s1 (target_key t)"
    using assms(1) by cases (auto simp: retry_finish)
  from assms(2,3) this show ?thesis
  proof (induction rule: fed_run.induct)
    case (fed_cons s e s' es s'')
    then have "now + federationRetryDelay \<le> retry_at s' (target_key t) \<and> calls_to (target_key t) s' \<subseteq> calls_to (target_key t) s"
      by (intro cooling_step [OF fed_cons(1)]) (simp_all add: federationRetryDelay_def)
    with fed_cons show ?case by auto
  qed simp
qed

text \<open>A target with no call in flight is marked by no probe, whatever is in flight to others.\<close>

lemma idle_target:
  assumes "fed_ok s" and "calls_to (target_key t) s = {}"
  shows "target_key t \<notin> set (fd_probe s)" and "map_of (fd_pending s) (flight_of t r) = None"
proof -
  show "map_of (fd_pending s) (flight_of t r) = None"
  proof (rule ccontr)
    assume "map_of (fd_pending s) (flight_of t r) \<noteq> None"
    then have "flight_of t r \<in> fst ` set (fd_pending s)" by (simp add: map_of_eq_None_iff)
    then have "flight_of t r \<in> calls_to (target_key t) s" by (simp add: calls_to_def flight_of_def)
    with assms(2) show False by blast
  qed
  show "target_key t \<notin> set (fd_probe s)"
  proof
    assume "target_key t \<in> set (fd_probe s)"
    then obtain f c where c: "(f, c) \<in> set (fd_pending s)" "target_key (cl_target c) = target_key t"
      using assms(1) by (auto simp: fed_ok_def probe_keys_def)
    with assms(1) have "fst f = target_key t" by (auto simp: fed_ok_def list_all_iff flight_of_def)
    with c(1) have "f \<in> calls_to (target_key t) s" by (force simp: calls_to_def)
    with assms(2) show False by blast
  qed
qed

definition new_call :: "target \<Rightarrow> request \<Rightarrow> federation \<Rightarrow> call" where
  "new_call t r s = \<lparr>cl_target = t, cl_request = r, cl_probe = known_failed s (target_key t)\<rparr>"

definition stale_answer :: "time \<Rightarrow> response option \<Rightarrow> bool" where
  "stale_answer now have = (case have of None \<Rightarrow> True | Some c \<Rightarrow> federationCacheTTL \<le> now - re_fetched c)"

lemma read_starts:
  assumes "may_start now t r s" and "stale_answer now have"
  shows "fed_step s (Read now t r have) (start_call t r s)"
proof -
  have "snd (federationRead now t r have False s) = (start_call t r s, True)"
    using assms by (auto simp: federationRead_def Let_def stale_answer_def split: option.splits if_splits)
  then have "federationRead now t r have False s = (fst (federationRead now t r have False s), start_call t r s, True)"
    by (simp add: prod_eq_iff)
  then show ?thesis by (rule reading)
qed

text \<open>C17: A failed target is never locked out. Once none of its own calls is in flight and its delay is over, and
  while fewer than 32 calls are in flight to all targets together, the next request for it that finds no fresh
  answer starts a call to it, a probe if it is known to have failed, whatever calls and probes to other targets
  are in flight. Whenever that call succeeds, after whatever happened in the meantime, the target is no longer
  known to have failed; right after it the calls to others are as before, nobody else's delay has changed, and
  the next request waits for the target's answer.\<close>

theorem federation_recovers:
  assumes "fed_init s0" and "fed_run s0 es s" and "calls_to (target_key t) s = {}" and "length (fd_pending s) < 32"
    and "retry_at s (target_key t) < now" and "stale_answer now have" and "zero_time < later"
  shows "\<exists>s1. fed_step s (Read now t r have) s1 \<and> fd_pending s1 = fd_pending s @ [(flight_of t r, new_call t r s)]
    \<and> (\<forall>fs s2. fed_run s1 fs s2 \<and> map_of (fd_pending s2) (flight_of t r) = Some (new_call t r s) \<longrightarrow>
        (\<exists>s3. fed_step s2 (Done done_at t r True) s3 \<and> \<not> known_failed s3 (target_key t)))
    \<and> (\<exists>s3. fed_step s1 (Done done_at t r True) s3 \<and> fd_pending s3 = fd_pending s
        \<and> (\<forall>k. k \<noteq> target_key t \<longrightarrow> retry_at s3 k = retry_at s k)
        \<and> fst (federationRead later t r' None False s3) = Await (flight_of t r'))"
proof -
  have ok: "fed_ok s" using federation.reachable_inv [OF assms(1) fed_run_steps [OF assms(2)]] .
  note idle = idle_target [OF ok assms(3)]
  let ?s1 = "start_call t r s"
  let ?s3 = "finish_call done_at (flight_of t r) (new_call t r s) True ?s1"
  have s1: "fd_pending ?s1 = fd_pending s @ [(flight_of t r, new_call t r s)]" by (simp add: new_call_def)
  have "may_start now t r s" using assms(4,5) idle by (simp add: may_start_def federationMaxPending_def)
  from read_starts [OF this assms(6)] have reads: "fed_step s (Read now t r have) ?s1" .
  have recovers: "\<exists>s3. fed_step s2 (Done done_at t r True) s3 \<and> \<not> known_failed s3 (target_key t)"
    if "map_of (fd_pending s2) (flight_of t r) = Some (new_call t r s)" for s2
  proof -
    have "fed_step s2 (Done done_at t r True) (finish_call done_at (flight_of t r) (new_call t r s) True s2)"
      using that by (intro completing) (simp_all add: new_call_def)
    moreover have "\<not> known_failed (finish_call done_at (flight_of t r) (new_call t r s) True s2) (target_key t)"
      unfolding known_failed_def by (simp add: retry_finish new_call_def)
    ultimately show ?thesis by blast
  qed
  have ends: "fed_step ?s1 (Done done_at t r True) ?s3"
    using idle(2) [of r] by (intro completing) (simp_all add: s1 map_add_Some_iff new_call_def)
  have pending: "fd_pending ?s3 = fd_pending s"
  proof -
    have "flight_of t r \<notin> fst ` set (fd_pending s)" using idle(2) [of r] by (simp add: map_of_eq_None_iff)
    then have "filter (\<lambda>(k', _). flight_of t r \<noteq> k') (fd_pending s) = fd_pending s" by (intro filter_True) force
    then show ?thesis by (simp add: s1 AList.delete_eq)
  qed
  have retry: "retry_at ?s3 k = (if k = target_key t then zero_time else retry_at s k)" for k
    by (simp add: retry_finish new_call_def) (simp add: retry_at_def)
  have "target_key t \<notin> set (fd_probe ?s3)" using idle(1) by (auto simp: new_call_def)
  then have "may_start later t r' ?s3"
    using pending idle(2) [of r'] assms(4,7) retry by (simp add: may_start_def federationMaxPending_def)
  with retry have waits: "fst (federationRead later t r' None False ?s3) = Await (flight_of t r')"
    by (simp add: federationRead_def Let_def known_failed_def)
  have others: "\<forall>k. k \<noteq> target_key t \<longrightarrow> retry_at ?s3 k = retry_at s k" using retry by simp
  from ends pending others waits have "\<exists>s3. fed_step ?s1 (Done done_at t r True) s3 \<and> fd_pending s3 = fd_pending s
        \<and> (\<forall>k. k \<noteq> target_key t \<longrightarrow> retry_at s3 k = retry_at s k)
        \<and> fst (federationRead later t r' None False s3) = Await (flight_of t r')" by blast
  with reads s1 recovers show ?thesis by blast
qed

section \<open>A target that fails\<close>

definition sample_target :: target where
  "sample_target = \<lparr>tg_name = ''b'', tg_url = ''https://b''\<rparr>"

definition sample_request :: request where
  "sample_request = \<lparr>rq_method = ''GET'', rq_path = ''/api/v1/status'', rq_body = []\<rparr>"

definition idle_federation :: federation where
  "idle_federation = \<lparr>fd_pending = [], fd_retry = [], fd_probe = []\<rparr>"

definition sample_started :: federation where
  "sample_started = start_call sample_target sample_request idle_federation"

definition sample_failed :: federation where
  "sample_failed = finish_call (seconds 1) (flight_of sample_target sample_request)
     \<lparr>cl_target = sample_target, cl_request = sample_request, cl_probe = False\<rparr> False sample_started"

lemma idle_init: "fed_init idle_federation"
  by (simp add: fed_init_def idle_federation_def)

lemma idle_unknown: "\<not> known_failed idle_federation k"
  by (simp add: known_failed_def retry_at_def idle_federation_def)

lemma sample_pending: "fd_pending sample_started = [(flight_of sample_target sample_request,
    \<lparr>cl_target = sample_target, cl_request = sample_request, cl_probe = False\<rparr>)]"
  by (simp add: sample_started_def idle_unknown) (simp add: idle_federation_def)

lemma sample_steps:
  "fed_step idle_federation (Read 0 sample_target sample_request None) sample_started"
  "fed_step sample_started (Done (seconds 1) sample_target sample_request False) sample_failed"
proof -
  have "may_start 0 sample_target sample_request idle_federation"
    by (simp add: may_start_def idle_federation_def retry_at_def zero_time_def federationMaxPending_def)
  then have "federationRead 0 sample_target sample_request None False idle_federation
      = (Await (flight_of sample_target sample_request), sample_started, True)"
    by (simp add: federationRead_def Let_def idle_unknown sample_started_def)
  then show "fed_step idle_federation (Read 0 sample_target sample_request None) sample_started" by (rule reading)
  show "fed_step sample_started (Done (seconds 1) sample_target sample_request False) sample_failed"
    unfolding sample_failed_def by (rule completing) (simp_all add: sample_pending)
qed

lemma sample_run: "fed_run idle_federation [Read 0 sample_target sample_request None,
    Done (seconds 1) sample_target sample_request False] sample_failed"
  by (intro fed_cons [OF sample_steps(1)] fed_cons [OF sample_steps(2)] fed_nil)

lemma federation_bounded_witness: "length (fd_pending sample_failed) \<le> 32"
  using federation_bounded [OF idle_init sample_run] by blast

lemma sample_failed_state: "fd_pending sample_failed = []" "retry_at sample_failed (target_key sample_target) = seconds 6"
  by (simp_all add: sample_failed_def sample_pending retry_finish federationRetryDelay_def)

lemma federation_cooldown_witness: "calls_to (target_key sample_target) sample_failed \<subseteq> {}"
proof -
  have "calls_to (target_key sample_target) sample_failed = {}" by (simp add: calls_to_def sample_failed_state(1))
  with federation_cooldown [OF sample_steps(2) fed_nil] show ?thesis by simp
qed

text \<open>The failed target recovers while a call to another one is in flight.\<close>

definition other_target :: target where
  "other_target = \<lparr>tg_name = ''c'', tg_url = ''https://c''\<rparr>"

definition sample_busy :: federation where
  "sample_busy = start_call other_target sample_request sample_failed"

lemma sample_busy_state: "fd_pending sample_busy = [(flight_of other_target sample_request,
    \<lparr>cl_target = other_target, cl_request = sample_request, cl_probe = False\<rparr>)]"
  "retry_at sample_busy (target_key sample_target) = seconds 6"
proof -
  have retry: "fd_retry sample_failed = [(target_key sample_target, seconds 6)]"
    by (simp add: sample_failed_def sample_started_def start_call_def idle_federation_def federationRetryDelay_def Let_def)
  then have "\<not> known_failed sample_failed (target_key other_target)"
    by (simp add: known_failed_def retry_at_def target_key_def sample_target_def other_target_def)
  then show "fd_pending sample_busy = [(flight_of other_target sample_request,
    \<lparr>cl_target = other_target, cl_request = sample_request, cl_probe = False\<rparr>)]"
    by (simp add: sample_busy_def sample_failed_state(1))
  show "retry_at sample_busy (target_key sample_target) = seconds 6"
    using sample_failed_state(2) by (simp add: sample_busy_def retry_at_def)
qed

lemma sample_busy_run: "fed_run idle_federation [Read 0 sample_target sample_request None,
    Done (seconds 1) sample_target sample_request False, Read (seconds 2) other_target sample_request None] sample_busy"
proof -
  have "fd_retry sample_failed = [(target_key sample_target, seconds 6)]" "fd_probe sample_failed = []"
    by (simp_all add: sample_failed_def sample_started_def start_call_def idle_federation_def federationRetryDelay_def Let_def
        idle_unknown [unfolded idle_federation_def])
  then have "may_start (seconds 2) other_target sample_request sample_failed"
    by (simp add: may_start_def sample_failed_state(1) retry_at_def federationMaxPending_def target_key_def sample_target_def
        other_target_def zero_time_def)
  from read_starts [OF this, of None] have "fed_step sample_failed (Read (seconds 2) other_target sample_request None) sample_busy"
    by (simp add: sample_busy_def stale_answer_def)
  then show ?thesis by (rule fed_cons [OF sample_steps(1) fed_cons [OF sample_steps(2) fed_cons [OF _ fed_nil]]])
qed

lemma federation_recovers_witness:
  "length (fd_pending sample_busy) = 1
   \<and> (\<exists>s1 s3. fed_step sample_busy (Read (seconds 7) sample_target sample_request None) s1
    \<and> fed_step s1 (Done (seconds 8) sample_target sample_request True) s3 \<and> fd_pending s3 = fd_pending sample_busy)"
proof -
  have idle: "calls_to (target_key sample_target) sample_busy = {}"
    by (auto simp: calls_to_def sample_busy_state(1) flight_of_def target_key_def sample_target_def other_target_def)
  have rest: "length (fd_pending sample_busy) < 32" "retry_at sample_busy (target_key sample_target) < seconds 7"
    "stale_answer (seconds 7) None" "zero_time < 0"
    by (simp_all add: sample_busy_state stale_answer_def zero_time_def)
  from federation_recovers [OF idle_init sample_busy_run idle rest, of sample_request "seconds 8"]
  have "\<exists>s1 s3. fed_step sample_busy (Read (seconds 7) sample_target sample_request None) s1
    \<and> fed_step s1 (Done (seconds 8) sample_target sample_request True) s3 \<and> fd_pending s3 = fd_pending sample_busy" by blast
  moreover have "length (fd_pending sample_busy) = 1" unfolding sample_busy_state(1) by simp
  ultimately show ?thesis by blast
qed

end
