(* ===== verification/Base64.thy ===== *)
theory Base64
  imports GoStrings
begin

text \<open>
  \<open>base64.RawURLEncoding\<close> of the standard library, which \<open>internal/v2/store/store.go\<close> wraps its cursors in: six bits a
  character, no padding. The decoder skips line breaks, as Go's does, and ignores the unused bits of
  the last character.
\<close>

definition b64_alphabet :: string where
  "b64_alphabet = ''ABCDEFGHIJKLMNOPQRSTUVWXYZabcdefghijklmnopqrstuvwxyz0123456789-_''"

definition b64_char :: "nat \<Rightarrow> char" where
  "b64_char n = b64_alphabet ! n"

definition b64_value :: "char \<Rightarrow> nat option" where
  "b64_value c = map_of (zip b64_alphabet [0..<64]) c"

fun sextets :: "nat list \<Rightarrow> nat list" where
  "sextets [] = []"
| "sextets [a] = [a div 4, a mod 4 * 16]"
| "sextets [a, b] = [a div 4, a mod 4 * 16 + b div 16, b mod 16 * 4]"
| "sextets (a # b # c # s) = a div 4 # (a mod 4 * 16 + b div 16) # (b mod 16 * 4 + c div 64) # c mod 64 # sextets s"

definition b64_encode :: "string \<Rightarrow> string" where
  "b64_encode s = map b64_char (sextets (map of_char s))"

fun octets :: "nat list \<Rightarrow> nat list option" where
  "octets [] = Some []"
| "octets [a] = None"
| "octets [a, b] = Some [a * 4 + b div 16]"
| "octets [a, b, c] = Some [a * 4 + b div 16, b mod 16 * 16 + c div 4]"
| "octets (a # b # c # d # s) =
     map_option (\<lambda>r. (a * 4 + b div 16) # (b mod 16 * 16 + c div 4) # (c mod 4 * 64 + d) # r) (octets s)"

definition line_break :: "char \<Rightarrow> bool" where
  "line_break c \<longleftrightarrow> c = CHR 0x0A \<or> c = CHR 0x0D"

definition b64_decode :: "string \<Rightarrow> string option" where
  "b64_decode s =
     (let cs = map b64_value (filter (Not \<circ> line_break) s)
      in if None \<in> set cs then None else map_option (map char_of) (octets (map the cs)))"

section \<open>Reading back\<close>

lemma b64_chars: "list_all (\<lambda>n. b64_value (b64_char n) = Some n \<and> \<not> line_break (b64_char n)) [0..<64]"
  by code_simp

lemma b64_char_value:
  assumes "n < 64"
  shows "b64_value (b64_char n) = Some n" and "\<not> line_break (b64_char n)"
  using b64_chars assms by (auto simp: list_all_iff)

lemma of_char_less [simp]: "(of_char c :: nat) < 256"
  by (metis char_of_mod_256 mod_less_divisor of_char_mod_256 of_char_of zero_less_numeral)

lemma pack_bits:
  fixes x y n k :: nat
  assumes "x < k" and "y < n"
  shows "x + y * k < n * k" and "(y * k + x) div k = y" and "(y * k + x) mod k = x"
proof -
  have "(y + 1) * k \<le> n * k" using assms(2) by (intro mult_le_mono1) simp
  with assms(1) show "x + y * k < n * k" by simp
  show "(y * k + x) div k = y" "(y * k + x) mod k = x" using assms(1) by simp_all
qed

lemma split_byte:
  fixes a b :: nat
  assumes "b < 256"
  shows "a mod 4 * 16 + b div 16 < 64" and "(a mod 4 * 16 + b div 16) div 16 = a mod 4" and "(a mod 4 * 16 + b div 16) mod 16 = b div 16"
proof -
  have "b div 16 < 16" using assms by (intro less_mult_imp_div_less) simp
  from pack_bits [OF this, of "a mod 4" 4]
  show "a mod 4 * 16 + b div 16 < 64" "(a mod 4 * 16 + b div 16) div 16 = a mod 4" "(a mod 4 * 16 + b div 16) mod 16 = b div 16"
    by (simp_all add: add.commute)
qed

lemma split_nibble:
  fixes b c :: nat
  assumes "c < 256"
  shows "b mod 16 * 4 + c div 64 < 64" and "(b mod 16 * 4 + c div 64) div 4 = b mod 16" and "(b mod 16 * 4 + c div 64) mod 4 = c div 64"
proof -
  have "c div 64 < 4" using assms by (intro less_mult_imp_div_less) simp
  from pack_bits [OF this, of "b mod 16" 16]
  show "b mod 16 * 4 + c div 64 < 64" "(b mod 16 * 4 + c div 64) div 4 = b mod 16" "(b mod 16 * 4 + c div 64) mod 4 = c div 64"
    by (simp_all add: add.commute)
qed

lemma sextets_less: "list_all (\<lambda>a. a < 256) s \<Longrightarrow> list_all (\<lambda>n. n < 64) (sextets s)"
  by (induction s rule: sextets.induct) (auto simp: split_byte split_nibble)

lemma octets_sextets: "list_all (\<lambda>a. a < 256) s \<Longrightarrow> octets (sextets s) = Some s"
  by (induction s rule: sextets.induct) (auto simp: split_byte split_nibble)

lemma length_sextets: "length (sextets s) = (4 * length s + 2) div 3"
  by (induction s rule: sextets.induct) auto

lemma length_b64_encode: "length (b64_encode s) = (4 * length s + 2) div 3"
  by (simp add: b64_encode_def length_sextets)

lemma b64_encode_chars:
  assumes "c \<in> set (b64_encode s)"
  obtains n where "n < 64" "c = b64_char n"
proof -
  have "list_all (\<lambda>n. n < 64) (sextets (map of_char s))"
    by (rule sextets_less) (simp add: list_all_iff)
  with assms show ?thesis using that by (auto simp: b64_encode_def list_all_iff)
qed

lemma b64_roundtrip [simp]: "b64_decode (b64_encode s) = Some s"
proof -
  let ?ns = "sextets (map of_char s) :: nat list"
  have bytes: "list_all (\<lambda>a. a < 256) (map of_char s :: nat list)" by (simp add: list_all_iff)
  then have ns: "n < 64" if "n \<in> set ?ns" for n using sextets_less [OF bytes] that by (auto simp only: list_all_iff)
  then have "filter (Not \<circ> line_break) (b64_encode s) = b64_encode s"
    by (simp add: filter_id_conv b64_encode_def b64_char_value)
  moreover have "map b64_value (b64_encode s) = map Some ?ns" using ns by (simp add: b64_encode_def b64_char_value)
  ultimately show ?thesis
    using octets_sextets [OF bytes] by (auto simp: b64_decode_def Let_def comp_def)
qed

end
