(* ===== verification/Query.thy ===== *)
theory Query
  imports Listing
begin

text \<open>
  What the handlers of \<open>internal/v2/api/server.go\<close> check of a request before they touch the store: numbers,
  query parameters, label selectors, names and cursors, with the parts of \<open>strconv\<close>, \<open>strings\<close> and
  \<open>net/url\<close> they use.
\<close>

section \<open>Numbers\<close>

definition digit :: "char \<Rightarrow> bool" where
  "digit c \<longleftrightarrow> CHR ''0'' \<le> c \<and> c \<le> CHR ''9''"

definition letter :: "char \<Rightarrow> bool" where
  "letter c \<longleftrightarrow> CHR ''A'' \<le> c \<and> c \<le> CHR ''Z'' \<or> CHR ''a'' \<le> c \<and> c \<le> CHR ''z''"

text \<open>\<open>strconv.ParseInt\<close> in base 10 with 64 bits, and \<open>Atoi\<close>: a sign, digits, no overflow.\<close>

definition parse_digits :: "string \<Rightarrow> nat option" where
  "parse_digits s = (if s = [] \<or> \<not> list_all digit s then None else Some (digits_val s))"

definition ParseInt :: "string \<Rightarrow> int option" where
  "ParseInt s =
     (case (case s of [] \<Rightarrow> (False, []) | c # r \<Rightarrow> if c = CHR ''-'' then (True, r) else if c = CHR ''+'' then (False, r) else (False, s)) of
        (neg, ds) \<Rightarrow> (case parse_digits ds of None \<Rightarrow> None
          | Some n \<Rightarrow> if neg then (if n \<le> 2 ^ 63 then Some (- int n) else None)
                      else if n < 2 ^ 63 then Some (int n) else None))"

lemma digit_char: "n < 10 \<Longrightarrow> digit (char_of (48 + n :: nat))"
  by (simp add: digit_def less_eq_char_def of_char_digit)

lemma digits_nat_str: "list_all digit (nat_str n)"
proof (induction n rule: nat_str.induct)
  case (1 n)
  show ?case
  proof (cases "n < 10")
    case True
    then show ?thesis by (subst nat_str.simps) (simp add: digit_char)
  next
    case False
    with 1 show ?thesis by (subst nat_str.simps) (simp add: digit_char)
  qed
qed

text \<open>Printing and parsing: the cursors and sequence numbers the API hands out are read back exactly.\<close>

lemma ParseInt_int_str: "- (2 ^ 63) \<le> i \<Longrightarrow> i < 2 ^ 63 \<Longrightarrow> ParseInt (int_str i) = Some i"
proof -
  assume range: "- (2 ^ 63) \<le> i" "i < 2 ^ 63"
  have digits: "parse_digits (nat_str n) = Some n" for n
    by (simp add: parse_digits_def digits_nat_str)
  show ?thesis
  proof (cases "i < 0")
    case True
    with range digits [of "nat (- i)"] show ?thesis by (auto simp: int_str_def ParseInt_def)
  next
    case False
    obtain c r where s: "nat_str (nat i) = c # r" by (cases "nat_str (nat i)") auto
    with digits_nat_str [of "nat i"] have "digit c" by simp
    then have "c \<noteq> CHR ''-''" "c \<noteq> CHR ''+''" by (auto simp: digit_def)
    with False range s digits [of "nat i"] show ?thesis by (simp add: int_str_def ParseInt_def)
  qed
qed

section \<open>Splitting\<close>

text \<open>\<open>strings.SplitN(s, d, 2)\<close>: the text before the first \<open>d\<close> and, if there is one, the rest.\<close>

fun split_two :: "char \<Rightarrow> string \<Rightarrow> string \<times> string option" where
  "split_two d [] = ([], None)"
| "split_two d (c # s) = (if c = d then ([], Some s) else case split_two d s of (p, r) \<Rightarrow> (c # p, r))"

definition parseLabels :: "string \<Rightarrow> (string, string) gomap option" where
  "parseLabels v =
     (if TrimSpace v = [] then Some []
      else foldl (\<lambda>out part. case out of None \<Rightarrow> None
          | Some m \<Rightarrow> (case split_two (CHR ''='') (TrimSpace part) of
              (k, Some w) \<Rightarrow> if k = [] then None else Some (AList.update k w m)
            | (_, None) \<Rightarrow> None)) (Some []) (split_char (CHR '','') v))"

section \<open>Query parameters\<close>

type_synonym url_values = "(string \<times> string list) list"

definition Get :: "url_values \<Rightarrow> string \<Rightarrow> string" where
  "Get q k = (case map_of q k of None \<Rightarrow> [] | Some [] \<Rightarrow> [] | Some (v # _) \<Rightarrow> v)"

definition name_char :: "char \<Rightarrow> bool" where
  "name_char c \<longleftrightarrow> letter c \<or> digit c \<or> c \<in> set ''_.-''"

text \<open>The patterns \<open>^[A-Za-z0-9_.-]+$\<close>, \<open>^[A-Za-z][A-Za-z0-9]*$\<close> and \<open>^[A-Za-z0-9_-]+$\<close>.\<close>

definition cluster_pattern :: "string \<Rightarrow> bool" where
  "cluster_pattern s \<longleftrightarrow> s \<noteq> [] \<and> list_all name_char s"

definition api_kind_pattern :: "string \<Rightarrow> bool" where
  "api_kind_pattern s = (case s of [] \<Rightarrow> False | c # r \<Rightarrow> letter c \<and> list_all (\<lambda>c. letter c \<or> digit c) r)"

definition base64url_pattern :: "string \<Rightarrow> bool" where
  "base64url_pattern s \<longleftrightarrow> s \<noteq> [] \<and> list_all (\<lambda>c. letter c \<or> digit c \<or> c \<in> set ''_-'') s"

definition has_nul :: "string \<Rightarrow> bool" where
  "has_nul s \<longleftrightarrow> CHR 0x00 \<in> set s"

definition list_maximums :: "(string \<times> nat) list" where
  "list_maximums = [(''hideZeroReplicaSets'', 5), (''cluster'', 253), (''group'', 512), (''version'', 512), (''kind'', 128),
     (''namespace'', 253), (''name'', 512), (''namePrefix'', 512), (''namePattern'', 512), (''eventForUID'', 512),
     (''labels'', 4096), (''state'', 8), (''limit'', 4), (''order'', 2), (''cursor'', 4096), (''ownerUID'', 512)]"

definition bad_parameter :: "url_values \<Rightarrow> string \<times> nat \<Rightarrow> bool" where
  "bad_parameter q nm = (case map_of q (fst nm) of None \<Rightarrow> False
     | Some vs \<Rightarrow> length vs > 1 \<or> length vs = 1 \<and> (length (hd vs) > snd nm \<or> has_nul (hd vs)))"

datatype query_error = InvalidParameter string | LimitOutOfRange

definition state_names :: "string list" where
  "state_names = [''ok'', ''warning'', ''critical'', ''unknown'']"

definition validateResourceListQuery :: "url_values \<Rightarrow> query_error option" where
  "validateResourceListQuery q =
     (case find (bad_parameter q) list_maximums of Some (n, _) \<Rightarrow> Some (InvalidParameter n)
      | None \<Rightarrow>
        if Get q ''hideZeroReplicaSets'' \<notin> {[], ''true'', ''false''} then Some (InvalidParameter ''hideZeroReplicaSets'')
        else if Get q ''cluster'' \<noteq> [] \<and> \<not> cluster_pattern (Get q ''cluster'') then Some (InvalidParameter ''cluster'')
        else if Get q ''state'' \<noteq> [] \<and> Get q ''state'' \<notin> set state_names then Some (InvalidParameter ''state'')
        else if Get q ''limit'' \<noteq> [] then
          (case ParseInt (Get q ''limit'') of None \<Rightarrow> Some LimitOutOfRange
           | Some n \<Rightarrow> if n < 1 \<or> n > 1000 then Some LimitOutOfRange else None)
        else None)"

section \<open>Selectors, names and sequences\<close>

datatype selector_error = SelectorField | SelectorLabels | SelectorStates | SelectorAggregation

fun bad_states :: "string list \<Rightarrow> string list \<Rightarrow> bool" where
  "bad_states seen [] = False"
| "bad_states seen (s # ss) = (s \<in> set seen \<or> \<not> known_state s \<or> bad_states (s # seen) ss)"

definition validateSelectorRequest :: "selector \<Rightarrow> selector_error option" where
  "validateSelectorRequest s =
     (if list_ex (\<lambda>v. length v > 512 \<or> has_nul v)
        [sel_cluster s, sel_group s, sel_version s, sel_kind s, sel_namespace s, sel_name s, sel_owner_uid s] then Some SelectorField
      else if length (sel_labels s) > 4096 \<or> has_nul (sel_labels s) then Some SelectorLabels
      else if length (sel_states s) > 4 \<or> bad_states [] (sel_states s) then Some SelectorStates
      else if sel_aggregation s \<notin> {[], ''and'', ''or'', ''worst''} then Some SelectorAggregation
      else None)"

definition validProcessName :: "string \<Rightarrow> bool" where
  "validProcessName s \<longleftrightarrow> s \<noteq> [] \<and> length s \<le> 255 \<and> list_all name_char s"

text \<open>The sequence to resume from, or \<open>None\<close> to start at the end; an error is \<open>Inl\<close>.\<close>

definition parseEventSequence :: "string \<Rightarrow> unit + int option" where
  "parseEventSequence header =
     (if header = [] then Inr None
      else case ParseInt header of None \<Rightarrow> Inl () | Some n \<Rightarrow> if n < 0 then Inl () else Inr (Some n))"

end
