(* ===== verification/JsonReader.thy ===== *)
theory JsonReader
  imports Query
begin

text \<open>
  \<open>json.Unmarshal\<close> of the standard library, as the code uses it on cursors and documents: the scanner with its
  nesting limit and the decoding of strings, where an ill-formed byte or half a surrogate pair becomes U+FFFD.
  A number with a fraction or an exponent is kept as its text. What the encoder of \<open>Json\<close> writes is read back.
\<close>

section \<open>Strings\<close>

definition hex_value :: "char \<Rightarrow> nat option" where
  "hex_value c = (let n = of_char c in
     if 48 \<le> n \<and> n \<le> 57 then Some (n - 48) else if 97 \<le> n \<and> n \<le> 102 then Some (n - 87)
     else if 65 \<le> n \<and> n \<le> 70 then Some (n - 55) else None)"

definition hex4 :: "string \<Rightarrow> (nat \<times> string) option" where
  "hex4 s = (case s of a # b # c # d # t \<Rightarrow>
       (case (hex_value a, hex_value b, hex_value c, hex_value d) of
          (Some w, Some x, Some y, Some z) \<Rightarrow> Some (w * 4096 + x * 256 + y * 16 + z, t) | _ \<Rightarrow> None)
     | _ \<Rightarrow> None)"

definition encode_rune :: "nat \<Rightarrow> string" where
  "encode_rune n = map char_of
     (if n < 0x80 then [n] else if n < 0x800 then [0xC0 + n div 64, 0x80 + n mod 64]
      else if n < 0x10000 then [0xE0 + n div 4096, 0x80 + n div 64 mod 64, 0x80 + n mod 64]
      else [0xF0 + n div 262144, 0x80 + n div 4096 mod 64, 0x80 + n div 64 mod 64, 0x80 + n mod 64])"

definition replacement_rune :: string where "replacement_rune = [CHR 0xEF, CHR 0xBF, CHR 0xBD]"

text \<open>The second half of a surrogate pair, if the text goes on with one.\<close>

definition low_half :: "string \<Rightarrow> (nat \<times> string) option" where
  "low_half s = (case s of b # u # t \<Rightarrow> if b = backslash \<and> u = CHR ''u'' then hex4 t else None | _ \<Rightarrow> None)"

definition unicode_escape :: "string \<Rightarrow> (string \<times> string) option" where
  "unicode_escape s = (case hex4 s of None \<Rightarrow> None | Some (n, t) \<Rightarrow>
     if 0xD800 \<le> n \<and> n < 0xE000 then
       (case low_half t of
          Some (m, u) \<Rightarrow> if n < 0xDC00 \<and> 0xDC00 \<le> m \<and> m < 0xE000
            then Some (encode_rune ((n - 0xD800) * 1024 + (m - 0xDC00) + 0x10000), u) else Some (replacement_rune, t)
        | None \<Rightarrow> Some (replacement_rune, t))
     else Some (encode_rune n, t))"

definition simple_escape :: "char \<Rightarrow> char option" where
  "simple_escape c = (if c \<in> {CHR 0x22, backslash, CHR ''/''} then Some c
     else if c = CHR ''b'' then Some (CHR 0x08) else if c = CHR ''f'' then Some (CHR 0x0C)
     else if c = CHR ''n'' then Some (CHR 0x0A) else if c = CHR ''r'' then Some (CHR 0x0D)
     else if c = CHR ''t'' then Some (CHR 0x09) else None)"

definition escape_at :: "string \<Rightarrow> (string \<times> string) option" where
  "escape_at s = (case s of [] \<Rightarrow> None | e # t \<Rightarrow>
     if e = CHR ''u'' then unicode_escape t else map_option (\<lambda>c. ([c], t)) (simple_escape e))"

definition prepend :: "string \<Rightarrow> (string \<times> string) option \<Rightarrow> (string \<times> string) option" where
  "prepend p r = map_option (\<lambda>(s, t). (p @ s, t)) r"

text \<open>After the opening quote: the value of the string and the text after its closing quote.\<close>

function read_string :: "string \<Rightarrow> (string \<times> string) option" where
  "read_string [] = None"
| "read_string (c # s) =
     (if c = CHR 0x22 then Some ([], s)
      else if c = backslash then (case escape_at s of None \<Rightarrow> None | Some (r, t) \<Rightarrow> prepend r (read_string t))
      else if of_char c < (0x20 :: nat) then None
      else case rune_len (c # s) of None \<Rightarrow> prepend replacement_rune (read_string s)
        | Some n \<Rightarrow> prepend (take n (c # s)) (read_string (drop n (c # s))))"
  by pat_completeness auto

lemma hex4_shorter: "hex4 s = Some (n, t) \<Longrightarrow> length t < length s"
  by (auto simp: hex4_def split: list.splits option.splits)

lemma low_half_shorter: "low_half s = Some (n, t) \<Longrightarrow> length t < length s"
  by (auto simp: low_half_def dest: hex4_shorter split: list.splits if_splits)

lemma escape_shorter: "escape_at s = Some (r, t) \<Longrightarrow> length t < length s"
  by (fastforce simp: escape_at_def unicode_escape_def dest: hex4_shorter low_half_shorter
      split: list.splits option.splits if_splits prod.splits)

termination read_string
  by (relation "measure length") (auto dest: escape_shorter rune_len_pos simp del: rune_len.simps)

declare read_string.simps(2) [simp del]

lemma read_string_shorter: "read_string s = Some (v, t) \<Longrightarrow> length t < length s"
proof (induction s arbitrary: v t rule: read_string.induct)
  case (2 c s)
  show ?case
    using "2.prems" "2.IH" escape_shorter [of s] rune_len_pos [of "c # s"]
    by (subst (asm) read_string.simps)
      (fastforce simp: prepend_def simp del: rune_len.simps split: if_splits option.splits prod.splits)
qed simp

text \<open>Every character the encoder escapes is read back.\<close>

lemma prepend_simps [simp]:
  "prepend p None = None" "prepend p (Some (s, t)) = Some (p @ s, t)" "prepend p (prepend q r) = prepend (p @ q) r"
  by (cases r; simp add: prepend_def split: prod.splits)+

lemma hex_value_digit [simp]: "n < 16 \<Longrightarrow> hex_value (hex_digit n) = Some n"
  by (simp add: hex_value_def hex_digit_def Let_def of_char_mod_256)

lemma hex4_byte: "n < 256 \<Longrightarrow> hex4 (''00'' @ hex_byte (word_of_nat n) @ t) = Some (n, t)"
  by (simp add: hex4_def hex_byte_def unat_of_nat take_bit_eq_mod less_mult_imp_div_less hex_value_def [of "CHR ''0''"])

lemma char_of_low: "of_char c < (0x80 :: nat) \<Longrightarrow> encode_rune (of_char c) = [c]"
  by (simp add: encode_rune_def)

lemma separators: "encode_rune 8232 = [CHR 0xE2, CHR 0x80, CHR 0xA8]" "encode_rune 8233 = [CHR 0xE2, CHR 0x80, CHR 0xA9]"
  by (simp_all add: encode_rune_def char_of_def bit_0)

lemma read_ascii:
  assumes "of_char c < (0x80 :: nat)"
  shows "read_string (escape_ascii c @ t) = prepend [c] (read_string t)"
proof -
  let ?u = "of_char c < (0x20 :: nat) \<or> html_unsafe c"
  have esc: "read_string (backslash # e # t) = prepend [d] (read_string t)" if "simple_escape e = Some d" "e \<noteq> CHR ''u''" for e d
    using that by (subst read_string.simps) (simp add: escape_at_def backslash_def)
  have hex: "read_string (backslash # CHR ''u'' # ''00'' @ hex_byte (word_of_nat (of_char c)) @ t) = prepend [c] (read_string t)"
    using assms hex4_byte [of "of_char c" t] char_of_low [OF assms]
    by (subst read_string.simps) (simp add: escape_at_def unicode_escape_def backslash_def)
  have plain: "read_string (c # t) = prepend [c] (read_string t)" if "c \<noteq> CHR 0x22" "c \<noteq> backslash" "\<not> ?u"
    using that assms by (subst read_string.simps) (simp add: byte_in_def)
  note e = simple_escape_def backslash_def
  consider "c = CHR 0x22 \<or> c = backslash" | "c = CHR 0x08" | "c = CHR 0x0C" | "c = CHR 0x0A" | "c = CHR 0x0D" | "c = CHR 0x09"
    | "c \<notin> {CHR 0x22, backslash, CHR 0x08, CHR 0x0C, CHR 0x0A, CHR 0x0D, CHR 0x09}" "?u"
    | "c \<notin> {CHR 0x22, backslash, CHR 0x08, CHR 0x0C, CHR 0x0A, CHR 0x0D, CHR 0x09}" "\<not> ?u" by blast
  then show ?thesis
  proof cases
    case 1
    then show ?thesis using esc [of c c] by (auto simp: escape_ascii_def e)
  next
    case 2
    then show ?thesis using esc [of "CHR ''b''" c] by (simp add: escape_ascii_def e)
  next
    case 3
    then show ?thesis using esc [of "CHR ''f''" c] by (simp add: escape_ascii_def e)
  next
    case 4
    then show ?thesis using esc [of "CHR ''n''" c] by (simp add: escape_ascii_def e)
  next
    case 5
    then show ?thesis using esc [of "CHR ''r''" c] by (simp add: escape_ascii_def e)
  next
    case 6
    then show ?thesis using esc [of "CHR ''t''" c] by (simp add: escape_ascii_def e)
  next
    case 7
    then have "escape_ascii c = backslash # CHR ''u'' # ''00'' @ hex_byte (word_of_nat (of_char c))"
      unfolding escape_ascii_def by simp
    then show ?thesis using hex by simp
  next
    case 8
    then have "escape_ascii c = [c]" unfolding escape_ascii_def by simp
    then show ?thesis using 8 plain by simp
  qed
qed

lemma read_rune:
  assumes "rune_len s = Some n" and "0x80 \<le> (of_char (hd s) :: nat)"
  shows "read_string (escape_rune (take n s) @ t) = prepend (take n s) (read_string t)"
proof -
  have sep: "read_string (backslash # ''u202'' @ e # t) = prepend [CHR 0xE2, CHR 0x80, d] (read_string t)"
    if "(e, d) \<in> {(CHR ''8'', CHR 0xA8), (CHR ''9'', CHR 0xA9)}" for e d
    using that by (subst read_string.simps)
      (auto simp: escape_at_def unicode_escape_def backslash_def hex4_def hex_value_def separators)
  have n: "0 < n" "n \<le> length s" using rune_len_pos [OF assms(1)] by simp_all
  obtain c r where s: "take n s = c # r" "hd s = c" using n by (cases s; cases n) auto
  have "rune_len (take n s @ t) = Some n" by (rule rune_len_append [OF rune_len_take [OF assms(1)]]) simp
  moreover have "c \<noteq> CHR 0x22" "c \<noteq> backslash" "\<not> of_char c < (0x20 :: nat)"
    using assms(2) s(2) by (auto simp: backslash_def)
  moreover have "take n (take n s @ t) = take n s" "drop n (take n s @ t) = t" using n(2) by simp_all
  ultimately have "read_string (take n s @ t) = prepend (take n s) (read_string t)"
    unfolding s(1) append_Cons by (subst read_string.simps) (simp del: rune_len.simps)
  then show ?thesis using sep [of "CHR ''8''" "CHR 0xA8"] sep [of "CHR ''9''" "CHR 0xA9"] by (auto simp: escape_rune_def)
qed

lemma read_escaped: "valid_utf8 s \<Longrightarrow> read_string (json_escape s @ CHR 0x22 # t) = Some (s, t)"
proof (induction s rule: json_escape.induct)
  case (1 s)
  show ?case
  proof (cases s)
    case Nil
    then show ?thesis by (simp add: json_escape.simps [of "[]"] read_string.simps)
  next
    case (Cons c r)
    from 1(4) obtain n where n: "rune_len s = Some n" "valid_utf8 (drop n s)"
      by (subst (asm) valid_utf8.simps) (auto simp: Cons simp del: rune_len.simps split: option.splits)
    show ?thesis
    proof (cases "of_char c < (0x80 :: nat)")
      case True
      with n Cons have "n = 1" by (simp add: byte_in_def)
      with n(2) 1(1) [OF Cons True] show ?thesis
        by (subst json_escape.simps) (simp add: Cons True read_ascii)
    next
      case False
      from 1(3) [OF Cons False n] have "read_string (json_escape (drop n s) @ CHR 0x22 # t) = Some (drop n s, t)" .
      with read_rune [OF n(1), of "json_escape (drop n s) @ CHR 0x22 # t"] False n(1) show ?thesis
        by (subst json_escape.simps) (simp add: Cons del: rune_len.simps)
    qed
  qed
qed

section \<open>Numbers\<close>

definition fraction_part :: "string \<Rightarrow> (string \<times> string) option" where
  "fraction_part s = (case s of c # t \<Rightarrow>
       if c = CHR ''.'' then (if takeWhile digit t = [] then None else Some (c # takeWhile digit t, dropWhile digit t)) else Some ([], s)
     | [] \<Rightarrow> Some ([], []))"

definition exponent_part :: "string \<Rightarrow> (string \<times> string) option" where
  "exponent_part s = (case s of c # t \<Rightarrow>
       if c = CHR ''e'' \<or> c = CHR ''E'' then
         (case (case t of g # u \<Rightarrow> if g = CHR ''+'' \<or> g = CHR ''-'' then ([g], u) else ([], t) | [] \<Rightarrow> ([], [])) of (sign, u) \<Rightarrow>
            if takeWhile digit u = [] then None else Some (c # sign @ takeWhile digit u, dropWhile digit u))
       else Some ([], s)
     | [] \<Rightarrow> Some ([], []))"

definition integer_part :: "string \<Rightarrow> (string \<times> string) option" where
  "integer_part s = (case s of [] \<Rightarrow> None | c # t \<Rightarrow> if c = CHR ''0'' then Some ([c], t)
     else if digit c then Some (c # takeWhile digit t, dropWhile digit t) else None)"

definition read_number :: "string \<Rightarrow> (json \<times> string) option" where
  "read_number s =
     (case (case s of c # t \<Rightarrow> if c = CHR ''-'' then ([c], t) else ([], s) | [] \<Rightarrow> ([], [])) of (sign, s) \<Rightarrow>
      (case integer_part s of None \<Rightarrow> None | Some (i, s) \<Rightarrow>
      (case fraction_part s of None \<Rightarrow> None | Some (f, s) \<Rightarrow>
      (case exponent_part s of None \<Rightarrow> None | Some (e, s) \<Rightarrow>
         Some (if f = [] \<and> e = [] then JInt (if sign = [] then int (digits_val i) else - int (digits_val i))
               else JFloat (sign @ i @ f @ e), s)))))"

section \<open>Values\<close>

definition blank :: "char \<Rightarrow> bool" where
  "blank c \<longleftrightarrow> c \<in> {CHR 0x20, CHR 0x09, CHR 0x0A, CHR 0x0D}"

definition skip_blanks :: "string \<Rightarrow> string" where "skip_blanks = dropWhile blank"

definition read_literal :: "string \<Rightarrow> (json \<times> string) option" where
  "read_literal s = (if take 4 s = ''null'' then Some (JNull, drop 4 s)
     else if take 4 s = ''true'' then Some (JBool True, drop 4 s)
     else if take 5 s = ''false'' then Some (JBool False, drop 5 s) else None)"

definition as_object :: "(string \<times> json) list \<Rightarrow> json" where
  "as_object kvs = JObj (foldl (\<lambda>m (k, v). AList.update k v m) [] kvs)"

text \<open>The first argument bounds the calls, the second the nesting, as in Go: an array or object inside ten thousand others is refused.\<close>

fun read_value :: "nat \<Rightarrow> nat \<Rightarrow> string \<Rightarrow> (json \<times> string) option"
  and read_items :: "nat \<Rightarrow> nat \<Rightarrow> string \<Rightarrow> (json list \<times> string) option"
  and read_members :: "nat \<Rightarrow> nat \<Rightarrow> string \<Rightarrow> ((string \<times> json) list \<times> string) option" where
  "read_value 0 d s = None"
| "read_value (Suc n) d s = (case skip_blanks s of [] \<Rightarrow> None | c # r \<Rightarrow>
     if c = CHR 0x22 then map_option (\<lambda>(v, t). (JStr v, t)) (read_string r)
     else if c = CHR ''['' then
       (if d = 0 then None else case skip_blanks r of [] \<Rightarrow> None | e # t \<Rightarrow>
          if e = CHR '']'' then Some (JArr [], t) else map_option (\<lambda>(vs, t). (JArr vs, t)) (read_items n (d - 1) (e # t)))
     else if c = CHR ''{'' then
       (if d = 0 then None else case skip_blanks r of [] \<Rightarrow> None | e # t \<Rightarrow>
          if e = CHR ''}'' then Some (JObj [], t) else map_option (\<lambda>(kvs, t). (as_object kvs, t)) (read_members n (d - 1) (e # t)))
     else if c = CHR ''-'' \<or> digit c then read_number (c # r)
     else read_literal (c # r))"
| "read_items 0 d s = None"
| "read_items (Suc n) d s = (case read_value n d s of None \<Rightarrow> None | Some (v, t) \<Rightarrow>
     (case skip_blanks t of [] \<Rightarrow> None | c # u \<Rightarrow>
        if c = CHR '']'' then Some ([v], u)
        else if c = CHR '','' then map_option (\<lambda>(vs, w). (v # vs, w)) (read_items n d u) else None))"
| "read_members 0 d s = None"
| "read_members (Suc n) d s = (case skip_blanks s of [] \<Rightarrow> None | q # s \<Rightarrow> if q \<noteq> CHR 0x22 then None else
     (case read_string s of None \<Rightarrow> None | Some (k, t) \<Rightarrow>
     (case skip_blanks t of [] \<Rightarrow> None | c # t \<Rightarrow> if c \<noteq> CHR '':'' then None else
     (case read_value n d t of None \<Rightarrow> None | Some (v, t) \<Rightarrow>
     (case skip_blanks t of [] \<Rightarrow> None | c # u \<Rightarrow>
        if c = CHR ''}'' then Some ([(k, v)], u)
        else if c = CHR '','' then map_option (\<lambda>(kvs, w). ((k, v) # kvs, w)) (read_members n d u) else None)))))"

definition Unmarshal :: "string \<Rightarrow> json option" where
  "Unmarshal s = (case read_value (2 * length s + 1) 10000 s of
     Some (v, t) \<Rightarrow> if skip_blanks t = [] then Some v else None | None \<Rightarrow> None)"

section \<open>The bound on the calls is enough\<close>

lemma length_skip_blanks: "length (skip_blanks s) \<le> length s"
  by (simp add: skip_blanks_def length_dropWhile_le)

lemma number_parts_shorter:
  "integer_part s = Some (v, t) \<Longrightarrow> length t < length s"
  "fraction_part s = Some (v, t) \<Longrightarrow> length t \<le> length s"
  "exponent_part s = Some (v, t) \<Longrightarrow> length t \<le> length s"
  using length_dropWhile_le [of digit "tl s"] length_dropWhile_le [of digit "tl (tl s)"]
  by (auto simp: integer_part_def fraction_part_def exponent_part_def split: list.splits if_splits)

lemma number_shorter:
  assumes "read_number s = Some (v, t)"
  shows "length t < length s"
proof -
  define u where "u = (case s of c # t \<Rightarrow> if c = CHR ''-'' then t else s | [] \<Rightarrow> [])"
  have "length u \<le> length s" by (auto simp: u_def split: list.splits)
  moreover from assms obtain i a f b e where "integer_part u = Some (i, a)" "fraction_part a = Some (f, b)" "exponent_part b = Some (e, t)"
    by (auto simp: read_number_def u_def split: list.splits option.splits prod.splits if_splits)
  ultimately show ?thesis using number_parts_shorter by (meson le_less_trans order_less_le_trans)
qed

lemma literal_shorter: "read_literal s = Some (v, t) \<Longrightarrow> length t < length s"
  by (cases s) (auto simp: read_literal_def split: if_splits)

lemma skip_shorter: "skip_blanks s = c # r \<Longrightarrow> length r < length s"
  using length_skip_blanks [of s] by simp

lemma read_shorter:
  "read_value n d s = Some (v, t) \<Longrightarrow> length t < length s"
  "read_items n d s = Some (vs, t) \<Longrightarrow> length t < length s"
  "read_members n d s = Some (kvs, t) \<Longrightarrow> length t < length s"
proof (induction n d s and n d s and n d s arbitrary: v t and vs t and kvs t rule: read_value_read_items_read_members.induct)
  case (2 n d s)
  show ?case
  proof (cases "skip_blanks s")
    case (Cons c r)
    note sk = skip_shorter [OF Cons] skip_shorter [of r]
    have head: "length t < length s" if "length t < length (c # r)" using that sk(1) by simp
    have inner: "length t < length s" if "skip_blanks r = e # u" "length t < length (e # u)" for e u
      using that sk(1) sk(2) [OF that(1)] by simp
    show ?thesis
      using "2.prems" Cons "2.IH"(1) [OF Cons] "2.IH"(2) [OF Cons] sk inner
        read_string_shorter [of r] number_shorter [of "c # r"] literal_shorter [of "c # r"]
      by (fastforce split: if_splits list.splits)
  qed (use "2.prems" in simp)
next
  case (4 n d s)
  then show ?case using skip_shorter by (fastforce split: option.splits prod.splits list.splits if_splits)
next
  case (6 n d s)
  from "6.prems" obtain q a k b c e v w x u where
    1: "skip_blanks s = q # a" "q = CHR 0x22" "read_string a = Some (k, b)" "skip_blanks b = c # e" "c = CHR '':''"
      "read_value n d e = Some (v, w)" "skip_blanks w = x # u" and
    2: "t = u \<or> (\<exists>kvs'. read_members n d u = Some (kvs', t))"
    by (auto split: list.splits if_splits option.splits prod.splits)
  have q: "\<not> q \<noteq> CHR 0x22" and c: "\<not> c \<noteq> CHR '':''" using 1(2,5) by simp_all
  from "6.IH"(1) [OF 1(1) q 1(3) refl 1(4) c 1(6)] skip_shorter [OF 1(1)] read_string_shorter [OF 1(3)] skip_shorter [OF 1(4)]
    skip_shorter [OF 1(7)] have u: "length u < length s" by linarith
  show ?case
  proof (cases "t = u")
    case False
    with 2 obtain kvs' where m: "read_members n d u = Some (kvs', t)" by blast
    with False "6.prems" 1 have x: "x \<noteq> CHR ''}''" "x = CHR '',''" by (auto split: if_splits)
    from "6.IH"(2) [OF 1(1) q 1(3) refl 1(4) c 1(6) refl 1(7) x m] u show ?thesis by simp
  qed (use u in simp)
qed simp_all

lemma enough_calls:
  "2 * length s < n \<Longrightarrow> read_value (Suc n) d s = read_value n d s"
  "2 * length s + 1 < n \<Longrightarrow> read_items (Suc n) d s = read_items n d s"
  "2 * length s < n \<Longrightarrow> read_members (Suc n) d s = read_members n d s"
proof (induction n arbitrary: s d rule: less_induct)
  case (less n)
  {
    case 1
    then obtain k where n: "n = Suc k" by (cases n) auto
    have k: "k < n" by (simp add: n)
    have inner: "read_items n (d - 1) u = read_items k (d - 1) u" "read_members n (d - 1) u = read_members k (d - 1) u"
      if "skip_blanks s = c # r" "skip_blanks r = u" for c r u
      using skip_shorter [OF that(1)] length_skip_blanks [of r] 1 less.IH(2,3) [OF k, of u "d - 1"] that(2) by (auto simp: n)
    have "read_value n d s = read_value (Suc k) d s" by (simp only: n)
    then show ?case
      unfolding read_value.simps using inner by (auto split: list.split)
  next
    case 2
    then obtain k where n: "n = Suc k" by (cases n) auto
    have k: "k < n" by (simp add: n)
    have v: "read_value n d s = read_value k d s" using 2 less.IH(1) [OF k, of s d] by (simp add: n)
    have r: "read_items n d u = read_items k d u" if "read_value k d s = Some (v, t)" "skip_blanks t = c # u" for v t c u
      using read_shorter(1) [OF that(1)] skip_shorter [OF that(2)] 2 less.IH(2) [OF k, of u d] by (simp add: n)
    have "read_items n d s = read_items (Suc k) d s" by (simp only: n)
    then show ?case unfolding read_items.simps v using r by (auto split: option.split list.split)
  next
    case 3
    then obtain k where n: "n = Suc k" by (cases n) auto
    have k: "k < n" by (simp add: n)
    have v: "read_value n d e = read_value k d e"
      if "skip_blanks s = q # a" "read_string a = Some (i, b)" "skip_blanks b = c # e" for q a i b c e
      using skip_shorter [OF that(1)] read_string_shorter [OF that(2)] skip_shorter [OF that(3)] 3 less.IH(1) [OF k, of e d]
      by (simp add: n)
    have r: "read_members n d u = read_members k d u"
      if "skip_blanks s = q # a" "read_string a = Some (i, b)" "skip_blanks b = c # e" "read_value k d e = Some (x, t)" "skip_blanks t = y # u"
      for q a i b c e x t y u
      using skip_shorter [OF that(1)] read_string_shorter [OF that(2)] skip_shorter [OF that(3)] read_shorter(1) [OF that(4)]
        skip_shorter [OF that(5)] 3 less.IH(3) [OF k, of u d] by (simp add: n)
    have "read_members n d s = read_members (Suc k) d s" by (simp only: n)
    then show ?case unfolding read_members.simps using v r by (auto split: option.split list.split)
  }
qed

lemma Unmarshal_read: "(\<And>m. n \<le> m \<Longrightarrow> read_value m 10000 s = Some (v, [])) \<Longrightarrow> Unmarshal s = Some v"
proof -
  assume read: "\<And>m. n \<le> m \<Longrightarrow> read_value m 10000 s = Some (v, [])"
  have "read_value (2 * length s + 1 + j) 10000 s = read_value (2 * length s + 1) 10000 s" for j
    by (induction j) (use enough_calls(1) in simp_all)
  from this [of n] read [of "2 * length s + 1 + n"] show ?thesis by (simp add: Unmarshal_def skip_blanks_def)
qed

section \<open>Reading what the encoder wrote\<close>

text \<open>
  Values whose JSON form determines them: strings well-formed, keys in the order the encoder writes
  them. A float is left out, as \<open>1.0\<close> is written without a fraction.
\<close>

fun readable :: "json \<Rightarrow> bool" where
  "readable JNull = True"
| "readable (JBool b) = True"
| "readable (JInt i) = True"
| "readable (JFloat t) = False"
| "readable (JStr s) = valid_utf8 s"
| "readable (JArr xs) = list_all readable xs"
| "readable (JObj kvs) = (sorted_wrt (<) (map fst kvs) \<and> list_all (\<lambda>(k, v). valid_utf8 k \<and> readable v) kvs)"

fun nesting :: "json \<Rightarrow> nat" where
  "nesting (JArr xs) = Suc (foldr (\<lambda>x n. max (nesting x) n) xs 0)"
| "nesting (JObj kvs) = Suc (foldr (\<lambda>(k, v) n. max (nesting v) n) kvs 0)"
| "nesting v = 0"

text \<open>What may follow a number.\<close>

definition ends :: "string \<Rightarrow> bool" where
  "ends s \<longleftrightarrow> (case s of [] \<Rightarrow> True | c # t \<Rightarrow> c \<in> {CHR '','', CHR '']'', CHR ''}''})"

lemma nat_str_head: "\<exists>c t. nat_str n = c # t \<and> digit c \<and> (c = CHR ''0'' \<longrightarrow> t = [])"
proof (induction n rule: nat_str.induct)
  case (1 n)
  show ?case
  proof (cases "n < 10")
    case True
    then show ?thesis by (subst nat_str.simps) (simp add: digit_char)
  next
    case False
    with 1 obtain c t where c: "nat_str (n div 10) = c # t" "digit c" "c = CHR ''0'' \<longrightarrow> t = []" by blast
    have "c \<noteq> CHR ''0''"
    proof
      assume "c = CHR ''0''"
      with c have "nat_str (n div 10) = nat_str 0" by (subst (2) nat_str.simps) (simp add: char_of_def bit_0)
      with False show False by (simp add: div_eq_0_iff)
    qed
    with c False show ?thesis by (subst nat_str.simps) simp
  qed
qed

lemma read_nat:
  assumes "ends r" and "sign \<in> {''-'', []}"
  shows "read_number (sign @ nat_str n @ r) = Some (JInt (if sign = [] then int n else - int n), r)"
proof -
  have stop: "takeWhile digit r = []" "dropWhile digit r = r" and f: "fraction_part r = Some ([], r)" "exponent_part r = Some ([], r)"
    using assms(1) by (auto simp: ends_def digit_def fraction_part_def exponent_part_def less_eq_char_def split: list.splits)
  obtain c t where s: "nat_str n = c # t" "digit c" "c = CHR ''0'' \<longrightarrow> t = []" using nat_str_head by blast
  then have t: "list_all digit t" using digits_nat_str [of n] by simp
  then have w: "takeWhile digit (t @ r) = t" "dropWhile digit (t @ r) = r"
    using stop by (simp_all add: list_all_iff)
  have "integer_part (nat_str n @ r) = Some (nat_str n, r)" using s w by (simp add: integer_part_def)
  moreover have "c \<noteq> CHR ''-''" using s(2) by (auto simp: digit_def)
  ultimately show ?thesis using assms(2) f s(1) digits_val_nat_str [of n] by (auto simp: read_number_def)
qed

lemma read_int: "ends r \<Longrightarrow> read_number (int_str i @ r) = Some (JInt i, r)"
  using read_nat [of r "''-''" "nat (- i)"] read_nat [of r "[]" "nat i"] by (simp add: int_str_def)

lemma nesting_le:
  "foldr (\<lambda>x n. max (nesting x) n) xs 0 \<le> d \<longleftrightarrow> list_all (\<lambda>x. nesting x \<le> d) xs"
  "foldr (\<lambda>(k, v) n. max (nesting v) n) kvs 0 \<le> d \<longleftrightarrow> list_all (\<lambda>(k, v). nesting v \<le> d) kvs"
  by (induction xs) (simp_all, induction kvs, auto)

lemma encoded_head: "readable v \<Longrightarrow> \<exists>c t. json_encode v = c # t \<and> \<not> blank c \<and> c \<noteq> CHR '']''"
  using nat_str_head [of "nat (case v of JInt i \<Rightarrow> if i < 0 then - i else i | _ \<Rightarrow> 0)"]
  by (cases v) (auto simp: json_quote_def int_str_def blank_def digit_def)

lemma skip_encoded [simp]: "readable v \<Longrightarrow> skip_blanks (json_encode v @ r) = json_encode v @ r"
  using encoded_head [of v] by (auto simp: skip_blanks_def)

lemma skip_plain [simp]: "\<not> blank c \<Longrightarrow> skip_blanks (c # s) = c # s"
  by (simp add: skip_blanks_def)

lemma plain_chars [simp]: "\<not> blank (CHR '','')" "\<not> blank (CHR '']'')" "\<not> blank (CHR ''}'')" "\<not> blank (CHR '':'')"
  "\<not> blank (CHR ''n'')" "\<not> blank (CHR ''t'')" "\<not> blank (CHR ''f'')" "\<not> blank (CHR ''['')" "\<not> blank (CHR ''{'')" "\<not> blank (CHR 0x22)"
  by (simp_all add: blank_def)

lemma foldl_update_fresh:
  "distinct (map fst m @ map fst kvs) \<Longrightarrow> foldl (\<lambda>m (k, v). AList.update k v m) m kvs = m @ kvs"
proof (induction kvs arbitrary: m)
  case (Cons p kvs)
  have "AList.update k v m = m @ [(k, v)]" if "k \<notin> fst ` set m" for k :: 'a and v :: 'b and m using that by (induction m) auto
  with Cons show ?case by (cases p) simp
qed simp

lemma as_object_id: "sorted_wrt (<) (map fst kvs) \<Longrightarrow> as_object kvs = JObj kvs"
  using foldl_update_fresh [of "[]" kvs] strict_sorted_iff by (auto simp: as_object_def)

lemma encode_members: "json_encode_members kvs = map (\<lambda>(k, v). (k, json_encode v)) kvs"
  by (induction kvs) auto

lemma encode_sorted_members:
  assumes "sorted_wrt (<) (map fst kvs)"
  shows "sort_key fst (json_encode_members kvs) = json_encode_members kvs"
proof (rule sort_key_id_if_sorted)
  have "map fst (json_encode_members kvs) = map fst kvs" by (simp add: encode_members comp_def case_prod_unfold)
  with assms show "sorted (map fst (json_encode_members kvs))" by (simp add: strict_sorted_iff)
qed

definition reads :: "(nat \<Rightarrow> 'a option) \<Rightarrow> 'a \<Rightarrow> bool" where
  "reads f r \<longleftrightarrow> (\<exists>n. \<forall>m. n \<le> m \<longrightarrow> f m = Some r)"

text \<open>A reader that makes one call more.\<close>

lemma reads_Suc:
  assumes "\<And>m. g (Suc m) = Some s \<or> (f m = Some r \<longrightarrow> g (Suc m) = Some s)" and "reads f r"
  shows "reads g s"
proof -
  from assms(2) obtain n where n: "\<And>m. n \<le> m \<Longrightarrow> f m = Some r" by (auto simp: reads_def)
  have "g m = Some s" if "Suc n \<le> m" for m using that n assms(1) by (cases m) auto
  then show ?thesis unfolding reads_def by blast
qed

lemma reads_now: "(\<And>m. g (Suc m) = Some s) \<Longrightarrow> reads g s"
  unfolding reads_def by (metis Suc_le_D)

lemma reads_both: "reads f r \<Longrightarrow> reads g s \<Longrightarrow> reads (\<lambda>m. if f m = Some r then g m else None) s"
  unfolding reads_def by (metis nat_le_linear order_trans)

lemma read_encoded:
  "readable v \<Longrightarrow> nesting v \<le> d \<Longrightarrow> ends r \<Longrightarrow> reads (\<lambda>m. read_value m d (json_encode v @ r)) (v, r)"
  "xs \<noteq> [] \<Longrightarrow> list_all readable xs \<Longrightarrow> list_all (\<lambda>x. nesting x \<le> d) xs \<Longrightarrow>
     reads (\<lambda>m. read_items m d (join '','' (json_encode_list xs) @ '']'' @ r)) (xs, r)"
  "kvs \<noteq> [] \<Longrightarrow> list_all (\<lambda>(k, v). valid_utf8 k \<and> readable v) kvs \<Longrightarrow> list_all (\<lambda>(k, v). nesting v \<le> d) kvs \<Longrightarrow>
     reads (\<lambda>m. read_members m d (join '','' (map (\<lambda>(k, v). json_quote k @ '':'' @ v) (json_encode_members kvs)) @ ''}'' @ r)) (kvs, r)"
proof (induction v and xs and kvs arbitrary: d r and d r and d r rule: json_encode_json_encode_list_json_encode_members.induct)
  case 1
  then show ?case by (intro reads_now) (simp add: read_literal_def digit_def)
next
  case (2 b)
  then show ?case by (intro reads_now) (cases b; simp add: read_literal_def digit_def)
next
  case (3 i)
  obtain c t where c: "json_encode (JInt i) = c # t" "\<not> blank c" "c \<noteq> CHR '']''" using encoded_head [of "JInt i"] by auto
  have "c = CHR ''-'' \<or> digit c" using c(1) nat_str_head [of "nat i"] by (auto simp: int_str_def split: if_splits)
  moreover from this have "c \<noteq> CHR 0x22" "c \<noteq> CHR ''[''" "c \<noteq> CHR ''{''" by (auto simp: digit_def)
  ultimately show ?case using c read_int [OF 3(3), of i] by (intro reads_now) (simp add: int_str_def)
next
  case (4 t)
  then show ?case by simp
next
  case (5 s)
  then show ?case by (intro reads_now) (simp add: json_quote_def read_escaped)
next
  case (6 xs)
  show ?case
  proof (cases xs)
    case Nil
    then show ?thesis using 6 by (intro reads_now) simp
  next
    case (Cons x ys)
    obtain c t where h: "join '','' (json_encode_list xs) @ '']'' @ r = c # t" "\<not> blank c" "c \<noteq> CHR '']''"
      using encoded_head [of x] 6(2) Cons by (cases ys) auto
    show ?thesis
    proof (rule reads_Suc)
      show "reads (\<lambda>m. read_items m (d - 1) (join '','' (json_encode_list xs) @ '']'' @ r)) (xs, r)"
        using 6(2,3) nesting_le(1) [of xs "d - 1"] Cons by (intro "6.IH") auto
    qed (use 6(3) h in simp)
  qed
next
  case (7 kvs)
  note srt = encode_sorted_members [of kvs] as_object_id [of kvs]
  show ?case
  proof (cases kvs)
    case Nil
    then show ?thesis using 7 by (intro reads_now) simp
  next
    case (Cons p ys)
    let ?s = "join '','' (map (\<lambda>(k, v). json_quote k @ '':'' @ v) (json_encode_members kvs)) @ ''}'' @ r"
    obtain t where h: "?s = CHR 0x22 # t" using Cons by (cases p; cases ys) (auto simp: json_quote_def)
    show ?thesis
    proof (rule reads_Suc)
      show "reads (\<lambda>m. read_members m (d - 1) ?s) (kvs, r)"
        using 7(2,3) nesting_le(2) [of kvs "d - 1"] Cons by (intro "7.IH") auto
    qed (use 7(2,3) h srt in simp)
  qed
next
  case 8
  then show ?case by simp
next
  case (9 x xs)
  have x: "reads (\<lambda>m. read_value m d (json_encode x @ t)) (x, t)" if "ends t" for t using 9 that by (intro "9.IH"(1)) auto
  show ?case
  proof (cases xs)
    case Nil
    show ?thesis by (rule reads_Suc [OF _ x [of "CHR '']'' # r"]]) (simp_all add: Nil ends_def)
  next
    case (Cons y ys)
    let ?t = "join '','' (json_encode_list xs) @ '']'' @ r"
    have "reads (\<lambda>m. read_items m d ?t) (xs, r)" using 9 Cons by (intro "9.IH"(2)) auto
    from reads_both [OF x [of "CHR '','' # ?t"] this] show ?thesis
      by (rule reads_Suc [rotated]) (auto simp: Cons ends_def split: if_splits)
  qed
next
  case 10
  then show ?case by simp
next
  case (11 k v kvs)
  have key: "read_string (json_escape k @ CHR 0x22 # t) = Some (k, t)" for t using 11 by (intro read_escaped) simp
  have v: "reads (\<lambda>m. read_value m d (json_encode v @ t)) (v, t)" if "ends t" for t using 11 that by (intro "11.IH"(1)) auto
  show ?case
  proof (cases kvs)
    case Nil
    show ?thesis by (rule reads_Suc [OF _ v [of "CHR ''}'' # r"]]) (simp_all add: Nil ends_def json_quote_def key)
  next
    case (Cons p ys)
    let ?t = "join '','' (map (\<lambda>(k, v). json_quote k @ '':'' @ v) (json_encode_members kvs)) @ ''}'' @ r"
    have "reads (\<lambda>m. read_members m d ?t) (kvs, r)" using 11 Cons by (intro "11.IH"(2)) auto
    note both = reads_both [OF v [of "CHR '','' # ?t"] this]
    have shape: "join '','' (map (\<lambda>(k, v). json_quote k @ '':'' @ v) (json_encode_members ((k, v) # kvs))) @ ''}'' @ r
        = CHR 0x22 # json_escape k @ CHR 0x22 # CHR '':'' # json_encode v @ CHR '','' # ?t"
      by (cases p) (simp add: Cons json_quote_def)
    show ?thesis
      unfolding shape by (rule reads_Suc [OF _ both]) (simp_all add: ends_def key)
  qed
qed

theorem Unmarshal_encoded:
  assumes "readable v" and "nesting v \<le> 10000"
  shows "Unmarshal (json_encode v) = Some v"
proof -
  from read_encoded(1) [OF assms, of "[]"] obtain n where "\<And>m. n \<le> m \<Longrightarrow> read_value m 10000 (json_encode v) = Some (v, [])"
    by (auto simp: reads_def ends_def)
  then show ?thesis by (rule Unmarshal_read)
qed

end
