(* ===== verification/Cursors.thy ===== *)
theory Cursors
  imports Base64 JsonReader
begin

text \<open>
  The text of a cursor (\<open>List\<close>, \<open>decodeNameCursor\<close> and \<open>buildResourceFilter\<close> of \<open>internal/v2/store/store.go\<close>): base64 over an
  id, a number, or the JSON pair of a name and a number, as the order of the list demands. A cursor
  the store hands out is one the API lets in and the store reads back.
\<close>

definition write_cursor :: "cursor \<Rightarrow> string" where
  "write_cursor c = b64_encode (case c of
       Identifier i \<Rightarrow> i | Number n \<Rightarrow> int_str n | NamePair s n \<Rightarrow> json_encode (JArr [JStr s, JInt n]) | Undecodable \<Rightarrow> [])"

text \<open>\<open>json.Unmarshal\<close> into a string and into a 64-bit integer; \<open>null\<close> leaves the zero value.\<close>

definition as_string :: "json \<Rightarrow> string option" where
  "as_string v = (case v of JStr s \<Rightarrow> Some s | JNull \<Rightarrow> Some [] | _ \<Rightarrow> None)"

definition as_int64 :: "json \<Rightarrow> int option" where
  "as_int64 v = (case v of JInt i \<Rightarrow> if - (2 ^ 63) \<le> i \<and> i < 2 ^ 63 then Some i else None | JNull \<Rightarrow> Some 0 | _ \<Rightarrow> None)"

definition read_name_pair :: "string \<Rightarrow> cursor" where
  "read_name_pair raw = (case Unmarshal raw of
       Some (JArr [s, n]) \<Rightarrow> (case (as_string s, as_int64 n) of
           (Some s, Some n) \<Rightarrow> if n < 1 \<or> length s > 512 then Undecodable else NamePair s n | _ \<Rightarrow> Undecodable)
     | _ \<Rightarrow> Undecodable)"

text \<open>\<open>parse\<close> is \<open>uuid.Parse\<close> followed by \<open>String\<close>.\<close>

definition read_cursor :: "(string \<Rightarrow> string option) \<Rightarrow> bool \<Rightarrow> string \<Rightarrow> string \<Rightarrow> cursor" where
  "read_cursor parse by_id prefix s = (case b64_decode s of None \<Rightarrow> Undecodable | Some raw \<Rightarrow>
     if by_id then (case parse raw of None \<Rightarrow> Undecodable | Some i \<Rightarrow> Identifier i)
     else if prefix \<noteq> [] then read_name_pair raw
     else (case ParseInt raw of None \<Rightarrow> Undecodable | Some n \<Rightarrow> Number n))"

section \<open>The size of a cursor\<close>

lemma length_int_str: "0 \<le> i \<Longrightarrow> i < 2 ^ 63 \<Longrightarrow> length (int_str i) \<le> 19"
  using length_nat_str [of "nat i" 19] by (simp add: int_str_def)

lemma length_escape_ascii: "length (escape_ascii c) \<le> 6"
  by (simp add: escape_ascii_def hex_byte_def)

lemma length_json_escape: "length (json_escape s) \<le> 6 * length s"
proof (induction s rule: json_escape.induct)
  case (1 s)
  show ?case
  proof (cases s)
    case (Cons c r)
    note IH = 1 [OF Cons]
    show ?thesis
    proof (cases "of_char c < (0x80 :: nat)")
      case True
      with IH(1) length_escape_ascii [of c] show ?thesis by (subst json_escape.simps) (simp add: Cons True)
    next
      case False
      show ?thesis
      proof (cases "rune_len s")
        case None
        with IH(2) [OF False] False show ?thesis by (subst json_escape.simps) (simp add: Cons)
      next
        case (Some n)
        have "length (escape_rune (take n s)) \<le> 6 * n" using rune_len_pos [OF Some] by (auto simp: escape_rune_def)
        moreover obtain m where "length s = n + m" using rune_len_pos [OF Some] le_Suc_ex by blast
        moreover have "json_escape s = escape_rune (take n s) @ json_escape (drop n s)"
          using False Some by (subst json_escape.simps) (simp add: Cons del: rune_len.simps)
        ultimately show ?thesis using IH(3) [OF False Some] by simp
      qed
    qed
  qed (subst json_escape.simps, simp)
qed

lemma of_char_lower: "(of_char (lower_char c) :: nat) = (if 65 \<le> (of_char c :: nat) \<and> (of_char c :: nat) \<le> 90 then of_char c + 32 else of_char c)"
  by (simp add: lower_char_def less_eq_char_def of_char_mod_256)

lemma rune_len_lower: "rune_len (to_lower s) = rune_len s"
proof -
  have b: "byte_in 0 0x7F (lower_char c) = byte_in 0 0x7F c" "0x80 \<le> lo \<Longrightarrow> byte_in lo hi (lower_char c) = byte_in lo hi c" for lo hi c
    by (auto simp: byte_in_def of_char_lower)
  moreover have "second_ok (lower_char x) (lower_char y) = second_ok x y" for x y
    by (simp add: second_ok_def b) (simp add: of_char_lower)
  ultimately show ?thesis
    by (cases s; cases "tl s"; cases "tl (tl s)"; cases "tl (tl (tl s))") (auto simp: to_lower_def)
qed

lemma lower_valid: "valid_utf8 s \<Longrightarrow> valid_utf8 (to_lower s)"
proof (induction s rule: valid_utf8.induct)
  case (1 s)
  show ?case
  proof (cases s)
    case (Cons c r)
    from 1(2) obtain n where n: "rune_len s = Some n" "valid_utf8 (drop n s)"
      by (subst (asm) valid_utf8.simps) (auto simp: Cons simp del: rune_len.simps split: option.splits)
    from 1(1) [OF Cons n] have "valid_utf8 (drop n (to_lower s))" by (simp add: to_lower_def drop_map)
    with n(1) show ?thesis by (simp add: valid_utf8_step rune_len_lower)
  qed (simp add: to_lower_def)
qed

section \<open>Cursors are read back\<close>

text \<open>A row whose key has a cursor: an id in canonical form, a positive number and a name in UTF-8.\<close>

definition cursor_row :: "(string \<Rightarrow> string option) \<Rightarrow> nat \<Rightarrow> res_row \<Rightarrow> bool" where
  "cursor_row parse bound x \<longleftrightarrow> parse (id_key x) = Some (id_key x) \<and> id_key x \<noteq> [] \<and> length (id_key x) \<le> 36
     \<and> 1 \<le> rr_sort x \<and> rr_sort x < 2 ^ 63 \<and> valid_utf8 (r_name (rr_res x)) \<and> length (r_name (rr_res x)) \<le> bound"

lemma read_written_cursor:
  assumes "cursor_row parse n x" and "n \<le> 512"
  shows "read_cursor parse (lf_by_id f) (lf_prefix f) (write_cursor (row_cursor f x)) = row_cursor f x"
proof -
  have "valid_utf8 (to_lower (r_name (rr_res x)))" using assms by (intro lower_valid) (simp add: cursor_row_def)
  then have read: "Unmarshal (json_encode (JArr [JStr (to_lower (r_name (rr_res x))), JInt (rr_sort x)]))
      = Some (JArr [JStr (to_lower (r_name (rr_res x))), JInt (rr_sort x)])"
    by (intro Unmarshal_encoded) simp_all
  have "length (to_lower (r_name (rr_res x))) \<le> 512" using assms by (simp add: cursor_row_def)
  with read show ?thesis
    using assms ParseInt_int_str [of "rr_sort x"]
    by (simp add: cursor_row_def row_cursor_def write_cursor_def read_cursor_def read_name_pair_def as_string_def as_int64_def
        del: json_encode.simps)
qed

lemma b64_pattern: "s \<noteq> [] \<Longrightarrow> base64url_pattern (b64_encode s)"
proof -
  have chars: "list_all (\<lambda>n. letter (b64_char n) \<or> digit (b64_char n) \<or> b64_char n \<in> set ''_-'') [0..<64]" by code_simp
  then have "letter c \<or> digit c \<or> c \<in> set ''_-''" if c: "c \<in> set (b64_encode s)" for c
  proof -
    obtain n where "n < 64" "c = b64_char n" by (rule b64_encode_chars [OF c])
    with chars show ?thesis by (auto simp: list_all_iff)
  qed
  moreover have "s \<noteq> [] \<Longrightarrow> b64_encode s \<noteq> []" using length_b64_encode [of s] by (cases s) auto
  ultimately show "s \<noteq> [] \<Longrightarrow> base64url_pattern (b64_encode s)" by (auto simp: base64url_pattern_def list_all_iff)
qed

lemma cursor_fits:
  assumes "cursor_row parse 508 x"
  shows "length (write_cursor (row_cursor f x)) \<le> 4096" and "base64url_pattern (write_cursor (row_cursor f x))"
proof -
  let ?name = "to_lower (r_name (rr_res x))"
  have "length (json_escape ?name) \<le> 3048" "length (int_str (rr_sort x)) \<le> 19"
    using assms length_json_escape [of ?name] length_int_str [of "rr_sort x"] by (simp_all add: cursor_row_def)
  then have "length (json_encode (JArr [JStr ?name, JInt (rr_sort x)])) \<le> 3072" by (simp add: json_quote_def)
  with \<open>length (int_str (rr_sort x)) \<le> 19\<close> assms show "length (write_cursor (row_cursor f x)) \<le> 4096"
    by (auto simp: write_cursor_def row_cursor_def cursor_row_def length_b64_encode simp del: json_encode.simps)
  have "int_str i \<noteq> []" for i by (simp add: int_str_def)
  then show "base64url_pattern (write_cursor (row_cursor f x))"
    using assms by (auto simp: write_cursor_def row_cursor_def cursor_row_def intro: b64_pattern)
qed

text \<open>
  Validation admits names of 512 bytes. JSON may take six bytes for each, so the cursor of such a name
  can be longer than the 4096 bytes \<open>validateResourceListQuery\<close> admits, and the list cannot be continued.
\<close>

lemma length_escape_less: "length (json_escape (replicate n (CHR ''<''))) = 6 * n"
  by (induction n) (simp_all add: json_escape.simps escape_ascii_def html_unsafe_def backslash_def hex_byte_def)

lemma long_name_cursor_refused:
  assumes "\<not> lf_by_id f" and "lf_prefix f \<noteq> []" and "r_name (rr_res x) = replicate 512 (CHR ''<'')"
  shows "4096 < length (write_cursor (row_cursor f x))"
proof -
  have "to_lower (replicate 512 (CHR ''<'')) = replicate 512 (CHR ''<'')" by (simp add: to_lower_def lower_char_def less_eq_char_def)
  moreover have "int_str (rr_sort x) \<noteq> []" by (simp add: int_str_def)
  then have "1 \<le> length (int_str (rr_sort x))" by (cases "int_str (rr_sort x)") simp_all
  ultimately show ?thesis
    using assms by (simp add: write_cursor_def row_cursor_def length_b64_encode json_quote_def length_escape_less)
qed

end
