(* ===== verification/Lookup.thy ===== *)
theory Lookup
  imports Federation Cursors Inbox "HOL-Library.Sublist"
begin

text \<open>
  The read handlers of \<open>internal/v2/api/server.go\<close> that combine the local store with other clusters: lookups
  by id (\<open>batchGet\<close>), the children of resources (\<open>resolveGraph\<close>), lists, inventories and selectors, and
  the stream of changes. A decoded request body is an argument, \<open>None\<close> when \<open>decode\<close> fails; a handler
  returns its status, the freshness header and what it writes.
\<close>

section \<open>Answers\<close>

datatype 'a reply = Error int | Reply int "string option" 'a

datatype 'a outcome = Forwarded proxy_reply | Answered_here "'a reply"

definition validResourceResponse :: "(string \<Rightarrow> bool) \<Rightarrow> resource \<Rightarrow> bool" where
  "validResourceResponse uuid_ok r \<longleftrightarrow> uuid_ok (r_id r) \<and> r_cluster r \<noteq> [] \<and> r_uid r \<noteq> [] \<and> r_version r \<noteq> [] \<and> r_kind r \<noteq> []
     \<and> r_name r \<noteq> [] \<and> r_resource_version r \<noteq> [] \<and> r_observed r \<noteq> zero_time \<and> known_state (r_state r)"

text \<open>The loop over the ids of a request: each parses as a UUID and none comes twice.\<close>

fun bad_ids :: "(string \<Rightarrow> bool) \<Rightarrow> string list \<Rightarrow> string list \<Rightarrow> bool" where
  "bad_ids uuid_ok seen [] = False"
| "bad_ids uuid_ok seen (i # is) = (\<not> uuid_ok i \<or> i \<in> set seen \<or> bad_ids uuid_ok (i # seen) is)"

section \<open>Lookups by id\<close>

record batch_request =
  bg_ids :: "string list"
  bg_partial :: bool

text \<open>The items so far, the ids found, the freshness of the answer and whether it is uncertain.\<close>

record lookup =
  lk_items :: "resource list"
  lk_found :: "string list"
  lk_freshness :: string
  lk_uncertain :: bool

definition merge_item :: "(string \<Rightarrow> bool) \<Rightarrow> string list \<Rightarrow> string \<Rightarrow> lookup \<Rightarrow> resource \<Rightarrow> lookup" where
  "merge_item uuid_ok requested remote s r =
     (if r_id r \<notin> set requested \<or> \<not> validResourceResponse uuid_ok r then s\<lparr>lk_uncertain := True\<rparr>
      else let item = worseFreshness remote (r_freshness r);
               s = s\<lparr>lk_freshness := worseFreshness (lk_freshness s) item, lk_uncertain := lk_uncertain s \<or> item \<noteq> ''live''\<rparr>
        in if r_id r \<in> set (lk_found s) then s
           else s\<lparr>lk_items := lk_items s @ [r\<lparr>r_freshness := item\<rparr>], lk_found := r_id r # lk_found s\<rparr>)"

text \<open>The answer of one target: an error, or its freshness and what its body decodes to.\<close>

type_synonym 'a remote = "federation_error + string \<times> 'a option"

definition merge_result :: "(string \<Rightarrow> bool) \<Rightarrow> string list \<Rightarrow> lookup \<Rightarrow> resource list remote \<Rightarrow> lookup" where
  "merge_result uuid_ok requested s res =
     (case res of
        Inl e \<Rightarrow> s\<lparr>lk_freshness := worseFreshness (lk_freshness s) ''unavailable'', lk_uncertain := True\<rparr>
      | Inr (remote, decoded) \<Rightarrow>
          let s = s\<lparr>lk_freshness := worseFreshness (lk_freshness s) remote, lk_uncertain := lk_uncertain s \<or> remote \<noteq> ''live''\<rparr>
          in (case decoded of None \<Rightarrow> s\<lparr>lk_uncertain := True\<rparr>
              | Some rs \<Rightarrow> foldl (merge_item uuid_ok requested remote) s rs))"

definition local_lookup :: "string \<Rightarrow> resource list \<Rightarrow> lookup" where
  "local_lookup fresh items = \<lparr>lk_items = map (\<lambda>r. r\<lparr>r_freshness := fresh\<rparr>) items, lk_found = map r_id items,
     lk_freshness = fresh, lk_uncertain = (fresh \<noteq> ''live'')\<rparr>"

datatype batch_body = Items "resource list" | Partial "resource list" "string list"

definition batchGet :: "(string \<Rightarrow> bool) \<Rightarrow> (string \<Rightarrow> string option) \<Rightarrow> string \<Rightarrow> bool \<Rightarrow> (string list \<Rightarrow> resource list remote list)
    \<Rightarrow> batch_request option \<Rightarrow> db \<Rightarrow> batch_body reply" where
  "batchGet uuid_ok cast fresh federationAllowed ask body d =
     (case body of None \<Rightarrow> Error 400
      | Some b \<Rightarrow>
          if length (bg_ids b) > 1000 then Error 400
          else if bad_ids uuid_ok [] (bg_ids b) then Error 400
          else (case GetIDs cast (bg_ids b) d of Inl e \<Rightarrow> Error 500
            | Inr items \<Rightarrow>
                if list_ex (\<lambda>r. r_id r \<notin> set (bg_ids b) \<or> \<not> validResourceResponse uuid_ok r) items then Error 500
                else let s = local_lookup fresh items;
                         missing = filter (\<lambda>i. i \<notin> set (lk_found s)) (bg_ids b);
                         s = (if federationAllowed \<and> length (remdups (lk_found s)) < length (bg_ids b)
                              then foldl (merge_result uuid_ok (bg_ids b)) s (ask missing) else s)
                  in if bg_partial b then
                       Reply 200 (Some (lk_freshness s)) (Partial (lk_items s)
                         (if lk_uncertain s then filter (\<lambda>i. i \<notin> set (lk_found s)) (bg_ids b) else []))
                     else if length (remdups (lk_found s)) < length (remdups (bg_ids b)) \<and> lk_uncertain s then Error 503
                     else Reply 200 (Some (lk_freshness s)) (Items (lk_items s))))"

section \<open>Children\<close>

record graph_request =
  gq_ids :: "string list"
  gq_depth :: int

record remote_graph =
  gr_children :: "(string, resource list) gomap option"
  gr_depth :: int
  gr_snapshot :: time
  gr_freshness :: string
  gr_resolved :: "string list option"
  gr_parents :: "(string, string) gomap"

record graph =
  ga_children :: "(string, resource list) gomap"
  ga_parents :: "(string, string) gomap"
  ga_resolved :: "string list"
  ga_all_live :: bool

definition merge_parent :: "(string \<Rightarrow> bool) \<Rightarrow> string list \<Rightarrow> string \<Rightarrow> remote_graph \<Rightarrow> graph \<Rightarrow> string \<Rightarrow> graph" where
  "merge_parent uuid_ok missing result g s i =
     (if i \<notin> set missing then s\<lparr>ga_all_live := False\<rparr>
      else if map_of (ga_parents s) i \<noteq> None then s
      else let own = (case map_of (gr_parents g) i of None \<Rightarrow> [] | Some f \<Rightarrow> f);
               fresh = (if own = [] then gr_freshness g else own)
        in if \<not> validFreshness fresh then s\<lparr>ga_all_live := False\<rparr>
           else let fresh = worseFreshness result fresh;
                    entries = (case gr_children g of None \<Rightarrow> [] | Some m \<Rightarrow> (case map_of m i of None \<Rightarrow> [] | Some rs \<Rightarrow> rs))
             in if \<not> list_all (validResourceResponse uuid_ok) entries then s\<lparr>ga_all_live := False\<rparr>
                else s\<lparr>ga_children := AList.update i (map (\<lambda>r. r\<lparr>r_freshness := worseFreshness (r_freshness r) fresh\<rparr>) entries) (ga_children s),
                       ga_parents := AList.update i fresh (ga_parents s), ga_resolved := ga_resolved s @ [i]\<rparr>)"

definition merge_graph :: "(string \<Rightarrow> bool) \<Rightarrow> string list \<Rightarrow> graph \<Rightarrow> remote_graph remote \<Rightarrow> graph" where
  "merge_graph uuid_ok missing s res =
     (case res of
        Inl e \<Rightarrow> s\<lparr>ga_all_live := False\<rparr>
      | Inr (result, None) \<Rightarrow> s\<lparr>ga_all_live := False\<rparr>
      | Inr (result, Some g) \<Rightarrow>
          (case gr_children g of None \<Rightarrow> s\<lparr>ga_all_live := False\<rparr>
           | Some m \<Rightarrow>
               if gr_depth g \<noteq> 1 \<or> gr_snapshot g = zero_time \<or> \<not> validFreshness (gr_freshness g) then s\<lparr>ga_all_live := False\<rparr>
               else let s = (if result \<noteq> ''live'' \<or> gr_freshness g \<noteq> ''live'' then s\<lparr>ga_all_live := False\<rparr> else s);
                        resolved = (case gr_resolved g of None \<Rightarrow> map fst m | Some is \<Rightarrow> is)
                 in foldl (merge_parent uuid_ok missing result g) s resolved))"

fun unique_ids :: "string list \<Rightarrow> resource list \<Rightarrow> resource list" where
  "unique_ids seen [] = []"
| "unique_ids seen (r # rs) = (if r_id r \<in> set seen then unique_ids seen rs else r # unique_ids (r_id r # seen) rs)"

text \<open>The last loop: parents nobody resolved, and the worst freshness.\<close>

definition close_parent :: "bool \<Rightarrow> (string, string) gomap \<times> string \<Rightarrow> string \<Rightarrow> (string, string) gomap \<times> string" where
  "close_parent allLive acc i =
     (case acc of (parents, fresh) \<Rightarrow>
        let parents = (if map_of parents i = None then AList.update i (if allLive then ''live'' else ''unavailable'') parents else parents)
        in (parents, worseFreshness fresh (the (map_of parents i))))"

record graph_body =
  gb_children :: "(string, resource list) gomap"
  gb_freshness :: string
  gb_parents :: "(string, string) gomap"
  gb_resolved :: "string list"

definition local_graph :: "string \<Rightarrow> (string, resource list) gomap \<Rightarrow> graph" where
  "local_graph fresh children =
     \<lparr>ga_children = map (\<lambda>(i, rs). (i, map (\<lambda>r. r\<lparr>r_freshness := fresh\<rparr>) rs)) children,
      ga_parents = map (\<lambda>(i, rs). (i, fresh)) children, ga_resolved = map fst children, ga_all_live = (fresh = ''live'')\<rparr>"

definition resolveGraph :: "(string \<Rightarrow> bool) \<Rightarrow> (string \<Rightarrow> string option) \<Rightarrow> string \<Rightarrow> bool \<Rightarrow> (string list \<Rightarrow> remote_graph remote list)
    \<Rightarrow> graph_request option \<Rightarrow> db \<Rightarrow> graph_body reply" where
  "resolveGraph uuid_ok cast fresh federationAllowed ask body d =
     (case body of None \<Rightarrow> Error 400
      | Some b \<Rightarrow>
          if length (gq_ids b) > 100 then Error 400
          else if bad_ids uuid_ok [] (gq_ids b) then Error 400
          else if gq_depth b \<noteq> 0 \<and> gq_depth b \<noteq> 1 then Error 400
          else (case ChildrenMany cast (gq_ids b) d of Inl e \<Rightarrow> Error 500
            | Inr children \<Rightarrow>
                let s = local_graph fresh children;
                    missing = filter (\<lambda>i. map_of (ga_parents s) i = None) (gq_ids b);
                    s = (if federationAllowed \<and> missing \<noteq> [] then foldl (merge_graph uuid_ok missing) s (ask missing) else s);
                    (parents, worst) = foldl (close_parent (ga_all_live s)) (ga_parents s, fresh) (gq_ids b)
                in Reply 200 (Some worst) \<lparr>gb_children = map (\<lambda>(i, rs). (i, unique_ids [] rs)) (ga_children s),
                     gb_freshness = worst, gb_parents = parents, gb_resolved = ga_resolved s\<rparr>))"

section \<open>Lists, inventories and selectors\<close>

text \<open>The filter a query asks for; \<open>parse\<close> is \<open>uuid.Parse\<close>.\<close>

definition filter_of :: "(string \<Rightarrow> string option) \<Rightarrow> url_values \<Rightarrow> string \<Rightarrow> (string, string) gomap \<Rightarrow> list_filter" where
  "filter_of parse q cluster labels =
     \<lparr>lf_cluster = cluster, lf_group = Get q ''group'', lf_version = Get q ''version'', lf_kind = Get q ''kind'',
      lf_namespace = Get q ''namespace'', lf_name = Get q ''name'', lf_prefix = Get q ''namePrefix'',
      lf_pattern = Get q ''namePattern'', lf_event_for = Get q ''eventForUID'', lf_labels = labels,
      lf_states = (if Get q ''state'' = [] then [] else [Get q ''state'']), lf_owner = Get q ''ownerUID'',
      lf_limit = (case ParseInt (Get q ''limit'') of None \<Rightarrow> 0 | Some n \<Rightarrow> n),
      lf_cursor = (if Get q ''cursor'' = [] then None
        else Some (read_cursor parse (Get q ''order'' = ''id'') (Get q ''namePrefix'') (Get q ''cursor''))),
      lf_by_id = (Get q ''order'' = ''id''), lf_hide = (Get q ''hideZeroReplicaSets'' = ''true'')\<rparr>"

definition list_query_error :: "url_values \<Rightarrow> bool" where
  "list_query_error q \<longleftrightarrow> validateResourceListQuery q \<noteq> None
     \<or> Get q ''name'' \<noteq> [] \<and> Get q ''namePrefix'' \<noteq> []
     \<or> Get q ''order'' \<noteq> [] \<and> Get q ''order'' \<noteq> ''id''
     \<or> Get q ''order'' = ''id'' \<and> Get q ''namePrefix'' \<noteq> []
     \<or> length (Get q ''cursor'') > 4096
     \<or> Get q ''cursor'' \<noteq> [] \<and> \<not> base64url_pattern (Get q ''cursor'')"

definition forward_or_404 :: "(string \<Rightarrow> proxy_reply) \<Rightarrow> string \<Rightarrow> 'a outcome" where
  "forward_or_404 proxy cluster = (case proxy cluster of NotFederated \<Rightarrow> Answered_here (Error 404) | r \<Rightarrow> Forwarded r)"

definition resources :: "string \<Rightarrow> string \<Rightarrow> (string \<Rightarrow> proxy_reply) \<Rightarrow> (string \<Rightarrow> string option) \<Rightarrow> url_values \<Rightarrow> db \<Rightarrow> page outcome" where
  "resources own fresh proxy parse q d =
     (if list_query_error q then Answered_here (Error 400)
      else let cluster = (if Get q ''cluster'' = [] then own else Get q ''cluster'') in
      if cluster \<noteq> own then forward_or_404 proxy cluster
      else case parseLabels (Get q ''labels'') of None \<Rightarrow> Answered_here (Error 400)
      | Some labels \<Rightarrow> (case List_page (filter_of parse q cluster labels) d of Inl e \<Rightarrow> Answered_here (Error 500)
          | Inr p \<Rightarrow> Answered_here (Reply 200 (Some fresh) (p\<lparr>pg_freshness := fresh\<rparr>))))"

datatype inventory = Namespaces "string list" | Types "resource_type list"

definition resourceInventory :: "string \<Rightarrow> string \<Rightarrow> (string \<Rightarrow> proxy_reply) \<Rightarrow> bool \<Rightarrow> url_values \<Rightarrow> db \<Rightarrow> inventory outcome" where
  "resourceInventory own fresh proxy namespaces q d =
     (if validateResourceListQuery q \<noteq> None then Answered_here (Error 400)
      else let cluster = (if Get q ''cluster'' = [] then own else Get q ''cluster'') in
      if cluster \<noteq> own then forward_or_404 proxy cluster
      else case parseLabels (Get q ''labels'') of None \<Rightarrow> Answered_here (Error 400)
      | Some labels \<Rightarrow>
          let f = (filter_of (\<lambda>_. None) q cluster labels)\<lparr>lf_prefix := [], lf_pattern := [], lf_event_for := [], lf_owner := [],
                lf_limit := 0, lf_cursor := None, lf_by_id := False\<rparr>
          in (case (if namespaces then map_sum id Namespaces (ResourceNamespaces f d) else map_sum id Types (ResourceTypes cluster f d)) of
                Inl e \<Rightarrow> Answered_here (Error 500) | Inr items \<Rightarrow> Answered_here (Reply 200 (Some fresh) items)))"

record selector_body =
  sb_items :: "resource list"
  sb_matched :: nat
  sb_state :: string
  sb_freshness :: string

definition resolveSelector :: "string \<Rightarrow> string \<Rightarrow> (string \<Rightarrow> proxy_reply) \<Rightarrow> selector option \<Rightarrow> db \<Rightarrow> selector_body outcome" where
  "resolveSelector own fresh proxy body d =
     (case body of None \<Rightarrow> Answered_here (Error 400)
      | Some s \<Rightarrow>
          if validateSelectorRequest s \<noteq> None then Answered_here (Error 400)
          else if sel_cluster s \<noteq> [] \<and> sel_cluster s \<noteq> own then forward_or_404 proxy (sel_cluster s)
          else (case parseLabels (sel_labels s) of None \<Rightarrow> Answered_here (Error 400)
            | Some labels \<Rightarrow>
                let f = \<lparr>lf_cluster = sel_cluster s, lf_group = sel_group s, lf_version = sel_version s, lf_kind = sel_kind s,
                      lf_namespace = sel_namespace s, lf_name = sel_name s, lf_prefix = [], lf_pattern = [], lf_event_for = [],
                      lf_labels = labels, lf_states = sel_states s, lf_owner = sel_owner_uid s, lf_limit = 1000, lf_cursor = None,
                      lf_by_id = False, lf_hide = False\<rparr>
                in (case ResolveSelector f d of Inl e \<Rightarrow> Answered_here (Error 500)
                    | Inr r \<Rightarrow> Answered_here (Reply 200 None \<lparr>sb_items = rs_items r, sb_matched = rs_matched r,
                        sb_state = aggregateCounts (rs_counts r) (rs_matched r) (sel_aggregation s), sb_freshness = fresh\<rparr>))))"

section \<open>Ingest\<close>

text \<open>The batch a collector sends is committed to the inbox before it is accepted.\<close>

definition ingest :: "(string \<Rightarrow> bool) \<Rightarrow> postgres \<Rightarrow> (nat \<Rightarrow> time \<times> time) \<Rightarrow> string \<Rightarrow> ingest_batch option \<Rightarrow> db \<Rightarrow> nat reply \<times> db" where
  "ingest uuid_ok pg clk own body d =
     (case body of None \<Rightarrow> (Error 400, d)
      | Some b \<Rightarrow>
          if b_cluster b \<noteq> own then (Error 409, d)
          else if Validate uuid_ok b \<noteq> None then (Error 400, d)
          else (case Enqueue uuid_ok pg clk b d of Inl e \<Rightarrow> (Error 500, d)
            | Inr d' \<Rightarrow> (Reply 202 None (length (b_events b)), d')))"

section \<open>The stream of changes\<close>

text \<open>The position a stream starts from, and what one tick of it sends.\<close>

definition stream_start :: "string \<Rightarrow> db \<Rightarrow> int option" where
  "stream_start header d = (case parseEventSequence header of Inl _ \<Rightarrow> None
     | Inr None \<Rightarrow> Some (LatestSequence d) | Inr (Some n) \<Rightarrow> Some n)"

definition stream_tick :: "int \<Rightarrow> db \<Rightarrow> change_row list \<times> int" where
  "stream_tick sequence d = (let changes = Changes sequence 250 d
     in (changes, if changes = [] then sequence else ch_seq (last changes)))"

fun stream :: "int \<Rightarrow> db list \<Rightarrow> change_row list" where
  "stream sequence [] = []"
| "stream sequence (d # ds) = (case stream_tick sequence d of (changes, sequence') \<Rightarrow> changes @ stream sequence' ds)"

section \<open>Facts about lookups\<close>

lemma bad_ids_False: "\<not> bad_ids uuid_ok seen is \<longleftrightarrow> distinct is \<and> list_all uuid_ok is \<and> set is \<inter> set seen = {}"
  by (induction uuid_ok seen "is" rule: bad_ids.induct) auto

lemma valid_response_freshness [simp]: "validResourceResponse uuid_ok (r\<lparr>r_freshness := f\<rparr>) = validResourceResponse uuid_ok r"
  by (simp add: validResourceResponse_def)

text \<open>
  What holds of a lookup at any time: its items are requested, valid, different, and none is fresher
  than the answer; unless it is uncertain everything is live.
\<close>

definition lookup_ok :: "(string \<Rightarrow> bool) \<Rightarrow> string list \<Rightarrow> lookup \<Rightarrow> bool" where
  "lookup_ok uuid_ok requested s \<longleftrightarrow> distinct (map r_id (lk_items s)) \<and> set (lk_found s) = r_id ` set (lk_items s)
     \<and> (\<forall>r \<in> set (lk_items s). r_id r \<in> set requested \<and> validResourceResponse uuid_ok r
          \<and> fresh_of (r_freshness r) \<le> fresh_of (lk_freshness s))
     \<and> validFreshness (lk_freshness s) \<and> (\<not> lk_uncertain s \<longrightarrow> lk_freshness s = ''live'')"

definition remote_ok :: "'a remote \<Rightarrow> bool" where
  "remote_ok res = (case res of Inl _ \<Rightarrow> True | Inr (f, _) \<Rightarrow> validFreshness f)"

text \<open>Lowering the answer's freshness keeps it.\<close>

lemma lookup_ok_lower:
  assumes "lookup_ok uuid_ok requested s" and "validFreshness f" and "f \<noteq> ''live'' \<Longrightarrow> u"
  shows "lookup_ok uuid_ok requested (s\<lparr>lk_freshness := worseFreshness (lk_freshness s) f, lk_uncertain := lk_uncertain s \<or> u\<rparr>)"
proof -
  have "worseFreshness (lk_freshness s) f = ''live''" if "\<not> (lk_uncertain s \<or> u)"
    using that assms(1,3) by (auto simp: lookup_ok_def worseFreshness_def)
  with assms(1,2) valid_worse [of "lk_freshness s" f] show ?thesis
    by (auto simp: lookup_ok_def le_max_iff_disj)
qed

lemma lookup_ok_uncertain: "lookup_ok uuid_ok requested s \<Longrightarrow> lookup_ok uuid_ok requested (s\<lparr>lk_uncertain := True\<rparr>)"
  by (simp add: lookup_ok_def)

lemma worse_valid_left: "validFreshness a \<Longrightarrow> validFreshness (worseFreshness a b)"
  by (auto simp: worseFreshness_def validFreshness_def rank_freshness_def)

lemma merge_item_ok:
  assumes "lookup_ok uuid_ok requested s" and "validFreshness remote"
  shows "lookup_ok uuid_ok requested (merge_item uuid_ok requested remote s r)"
proof (cases "r_id r \<notin> set requested \<or> \<not> validResourceResponse uuid_ok r")
  case True
  with assms(1) show ?thesis by (simp add: merge_item_def lookup_ok_uncertain)
next
  case False
  let ?f = "worseFreshness remote (r_freshness r)"
  let ?s = "s\<lparr>lk_freshness := worseFreshness (lk_freshness s) ?f, lk_uncertain := lk_uncertain s \<or> ?f \<noteq> ''live''\<rparr>"
  have s: "lookup_ok uuid_ok requested ?s"
    using assms by (intro lookup_ok_lower worse_valid_left) simp_all
  have eq: "merge_item uuid_ok requested remote s r = (if r_id r \<in> set (lk_found s) then ?s
      else ?s\<lparr>lk_items := lk_items s @ [r\<lparr>r_freshness := ?f\<rparr>], lk_found := r_id r # lk_found s\<rparr>)"
    using False by (simp add: merge_item_def Let_def)
  show ?thesis
    unfolding eq using s False by (auto simp: lookup_ok_def le_max_iff_disj)
qed

lemma merge_item_mono:
  "set (lk_found s) \<subseteq> set (lk_found (merge_item uuid_ok requested remote s r))"
  "\<not> lk_uncertain (merge_item uuid_ok requested remote s r) \<Longrightarrow>
     \<not> lk_uncertain s \<and> r_id r \<in> set (lk_found (merge_item uuid_ok requested remote s r))"
  by (auto simp: merge_item_def Let_def split: if_splits)

lemma merge_items_mono:
  "set (lk_found s) \<subseteq> set (lk_found (foldl (merge_item uuid_ok requested remote) s rs))
   \<and> (\<not> lk_uncertain (foldl (merge_item uuid_ok requested remote) s rs) \<longrightarrow>
      \<not> lk_uncertain s \<and> r_id ` set rs \<subseteq> set (lk_found (foldl (merge_item uuid_ok requested remote) s rs)))"
proof (induction rs arbitrary: s)
  case (Cons r rs)
  from Cons.IH [of "merge_item uuid_ok requested remote s r"] merge_item_mono [where s = s and uuid_ok = uuid_ok and requested = requested and remote = remote and r = r]
  show ?case by auto
qed simp

lemma merge_items_ok:
  "lookup_ok uuid_ok requested s \<Longrightarrow> validFreshness remote \<Longrightarrow>
     lookup_ok uuid_ok requested (foldl (merge_item uuid_ok requested remote) s rs)"
  by (induction rs arbitrary: s) (simp_all add: merge_item_ok)

lemma merge_result_ok:
  assumes "lookup_ok uuid_ok requested s" and "remote_ok res"
  shows "lookup_ok uuid_ok requested (merge_result uuid_ok requested s res)"
proof (cases res)
  case (Inl e)
  have "lookup_ok uuid_ok requested (s\<lparr>lk_freshness := worseFreshness (lk_freshness s) ''unavailable'', lk_uncertain := lk_uncertain s \<or> True\<rparr>)"
    using assms(1) by (intro lookup_ok_lower) (simp_all add: validFreshness_def)
  with Inl show ?thesis by (simp add: merge_result_def)
next
  case (Inr p)
  obtain f decoded where p: "p = (f, decoded)" by fastforce
  with assms(2) Inr have f: "validFreshness f" by (simp add: remote_ok_def)
  have s: "lookup_ok uuid_ok requested (s\<lparr>lk_freshness := worseFreshness (lk_freshness s) f, lk_uncertain := lk_uncertain s \<or> f \<noteq> ''live''\<rparr>)"
    using assms(1) f by (intro lookup_ok_lower) simp_all
  show ?thesis
    using s merge_items_ok [OF s f] lookup_ok_uncertain [OF s]
    by (cases decoded) (simp_all add: merge_result_def Inr p Let_def)
qed

lemma merge_result_mono:
  "set (lk_found s) \<subseteq> set (lk_found (merge_result uuid_ok requested s res))
   \<and> (\<not> lk_uncertain (merge_result uuid_ok requested s res) \<longrightarrow> \<not> lk_uncertain s
      \<and> (\<exists>rs. res = Inr (''live'', Some rs) \<and> r_id ` set rs \<subseteq> set (lk_found (merge_result uuid_ok requested s res))))"
proof (cases res)
  case (Inr p)
  obtain f decoded where p: "p = (f, decoded)" by fastforce
  let ?s = "s\<lparr>lk_freshness := worseFreshness (lk_freshness s) f, lk_uncertain := lk_uncertain s \<or> f \<noteq> ''live''\<rparr>"
  show ?thesis
  proof (cases decoded)
    case (Some rs)
    then have eq: "merge_result uuid_ok requested s res = foldl (merge_item uuid_ok requested f) ?s rs"
      by (simp add: merge_result_def Inr p)
    define s1 where "s1 = ?s"
    have "lk_found s1 = lk_found s" "lk_uncertain s1 \<longleftrightarrow> lk_uncertain s \<or> f \<noteq> ''live''" by (simp_all add: s1_def)
    with merge_items_mono [of s1 uuid_ok requested f rs] Inr p Some show ?thesis unfolding eq s1_def [symmetric] by auto
  qed (simp add: merge_result_def Inr p)
qed (simp add: merge_result_def)

lemma merge_results:
  assumes "lookup_ok uuid_ok requested s" and "list_all remote_ok results"
  shows "lookup_ok uuid_ok requested (foldl (merge_result uuid_ok requested) s results)
    \<and> set (lk_found s) \<subseteq> set (lk_found (foldl (merge_result uuid_ok requested) s results))
    \<and> (\<not> lk_uncertain (foldl (merge_result uuid_ok requested) s results) \<longrightarrow> \<not> lk_uncertain s
      \<and> (\<forall>res \<in> set results. \<exists>rs. res = Inr (''live'', Some rs)
            \<and> r_id ` set rs \<subseteq> set (lk_found (foldl (merge_result uuid_ok requested) s results))))"
  using assms
proof (induction results arbitrary: s)
  case (Cons res results)
  let ?s = "merge_result uuid_ok requested s res"
  let ?t = "foldl (merge_result uuid_ok requested) ?s results"
  from Cons.prems have "lookup_ok uuid_ok requested ?s" "list_all remote_ok results" by (simp_all add: merge_result_ok)
  note ih = Cons.IH [OF this]
  note mono = merge_result_mono [of s uuid_ok requested res]
  have "\<exists>rs. x = Inr (''live'', Some rs) \<and> r_id ` set rs \<subseteq> set (lk_found ?t)" if "\<not> lk_uncertain ?t" "x \<in> set (res # results)" for x
    using that ih mono by auto
  with ih mono show ?case by auto
qed simp

lemma GetIDs_items:
  assumes "inventory_ok d" and "GetIDs cast ids d = Inr items"
  shows "distinct (map r_id items)" and "r \<in> set items \<Longrightarrow> \<exists>i \<in> set ids. cast i = Some (r_id r)"
proof -
  have "map (\<lambda>x. r_id (rr_res x)) (table d) = map fst (t_resources d)"
    using assms(1) by (auto simp: inventory_ok_def rows_ok_def table_def)
  then have "distinct (map (\<lambda>x. r_id (rr_res x)) (table d))" using assms(1) by (simp add: inventory_ok_def rows_ok_def)
  then have "distinct (map (\<lambda>x. r_id (rr_res x)) (filter p (table d)))" for p by (rule distinct_map_filter)
  then show "distinct (map r_id items)"
    using assms(2) by (auto simp: GetIDs_def scanResource_def comp_def split: if_splits option.splits)
  show "\<exists>i \<in> set ids. cast i = Some (r_id r)" if "r \<in> set items"
    using that assms(2) by (auto simp: GetIDs_def scanResource_def id_key_def split: if_splits option.splits) (metis option.sel)
qed

text \<open>The local resources the ids of a request name, and what an answer holds and leaves open.\<close>

definition held :: "(string \<Rightarrow> string option) \<Rightarrow> string list \<Rightarrow> db \<Rightarrow> string set" where
  "held cast ids d = {k. Some k \<in> cast ` set ids \<and> (\<exists>x. lookup_resource d k = Some x \<and> r_deleted (rr_res x) = None)}"

fun answer_items :: "batch_body \<Rightarrow> resource list" where
  "answer_items (Items rs) = rs"
| "answer_items (Partial rs is) = rs"

fun answer_open :: "batch_body \<Rightarrow> string list" where
  "answer_open (Items rs) = []"
| "answer_open (Partial rs is) = is"

lemma GetIDs_held:
  assumes "inventory_ok d" and "GetIDs cast ids d = Inr items"
  shows "r_id ` set items = held cast ids d"
    and "k \<in> held cast ids d \<Longrightarrow> \<exists>x. lookup_resource d k = Some x \<and> scanResource x \<in> set items"
proof -
  have row: "lookup_resource d k = Some x \<longleftrightarrow> x \<in> set (table d) \<and> id_key x = k" for k x
  proof -
    have keys: "distinct (map fst (t_resources d))" using assms(1) unfolding inventory_ok_def rows_ok_def by blast
    have "r_id (rr_res y) = j" if "(j, y) \<in> set (t_resources d)" for j y using inventory_row_id [OF assms(1) that] .
    then show ?thesis using keys by (force simp: lookup_resource_def table_def id_key_def)
  qed
  have items: "set items = scanResource ` {x \<in> set (table d). r_deleted (rr_res x) = None \<and> Some (id_key x) \<in> cast ` set ids}"
    using assms(2) by (auto simp: GetIDs_def split: if_splits option.splits)
  show "r_id ` set items = held cast ids d"
    unfolding items held_def row by (force simp: scanResource_def id_key_def image_iff)
  show "\<exists>x. lookup_resource d k = Some x \<and> scanResource x \<in> set items" if "k \<in> held cast ids d"
    using that unfolding items held_def row by blast
qed

lemma merge_items_keep: "set (lk_items s) \<subseteq> set (lk_items (merge_item uuid_ok requested remote s r))"
  "set (lk_items s) \<subseteq> set (lk_items (foldl (merge_item uuid_ok requested remote) s rs))"
proof -
  show one: "set (lk_items s) \<subseteq> set (lk_items (merge_item uuid_ok requested remote s r))" for s r
    by (auto simp: merge_item_def Let_def)
  show "set (lk_items s) \<subseteq> set (lk_items (foldl (merge_item uuid_ok requested remote) s rs))"
    by (induction rs arbitrary: s) (auto dest: subsetD [OF one])
qed

lemma merge_results_keep: "set (lk_items s) \<subseteq> set (lk_items (foldl (merge_result uuid_ok requested) s results))"
proof -
  have one: "set (lk_items s) \<subseteq> set (lk_items (merge_result uuid_ok requested s res))" for s res
    using merge_items_keep(2) by (fastforce simp: merge_result_def Let_def split: sum.splits option.splits prod.splits)
  show ?thesis by (induction results arbitrary: s) (auto dest: subsetD [OF one])
qed

text \<open>C12: An answer to a lookup by id holds only requested, valid resources, each once, is marked at least as stale as
  the stalest of them, and holds every live local resource the ids name, as the local database has it. A
  requested id is missing from a complete answer, or from a partial one that does not name it among the ids
  left open, only when that is certain: the local store is live and holds no live resource under it, and
  every other cluster, asked for the ids not held here, gave a live, complete answer without it. Otherwise
  a complete lookup is refused, and a partial one names the id as left open.\<close>

theorem batch_get_sound:
  assumes "inventory_ok d" and "validFreshness fresh" and "\<And>missing. list_all remote_ok (ask missing)"
    and "batchGet uuid_ok cast fresh federationAllowed ask (Some b) d = Reply status header answer"
  shows "\<exists>f. header = Some f \<and> distinct (map r_id (answer_items answer))
    \<and> (\<forall>r \<in> set (answer_items answer). r_id r \<in> set (bg_ids b) \<and> validResourceResponse uuid_ok r \<and> fresh_of (r_freshness r) \<le> fresh_of f)
    \<and> (\<forall>k \<in> held cast (bg_ids b) d. \<exists>x. lookup_resource d k = Some x \<and> (scanResource x)\<lparr>r_freshness := fresh\<rparr> \<in> set (answer_items answer))
    \<and> set (answer_open answer) \<subseteq> set (bg_ids b) - r_id ` set (answer_items answer)
    \<and> (\<forall>i \<in> set (bg_ids b). i \<notin> r_id ` set (answer_items answer) \<and> i \<notin> set (answer_open answer) \<longrightarrow>
        f = ''live'' \<and> fresh = ''live'' \<and> i \<notin> held cast (bg_ids b) d
        \<and> (federationAllowed \<longrightarrow> (\<forall>res \<in> set (ask (filter (\<lambda>j. j \<notin> held cast (bg_ids b) d) (bg_ids b))).
             \<exists>rs. res = Inr (''live'', Some rs) \<and> i \<notin> r_id ` set rs)))"
proof -
  from assms(4) obtain found where found: "GetIDs cast (bg_ids b) d = Inr found"
    "\<forall>r \<in> set found. r_id r \<in> set (bg_ids b) \<and> validResourceResponse uuid_ok r"
    "\<not> bad_ids uuid_ok [] (bg_ids b)"
    by (auto simp: batchGet_def list_ex_iff split: if_splits sum.splits)
  note own = GetIDs_held [OF assms(1) found(1)]
  define s0 where "s0 = local_lookup fresh found"
  have found0: "set (lk_found s0) = held cast (bg_ids b) d" using own(1) by (simp add: s0_def local_lookup_def)
  define missing where "missing = filter (\<lambda>j. j \<notin> held cast (bg_ids b) d) (bg_ids b)"
  define asked where "asked \<longleftrightarrow> federationAllowed \<and> length (remdups (lk_found s0)) < length (bg_ids b)"
  define s where "s = (if asked then foldl (merge_result uuid_ok (bg_ids b)) s0 (ask missing) else s0)"
  have "r_id ` set (lk_items s0) = r_id ` set found" by (simp add: s0_def local_lookup_def image_image)
  then have ok0: "lookup_ok uuid_ok (bg_ids b) s0"
    using found GetIDs_items(1) [OF assms(1) found(1)] assms(2) unfolding lookup_ok_def
    by (auto simp: s0_def local_lookup_def comp_def)
  note merged = merge_results [OF this assms(3) [of missing]]
  have ok: "lookup_ok uuid_ok (bg_ids b) s" using merged ok0 by (simp add: s_def)
  have kept: "set (lk_items s0) \<subseteq> set (lk_items s)" using merge_results_keep by (simp add: s_def)
  have ids: "set (lk_found s) = r_id ` set (lk_items s)" using ok by (simp add: lookup_ok_def)
  have reply: "answer_items answer = lk_items s" "header = Some (lk_freshness s)"
    "answer_open answer = filter (\<lambda>i. i \<notin> set (lk_found s)) (bg_ids b) \<and> lk_uncertain s
     \<or> answer_open answer = [] \<and> (length (remdups (lk_found s)) < length (remdups (bg_ids b)) \<longrightarrow> \<not> lk_uncertain s)"
  proof -
    have "batchGet uuid_ok cast fresh federationAllowed ask (Some b) d \<in> {Error 400, Error 500} \<or>
        batchGet uuid_ok cast fresh federationAllowed ask (Some b) d =
          (if bg_partial b then Reply 200 (Some (lk_freshness s)) (Partial (lk_items s)
             (if lk_uncertain s then filter (\<lambda>i. i \<notin> set (lk_found s)) (bg_ids b) else []))
           else if length (remdups (lk_found s)) < length (remdups (bg_ids b)) \<and> lk_uncertain s then Error 503
           else Reply 200 (Some (lk_freshness s)) (Items (lk_items s)))"
      using found(1) by (simp add: batchGet_def Let_def s_def asked_def missing_def s0_def [symmetric] found0)
    with assms(4) show "answer_items answer = lk_items s" "header = Some (lk_freshness s)"
      "answer_open answer = filter (\<lambda>i. i \<notin> set (lk_found s)) (bg_ids b) \<and> lk_uncertain s
       \<or> answer_open answer = [] \<and> (length (remdups (lk_found s)) < length (remdups (bg_ids b)) \<longrightarrow> \<not> lk_uncertain s)"
      by (auto split: if_splits)
  qed
  have certain: "lk_freshness s = ''live'' \<and> fresh = ''live'' \<and> i \<notin> held cast (bg_ids b) d
      \<and> (federationAllowed \<longrightarrow> (\<forall>res \<in> set (ask missing). \<exists>rs. res = Inr (''live'', Some rs) \<and> i \<notin> r_id ` set rs))"
    if i: "i \<in> set (bg_ids b)" "i \<notin> set (lk_found s)" "i \<notin> set (answer_open answer)" for i
  proof -
    have "set (lk_found s) \<subset> set (bg_ids b)" using ok i(1,2) by (auto simp: lookup_ok_def)
    then have "card (set (lk_found s)) < card (set (bg_ids b))" by (rule psubset_card_mono [rotated]) simp
    with reply(3) i have sure: "\<not> lk_uncertain s" by (auto simp: length_remdups_card_conv)
    have before: "set (lk_found s0) \<subseteq> set (lk_found s)" "\<not> lk_uncertain s0" using merged sure by (auto simp: s_def split: if_splits)
    have "set (lk_found s0) \<subset> set (bg_ids b)" using before i(1,2) ok by (auto simp: lookup_ok_def)
    then have "card (set (lk_found s0)) < card (set (bg_ids b))" by (rule psubset_card_mono [rotated]) simp
    with found(3) have "federationAllowed \<Longrightarrow> asked"
      by (simp add: asked_def length_remdups_card_conv bad_ids_False distinct_card)
    moreover have "lk_freshness s = ''live''" "fresh = ''live''" using sure before ok by (simp_all add: lookup_ok_def s0_def local_lookup_def)
    moreover have "i \<notin> held cast (bg_ids b) d" using before(1) i(2) found0 by blast
    ultimately show ?thesis using sure merged i(2) by (fastforce simp: s_def)
  qed
  show ?thesis
  proof (intro exI [of _ "lk_freshness s"] conjI)
    show "header = Some (lk_freshness s)" "distinct (map r_id (answer_items answer))"
      "\<forall>r \<in> set (answer_items answer). r_id r \<in> set (bg_ids b) \<and> validResourceResponse uuid_ok r \<and> fresh_of (r_freshness r) \<le> fresh_of (lk_freshness s)"
      using ok by (simp_all add: reply lookup_ok_def)
    show "\<forall>k \<in> held cast (bg_ids b) d. \<exists>x. lookup_resource d k = Some x \<and> (scanResource x)\<lparr>r_freshness := fresh\<rparr> \<in> set (answer_items answer)"
      using own(2) kept by (fastforce simp: reply s0_def local_lookup_def)
    show "set (answer_open answer) \<subseteq> set (bg_ids b) - r_id ` set (answer_items answer)"
      using reply(3) ids by (auto simp: reply(1))
    show "\<forall>i \<in> set (bg_ids b). i \<notin> r_id ` set (answer_items answer) \<and> i \<notin> set (answer_open answer) \<longrightarrow>
        lk_freshness s = ''live'' \<and> fresh = ''live'' \<and> i \<notin> held cast (bg_ids b) d
        \<and> (federationAllowed \<longrightarrow> (\<forall>res \<in> set (ask (filter (\<lambda>j. j \<notin> held cast (bg_ids b) d) (bg_ids b))).
             \<exists>rs. res = Inr (''live'', Some rs) \<and> i \<notin> r_id ` set rs))"
      using certain unfolding missing_def reply(1) ids by blast
  qed
qed

definition sample_held :: resource where
  "sample_held = (sample ''a'' ''critical'' 5000)\<lparr>r_resource_version := ''7''\<rparr>"

definition sample_far :: resource where
  "sample_far = (sample ''b'' ''ok'' 9000)\<lparr>r_resource_version := ''3'', r_freshness := ''live''\<rparr>"

definition sample_store :: db where
  "sample_store = projr (applyResource sample_parse 1 2 ''upsert'' ''pods'' sample_held empty_db)"

lemma sample_store_ok: "inventory_ok sample_store"
proof -
  have "applyResource sample_parse 1 2 ''upsert'' ''pods'' sample_held empty_db = Inr sample_store"
    unfolding sample_store_def by (rule succeeds) code_simp
  from applyResource_ok [OF inventory_ok_empty this] show ?thesis .
qed

text \<open>One of the ids is held here, one in the other cluster, one nowhere.\<close>

lemma sample_batch_get:
  "batchGet (\<lambda>_. True) Some ''live'' True (\<lambda>_. [Inr (''live'', Some [sample_far])])
     (Some \<lparr>bg_ids = [''id-a'', ''id-b'', ''id-c''], bg_partial = False\<rparr>) sample_store
   = Reply 200 (Some ''live'') (Items [sample_held\<lparr>r_owners := [], r_freshness := ''live''\<rparr>, sample_far])"
  by code_simp

lemma batch_get_sound_witness:
  "let ids = [''id-a'', ''id-b'', ''id-c''] in held Some ids sample_store = {''id-a''}
   \<and> (\<exists>x. lookup_resource sample_store ''id-a'' = Some x
       \<and> (scanResource x)\<lparr>r_freshness := ''live''\<rparr> \<in> {sample_held\<lparr>r_owners := [], r_freshness := ''live''\<rparr>, sample_far})
   \<and> ''id-c'' \<notin> r_id ` {sample_held, sample_far}"
proof -
  have held: "held Some [''id-a'', ''id-b'', ''id-c''] sample_store = {''id-a''}"
  proof -
    have "lookup_resource sample_store ''id-b'' = None" "lookup_resource sample_store ''id-c'' = None"
      "map_option (\<lambda>x. r_deleted (rr_res x)) (lookup_resource sample_store ''id-a'') = Some None" by code_simp+
    then show ?thesis by (auto simp: held_def)
  qed
  have "list_all remote_ok [Inr (''live'', Some [sample_far])]" by (simp add: remote_ok_def validFreshness_def)
  from batch_get_sound [OF sample_store_ok _ this sample_batch_get] held show ?thesis
    by (simp add: validFreshness_def sample_far_def sample_held_def sample_def)
qed

text \<open>
  A UUID that \<open>uuid.Parse\<close> reads but that is not written the way the database returns it, in capitals for
  instance, finds its row and is then refused as if the database had answered wrongly.
\<close>

lemma batchGet_foreign_spelling:
  assumes "uuid_ok j" and "cast j = Some (id_key x)" and "id_key x \<noteq> j"
    and "x \<in> set (table d)" and "r_deleted (rr_res x) = None"
  shows "batchGet uuid_ok cast fresh federationAllowed ask (Some \<lparr>bg_ids = [j], bg_partial = p\<rparr>) d = Error 500"
proof -
  have "GetIDs cast [j] d = Inr (map scanResource (filter (\<lambda>x'. r_deleted (rr_res x') = None \<and> id_key x' = id_key x) (table d)))"
    (is "_ = Inr ?items") using assms(2) by (auto simp: GetIDs_def intro!: filter_cong)
  moreover have "list_ex (\<lambda>r. r_id r \<noteq> j \<or> \<not> validResourceResponse uuid_ok r) ?items"
    using assms(3-5) by (auto simp: list_ex_iff scanResource_def id_key_def)
  ultimately show ?thesis using assms(1) by (simp add: batchGet_def)
qed

section \<open>Facts about the stream\<close>

text \<open>The changes after a position, oldest first; what one tick sends of them.\<close>

abbreviation changes_after :: "int \<Rightarrow> db \<Rightarrow> change_row list" where
  "changes_after sequence d \<equiv> filter (\<lambda>c. ch_seq c > sequence) (t_changes d)"

lemma Changes_in_order:
  assumes "change_ids_ok (t_changes d) n"
  shows "Changes sequence 250 d = take 250 (changes_after sequence d)"
proof -
  have "sorted_wrt (\<lambda>a b. ch_seq a < ch_seq b) (changes_after sequence d)"
    using assms by (auto simp: change_ids_ok_def sorted_wrt_map intro: sorted_wrt_filter)
  then have "sorted (map ch_seq (changes_after sequence d))"
    by (auto simp: sorted_map intro: sorted_wrt_mono_rel [rotated])
  then show ?thesis by (simp add: Changes_def sort_key_id_if_sorted)
qed

lemma filter_drop_sorted:
  "sorted_wrt (\<lambda>a b. ch_seq a < ch_seq b) cs \<Longrightarrow> k < length cs \<Longrightarrow> filter (\<lambda>c. ch_seq c > ch_seq (cs ! k)) cs = drop (Suc k) cs"
proof (induction cs arbitrary: k)
  case (Cons c cs)
  show ?case
  proof (cases k)
    case 0
    with Cons.prems have "filter (\<lambda>c'. ch_seq c < ch_seq c') cs = cs" by (simp add: filter_id_conv)
    with 0 show ?thesis by simp
  next
    case (Suc j)
    with Cons.prems have "\<not> ch_seq (cs ! j) < ch_seq c" by (auto simp: not_less nth_mem dest: bspec [of _ _ "cs ! j"])
    with Suc Cons show ?thesis by simp
  qed
qed simp

text \<open>Where the stream stands after a sequence of ticks.\<close>

fun position :: "int \<Rightarrow> db list \<Rightarrow> int" where
  "position sequence [] = sequence"
| "position sequence (d # ds) = position (snd (stream_tick sequence d)) ds"

lemma stream_append: "stream sequence (ds @ es) = stream sequence ds @ stream (position sequence ds) es"
  by (induction ds arbitrary: sequence) (simp_all add: case_prod_unfold)

lemma tick_split:
  assumes "change_ids_ok cs n" and "prefix (t_changes d) cs" and "stream_tick sequence d = (new, sequence')"
  shows "filter (\<lambda>c. ch_seq c > sequence) cs = new @ filter (\<lambda>c. ch_seq c > sequence') cs"
    and "length new = min 250 (length (changes_after sequence d))"
proof -
  let ?C = "filter (\<lambda>c. ch_seq c > sequence) cs"
  from assms(1) have sorted: "sorted_wrt (\<lambda>a b. ch_seq a < ch_seq b) ?C"
    by (simp add: change_ids_ok_def sorted_wrt_map sorted_wrt_filter)
  from assms(2) obtain more where more: "cs = t_changes d @ more" by (auto simp: prefix_def)
  with assms(1) have "change_ids_ok (t_changes d) n" by (auto simp: change_ids_ok_def sorted_wrt_append)
  from Changes_in_order [OF this, of sequence] assms(3)
  have new: "new = take 250 (changes_after sequence d)" by (simp add: stream_tick_def Let_def split: if_splits)
  then show "length new = min 250 (length (changes_after sequence d))" by simp
  have sequence': "sequence' = (if new = [] then sequence else ch_seq (last new))"
    using assms(3) by (auto simp: stream_tick_def Let_def split: if_splits)
  define rest where "rest = drop 250 (changes_after sequence d) @ filter (\<lambda>c. ch_seq c > sequence) more"
  have rest: "?C = new @ rest" by (simp add: new rest_def more flip: append_assoc)
  show "?C = new @ filter (\<lambda>c. ch_seq c > sequence') cs"
  proof (cases "new = []")
    case False
    define k where "k = length new - 1"
    from False have k: "length new = Suc k" by (simp add: k_def)
    then have at: "k < length ?C" "?C ! k = last new" by (simp_all add: rest nth_append last_conv_nth False)
    then have later: "ch_seq (last new) > sequence" using nth_mem [of k ?C] by auto
    then have "filter (\<lambda>c. ch_seq c > ch_seq (last new)) cs = filter (\<lambda>c. ch_seq c > ch_seq (last new)) ?C"
      unfolding filter_filter by (intro filter_cong) auto
    also have "\<dots> = drop (Suc k) ?C" using filter_drop_sorted [OF sorted at(1)] by (simp only: at(2))
    also have "\<dots> = rest" by (simp add: rest k)
    finally show ?thesis using False rest by (simp add: sequence')
  qed (simp add: sequence')
qed

lemma stream_split:
  assumes "change_ids_ok cs n" and "\<forall>d \<in> set ds. prefix (t_changes d) cs"
  shows "filter (\<lambda>c. ch_seq c > sequence) cs = stream sequence ds @ filter (\<lambda>c. ch_seq c > position sequence ds) cs"
  using assms(2)
proof (induction ds arbitrary: sequence)
  case (Cons d ds)
  obtain new sequence' where tick: "stream_tick sequence d = (new, sequence')" by fastforce
  from Cons.prems have shown: "prefix (t_changes d) cs" "\<forall>d \<in> set ds. prefix (t_changes d) cs" by simp_all
  show ?case
    unfolding tick_split(1) [OF assms(1) shown(1) tick] unfolding Cons.IH [OF shown(2), of sequence'] by (simp add: tick)
qed simp

lemma stream_still:
  assumes "change_ids_ok (t_changes d) n"
  shows "stream sequence (replicate k d) = take (250 * k) (changes_after sequence d)"
proof (induction k arbitrary: sequence)
  case (Suc k)
  obtain new sequence' where tick: "stream_tick sequence d = (new, sequence')" by fastforce
  note split = tick_split [OF assms prefix_order.refl tick]
  have "250 * Suc k - length new = 250 * k \<or> changes_after sequence' d = []"
    using split(2) arg_cong [OF split(1), of length] by (auto simp: min_def split: if_splits)
  moreover have "take (250 * Suc k) new = new" using split(2) by (intro take_all) simp
  ultimately show ?case unfolding split(1) by (auto simp: tick Suc)
qed simp

text \<open>C21: While changes become visible in the order of their sequence numbers, a stream sends exactly the
  changes after the position it was asked for, each once and in order, and once the log stands still
  it has caught up after one tick for every 250 of them.\<close>

theorem stream_complete:
  assumes "change_ids_ok (t_changes d) n" and "\<forall>e \<in> set ds. prefix (t_changes e) (t_changes d)"
    and "length (changes_after sequence d) \<le> 250 * k"
  shows "stream sequence (ds @ replicate k d) = changes_after sequence d"
proof -
  note split = stream_split [OF assms(1,2), of sequence]
  then have "length (changes_after (position sequence ds) d) \<le> 250 * k" using assms(3) by simp
  with split show ?thesis by (simp add: stream_append stream_still [OF assms(1)])
qed

definition sample_change :: "int \<Rightarrow> change_row" where
  "sample_change n = \<lparr>ch_seq = n, ch_resource = ''a'', ch_cluster = ''prod'', ch_action = ''upsert'', ch_at = 0\<rparr>"

lemma stream_complete_witness:
  "stream 1 ([empty_db] @ replicate 1 (empty_db\<lparr>t_changes := [sample_change 1, sample_change 2]\<rparr>)) = [sample_change 2]"
  using stream_complete [of "empty_db\<lparr>t_changes := [sample_change 1, sample_change 2]\<rparr>" 3 "[empty_db]" 1 1]
  by (simp add: change_ids_ok_def sample_change_def empty_db_def)

text \<open>
  A number is taken when a transaction inserts its change, and the change shows when that transaction
  commits. A change that shows only after a later number was sent is never sent.
\<close>

lemma stream_after: "c \<in> set (stream sequence ds) \<Longrightarrow> sequence < ch_seq c"
proof (induction ds arbitrary: sequence)
  case (Cons d ds)
  have sent: "x \<in> set (Changes sequence 250 d) \<Longrightarrow> sequence < ch_seq x" for x
    by (auto simp: Changes_def dest!: in_set_takeD)
  then have "sequence \<le> snd (stream_tick sequence d)"
    by (auto simp: stream_tick_def Let_def intro!: less_imp_le sent last_in_set)
  with Cons sent show ?case by (fastforce simp: stream_tick_def Let_def)
qed simp

lemma stream_skips_late_commit:
  assumes "x \<in> set (Changes sequence 250 d)" and "ch_seq c < ch_seq x" and "c \<notin> set (t_changes d)"
  shows "c \<notin> set (stream sequence (d # ds))"
proof
  assume c: "c \<in> set (stream sequence (d # ds))"
  let ?cs = "Changes sequence 250 d"
  have "sorted (map ch_seq ?cs)" unfolding Changes_def Let_def by (simp only: take_map [symmetric] sorted_wrt_take sorted_sort_key)
  with assms(1) have "ch_seq x \<le> ch_seq (last ?cs)"
    by (cases ?cs rule: rev_cases) (auto simp: sorted_append)
  moreover have "c \<notin> set ?cs" using assms(3) by (auto simp: Changes_def dest!: in_set_takeD)
  ultimately show False
    using c assms(1,2) stream_after [of c "ch_seq (last ?cs)" ds]
    by (auto simp: stream_tick_def Let_def split: if_splits)
qed

end
