(* ===== verification/Paging.thy ===== *)
theory Paging
  imports Lookup
begin

text \<open>
  Paging from end to end: a client that sends the cursor of each answer of \<open>GET /resources\<close>
  (\<open>resources\<close> of \<open>internal/v2/api/server.go\<close>) with the same query again. The cursor passes the validation of the
  request and the store decodes what it encoded, so the client sees the pages of \<open>Listing\<close>.
\<close>

section \<open>The client\<close>

definition with_cursor :: "url_values \<Rightarrow> string \<Rightarrow> url_values" where
  "with_cursor q text = AList.update ''cursor'' [text] q"

fun follow_api :: "nat \<Rightarrow> (url_values \<Rightarrow> db \<Rightarrow> page outcome) \<Rightarrow> url_values \<Rightarrow> (nat \<Rightarrow> db) \<Rightarrow> resource list option" where
  "follow_api 0 api q ds = None"
| "follow_api (Suc n) api q ds = (case api q (ds 0) of
     Answered_here (Reply _ _ p) \<Rightarrow> (case pg_next p of None \<Rightarrow> Some (pg_resources p)
       | Some c \<Rightarrow> map_option (\<lambda>rest. pg_resources p @ rest) (follow_api n api (with_cursor q (write_cursor c)) (ds \<circ> Suc)))
   | _ \<Rightarrow> None)"

lemma Get_with_cursor: "Get (with_cursor q v) k = (if k = ''cursor'' then v else Get q k)"
  by (simp add: Get_def with_cursor_def update_conv')

lemma with_cursor_accepted:
  assumes "\<not> list_query_error q" and "length v \<le> 4096" and "base64url_pattern v"
  shows "\<not> list_query_error (with_cursor q v)"
proof -
  have "\<not> has_nul v" using assms(3) by (auto simp: base64url_pattern_def has_nul_def list_all_iff letter_def digit_def)
  then have "bad_parameter (with_cursor q v) nm \<Longrightarrow> bad_parameter q nm" if "nm \<in> set list_maximums" for nm
    using assms(2) that by (auto simp: bad_parameter_def with_cursor_def update_conv' list_maximums_def split: if_splits)
  then have params: "find (bad_parameter q) list_maximums = None \<Longrightarrow> find (bad_parameter (with_cursor q v)) list_maximums = None"
    by (auto simp: find_None_iff)
  have same: "Get (with_cursor q v) ''hideZeroReplicaSets'' = Get q ''hideZeroReplicaSets''" "Get (with_cursor q v) ''cluster'' = Get q ''cluster''"
    "Get (with_cursor q v) ''state'' = Get q ''state''" "Get (with_cursor q v) ''limit'' = Get q ''limit''"
    by (simp_all add: Get_with_cursor)
  have none: "validateResourceListQuery q = None" using assms(1) by (simp add: list_query_error_def)
  then have found: "find (bad_parameter q) list_maximums = None"
    by (cases "find (bad_parameter q) list_maximums") (auto simp: validateResourceListQuery_def)
  have "validateResourceListQuery (with_cursor q v) = validateResourceListQuery q"
    unfolding validateResourceListQuery_def found params [OF found] same ..
  with none have "validateResourceListQuery (with_cursor q v) = None" by simp
  then show ?thesis using assms by (simp add: list_query_error_def Get_with_cursor)
qed

lemma filter_with_cursor:
  assumes "v \<noteq> []"
  shows "filter_of parse (with_cursor q v) cluster labels
    = (filter_of parse q cluster labels)\<lparr>lf_cursor := Some (read_cursor parse (lf_by_id (filter_of parse q cluster labels))
        (lf_prefix (filter_of parse q cluster labels)) v)\<rparr>"
  using assms by (simp add: filter_of_def Get_with_cursor)

text \<open>The cursor of a page is the one of a row of the table.\<close>

lemma page_cursor:
  assumes "List_page f d = Inr p" and "pg_next p = Some c"
  shows "\<exists>x \<in> set (table d). c = row_cursor f x"
proof -
  from assms obtain found where found: "list_rows f d = Inr found" "list_limit f < length (take (list_limit f + 1) found)"
    "c = row_cursor f (take (list_limit f + 1) found ! (list_limit f - 1))"
    by (auto simp: List_page_def Let_def split: sum.splits if_splits)
  have "set found \<subseteq> set (table d)"
    using found(1) by (auto simp: list_rows_def split: sum.splits if_splits option.splits)
  moreover have "take (list_limit f + 1) found ! (list_limit f - 1) \<in> set (take (list_limit f + 1) found)"
    using found(2) by (intro nth_mem) simp
  ultimately have "take (list_limit f + 1) found ! (list_limit f - 1) \<in> set (table d)" using in_set_takeD by fastforce
  with found(3) show ?thesis by blast
qed

lemma row_cursor_cong: "lf_by_id f = lf_by_id g \<Longrightarrow> lf_prefix f = lf_prefix g \<Longrightarrow> row_cursor f x = row_cursor g x"
  by (simp add: row_cursor_def)

lemma follow_api_pages:
  assumes "\<not> list_query_error q" and "Get q ''cluster'' = [] \<or> Get q ''cluster'' = own" and "parseLabels (Get q ''labels'') = Some labels"
    and "\<And>i x. x \<in> set (table (ds i)) \<Longrightarrow> cursor_row parse 508 x"
  shows "follow_api n (resources own fresh proxy parse) q ds = follow_pages n (filter_of parse q own labels) ds"
  using assms
proof (induction n arbitrary: q ds)
  case (Suc n)
  let ?f = "filter_of parse q own labels"
  have cl: "(if Get q ''cluster'' = [] then own else Get q ''cluster'') = own" using Suc.prems(2) by auto
  show ?case
  proof (cases "List_page ?f (ds 0)")
    case (Inr p)
    have answer: "resources own fresh proxy parse q (ds 0) = Answered_here (Reply 200 (Some fresh) (p\<lparr>pg_freshness := fresh\<rparr>))"
      using Suc.prems(1,3) Inr by (simp add: resources_def cl Let_def)
    show ?thesis
    proof (cases "pg_next p")
      case (Some c)
      from page_cursor [OF Inr Some] obtain x where x: "x \<in> set (table (ds 0))" "c = row_cursor ?f x" by blast
      note ok = cursor_fits [OF Suc.prems(4) [OF x(1)], of ?f] read_written_cursor [OF Suc.prems(4) [OF x(1)], of ?f, simplified]
      let ?q = "with_cursor q (write_cursor c)"
      have "write_cursor c \<noteq> []" using ok(2) by (auto simp: x(2) base64url_pattern_def)
      then have f: "filter_of parse ?q own labels = ?f\<lparr>lf_cursor := Some c\<rparr>"
        using ok(3) by (simp add: filter_with_cursor x(2))
      have "follow_api n (resources own fresh proxy parse) ?q (ds \<circ> Suc) = follow_pages n (filter_of parse ?q own labels) (ds \<circ> Suc)"
        using Suc.prems ok by (intro Suc.IH with_cursor_accepted) (simp_all add: Get_with_cursor x(2))
      with answer Inr Some show ?thesis by (simp add: f)
    qed (use answer Inr in simp)
  qed (use Suc.prems in \<open>simp add: resources_def cl Let_def\<close>)
qed simp


text \<open>
  A row whose name is ASCII, where \<open>strings.ToLower\<close> keeps the length: in a name of other characters it can
  lengthen the name beyond the 512 bytes that are read back.
\<close>

definition ascii_row :: "(string \<Rightarrow> string option) \<Rightarrow> nat \<Rightarrow> res_row \<Rightarrow> bool" where
  "ascii_row parse bound x \<longleftrightarrow> parse (id_key x) = Some (id_key x) \<and> id_key x \<noteq> [] \<and> length (id_key x) \<le> 36
     \<and> 1 \<le> rr_sort x \<and> rr_sort x < 2 ^ 63 \<and> list_all (byte_in 0 0x7F) (r_name (rr_res x)) \<and> length (r_name (rr_res x)) \<le> bound"

lemma ascii_valid: "list_all (byte_in 0 0x7F) s \<Longrightarrow> valid_utf8 s"
  by (induction s) (simp_all add: valid_utf8.simps)

lemma ascii_cursor_row: "ascii_row parse n x \<Longrightarrow> cursor_row parse n x"
  by (simp add: ascii_row_def cursor_row_def ascii_valid)

text \<open>C33: Where names are ASCII and at most 508 bytes long, the text of every cursor the store hands out is accepted by
  the validation of the API, decodes to the key it was made from (base64, JSON with its escapes, numbers and
  ids are all read back and pass the checks of the decoder), and the list can be continued with it, over
  whatever the table holds by then.\<close>

theorem cursor_roundtrip:
  assumes "List_page f d = Inr p" and "pg_next p = Some c" and "\<forall>x \<in> set (table d). ascii_row parse 508 x"
  shows "read_cursor parse (lf_by_id f) (lf_prefix f) (write_cursor c) = c
    \<and> base64url_pattern (write_cursor c) \<and> length (write_cursor c) \<le> 4096
    \<and> (\<exists>rows. list_rows (f\<lparr>lf_cursor := Some c\<rparr>) d' = Inr rows)"
proof -
  from page_cursor [OF assms(1,2)] assms(3) obtain x where x: "cursor_row parse 508 x" "c = row_cursor f x"
    using ascii_cursor_row by blast
  then have "\<exists>rows. list_rows (f\<lparr>lf_cursor := Some c\<rparr>) d' = Inr rows"
    by (auto simp: list_rows_def buildResourceFilter_def row_cursor_def decodeNameCursor_def cursor_row_def)
  with x show ?thesis using read_written_cursor cursor_fits by auto
qed

section \<open>A list of two requests\<close>

definition pod_query :: url_values where
  "pod_query = [(''kind'', [''Pod'']), (''limit'', [''1''])]"

definition named_pod :: "string \<Rightarrow> int \<Rightarrow> res_row" where
  "named_pod i n = \<lparr>rr_sort = n, rr_shard = ''pods'',
     rr_res = blank_resource\<lparr>r_id := i, r_cluster := ''prod'', r_kind := ''Pod'', r_name := i, r_state := StateOK\<rparr>, rr_changed = 0\<rparr>"

definition two_pods :: db where
  "two_pods = empty_db\<lparr>t_resources := [(''a'', named_pod ''a'' 2), (''b'', named_pod ''b'' 1)]\<rparr>"

lemma ParseInt_one: "ParseInt ''1'' = Some 1"
  by (simp add: ParseInt_def parse_digits_def digit_def digits_val_def)

lemma no_labels: "parseLabels [] = Some []"
  using set_TrimSpace [of "[]"] by (simp add: parseLabels_def)

lemma pod_query_ok: "\<not> list_query_error pod_query" "parseLabels (Get pod_query ''labels'') = Some []"
  by (simp_all add: list_query_error_def validateResourceListQuery_def pod_query_def Get_def list_maximums_def bad_parameter_def
      has_nul_def ParseInt_one no_labels)

lemma two_pods_ok: "listable (table two_pods)" "\<forall>x \<in> set (table two_pods). cursor_row Some 508 x"
  "\<forall>x \<in> set (table two_pods). ascii_row Some 508 x"
  by (simp_all add: ascii_row_def two_pods_def named_pod_def table_def listable_def id_key_def cursor_row_def valid_utf8.simps byte_in_def)

lemma sample_filtered:
  "matching_rows (filter_of Some pod_query ''prod'' []) two_pods = [named_pod ''a'' 2, named_pod ''b'' 1]"
  "list_order (filter_of Some pod_query ''prod'' []) [named_pod ''a'' 2, named_pod ''b'' 1] = [named_pod ''b'' 1, named_pod ''a'' 2]"
  by (simp_all add: matching_rows_def filter_of_def pod_query_def Get_def where_clause_def Let_def chosen_def table_def two_pods_def
      named_pod_def blank_resource_def list_order_def)


lemma cursor_roundtrip_witness:
  "read_cursor Some False [] (write_cursor (Number 1)) = Number 1
   \<and> (\<exists>rows. list_rows ((filter_of Some pod_query ''prod'' [])\<lparr>lf_cursor := Some (Number 1)\<rparr>) two_pods = Inr rows)"
proof -
  let ?f = "filter_of Some pod_query ''prod'' []"
  have f: "lf_by_id ?f = False" "lf_prefix ?f = []" "list_limit ?f = 1"
    by (simp_all add: filter_of_def pod_query_def Get_def list_limit_def ParseInt_one)
  have "list_rows ?f two_pods = Inr [named_pod ''b'' 1, named_pod ''a'' 2]"
    using sample_filtered by (simp add: list_rows_def buildResourceFilter_def f matching_rows_def list_order_def filter_of_def pod_query_def Get_def)
  then have "List_page ?f two_pods = Inr \<lparr>pg_resources = map scanResource [named_pod ''b'' 1], pg_next = Some (Number 1), pg_freshness = ''live''\<rparr>"
    by (simp add: List_page_def f row_cursor_def named_pod_def)
  from cursor_roundtrip [OF this _ two_pods_ok(3)] show ?thesis by (simp add: f)
qed

end
