(* ===== verification/Checks.thy ===== *)
theory Checks
  imports Query
begin

text \<open>
  Checks that stop at the first error, as the validators of the API and of the configuration are
  written: an error is \<open>Some e\<close>, a check that passes \<open>None\<close>. Besides, what \<open>json.Unmarshal\<close> does with a
  decoded value for the Go types the validators decode into.
\<close>

section \<open>Chains of checks\<close>

named_theorems passes \<open>when a chain of checks passes\<close>

definition require :: "bool \<Rightarrow> 'e \<Rightarrow> 'e option" where
  "require p e = (if p then None else Some e)"

definition also_check :: "'e option \<Rightarrow> 'e option \<Rightarrow> 'e option" where
  "also_check a b = (case a of None \<Rightarrow> b | Some e \<Rightarrow> Some e)"

fun in_order :: "'e option list \<Rightarrow> 'e option" where
  "in_order [] = None"
| "in_order (c # cs) = also_check c (in_order cs)"

text \<open>A check that needs what an earlier step decoded.\<close>

definition given :: "'a option \<Rightarrow> 'e \<Rightarrow> ('a \<Rightarrow> 'e option) \<Rightarrow> 'e option" where
  "given v e f = (case v of None \<Rightarrow> Some e | Some x \<Rightarrow> f x)"

lemma require_None [passes]: "require p e = None \<longleftrightarrow> p"
  by (simp add: require_def)

lemma also_check_None [passes]: "also_check a b = None \<longleftrightarrow> a = None \<and> b = None"
  by (simp add: also_check_def split: option.splits)

lemma in_order_None [passes]: "in_order cs = None \<longleftrightarrow> (\<forall>c \<in> set cs. c = None)"
  by (induction cs) (auto simp: passes)

lemma given_None [passes]: "given v e f = None \<longleftrightarrow> (\<exists>x. v = Some x \<and> f x = None)"
  by (simp add: given_def split: option.splits)

lemma in_order_find: "in_order cs = (case find (\<lambda>c. c \<noteq> None) cs of None \<Rightarrow> None | Some c \<Rightarrow> c)"
  by (induction cs) (auto simp: also_check_def split: option.splits)

text \<open>The loops over a list that look for a value seen before.\<close>

fun repeated :: "'a set \<Rightarrow> 'a list \<Rightarrow> bool" where
  "repeated seen [] = False"
| "repeated seen (x # xs) = (x \<in> seen \<or> repeated (insert x seen) xs)"

lemma repeated_iff: "repeated seen xs \<longleftrightarrow> \<not> distinct xs \<or> set xs \<inter> seen \<noteq> {}"
  by (induction seen xs rule: repeated.induct) auto

lemma repeated_distinct [simp]: "repeated {} xs \<longleftrightarrow> \<not> distinct xs"
  by (simp add: repeated_iff)

section \<open>Unmarshalling\<close>

text \<open>
  \<open>Unmarshal\<close> of a member that may be missing (\<open>None\<close>, an error), into a string, an integer, a boolean,
  a map and a slice. \<open>null\<close> leaves the zero value; for maps and slices that is \<open>nil\<close>, which the callers
  refuse with the error of a failed decoding. Of equal keys the last one counts.
\<close>

definition go_members :: "(string \<times> json) list \<Rightarrow> (string, json) gomap" where
  "go_members kvs = foldl (\<lambda>m (k, v). AList.update k v m) [] kvs"

definition object_of :: "json option \<Rightarrow> (string, json) gomap option" where
  "object_of j = (case j of Some (JObj kvs) \<Rightarrow> Some (go_members kvs) | _ \<Rightarrow> None)"

definition string_of :: "json option \<Rightarrow> string option" where
  "string_of j = (case j of Some JNull \<Rightarrow> Some [] | Some (JStr s) \<Rightarrow> Some s | _ \<Rightarrow> None)"

definition int_of_json :: "json option \<Rightarrow> int option" where
  "int_of_json j = (case j of Some JNull \<Rightarrow> Some 0
     | Some (JInt i) \<Rightarrow> if - (2 ^ 63) \<le> i \<and> i < 2 ^ 63 then Some i else None | _ \<Rightarrow> None)"

definition bool_of :: "json option \<Rightarrow> bool option" where
  "bool_of j = (case j of Some JNull \<Rightarrow> Some False | Some (JBool b) \<Rightarrow> Some b | _ \<Rightarrow> None)"

definition array_of :: "json option \<Rightarrow> json list option" where
  "array_of j = (case j of Some (JArr xs) \<Rightarrow> Some xs | _ \<Rightarrow> None)"

definition strings_of :: "json option \<Rightarrow> string list option" where
  "strings_of j = (case array_of j of None \<Rightarrow> None
     | Some xs \<Rightarrow> if list_all (\<lambda>x. string_of (Some x) \<noteq> None) xs then Some (map (\<lambda>x. the (string_of (Some x))) xs) else None)"

text \<open>
  Into \<open>any\<close> every value decodes whose numbers a float64 can hold: \<open>float64\<close> gives, for the text of a
  number, \<open>None\<close> when it is out of range and otherwise its value if that is whole.
\<close>

fun any_ok :: "(string \<Rightarrow> int option option) \<Rightarrow> json \<Rightarrow> bool" where
  "any_ok float64 (JInt i) = (float64 (int_str i) \<noteq> None)"
| "any_ok float64 (JFloat t) = (float64 t \<noteq> None)"
| "any_ok float64 (JArr xs) = list_all (any_ok float64) xs"
| "any_ok float64 (JObj kvs) = list_all (\<lambda>kv. any_ok float64 (snd kv)) kvs"
| "any_ok float64 JNull = True"
| "any_ok float64 (JBool b) = True"
| "any_ok float64 (JStr s) = True"

lemma distinct_go_members [simp]: "distinct (map fst (go_members kvs))"
proof -
  have "distinct (map fst m) \<Longrightarrow> distinct (map fst (foldl (\<lambda>m (k, v). AList.update k v m) m kvs))" for m
    by (induction kvs arbitrary: m) (auto simp: distinct_update)
  then show ?thesis by (simp add: go_members_def)
qed

end
