(* ===== verification/ProcessCheck.thy ===== *)
theory ProcessCheck
  imports Checks Lookup
begin

text \<open>
  Business processes in \<open>internal/v2/api/server.go\<close>: the contract a definition has to meet before it is
  stored, and the handlers that list, read, write and delete processes.
\<close>

section \<open>Names, limits and errors\<close>

datatype node_error =
    InvalidNode
  | KubernetesField string
  | ImportedField string
  | UnsupportedType
  | UnknownField string
  | InvalidField string
  | SelObject
  | SelUnknown string
  | SelStates
  | SelText string
  | SelAggregation

datatype process_error =
    NotAnObject
  | FieldCount
  | MissingField string
  | Contract
  | TooManyNodes
  | MetadataKey
  | MetadataValue
  | NodeError node_error
  | DuplicateNode
  | UnknownRoot
  | DuplicateRoot

definition process_fields :: "string list" where
  "process_fields = [''version'', ''metadata'', ''nodes'', ''roots'']"

definition common_fields :: "string list" where
  "common_fields = [''type'', ''name'', ''operator'', ''children'', ''display'', ''alias'', ''infoUrl'', ''stateOverrides'', ''publicStatus'']"

definition kubernetes_required :: "string list" where
  "kubernetes_required = [''kind'', ''uuid'', ''cluster'', ''group'', ''version'', ''apiKind'']"

definition kubernetes_fields :: "string list" where
  "kubernetes_fields = kubernetes_required @ [''expandDependencies'', ''namespaceInclude'']"

definition included_kinds :: "string list" where
  "included_kinds = [''deployment'', ''statefulset'', ''daemonset'', ''cronjob'', ''standalone_job'', ''standalone_replicaset'', ''standalone_pod'']"

definition selector_fields :: "string list" where
  "selector_fields = [''cluster'', ''group'', ''version'', ''kind'', ''namespace'', ''name'', ''labels'', ''ownerUID'', ''states'']"

section \<open>Selectors\<close>

definition check_selector_field :: "string \<times> json \<Rightarrow> node_error option" where
  "check_selector_field kv =
     (let (field, v) = kv in
      also_check (require (field \<in> set selector_fields) (SelUnknown field))
        (if field = ''states'' then
           given (strings_of (Some v)) SelStates
             (\<lambda>states. require (list_all (\<lambda>s. s \<in> set state_names) states \<and> \<not> repeated {} states) SelStates)
         else given (string_of (Some v)) (SelText field)
             (\<lambda>text. require (length text \<le> (if field = ''labels'' then 4096 else 512) \<and> \<not> has_nul text) (SelText field))))"

definition validateBusinessProcessSelector :: "json option \<Rightarrow> json option \<Rightarrow> node_error option" where
  "validateBusinessProcessSelector sel aggregation =
     given (object_of sel) SelObject (\<lambda>m.
       in_order (map check_selector_field m @
         [case aggregation of None \<Rightarrow> None
          | Some a \<Rightarrow> given (string_of (Some a)) SelAggregation
              (\<lambda>t. require (t \<in> {''and'', ''or'', ''worst''}) SelAggregation)]))"

section \<open>Nodes\<close>

text \<open>One round of the loop over the required fields of a Kubernetes node.\<close>

definition check_kubernetes :: "(string, json) gomap \<Rightarrow> string \<Rightarrow> node_error option" where
  "check_kubernetes node field =
     given (string_of (map_of node field)) (KubernetesField field) (\<lambda>v.
       in_order
         [require ((field = ''group'' \<or> v \<noteq> [])
            \<and> length v \<le> (if field = ''cluster'' then 253 else if field \<in> {''kind'', ''apiKind''} then 128 else 512)
            \<and> \<not> has_nul v) (KubernetesField field),
          require (field = ''cluster'' \<longrightarrow> cluster_pattern v) (KubernetesField field),
          require (field = ''apiKind'' \<longrightarrow> api_kind_pattern v) (KubernetesField field)])"

definition check_imported :: "(string, json) gomap \<Rightarrow> string \<Rightarrow> node_error option" where
  "check_imported node field = given (string_of (map_of node field)) (ImportedField field)
     (\<lambda>v. require (v \<noteq> [] \<and> length v \<le> 512) (ImportedField field))"

text \<open>The switch over the type: its own checks and the fields it allows.\<close>

definition check_type :: "(string \<Rightarrow> bool) \<Rightarrow> (string, json) gomap \<Rightarrow> string \<Rightarrow> node_error option" where
  "check_type uuid_ok node ty =
     (if ty = ''process'' \<or> ty = ''kubernetes-selector'' then None
      else if ty = ''kubernetes'' then
        in_order (map (check_kubernetes node) kubernetes_required @
          [require (case string_of (map_of node ''uuid'') of None \<Rightarrow> False | Some u \<Rightarrow> uuid_ok u) (KubernetesField ''uuid'')])
      else if ty = ''imported'' then in_order (map (check_imported node) [''config'', ''node''])
      else Some UnsupportedType)"

definition allowed_fields :: "string \<Rightarrow> string list" where
  "allowed_fields ty =
     (if ty = ''kubernetes'' then common_fields @ kubernetes_fields
      else if ty = ''kubernetes-selector'' then common_fields @ [''selector'', ''aggregation'']
      else if ty = ''imported'' then [''type'', ''name'', ''config'', ''node'']
      else common_fields)"

text \<open>A field that may be absent.\<close>

definition optional :: "(string, json) gomap \<Rightarrow> string \<Rightarrow> (json \<Rightarrow> node_error option) \<Rightarrow> node_error option" where
  "optional node field f = (case map_of node field of None \<Rightarrow> None | Some v \<Rightarrow> f v)"

definition check_list :: "string \<Rightarrow> json \<Rightarrow> node_error option" where
  "check_list field v =
     given (strings_of (Some v)) (InvalidField field) (\<lambda>xs.
       in_order
         [require (length xs \<le> 10000) (InvalidField field),
          require (list_all (\<lambda>x. x \<noteq> [] \<and> length x \<le> 512) xs \<and> \<not> repeated {} xs) (InvalidField field),
          require (field = ''namespaceInclude'' \<longrightarrow> list_all (\<lambda>x. x \<in> set included_kinds) xs) (InvalidField field)])"

definition check_bool :: "string \<Rightarrow> json \<Rightarrow> node_error option" where
  "check_bool field v = require (bool_of (Some v) \<noteq> None) (InvalidField field)"

definition check_display :: "json \<Rightarrow> node_error option" where
  "check_display v = require (int_of_json (Some v) \<noteq> None) (InvalidField ''display'')"

definition check_text :: "string \<Rightarrow> json \<Rightarrow> node_error option" where
  "check_text field v = given (string_of (Some v)) (InvalidField field)
     (\<lambda>t. require (length t \<le> 4096 \<and> \<not> has_nul t) (InvalidField field))"

definition threshold :: "int option \<Rightarrow> bool" where
  "threshold n \<longleftrightarrow> (case n of None \<Rightarrow> False | Some i \<Rightarrow> 1 \<le> i \<and> i \<le> 10000)"

definition check_operator :: "(string \<Rightarrow> int option option) \<Rightarrow> json \<Rightarrow> node_error option" where
  "check_operator float64 v = require (any_ok float64 v \<and>
     (case v of JStr t \<Rightarrow> t \<in> {''&'', ''|'', ''^'', ''!'', ''%''} \<or> threshold (ParseInt t)
      | JInt i \<Rightarrow> threshold (the (float64 (int_str i)))
      | JFloat t \<Rightarrow> threshold (the (float64 t))
      | _ \<Rightarrow> False)) (InvalidField ''operator'')"

definition check_overrides :: "(string \<Rightarrow> int option option) \<Rightarrow> json \<Rightarrow> node_error option" where
  "check_overrides float64 v = require (any_ok float64 v \<and> (case v of JArr _ \<Rightarrow> True | JObj _ \<Rightarrow> True | _ \<Rightarrow> False))
     (InvalidField ''stateOverrides'')"

definition node_checks :: "(string \<Rightarrow> bool) \<Rightarrow> (string \<Rightarrow> int option option) \<Rightarrow> (string, json) gomap \<Rightarrow> string \<Rightarrow> node_error option" where
  "node_checks uuid_ok float64 node ty = in_order
     ([check_type uuid_ok node ty,
       in_order (map (\<lambda>kv. require (fst kv \<in> set (allowed_fields ty)) (UnknownField (fst kv))) node)]
      @ map (\<lambda>f. optional node f (check_list f)) [''children'', ''namespaceInclude'']
      @ map (\<lambda>f. optional node f (check_bool f)) [''publicStatus'', ''expandDependencies'']
      @ [optional node ''display'' check_display]
      @ map (\<lambda>f. optional node f (check_text f)) [''alias'', ''infoUrl'']
      @ [optional node ''operator'' (check_operator float64), optional node ''stateOverrides'' (check_overrides float64),
         if ty = ''kubernetes-selector'' then validateBusinessProcessSelector (map_of node ''selector'') (map_of node ''aggregation'') else None])"

definition validateBusinessProcessNode :: "(string \<Rightarrow> bool) \<Rightarrow> (string \<Rightarrow> int option option) \<Rightarrow> json \<Rightarrow> node_error + string" where
  "validateBusinessProcessNode uuid_ok float64 j =
     (case object_of (Some j) of None \<Rightarrow> Inl InvalidNode
      | Some node \<Rightarrow>
          (case (string_of (map_of node ''type''), string_of (map_of node ''name'')) of
             (Some ty, Some n) \<Rightarrow>
               if n = [] \<or> length n > 512 then Inl InvalidNode
               else (case node_checks uuid_ok float64 node ty of Some e \<Rightarrow> Inl e | None \<Rightarrow> Inr n)
           | _ \<Rightarrow> Inl InvalidNode))"

section \<open>Definitions\<close>

definition check_metadata :: "string \<times> json \<Rightarrow> process_error option" where
  "check_metadata kv = in_order
     [require (fst kv \<noteq> [] \<and> length (fst kv) \<le> 128) MetadataKey,
      require (case snd kv of JStr t \<Rightarrow> length t \<le> 4096 | _ \<Rightarrow> False) MetadataValue]"

text \<open>The loop over the nodes, with the names seen so far.\<close>

fun check_nodes :: "(string \<Rightarrow> bool) \<Rightarrow> (string \<Rightarrow> int option option) \<Rightarrow> string list \<Rightarrow> json list \<Rightarrow> process_error + string list" where
  "check_nodes uuid_ok float64 names [] = Inr names"
| "check_nodes uuid_ok float64 names (j # js) =
     (case validateBusinessProcessNode uuid_ok float64 j of Inl e \<Rightarrow> Inl (NodeError e)
      | Inr n \<Rightarrow> if n \<in> set names then Inl DuplicateNode else check_nodes uuid_ok float64 (names @ [n]) js)"

fun check_roots :: "string list \<Rightarrow> string list \<Rightarrow> string list \<Rightarrow> process_error option" where
  "check_roots names seen [] = None"
| "check_roots names seen (r # rs) =
     (if r \<notin> set names then Some UnknownRoot
      else if r \<in> set seen then Some DuplicateRoot else check_roots names (r # seen) rs)"

definition validateBusinessProcessDefinition :: "(string \<Rightarrow> bool) \<Rightarrow> (string \<Rightarrow> int option option) \<Rightarrow> json option \<Rightarrow> process_error option" where
  "validateBusinessProcessDefinition uuid_ok float64 def =
     given (object_of def) NotAnObject (\<lambda>object.
       also_check (in_order (require (length object = 4) FieldCount
           # map (\<lambda>f. require (map_of object f \<noteq> None) (MissingField f)) process_fields))
       (given (int_of_json (map_of object ''version'')) Contract (\<lambda>version.
        given (object_of (map_of object ''metadata'')) Contract (\<lambda>metadata.
        given (array_of (map_of object ''nodes'')) Contract (\<lambda>nodes.
        given (strings_of (map_of object ''roots'')) Contract (\<lambda>roots.
          in_order
            [require (version = 2 \<and> any_ok float64 (the (map_of object ''metadata''))) Contract,
             require (length nodes \<le> 10000 \<and> length roots \<le> 10000) TooManyNodes,
             in_order (map check_metadata metadata),
             case check_nodes uuid_ok float64 [] nodes of Inl e \<Rightarrow> Some e
               | Inr names \<Rightarrow> check_roots names [] roots]))))))"

section \<open>Handlers\<close>

text \<open>The body of a \<open>PUT\<close>: the definition with the length of its text, and the generation.\<close>

record put_body =
  pb_definition :: "(nat \<times> json) option"
  pb_expected :: "int option"

definition putBusinessProcess :: "(string \<Rightarrow> bool) \<Rightarrow> (string \<Rightarrow> int option option) \<Rightarrow> time \<Rightarrow> string \<Rightarrow> put_body option \<Rightarrow> db
    \<Rightarrow> bp_row reply \<times> db" where
  "putBusinessProcess uuid_ok float64 now name body d =
     (if \<not> validProcessName name then (Error 400, d)
      else case body of None \<Rightarrow> (Error 400, d)
      | Some b \<Rightarrow>
          if (case pb_definition b of None \<Rightarrow> False | Some (n, _) \<Rightarrow> n > 2 ^ 20) then (Error 413, d)
          else (case pb_expected b of None \<Rightarrow> (Error 400, d)
          | Some expected \<Rightarrow>
              if expected < 0 then (Error 400, d)
              else if validateBusinessProcessDefinition uuid_ok float64 (map_option snd (pb_definition b)) \<noteq> None then (Error 400, d)
              else (case PutBusinessProcess now name (snd (the (pb_definition b))) expected d of
                  Inl e \<Rightarrow> (Error (if e = GenerationConflict then 409 else 500), d)
                | Inr (p, d') \<Rightarrow> (Reply 200 None p, d'))))"

definition getBusinessProcess :: "string \<Rightarrow> db \<Rightarrow> bp_row reply" where
  "getBusinessProcess name d =
     (if \<not> validProcessName name then Error 400
      else case GetBusinessProcess name d of None \<Rightarrow> Error 404 | Some p \<Rightarrow> Reply 200 None p)"

definition listBusinessProcesses :: "db \<Rightarrow> (string \<times> int \<times> time) list reply" where
  "listBusinessProcesses d = Reply 200 None (ListBusinessProcesses d)"

definition deleteBusinessProcess :: "string \<Rightarrow> url_values \<Rightarrow> db \<Rightarrow> unit reply \<times> db" where
  "deleteBusinessProcess name q d =
     (if \<not> validProcessName name then (Error 400, d)
      else case ParseInt (Get q ''expectedGeneration'') of None \<Rightarrow> (Error 400, d)
      | Some expected \<Rightarrow>
          if expected < 1 then (Error 400, d)
          else (case DeleteBusinessProcess name expected d of
              Inl e \<Rightarrow> (Error (if e = GenerationConflict then 409 else 500), d)
            | Inr (deleted, d') \<Rightarrow> ((if deleted then Reply 204 None () else Error 404), d')))"

section \<open>What an accepted definition is\<close>

definition field :: "json \<Rightarrow> string \<Rightarrow> json option" where
  "field j f = (case object_of (Some j) of None \<Rightarrow> None | Some m \<Rightarrow> map_of m f)"

definition node_name :: "json \<Rightarrow> string" where "node_name j = the (string_of (field j ''name''))"
definition node_type :: "json \<Rightarrow> string" where "node_type j = the (string_of (field j ''type''))"

text \<open>
  A node: its type is known and its fields are those of the type, its children are named once each, a
  Kubernetes node says which object it stands for and a selector has only selector fields.
\<close>

definition wf_node :: "(string \<Rightarrow> bool) \<Rightarrow> json \<Rightarrow> bool" where
  "wf_node uuid_ok j \<longleftrightarrow> node_name j \<noteq> [] \<and> length (node_name j) \<le> 512
     \<and> node_type j \<in> {''process'', ''kubernetes'', ''kubernetes-selector'', ''imported''}
     \<and> (\<forall>f. field j f \<noteq> None \<longrightarrow> f \<in> set (allowed_fields (node_type j)))
     \<and> (\<forall>v. field j ''children'' = Some v \<longrightarrow> (\<exists>cs. strings_of (Some v) = Some cs \<and> distinct cs \<and> length cs \<le> 10000 \<and> [] \<notin> set cs))
     \<and> (node_type j = ''kubernetes'' \<longrightarrow> (\<exists>u c k. string_of (field j ''uuid'') = Some u \<and> uuid_ok u
          \<and> string_of (field j ''cluster'') = Some c \<and> cluster_pattern c \<and> length c \<le> 253
          \<and> string_of (field j ''apiKind'') = Some k \<and> api_kind_pattern k \<and> length k \<le> 128))
     \<and> (node_type j = ''kubernetes-selector'' \<longrightarrow> (\<exists>sel. object_of (field j ''selector'') = Some sel \<and> fst ` set sel \<subseteq> set selector_fields))"

definition wf_process :: "(string \<Rightarrow> bool) \<Rightarrow> json \<Rightarrow> bool" where
  "wf_process uuid_ok j \<longleftrightarrow> (\<forall>f. field j f \<noteq> None \<longleftrightarrow> f \<in> set process_fields) \<and> field j ''version'' = Some (JInt 2)
     \<and> (\<exists>nodes roots. array_of (field j ''nodes'') = Some nodes \<and> strings_of (field j ''roots'') = Some roots
          \<and> length nodes \<le> 10000 \<and> list_all (wf_node uuid_ok) nodes \<and> distinct (map node_name nodes)
          \<and> distinct roots \<and> set roots \<subseteq> node_name ` set nodes)"

lemma check_roots_None: "check_roots names seen rs = None \<longleftrightarrow> set rs \<subseteq> set names \<and> distinct rs \<and> set rs \<inter> set seen = {}"
  by (induction names seen rs rule: check_roots.induct) auto

lemma check_listD:
  assumes "check_list f v = None"
  obtains cs where "strings_of (Some v) = Some cs" "distinct cs" "length cs \<le> 10000" "[] \<notin> set cs"
  using assms by (auto simp: check_list_def passes list_all_iff)

lemma check_kubernetesD:
  "check_kubernetes node ''cluster'' = None \<Longrightarrow> \<exists>c. string_of (map_of node ''cluster'') = Some c \<and> cluster_pattern c \<and> length c \<le> 253"
  "check_kubernetes node ''apiKind'' = None \<Longrightarrow> \<exists>k. string_of (map_of node ''apiKind'') = Some k \<and> api_kind_pattern k \<and> length k \<le> 128"
  by (auto simp: check_kubernetes_def passes)

lemma check_typeD:
  assumes "check_type uuid_ok node ty = None"
  shows "ty \<in> {''process'', ''kubernetes'', ''kubernetes-selector'', ''imported''}"
    and "ty = ''kubernetes'' \<Longrightarrow> (\<exists>u. string_of (map_of node ''uuid'') = Some u \<and> uuid_ok u)
      \<and> (\<forall>f \<in> set kubernetes_required. check_kubernetes node f = None)"
  using assms by (auto simp: check_type_def passes split: if_splits option.splits)

lemma check_selectorD:
  assumes "validateBusinessProcessSelector s a = None"
  obtains sel where "object_of s = Some sel" "fst ` set sel \<subseteq> set selector_fields"
proof -
  have known: "check_selector_field kv = None \<Longrightarrow> fst kv \<in> set selector_fields" for kv
    by (simp add: check_selector_field_def case_prod_unfold passes)
  from assms obtain sel where "object_of s = Some sel" "\<forall>kv \<in> set sel. check_selector_field kv = None"
    by (auto simp: validateBusinessProcessSelector_def passes)
  with known show thesis by (intro that [of sel]) auto
qed

lemma in_map_of: "distinct (map fst m) \<Longrightarrow> map_of m f = Some v \<longleftrightarrow> (f, v) \<in> set m"
  by simp

lemma validate_node_wf:
  assumes "validateBusinessProcessNode uuid_ok float64 j = Inr n"
  shows "wf_node uuid_ok j" and "node_name j = n"
proof -
  from assms obtain node ty where node: "object_of (Some j) = Some node"
    "string_of (map_of node ''type'') = Some ty" "string_of (map_of node ''name'') = Some n" "n \<noteq> []" "length n \<le> 512"
    and checks: "node_checks uuid_ok float64 node ty = None"
    by (auto simp: validateBusinessProcessNode_def split: option.splits if_splits)
  have field: "field j f = map_of node f" for f by (simp add: field_def node(1))
  show name: "node_name j = n" by (simp add: node_name_def field node)
  have ty: "node_type j = ty" by (simp add: node_type_def field node)
  note parts = checks [unfolded node_checks_def in_order_None]
  have "check_type uuid_ok node ty = None" using parts by simp
  note type = check_typeD [OF this]
  have known: "f \<in> set (allowed_fields ty)" if "map_of node f \<noteq> None" for f
  proof -
    have "in_order (map (\<lambda>kv. require (fst kv \<in> set (allowed_fields ty)) (UnknownField (fst kv))) node) = None" using parts by simp
    then have "\<forall>kv \<in> set node. fst kv \<in> set (allowed_fields ty)" by (simp add: passes)
    moreover from that obtain v where "(f, v) \<in> set node" by (auto dest: map_of_SomeD)
    ultimately show ?thesis by fastforce
  qed
  have children: "\<exists>cs. strings_of (Some v) = Some cs \<and> distinct cs \<and> length cs \<le> 10000 \<and> [] \<notin> set cs"
    if "map_of node ''children'' = Some v" for v
  proof -
    have "optional node ''children'' (check_list ''children'') = None" using parts by simp
    with that show ?thesis by (auto simp: optional_def elim: check_listD)
  qed
  have kubernetes: "\<exists>u c k. string_of (map_of node ''uuid'') = Some u \<and> uuid_ok u
          \<and> string_of (map_of node ''cluster'') = Some c \<and> cluster_pattern c \<and> length c \<le> 253
          \<and> string_of (map_of node ''apiKind'') = Some k \<and> api_kind_pattern k \<and> length k \<le> 128" if "ty = ''kubernetes''"
  proof -
    from type(2) [OF that] have "check_kubernetes node ''cluster'' = None" "check_kubernetes node ''apiKind'' = None"
      by (simp_all add: kubernetes_required_def)
    then show ?thesis using type(2) [OF that] check_kubernetesD [of node] by blast
  qed
  have selector: "\<exists>sel. object_of (map_of node ''selector'') = Some sel \<and> fst ` set sel \<subseteq> set selector_fields"
    if "ty = ''kubernetes-selector''"
  proof -
    have "validateBusinessProcessSelector (map_of node ''selector'') (map_of node ''aggregation'') = None" using parts that by simp
    then obtain sel where "object_of (map_of node ''selector'') = Some sel" "fst ` set sel \<subseteq> set selector_fields"
      by (rule check_selectorD)
    then show ?thesis by blast
  qed
  show "wf_node uuid_ok j"
    unfolding wf_node_def field name ty
    by (intro conjI allI impI) (fact node(4) | fact node(5) | fact type(1) | erule known children kubernetes selector)+
qed

lemma check_nodes_wf:
  assumes "check_nodes uuid_ok float64 names js = Inr names'" and "distinct names"
  shows "list_all (wf_node uuid_ok) js \<and> names' = names @ map node_name js \<and> distinct names'"
  using assms
proof (induction uuid_ok float64 names js rule: check_nodes.induct)
  case (2 uuid_ok float64 names j js)
  then obtain n where n: "validateBusinessProcessNode uuid_ok float64 j = Inr n" "n \<notin> set names"
    and rest: "check_nodes uuid_ok float64 (names @ [n]) js = Inr names'" by (auto split: sum.splits if_splits)
  have "distinct (names @ [n])" using 2(3) n(2) by simp
  from 2(1) [OF n rest this]
  have "list_all (wf_node uuid_ok) js" "names' = (names @ [n]) @ map node_name js" "distinct names'" by blast+
  then show ?case unfolding list.pred_inject list.map validate_node_wf(2) [OF n(1)] using validate_node_wf(1) [OF n(1)]
    by (metis append.assoc append_Cons append_Nil)
qed simp

lemma validate_process_wf:
  assumes "validateBusinessProcessDefinition uuid_ok float64 (Some j) = None"
  shows "wf_process uuid_ok j"
proof -
  from assms obtain object version metadata nodes roots where object: "object_of (Some j) = Some object" "length object = 4"
      "\<forall>f \<in> set process_fields. map_of object f \<noteq> None"
    and v: "int_of_json (map_of object ''version'') = Some 2"
    and nodes: "array_of (map_of object ''nodes'') = Some nodes" "length nodes \<le> 10000"
    and roots: "strings_of (map_of object ''roots'') = Some roots"
    and rest: "(case check_nodes uuid_ok float64 [] nodes of Inl e \<Rightarrow> Some e | Inr names \<Rightarrow> check_roots names [] roots) = None"
    unfolding validateBusinessProcessDefinition_def by (auto simp: passes)
  from rest obtain names where names: "check_nodes uuid_ok float64 [] nodes = Inr names" "check_roots names [] roots = None"
    by (auto split: sum.splits)
  have "distinct (map fst object)" using object(1) by (auto simp: object_of_def split: option.splits json.splits)
  moreover have "set process_fields \<subseteq> fst ` set object" using object(3) by (auto simp: map_of_eq_None_iff)
  moreover have "card (set process_fields) = 4" by (simp add: process_fields_def)
  ultimately have "fst ` set object = set process_fields"
    using object(2) by (metis List.finite_set card_subset_eq distinct_card finite_imageI length_map list.set_map)
  then have fields: "map_of object f \<noteq> None \<longleftrightarrow> f \<in> set process_fields" for f by (simp add: map_of_eq_None_iff)
  have field: "field j f = map_of object f" for f by (simp add: field_def object(1))
  have "map_of object ''version'' = Some (JInt 2)"
    using v by (auto simp: int_of_json_def split: option.splits json.splits if_splits)
  with fields nodes roots names check_nodes_wf [OF names(1)] show ?thesis
    unfolding wf_process_def field by (auto simp: check_roots_None)
qed

section \<open>The processes that are stored\<close>

definition processes_typed :: "(string \<Rightarrow> bool) \<Rightarrow> db \<Rightarrow> bool" where
  "processes_typed uuid_ok d \<longleftrightarrow> distinct (map fst (t_processes d))
     \<and> (\<forall>(n, p) \<in> set (t_processes d). validProcessName n \<and> wf_process uuid_ok (bp_definition p) \<and> 1 \<le> bp_generation p)"

text \<open>The requests that change processes.\<close>

inductive process_step :: "(string \<Rightarrow> bool) \<Rightarrow> (string \<Rightarrow> int option option) \<Rightarrow> db \<Rightarrow> db \<Rightarrow> bool"
  for uuid_ok float64 where
  putting: "putBusinessProcess uuid_ok float64 now name body d = (r, d') \<Longrightarrow> process_step uuid_ok float64 d d'"
| deleting: "deleteBusinessProcess name q d = (r, d') \<Longrightarrow> process_step uuid_ok float64 d d'"

lemma put_effect:
  assumes "putBusinessProcess uuid_ok float64 now name body d = (r, d')"
  shows "d' = d \<or> (\<exists>def p. validProcessName name \<and> validateBusinessProcessDefinition uuid_ok float64 (Some def) = None
    \<and> PutBusinessProcess now name def (bp_generation p - 1) d = Inr (p, d') \<and> 1 \<le> bp_generation p)"
proof (cases "d' = d")
  case False
  with assms obtain b expected p where b: "validProcessName name" "body = Some b" "pb_expected b = Some expected" "0 \<le> expected"
      "validateBusinessProcessDefinition uuid_ok float64 (map_option snd (pb_definition b)) = None"
    and put: "PutBusinessProcess now name (snd (the (pb_definition b))) expected d = Inr (p, d')"
    by (auto simp: putBusinessProcess_def split: if_splits option.splits sum.splits)
  from put have "bp_generation p = expected + 1"
    by (auto simp: PutBusinessProcess_def Let_def split: if_splits option.splits)
  moreover from b(5) obtain m def where "pb_definition b = Some (m, def)"
    by (cases "pb_definition b") (auto simp: validateBusinessProcessDefinition_def passes object_of_def)
  ultimately show ?thesis using b put by (intro disjI2 exI [of _ def] exI [of _ p]) simp
qed simp

lemma update_new: "map_of m k = None \<Longrightarrow> m @ [(k, v)] = AList.update k v m"
  by (induction m) (auto split: if_splits)

lemma put_rows:
  assumes "PutBusinessProcess now name def n d = Inr (p, d')"
  shows "t_processes d' = AList.update name p (t_processes d)" and "bp_definition p = def"
  using assms
  by (auto simp: PutBusinessProcess_def lookup_process_def Let_def update_new split: if_splits option.splits)

lemma process_step_typed:
  assumes "process_step uuid_ok float64 d d'" and "processes_typed uuid_ok d"
  shows "processes_typed uuid_ok d'"
  using assms(1)
proof cases
  case (putting now name body r)
  from put_effect [OF putting] show ?thesis
  proof
    assume "\<exists>def p. validProcessName name \<and> validateBusinessProcessDefinition uuid_ok float64 (Some def) = None
      \<and> PutBusinessProcess now name def (bp_generation p - 1) d = Inr (p, d') \<and> 1 \<le> bp_generation p"
    then obtain def p where p: "validProcessName name" "wf_process uuid_ok def" "1 \<le> bp_generation p"
      and put: "PutBusinessProcess now name def (bp_generation p - 1) d = Inr (p, d')"
      using validate_process_wf by blast
    have "set (t_processes d') \<subseteq> insert (name, p) (set (t_processes d))"
      using put_rows(1) [OF put] assms(2) by (auto simp: processes_typed_def set_update_keyed)
    with put_rows [OF put] assms(2) p show ?thesis by (auto simp: processes_typed_def distinct_update)
  qed (use assms(2) in simp)
next
  case (deleting name q r)
  then have "t_processes d' = t_processes d \<or> t_processes d' = AList.delete name (t_processes d)"
    by (auto simp: deleteBusinessProcess_def DeleteBusinessProcess_def split: if_splits option.splits sum.splits)
  with assms(2) show ?thesis
    by (auto simp: processes_typed_def AList.delete_eq intro: distinct_map_filter)
qed

interpretation processes_machine: machine "\<lambda>d. t_processes d = []" "process_step uuid_ok float64" "processes_typed uuid_ok"
proof unfold_locales
  show "t_processes d = [] \<Longrightarrow> processes_typed uuid_ok d" for d by (simp add: processes_typed_def)
qed (rule process_step_typed)

text \<open>C9: Whatever requests the API has served, every process it stores has a valid name and a definition
  that meets the contract: the four fields and version 2, different nodes of known types with only
  the fields of their type and their references in range, and roots that name nodes, each once.\<close>

theorem stored_processes_typed:
  assumes "t_processes d = []" and "(process_step uuid_ok float64)\<^sup>*\<^sup>* d d'" and "lookup_process d' name = Some p"
  shows "validProcessName name \<and> wf_process uuid_ok (bp_definition p)"
  using processes_machine.reachable_inv [OF assms(1,2)] assms(3)
  by (auto simp: processes_typed_def lookup_process_def dest: map_of_SomeD)

definition sample_process :: json where
  "sample_process = JObj [(''version'', JInt 2), (''metadata'', JObj []), (''roots'', JArr [JStr ''shop'']),
     (''nodes'', JArr [JObj [(''type'', JStr ''process''), (''name'', JStr ''shop''), (''operator'', JStr ''&''), (''children'', JArr [JStr ''db''])]])]"

lemma sample_accepted: "validateBusinessProcessDefinition (\<lambda>_. True) (\<lambda>_. Some None) (Some sample_process) = None"
  by code_simp

lemma sample_object: "is_object sample_process"
  by code_simp

lemma stored_processes_typed_witness: "validProcessName ''shop'' \<and> wf_process (\<lambda>_. True) sample_process"
proof -
  let ?b = "\<lparr>pb_definition = Some (9, sample_process), pb_expected = Some 0\<rparr>"
  let ?p = "\<lparr>bp_definition = sample_process, bp_generation = 1, bp_updated = 0\<rparr>"
  have name: "validProcessName ''shop''" by code_simp
  have "putBusinessProcess (\<lambda>_. True) (\<lambda>_. Some None) 0 ''shop'' (Some ?b) empty_db
      = (Reply 200 None ?p, empty_db\<lparr>t_processes := [(''shop'', ?p)]\<rparr>)"
    using name sample_accepted
    by (simp add: putBusinessProcess_def PutBusinessProcess_def lookup_process_def empty_db_def sample_object Let_def)
  from putting [OF this] have "(process_step (\<lambda>_. True) (\<lambda>_. Some None))\<^sup>*\<^sup>* empty_db (empty_db\<lparr>t_processes := [(''shop'', ?p)]\<rparr>)" by blast
  from stored_processes_typed [OF _ this, of "''shop''" ?p] show ?thesis
    by (simp add: empty_db_def lookup_process_def)
qed

text \<open>A node's name may hold a NUL byte, which \<open>jsonb\<close> cannot store: the request then fails in the database.\<close>

lemma nul_name_accepted:
  "validateBusinessProcessDefinition (\<lambda>_. True) (\<lambda>_. Some None)
     (Some (JObj [(''version'', JInt 2), (''metadata'', JObj []), (''roots'', JArr []),
        (''nodes'', JArr [JObj [(''type'', JStr ''process''), (''name'', JStr [CHR ''a'', CHR 0x00])]])])) = None"
  by code_simp

end
