(* ===== verification/Credentials.thy ===== *)
theory Credentials
  imports Prelude
begin

text \<open>
  Delegated credentials of \<open>internal/v2/kubeauth/token.go\<close>: a source caches the token of a service account,
  asks for a new one before it expires, and survives refreshes that fail. Times are nanoseconds; a
  request to the API server is an argument: its result and the time after it.
\<close>

section \<open>The source\<close>

record source =
  so_token :: string
  so_expires :: time
  so_refresh :: time

definition new_source :: source where
  "new_source = \<lparr>so_token = [], so_expires = zero_time, so_refresh = zero_time\<rparr>"

text \<open>\<open>Time.Sub\<close> saturates and the product with 4 wraps, both at 64 bits; the quotient is truncated.\<close>

definition clamp64 :: "int \<Rightarrow> int" where
  "clamp64 d = max (- (2 ^ 63)) (min (2 ^ 63 - 1) d)"

definition wrap64 :: "int \<Rightarrow> int" where
  "wrap64 d = (d + 2 ^ 63) mod 2 ^ 64 - 2 ^ 63"

definition four_fifths :: "int \<Rightarrow> int" where
  "four_fifths d = (let m = wrap64 (4 * clamp64 d) in if m < 0 then - (- m div 5) else m div 5)"

text \<open>
  \<open>Token\<close>: \<open>request\<close> is the answer to a \<open>TokenRequest\<close>, a token and its expiry or an error, and \<open>later\<close> the
  time at which it came; both count only when a request is made.
\<close>

definition asks :: "time \<Rightarrow> source \<Rightarrow> bool" where
  "asks now s \<longleftrightarrow> \<not> (so_token s \<noteq> [] \<and> now < so_refresh s \<and> now < so_expires s)"

definition Token :: "time \<Rightarrow> time \<Rightarrow> (string \<times> time) option \<Rightarrow> source \<Rightarrow> string option \<times> source" where
  "Token now later request s =
     (if \<not> asks now s then (Some (so_token s), s)
      else case (case request of None \<Rightarrow> None | Some (t, e) \<Rightarrow> if t = [] \<or> \<not> e > later then None else Some (t, e)) of
        None \<Rightarrow> (let s = s\<lparr>so_refresh := later + seconds 15\<rparr>
          in (if so_token s \<noteq> [] \<and> later < so_expires s then Some (so_token s) else None, s))
      | Some (t, e) \<Rightarrow> (Some t, s\<lparr>so_token := t, so_expires := e, so_refresh := later + four_fifths (e - later)\<rparr>))"

definition Invalidate :: "string \<Rightarrow> source \<Rightarrow> source" where
  "Invalidate t s = (if t = so_token s then s\<lparr>so_token := []\<rparr> else s)"

text \<open>
  \<open>RoundTrip\<close>: the token the request carries (\<open>None\<close>: it is not sent), and the source after an answer with
  the given status (\<open>None\<close>: no answer).
\<close>

definition RoundTrip :: "time \<Rightarrow> time \<Rightarrow> (string \<times> time) option \<Rightarrow> int option \<Rightarrow> source \<Rightarrow> string option \<times> source" where
  "RoundTrip now later request status s =
     (case Token now later request s of
        (None, s) \<Rightarrow> (None, s)
      | (Some t, s) \<Rightarrow> (Some t, if status = Some 401 then Invalidate t s else s))"

section \<open>Facts\<close>

text \<open>A fresh credential is refreshed after the request and before it expires.\<close>

lemma four_fifths_range:
  assumes "0 < d" and "d < 2 ^ 61"
  shows "0 \<le> four_fifths d \<and> four_fifths d < d"
proof -
  have "wrap64 (4 * clamp64 d) = 4 * d" using assms by (simp add: clamp64_def wrap64_def)
  with assms show ?thesis by (simp add: four_fifths_def Let_def) linarith
qed

text \<open>
  The life of a source: what was issued to it so far, each token with its expiry, and what it keeps. Requests
  share one source, and each of its two operations runs under its lock: a request may ask for a token, and be
  refused with the one it carried, at any time.
\<close>

inductive source_run :: "(string \<times> time) list \<Rightarrow> source \<Rightarrow> bool" where
  created: "source_run [] new_source"
| asked: "source_run issued s \<Longrightarrow> now \<le> later \<Longrightarrow> Token now later request s = (r, s') \<Longrightarrow>
     source_run (issued @ (if asks now s then (case request of None \<Rightarrow> [] | Some x \<Rightarrow> [x]) else [])) s'"
| refused: "source_run issued s \<Longrightarrow> source_run issued (Invalidate t s)"

text \<open>The two outcomes of \<open>Token\<close>: the answer of the API server is used, or it is not.\<close>

definition usable :: "time \<Rightarrow> (string \<times> time) option \<Rightarrow> (string \<times> time) option" where
  "usable later request = (case request of None \<Rightarrow> None | Some (t, e) \<Rightarrow> if t \<noteq> [] \<and> later < e then Some (t, e) else None)"

lemma Token_cases:
  "Token now later request s =
     (if \<not> asks now s then (Some (so_token s), s)
      else case usable later request of
        Some (t, e) \<Rightarrow> (Some t, \<lparr>so_token = t, so_expires = e, so_refresh = later + four_fifths (e - later)\<rparr>)
      | None \<Rightarrow> (if so_token s \<noteq> [] \<and> later < so_expires s then Some (so_token s) else None,
          s\<lparr>so_refresh := later + seconds 15\<rparr>))"
  by (auto simp: Token_def usable_def Let_def split: option.splits)

text \<open>What is kept was issued.\<close>

lemma kept_issued: "source_run issued s \<Longrightarrow> so_token s \<noteq> [] \<longrightarrow> (so_token s, so_expires s) \<in> set issued"
proof (induction rule: source_run.induct)
  case created
  show ?case by (simp add: new_source_def)
next
  case (asked issued s now later request r s')
  have "s' = (if \<not> asks now s then s else case usable later request of
        Some (t, e) \<Rightarrow> \<lparr>so_token = t, so_expires = e, so_refresh = later + four_fifths (e - later)\<rparr>
      | None \<Rightarrow> s\<lparr>so_refresh := later + seconds 15\<rparr>)"
    using asked.hyps(3) by (simp add: Token_cases split: if_splits option.splits prod.splits)
  moreover have "usable later request = Some x \<Longrightarrow> request = Some x" for x
    by (auto simp: usable_def split: option.splits if_splits)
  ultimately show ?case using asked.IH by (cases "usable later request"; cases request; cases "asks now s"; force)
next
  case (refused issued s t)
  then show ?case by (simp add: Invalidate_def)
qed

text \<open>C27: The transport sends a request only with a token the API server issued to this source and whose expiry is
  still ahead. A token that is refused with 401 is not sent again: the next request asks the API server, sends
  the token it then issues, and is not sent at all if it issues none. After any other answer the token is
  kept, and a late refusal of a token already replaced changes nothing. A refresh that fails neither loses a
  credential that is still valid nor extends it, and for 15 seconds no other is tried.\<close>

theorem credentials_current:
  assumes "source_run issued s" and "now \<le> later" and "RoundTrip now later request status s = (sent, s')"
  shows "(\<forall>t. sent = Some t \<longrightarrow> t \<noteq> [] \<and> (\<exists>e. (if asks now s then later else now) < e
        \<and> ((t, e) \<in> set issued \<or> asks now s \<and> request = Some (t, e))))
    \<and> (sent \<noteq> None \<and> status = Some 401 \<longrightarrow> (\<forall>now2 later2 request2 status2. asks now2 s'
        \<and> fst (RoundTrip now2 later2 request2 status2 s')
          = (case request2 of None \<Rightarrow> None | Some (t2, e2) \<Rightarrow> if t2 \<noteq> [] \<and> later2 < e2 then Some t2 else None)))
    \<and> (\<forall>t. sent = Some t \<and> status \<noteq> Some 401 \<longrightarrow> so_token s' = t)
    \<and> (\<forall>t. t \<noteq> so_token s \<longrightarrow> Invalidate t s = s)
    \<and> (request = None \<and> so_token s \<noteq> [] \<and> later < so_expires s \<and> status \<noteq> Some 401 \<longrightarrow> sent = Some (so_token s)
        \<and> so_token s' = so_token s \<and> so_expires s' = so_expires s
        \<and> (asks now s \<longrightarrow> (\<forall>soon. soon < later + seconds 15 \<and> soon < so_expires s \<longrightarrow> \<not> asks soon s')))"
    (is "?current \<and> ?again \<and> ?kept \<and> ?late \<and> ?failing")
proof (intro conjI)
  note round = assms(3) [unfolded RoundTrip_def Token_cases]
  have kept: "so_token s \<noteq> [] \<Longrightarrow> (so_token s, so_expires s) \<in> set issued" using kept_issued [OF assms(1)] by blast
  then show ?current
    using round by (auto simp: usable_def asks_def split: if_splits option.splits)
  show ?again
  proof (intro impI allI)
    fix now2 later2 request2 status2 assume "sent \<noteq> None \<and> status = Some 401"
    then have "so_token s' = []"
      using round by (auto simp: Invalidate_def split: if_splits option.splits)
    then show "asks now2 s' \<and> fst (RoundTrip now2 later2 request2 status2 s')
        = (case request2 of None \<Rightarrow> None | Some (t2, e2) \<Rightarrow> if t2 \<noteq> [] \<and> later2 < e2 then Some t2 else None)"
      by (auto simp: RoundTrip_def Token_cases asks_def usable_def split: option.splits)
  qed
  show ?kept using round by (auto split: if_splits option.splits)
  show ?late by (simp add: Invalidate_def)
  show ?failing using round by (auto simp: usable_def asks_def split: if_splits option.splits)
qed

lemma credentials_current_witness:
  "RoundTrip 1 2 (Some (''t'', seconds 600)) (Some 401) new_source
     = (Some ''t'', \<lparr>so_token = [], so_expires = seconds 600, so_refresh = 2 + four_fifths (seconds 600 - 2)\<rparr>)
   \<and> fst (RoundTrip 3 4 (Some (''u'', seconds 700)) None
       \<lparr>so_token = [], so_expires = seconds 600, so_refresh = 2 + four_fifths (seconds 600 - 2)\<rparr>) = Some ''u''"
proof -
  have first: "RoundTrip 1 2 (Some (''t'', seconds 600)) (Some 401) new_source
     = (Some ''t'', \<lparr>so_token = [], so_expires = seconds 600, so_refresh = 2 + four_fifths (seconds 600 - 2)\<rparr>)"
    by (simp add: RoundTrip_def Token_cases usable_def asks_def new_source_def Invalidate_def)
  from credentials_current [OF created _ this] have "\<forall>now2 later2 request2 status2. fst (RoundTrip now2 later2 request2 status2
       \<lparr>so_token = [], so_expires = seconds 600, so_refresh = 2 + four_fifths (seconds 600 - 2)\<rparr>)
     = (case request2 of None \<Rightarrow> None | Some (t2, e2) \<Rightarrow> if t2 \<noteq> [] \<and> later2 < e2 then Some t2 else None)"
    by simp
  from this [THEN spec, of 3, THEN spec, of 4, THEN spec, of "Some (''u'', seconds 700)", THEN spec, of None]
  have "fst (RoundTrip 3 4 (Some (''u'', seconds 700)) None
       \<lparr>so_token = [], so_expires = seconds 600, so_refresh = 2 + four_fifths (seconds 600 - 2)\<rparr>) = Some ''u''"
    by simp
  with first show ?thesis by simp
qed

end
