(* ===== verification/GoTime.thy ===== *)
theory GoTime
  imports Checks
begin

text \<open>
  \<open>time.ParseDuration\<close>: an optional sign and a sequence of decimal numbers with units, in nanoseconds and
  within an int64. \<open>fraction f k u\<close> is the float64 product of the \<open>k\<close> fractional digits \<open>f\<close> with the unit
  \<open>u\<close>, cut to a whole number; the arithmetic of float64 is not modelled.
\<close>

definition unit_of :: "string \<Rightarrow> nat option" where
  "unit_of u = map_of
     [(''ns'', 1), (''us'', 10 ^ 3), ([CHR 0xC2, CHR 0xB5, CHR ''s''], 10 ^ 3), ([CHR 0xCE, CHR 0xBC, CHR ''s''], 10 ^ 3),
      (''ms'', 10 ^ 6), (''s'', 10 ^ 9), (''m'', 60 * 10 ^ 9), (''h'', 3600 * 10 ^ 9)] u"

definition digit_val :: "char \<Rightarrow> nat" where
  "digit_val c = of_char c - 48"

text \<open>\<open>leadingInt\<close>: \<open>None\<close> on overflow.\<close>

fun leading_int :: "nat \<Rightarrow> string \<Rightarrow> (nat \<times> string) option" where
  "leading_int v [] = Some (v, [])"
| "leading_int v (c # s) =
     (if \<not> digit c then Some (v, c # s)
      else if v > 2 ^ 63 div 10 then None
      else if v * 10 + digit_val c > 2 ^ 63 then None
      else leading_int (v * 10 + digit_val c) s)"

text \<open>\<open>leadingFraction\<close>: the digits read before an overflow, how many they are, and the rest.\<close>

fun leading_fraction :: "nat \<Rightarrow> nat \<Rightarrow> bool \<Rightarrow> string \<Rightarrow> nat \<times> nat \<times> string" where
  "leading_fraction f k over [] = (f, k, [])"
| "leading_fraction f k over (c # s) =
     (if \<not> digit c then (f, k, c # s)
      else if over \<or> f > (2 ^ 63 - 1) div 10 \<or> f * 10 + digit_val c > 2 ^ 63 then leading_fraction f k True s
      else leading_fraction (f * 10 + digit_val c) (Suc k) False s)"

definition unit_char :: "char \<Rightarrow> bool" where
  "unit_char c \<longleftrightarrow> \<not> (c = CHR ''.'' \<or> digit c)"

text \<open>The fraction after a number: its digits, how many there are, whether there are any, and the rest.\<close>

definition fraction_of :: "string \<Rightarrow> nat \<times> nat \<times> bool \<times> string" where
  "fraction_of r = (case r of [] \<Rightarrow> (0, 0, False, [])
     | c # r' \<Rightarrow> if c = CHR ''.'' then (case leading_fraction 0 0 False r' of (f, k, r'') \<Rightarrow> (f, k, length r'' \<noteq> length r', r''))
                else (0, 0, False, r))"

text \<open>One number with its unit: its nanoseconds and the rest of the text.\<close>

definition duration_part :: "(nat \<Rightarrow> nat \<Rightarrow> nat \<Rightarrow> nat) \<Rightarrow> string \<Rightarrow> (nat \<times> string) option" where
  "duration_part fraction s =
     (if s = [] \<or> \<not> (hd s = CHR ''.'' \<or> digit (hd s)) then None
      else case leading_int 0 s of None \<Rightarrow> None
      | Some (v, r) \<Rightarrow>
          let pre = (length r \<noteq> length s);
              (f, k, post, r) = fraction_of r
          in if \<not> pre \<and> \<not> post then None
             else (case unit_of (takeWhile unit_char r) of None \<Rightarrow> None
               | Some u \<Rightarrow>
                   if v > 2 ^ 63 div u then None
                   else let n = v * u + (if f > 0 then fraction f k u else 0)
                     in if n > 2 ^ 63 then None else Some (n, dropWhile unit_char r)))"

lemma leading_int_length: "leading_int v s = Some (n, r) \<Longrightarrow> length r \<le> length s"
  by (induction v s rule: leading_int.induct) (auto split: if_splits)

lemma leading_fraction_length: "leading_fraction f k over s = (f', k', r) \<Longrightarrow> length r \<le> length s"
  by (induction f k over s rule: leading_fraction.induct) (auto split: if_splits)

lemma unit_shorter:
  assumes "unit_of (takeWhile unit_char r) = Some u"
  shows "length (dropWhile unit_char r) < length r"
proof (cases r)
  case Nil
  with assms show ?thesis by (simp add: unit_of_def)
next
  case (Cons c r')
  have "unit_char c"
  proof (rule ccontr)
    assume "\<not> unit_char c"
    with assms Cons show False by (simp add: unit_of_def)
  qed
  with Cons show ?thesis by (simp add: length_dropWhile_le le_imp_less_Suc)
qed

lemma duration_part_shorter:
  assumes "duration_part fraction s = Some (n, r)"
  shows "length r < length s"
proof -
  from assms obtain v r1 where r1: "leading_int 0 s = Some (v, r1)"
    by (auto simp: duration_part_def split: if_splits option.splits)
  obtain f k post r2 where r2: "fraction_of r1 = (f, k, post, r2)" by (metis prod_cases4)
  from assms r1 r2 obtain u where u: "unit_of (takeWhile unit_char r2) = Some u" and r: "r = dropWhile unit_char r2"
    by (auto simp: duration_part_def Let_def split: if_splits option.splits)
  from r2 have "length r2 \<le> length r1"
    by (auto simp: fraction_of_def split: list.splits if_splits prod.splits dest!: leading_fraction_length)
  with leading_int_length [OF r1] unit_shorter [OF u] r show ?thesis by simp
qed

function duration_parts :: "(nat \<Rightarrow> nat \<Rightarrow> nat \<Rightarrow> nat) \<Rightarrow> nat \<Rightarrow> string \<Rightarrow> nat option" where
  "duration_parts fraction d s =
     (if s = [] then Some d
      else case duration_part fraction s of None \<Rightarrow> None
      | Some (n, r) \<Rightarrow> if d + n > 2 ^ 63 then None else duration_parts fraction (d + n) r)"
  by pat_completeness auto
termination
  by (relation "measure (\<lambda>(_, _, s). length s)") (auto dest: duration_part_shorter)

declare duration_parts.simps [simp del]

definition ParseDuration :: "(nat \<Rightarrow> nat \<Rightarrow> nat \<Rightarrow> nat) \<Rightarrow> string \<Rightarrow> int option" where
  "ParseDuration fraction v =
     (case (case v of [] \<Rightarrow> (False, []) | c # r \<Rightarrow> if c = CHR ''-'' then (True, r) else if c = CHR ''+'' then (False, r) else (False, v)) of
        (neg, s) \<Rightarrow>
          if s = ''0'' then Some 0
          else if s = [] then None
          else (case duration_parts fraction 0 s of None \<Rightarrow> None
            | Some d \<Rightarrow> if neg then Some (- int d) else if d > 2 ^ 63 - 1 then None else Some (int d)))"

text \<open>A duration fits into an int64.\<close>

lemma duration_parts_le: "duration_parts fraction d s = Some n \<Longrightarrow> d \<le> 2 ^ 63 \<Longrightarrow> n \<le> 2 ^ 63"
proof (induction fraction d s rule: duration_parts.induct)
  case (1 fraction d s)
  from "1.prems"(1) consider "d = n"
    | m r where "s \<noteq> []" "duration_part fraction s = Some (m, r)" "\<not> d + m > 2 ^ 63" "duration_parts fraction (d + m) r = Some n"
    by (subst (asm) duration_parts.simps) (auto split: if_splits option.splits prod.splits)
  then show ?case
  proof cases
    case (2 m r)
    from "1.IH" [OF 2(1,2) refl 2(3,4)] 2(3) show ?thesis by (simp only: not_less)
  qed (use "1.prems"(2) in simp)
qed

lemma ParseDuration_range:
  assumes "ParseDuration fraction v = Some d"
  shows "- (2 ^ 63) \<le> d \<and> d < 2 ^ 63"
proof -
  have "n \<le> 2 ^ 63" if "duration_parts fraction 0 s = Some n" for s n
    using duration_parts_le [OF that] by simp
  with assms show ?thesis
    by (fastforce simp: ParseDuration_def split: if_splits option.splits list.splits)
qed

lemmas duration_simps = ParseDuration_def duration_parts.simps duration_part_def fraction_of_def digit_def digit_val_def
  unit_of_def unit_char_def less_eq_char_def

lemma ParseDuration_examples:
  "ParseDuration (\<lambda>f k u. f * u div 10 ^ k) ''1h15m30.5s'' = Some (4530500 * 10 ^ 6)"
  "ParseDuration (\<lambda>f k u. f * u div 10 ^ k) ''-1.5h'' = Some (- (5400 * 10 ^ 9))"
  "ParseDuration (\<lambda>f k u. f * u div 10 ^ k) ''15'' = None"
  "ParseDuration (\<lambda>f k u. f * u div 10 ^ k) ''3000000h'' = None"
  by (simp_all add: duration_simps)

end
