(* ===== verification/Prometheus.thy ===== *)
theory Prometheus
  imports GoTime Lookup
begin

text \<open>
  The Prometheus gateway of \<open>internal/v2/api/server.go\<close>: which endpoints and parameters of a query pass, the
  limits that bound what a query may cost, and what is handed to the metrics endpoint. \<open>instant\<close> is
  what \<open>prometheusTime\<close> reads: an RFC 3339 time or a float of seconds; \<open>float_seconds\<close> reads a step that
  is a plain float.
\<close>

section \<open>Endpoints\<close>

definition TrimPrefix :: "string \<Rightarrow> string \<Rightarrow> string" where
  "TrimPrefix s p = (if has_prefix s p then drop (length p) s else s)"

definition label_first :: "char \<Rightarrow> bool" where
  "label_first c \<longleftrightarrow> letter c \<or> c \<in> {CHR ''_'', CHR '':''}"

definition label_name :: "string \<Rightarrow> bool" where
  "label_name s = (case s of [] \<Rightarrow> False | c # r \<Rightarrow> label_first c \<and> list_all (\<lambda>c. label_first c \<or> digit c) r)"

definition label_prefix :: string where "label_prefix = ''/api/v1/label/''"
definition label_suffix :: string where "label_suffix = ''/values''"

definition label_values_path :: "string \<Rightarrow> bool" where
  "label_values_path p \<longleftrightarrow> has_prefix p label_prefix
     \<and> (let r = drop (length label_prefix) p in has_suffix r label_suffix \<and> label_name (take (length r - length label_suffix) r))"

definition allowedPrometheusEndpoint :: "string \<Rightarrow> bool" where
  "allowedPrometheusEndpoint p \<longleftrightarrow>
     p \<in> {''/api/v1/query'', ''/api/v1/query_range'', ''/api/v1/labels'', ''/api/v1/series'', ''/api/v1/metadata'', ''/api/v1/status/buildinfo''}
     \<or> label_values_path p"

text \<open>The endpoint after its path has been recognized.\<close>

datatype endpoint = InstantQuery | RangeQuery | Series | Labels | LabelValues | Metadata | OtherEndpoint

definition endpoint_of :: "string \<Rightarrow> endpoint" where
  "endpoint_of p =
     (if p = ''/api/v1/query'' then InstantQuery else if p = ''/api/v1/query_range'' then RangeQuery
      else if p = ''/api/v1/series'' then Series else if p = ''/api/v1/labels'' then Labels
      else if has_prefix p label_prefix then LabelValues else if p = ''/api/v1/metadata'' then Metadata else OtherEndpoint)"

fun allowed_parameters :: "endpoint \<Rightarrow> string list" where
  "allowed_parameters InstantQuery = [''query'', ''time'', ''timeout'']"
| "allowed_parameters RangeQuery = [''query'', ''start'', ''end'', ''step'', ''timeout'']"
| "allowed_parameters Series = [''match[]'', ''start'', ''end'', ''limit'']"
| "allowed_parameters Labels = [''match[]'', ''start'', ''end'', ''limit'']"
| "allowed_parameters LabelValues = [''match[]'', ''start'', ''end'', ''limit'']"
| "allowed_parameters Metadata = [''limit'', ''limit_per_metric'', ''metric'']"
| "allowed_parameters OtherEndpoint = []"

section \<open>Values\<close>

definition Set_value :: "url_values \<Rightarrow> string \<Rightarrow> string \<Rightarrow> url_values" where
  "Set_value q k v = AList.update k [v] q"

text \<open>\<open>url.Values.Encode\<close>.\<close>

definition Encode :: "url_values \<Rightarrow> string" where
  "Encode q = join ''&'' (concat (map (\<lambda>(k, vs). map (\<lambda>v. QueryEscape k @ ''='' @ QueryEscape v) vs) (sort_key fst q)))"

section \<open>Requests\<close>

datatype prometheus_error =
    UnsupportedParameter string
  | OnceOnly string
  | RequestTooLong
  | QueryLength
  | TooManyMatchers
  | MatcherLength
  | MatcherRequired
  | BadLimit
  | BadLimitPerMetric
  | BadStart
  | BadEnd
  | RangeTooLong
  | BadStep

definition check_parameter :: "endpoint \<Rightarrow> string \<times> string list \<Rightarrow> prometheus_error option" where
  "check_parameter e kv = in_order
     [require (fst kv \<in> set (allowed_parameters e)) (UnsupportedParameter (fst kv)),
      require (fst kv = ''match[]'' \<or> length (snd kv) = 1) (OnceOnly (fst kv))]"

definition with_default :: "string \<Rightarrow> string \<Rightarrow> url_values \<Rightarrow> url_values" where
  "with_default k v q = (if Get q k = [] then Set_value q k v else q)"

definition in_range :: "int \<Rightarrow> int \<Rightarrow> string \<Rightarrow> bool" where
  "in_range lo hi v = (case ParseInt v of None \<Rightarrow> False | Some n \<Rightarrow> lo \<le> n \<and> n \<le> hi)"

definition needs_limit :: "endpoint \<Rightarrow> bool" where
  "needs_limit e \<longleftrightarrow> e \<in> {Metadata, Series, Labels, LabelValues}"

definition needs_range :: "endpoint \<Rightarrow> bool" where
  "needs_range e \<longleftrightarrow> e \<in> {RangeQuery, Series, Labels, LabelValues}"

text \<open>The last hour, for label queries that name no range.\<close>

definition default_range :: "time \<Rightarrow> endpoint \<Rightarrow> url_values \<Rightarrow> url_values" where
  "default_range now e q =
     (if e \<in> {Labels, LabelValues} \<and> Get q ''start'' = [] \<and> Get q ''end'' = [] then
        Set_value (Set_value q ''start'' (int_str ((now - 3600 * 10 ^ 9) div 10 ^ 9))) ''end'' (int_str (now div 10 ^ 9)) else q)"

definition prometheusDuration :: "(nat \<Rightarrow> nat \<Rightarrow> nat \<Rightarrow> nat) \<Rightarrow> (string \<Rightarrow> int option) \<Rightarrow> string \<Rightarrow> int option" where
  "prometheusDuration fraction float_seconds v = (case ParseDuration fraction v of Some d \<Rightarrow> Some d | None \<Rightarrow> float_seconds v)"

definition prometheusTime :: "(string \<Rightarrow> time option) \<Rightarrow> (string \<Rightarrow> time option) \<Rightarrow> string \<Rightarrow> time option" where
  "prometheusTime rfc3339 float_time v = (case rfc3339 v of Some t \<Rightarrow> Some t | None \<Rightarrow> float_time v)"

text \<open>\<open>Time.Sub\<close> saturates.\<close>

definition time_sub :: "time \<Rightarrow> time \<Rightarrow> int" where
  "time_sub t u = max (- (2 ^ 63)) (min (2 ^ 63 - 1) (t - u))"

definition check_range :: "(string \<Rightarrow> time option) \<Rightarrow> (string \<Rightarrow> int option) \<Rightarrow> endpoint \<Rightarrow> url_values \<Rightarrow> prometheus_error option" where
  "check_range instant step e q =
     given (instant (Get q ''start'')) BadStart (\<lambda>start.
     given (instant (Get q ''end'')) BadEnd (\<lambda>end'. in_order
       [require (\<not> end' < start) BadEnd,
        require (time_sub end' start \<le> 6 * 3600 * 10 ^ 9) RangeTooLong,
        if e = RangeQuery then given (step (Get q ''step'')) BadStep (\<lambda>d. require (d \<ge> 15 * 10 ^ 9) BadStep) else None]))"

definition validatePrometheusRequest :: "(string \<Rightarrow> time option) \<Rightarrow> (string \<Rightarrow> int option) \<Rightarrow> time \<Rightarrow> string \<Rightarrow> url_values
    \<Rightarrow> prometheus_error + url_values" where
  "validatePrometheusRequest instant step now path values =
     (let e = endpoint_of path;
          matches = (case map_of values ''match[]'' of None \<Rightarrow> [] | Some vs \<Rightarrow> vs);
          limited = (if needs_limit e then with_default ''limit'' ''1000'' values else values);
          per_metric = (if e = Metadata then with_default ''limit_per_metric'' ''10'' limited else limited);
          ranged = (if needs_range e then default_range now e per_metric else per_metric)
      in (case in_order
            [in_order (map (check_parameter e) values),
             require (length (Encode values) \<le> 64 * 1024) RequestTooLong,
             require (e \<in> {InstantQuery, RangeQuery} \<longrightarrow> Get values ''query'' \<noteq> [] \<and> length (Get values ''query'') \<le> 16384) QueryLength,
             require (length matches \<le> 20) TooManyMatchers,
             require (list_all (\<lambda>m. m \<noteq> [] \<and> length m \<le> 4096) matches) MatcherLength,
             require (\<not> (e = Series \<and> matches = [])) MatcherRequired,
             require (needs_limit e \<longrightarrow> in_range 1 10000 (Get limited ''limit'')) BadLimit,
             require (e = Metadata \<longrightarrow> in_range 1 100 (Get per_metric ''limit_per_metric'')) BadLimitPerMetric,
             if needs_range e then check_range instant step e ranged else None]
          of Some err \<Rightarrow> Inl err | None \<Rightarrow> Inr ranged))"

section \<open>The proxy\<close>

text \<open>
  What the handler does with a request: answer, hand it to another cluster with a body and the query of
  its URL, or query the metrics endpoint.
\<close>

datatype metrics_action =
    Refuse int
  | ForwardTo string url_values url_values
  | AskMetrics bool string url_values

text \<open>\<open>Request.ParseForm\<close>: the values of a body come before those of the URL.\<close>

definition merge_values :: "url_values \<Rightarrow> url_values \<Rightarrow> url_values" where
  "merge_values b q = foldl (\<lambda>m (k, vs). AList.update k ((case map_of m k of None \<Rightarrow> [] | Some ws \<Rightarrow> ws) @ vs) m) b q"

definition parsed_form :: "bool \<Rightarrow> url_values option \<Rightarrow> url_values option \<Rightarrow> url_values option" where
  "parsed_form post body query =
     (case query of None \<Rightarrow> None
      | Some q \<Rightarrow> if post then (case body of None \<Rightarrow> None | Some b \<Rightarrow> Some (merge_values b q)) else Some q)"

text \<open>\<open>body\<close> is \<open>None\<close> when it does not parse or exceeds 64 KiB, \<open>query\<close> when the URL does not parse.\<close>

definition prometheusProxy :: "(string \<Rightarrow> time option) \<Rightarrow> (string \<Rightarrow> int option) \<Rightarrow> time \<Rightarrow> string \<Rightarrow> bool
    \<Rightarrow> string \<Rightarrow> string \<Rightarrow> bool \<Rightarrow> string \<Rightarrow> url_values option \<Rightarrow> url_values option \<Rightarrow> metrics_action" where
  "prometheusProxy instant step now own gateway cluster path post content_type body query =
     (if cluster = [] then Refuse 400
      else let endpoint = TrimPrefix path (''/api/v1/live/metrics/prometheus/'' @ cluster) in
      if \<not> allowedPrometheusEndpoint endpoint then Refuse 404
      else if post \<and> \<not> has_prefix (to_lower content_type) ''application/x-www-form-urlencoded'' then Refuse 415
      else case parsed_form post body query of None \<Rightarrow> Refuse 400
      | Some form \<Rightarrow>
          (case validatePrometheusRequest instant step now endpoint form of Inl e \<Rightarrow> Refuse 400
           | Inr values \<Rightarrow>
               if cluster \<noteq> own then (if post then ForwardTo cluster values (the query) else ForwardTo cluster [] values)
               else if \<not> gateway then Refuse 503
               else AskMetrics post endpoint values))"

section \<open>What reaches the metrics endpoint\<close>

text \<open>The bounds on a query: the parameters and their sizes, its range and the number of points it asks for.\<close>

definition parameters_ok :: "endpoint \<Rightarrow> url_values \<Rightarrow> bool" where
  "parameters_ok e q \<longleftrightarrow>
     (\<forall>(k, vs) \<in> set q. k \<in> set (allowed_parameters e) \<and> (k = ''match[]'' \<and> length vs \<le> 20 \<or> length vs = 1))"

definition bounded_query :: "(string \<Rightarrow> time option) \<Rightarrow> (string \<Rightarrow> int option) \<Rightarrow> endpoint \<Rightarrow> url_values \<Rightarrow> bool" where
  "bounded_query instant step e q \<longleftrightarrow>
     parameters_ok e q
     \<and> (e \<in> {InstantQuery, RangeQuery} \<longrightarrow> 1 \<le> length (Get q ''query'') \<and> length (Get q ''query'') \<le> 16384)
     \<and> (\<forall>vs. map_of q ''match[]'' = Some vs \<longrightarrow> (\<forall>m \<in> set vs. 1 \<le> length m \<and> length m \<le> 4096))
     \<and> (e = Series \<longrightarrow> (\<exists>vs. map_of q ''match[]'' = Some vs \<and> vs \<noteq> []))
     \<and> (e = Metadata \<longrightarrow> (\<exists>n. ParseInt (Get q ''limit_per_metric'') = Some n \<and> 1 \<le> n \<and> n \<le> 100))
     \<and> (needs_limit e \<longrightarrow> (\<exists>n. ParseInt (Get q ''limit'') = Some n \<and> 1 \<le> n \<and> n \<le> 10000))
     \<and> (needs_range e \<longrightarrow> (\<exists>s t. instant (Get q ''start'') = Some s \<and> instant (Get q ''end'') = Some t \<and> s \<le> t \<and> t - s \<le> 6 * 3600 * 10 ^ 9))
     \<and> (e = RangeQuery \<longrightarrow> (\<exists>s t d. instant (Get q ''start'') = Some s \<and> instant (Get q ''end'') = Some t
          \<and> step (Get q ''step'') = Some d \<and> (t - s) div d \<le> 1440))"

lemma Get_Set_value: "Get (Set_value q k v) l = (if l = k then v else Get q l)"
  by (simp add: Get_def Set_value_def)

lemma set_Set_value: "set (Set_value q k v) \<subseteq> insert (k, [v]) (set q)"
  unfolding Set_value_def by (induction q) auto

lemma map_of_Set_value: "map_of (Set_value q k v) l = (if l = k then Some [v] else map_of q l)"
  by (simp add: Set_value_def)

lemma keys_Set_value: "distinct (map fst q) \<Longrightarrow> distinct (map fst (Set_value q k v))"
  unfolding Set_value_def by (rule distinct_update)

lemma parameters_ok_Set_value:
  "parameters_ok e q \<Longrightarrow> k \<in> set (allowed_parameters e) \<Longrightarrow> parameters_ok e (Set_value q k v)"
  unfolding parameters_ok_def using set_Set_value [of q k v] by fastforce

lemma parameters_ok_with_default:
  "parameters_ok e q \<Longrightarrow> k \<in> set (allowed_parameters e) \<Longrightarrow> parameters_ok e (with_default k v q)"
  by (simp add: with_default_def parameters_ok_Set_value)

lemma parameters_ok_default_range: "parameters_ok e q \<Longrightarrow> parameters_ok e (default_range now e q)"
  by (auto simp: default_range_def intro!: parameters_ok_Set_value)

text \<open>The parameters for which a request that lacks them gets a value.\<close>

definition defaulted :: "string list" where
  "defaulted = [''limit'', ''limit_per_metric'', ''start'', ''end'']"

lemma map_of_with_default: "l \<noteq> k \<Longrightarrow> map_of (with_default k v q) l = map_of q l"
  by (simp add: with_default_def map_of_Set_value)

lemma map_of_default_range: "l \<notin> {''start'', ''end''} \<Longrightarrow> map_of (default_range now e q) l = map_of q l"
  by (simp add: default_range_def map_of_Set_value)

lemma Get_map_of: "map_of q k = map_of r k \<Longrightarrow> Get q k = Get r k"
  by (simp add: Get_def)

lemma validate_bounded:
  assumes "validatePrometheusRequest instant step now path values = Inr q" and "distinct (map fst values)"
  shows "bounded_query instant step (endpoint_of path) q \<and> length (Encode values) \<le> 65536
    \<and> (\<forall>k. k \<notin> set defaulted \<longrightarrow> map_of q k = map_of values k)"
proof -
  define e where "e = endpoint_of path"
  define matches where "matches = (case map_of values ''match[]'' of None \<Rightarrow> [] | Some vs \<Rightarrow> vs)"
  define limited where "limited = (if needs_limit e then with_default ''limit'' ''1000'' values else values)"
  define per_metric where "per_metric = (if e = Metadata then with_default ''limit_per_metric'' ''10'' limited else limited)"
  define ranged where "ranged = (if needs_range e then default_range now e per_metric else per_metric)"
  note parts = assms(1) [unfolded validatePrometheusRequest_def Let_def, folded e_def, folded matches_def limited_def,
      folded per_metric_def, folded ranged_def]
  from parts have q: "q = ranged" and params: "\<forall>kv \<in> set values. check_parameter e kv = None" and few: "length matches \<le> 20"
    and short: "length (Encode values) \<le> 65536"
    and promql: "e \<in> {InstantQuery, RangeQuery} \<longrightarrow> Get values ''query'' \<noteq> [] \<and> length (Get values ''query'') \<le> 16384"
    and matchers: "\<forall>m \<in> set matches. m \<noteq> [] \<and> length m \<le> 4096" "e = Series \<longrightarrow> matches \<noteq> []"
    and limit: "needs_limit e \<longrightarrow> in_range 1 10000 (Get limited ''limit'')"
    and each: "e = Metadata \<longrightarrow> in_range 1 100 (Get per_metric ''limit_per_metric'')"
    and range: "needs_range e \<longrightarrow> check_range instant step e ranged = None"
    by (auto simp: passes list_all_iff split: option.splits if_splits)
  have "parameters_ok e values"
    unfolding parameters_ok_def
  proof clarify
    fix k vs assume kv: "(k, vs) \<in> set values"
    with params have "check_parameter e (k, vs) = None" by blast
    moreover have "k = ''match[]'' \<Longrightarrow> length vs \<le> 20" using kv few assms(2) by (simp add: matches_def)
    ultimately show "k \<in> set (allowed_parameters e) \<and> (k = ''match[]'' \<and> length vs \<le> 20 \<or> length vs = 1)"
      by (auto simp: check_parameter_def passes)
  qed
  moreover have "needs_limit e \<Longrightarrow> ''limit'' \<in> set (allowed_parameters e)" by (cases e) (simp_all add: needs_limit_def)
  ultimately have "parameters_ok e limited" by (simp add: limited_def parameters_ok_with_default)
  then have all: "parameters_ok e q"
    by (cases "e = Metadata") (simp_all add: q ranged_def per_metric_def parameters_ok_default_range parameters_ok_with_default)
  have kept: "map_of q k = map_of values k" if "k \<notin> set defaulted" for k
    using that by (simp add: q ranged_def per_metric_def limited_def defaulted_def map_of_with_default map_of_default_range)
  have texts: "e \<in> {InstantQuery, RangeQuery} \<longrightarrow> 1 \<le> length (Get q ''query'') \<and> length (Get q ''query'') \<le> 16384"
    using promql Get_map_of [OF kept, of "''query''"] by (simp add: defaulted_def Suc_le_eq)
  have series: "\<forall>vs. map_of q ''match[]'' = Some vs \<longrightarrow> (\<forall>m \<in> set vs. 1 \<le> length m \<and> length m \<le> 4096)"
    "e = Series \<longrightarrow> (\<exists>vs. map_of q ''match[]'' = Some vs \<and> vs \<noteq> [])"
    using matchers kept [of "''match[]''"] by (auto simp: defaulted_def matches_def Suc_le_eq split: option.splits)
  have "Get ranged ''limit'' = Get limited ''limit''" "Get ranged ''limit_per_metric'' = Get per_metric ''limit_per_metric''"
    by (simp_all add: ranged_def default_range_def per_metric_def with_default_def Get_Set_value)
  then have limits: "needs_limit e \<longrightarrow> (\<exists>n. ParseInt (Get q ''limit'') = Some n \<and> 1 \<le> n \<and> n \<le> 10000)"
    "e = Metadata \<longrightarrow> (\<exists>n. ParseInt (Get q ''limit_per_metric'') = Some n \<and> 1 \<le> n \<and> n \<le> 100)"
    using limit each by (auto simp: q in_range_def split: option.splits)
  have ranges: "\<exists>s t. instant (Get q ''start'') = Some s \<and> instant (Get q ''end'') = Some t \<and> s \<le> t \<and> t - s \<le> 6 * 3600 * 10 ^ 9
      \<and> (e = RangeQuery \<longrightarrow> (\<exists>d. step (Get q ''step'') = Some d \<and> 15 * 10 ^ 9 \<le> d))" if "needs_range e"
    using range that by (auto simp: check_range_def passes q time_sub_def min_def max_def split: if_splits)
  have points: "(t - s) div d \<le> 1440" if "t - s \<le> 6 * 3600 * 10 ^ 9" "15 * 10 ^ 9 \<le> d" for s t d :: int
  proof -
    have "(t - s) div d \<le> (1440 * d) div d" using that by (intro zdiv_mono1) simp_all
    also have "\<dots> = 1440" using that by simp
    finally show ?thesis .
  qed
  have "e = RangeQuery \<Longrightarrow> needs_range e" by (simp add: needs_range_def)
  with all texts series limits ranges points have "bounded_query instant step e q" unfolding bounded_query_def
    by (intro conjI impI) (blast | metis)+
  with short kept show ?thesis by (simp add: e_def)
qed

text \<open>Only a body's values can precede those of the URL, which all stay.\<close>

lemma map_of_merge_values:
  "distinct (map fst q) \<Longrightarrow> map_of (merge_values b q) k =
     (case map_of q k of None \<Rightarrow> map_of b k | Some vs \<Rightarrow> Some ((case map_of b k of None \<Rightarrow> [] | Some ws \<Rightarrow> ws) @ vs))"
  unfolding merge_values_def
proof (induction q arbitrary: b)
  case (Cons kv q)
  obtain l vs where kv: "kv = (l, vs)" by fastforce
  from Cons.prems kv have l: "map_of q l = None" "distinct (map fst q)" by (auto simp: map_of_eq_None_iff)
  show ?case using l by (simp add: kv Cons.IH split: option.splits)
qed simp

lemma distinct_merge_values: "distinct (map fst b) \<Longrightarrow> distinct (map fst (merge_values b q))"
  unfolding merge_values_def by (induction q arbitrary: b) (auto simp: distinct_update)

lemma distinct_parsed_form:
  assumes "parsed_form post body query = Some form"
    and "\<And>b. body = Some b \<Longrightarrow> distinct (map fst b)" and "\<And>u. query = Some u \<Longrightarrow> distinct (map fst u)"
  shows "distinct (map fst form)"
  using assms by (auto simp: parsed_form_def distinct_merge_values split: option.splits if_splits)

text \<open>What an action sends on: the parameters, in the body of a \<open>POST\<close>, else in the URL.\<close>

definition sends :: "bool \<Rightarrow> metrics_action \<Rightarrow> url_values option" where
  "sends post action = (case action of
     Refuse _ \<Rightarrow> None | AskMetrics _ _ q \<Rightarrow> Some q | ForwardTo _ b u \<Rightarrow> Some (if post then b else u))"

text \<open>C25: A query is sent on, to the metrics endpoint of this cluster or to another cluster, only for one of the
  allowed endpoints and within its bounds: a form of at most 64 KiB to which at most the default limits and
  the default range are added; known parameters, once each but for at most 20 matchers of 1 to 4096 bytes, a
  query of 1 to 16384 bytes, a limit of at most 10000 series and 100 metadata entries each, a range of at most
  six hours, and at most 1440 steps within it. Only queries for this cluster reach its own endpoint, with the
  method and path that were checked, and of another cluster's only what the client sent goes along.\<close>

theorem prometheus_bounded:
  assumes "sends post (prometheusProxy instant step now own gateway cluster path post content_type body query) = Some q"
    and "\<And>b. body = Some b \<Longrightarrow> distinct (map fst b)" and "\<And>u. query = Some u \<Longrightarrow> distinct (map fst u)"
  defines "endpoint \<equiv> TrimPrefix path (''/api/v1/live/metrics/prometheus/'' @ cluster)"
  shows "allowedPrometheusEndpoint endpoint \<and> bounded_query instant step (endpoint_of endpoint) q
    \<and> (\<exists>form. parsed_form post body query = Some form \<and> length (Encode form) \<le> 65536
        \<and> (\<forall>k. k \<notin> set defaulted \<longrightarrow> map_of q k = map_of form k))
    \<and> prometheusProxy instant step now own gateway cluster path post content_type body query
      = (if cluster = own then AskMetrics post endpoint q else if post then ForwardTo cluster q (the query) else ForwardTo cluster [] q)
    \<and> (cluster = own \<longrightarrow> gateway)"
proof -
  let ?action = "prometheusProxy instant step now own gateway cluster path post content_type body query"
  note unfold = prometheusProxy_def [of instant step now own gateway cluster path post content_type body query, unfolded Let_def,
      folded endpoint_def]
  from assms(1) have "\<exists>form. parsed_form post body query = Some form \<and> validatePrometheusRequest instant step now endpoint form = Inr q
    \<and> allowedPrometheusEndpoint endpoint
    \<and> ?action = (if cluster = own then AskMetrics post endpoint q else if post then ForwardTo cluster q (the query)
        else ForwardTo cluster [] q) \<and> (cluster = own \<longrightarrow> gateway)"
    unfolding unfold by (cases post) (auto simp: sends_def split: if_splits option.splits sum.splits)
  then obtain form where form: "parsed_form post body query = Some form" "validatePrometheusRequest instant step now endpoint form = Inr q"
    and allowed: "allowedPrometheusEndpoint endpoint"
    and action: "?action = (if cluster = own then AskMetrics post endpoint q else if post then ForwardTo cluster q (the query)
        else ForwardTo cluster [] q)" and own: "cluster = own \<longrightarrow> gateway" by blast
  from validate_bounded [OF form(2) distinct_parsed_form [OF form(1) assms(2,3)]] form(1) allowed action own show ?thesis by blast
qed

definition sample_query :: url_values where
  "sample_query = [(''query'', [''up'']), (''start'', [''0'']), (''end'', [''60'']), (''step'', [''15s''])]"

lemma prometheus_bounded_witness:
  "bounded_query (\<lambda>v. if v = ''60'' then Some (60 * 10 ^ 9) else Some 0) (\<lambda>_. Some (15 * 10 ^ 9)) RangeQuery sample_query"
proof -
  have "prometheusProxy (\<lambda>v. if v = ''60'' then Some (60 * 10 ^ 9) else Some 0) (\<lambda>_. Some (15 * 10 ^ 9)) 0 ''a'' True ''a''
      ''/api/v1/live/metrics/prometheus/a/api/v1/query_range'' False [] None (Some sample_query)
    = AskMetrics False ''/api/v1/query_range'' sample_query"
    by (simp add: prometheusProxy_def TrimPrefix_def allowedPrometheusEndpoint_def parsed_form_def validatePrometheusRequest_def
        endpoint_of_def needs_limit_def needs_range_def default_range_def check_range_def check_parameter_def time_sub_def passes
        sample_query_def Get_def Encode_def QueryEscape_def unreserved_def less_eq_char_def upper_hex_def
        require_def also_check_def given_def)
  then have "sends False (prometheusProxy (\<lambda>v. if v = ''60'' then Some (60 * 10 ^ 9) else Some 0) (\<lambda>_. Some (15 * 10 ^ 9)) 0 ''a'' True ''a''
      ''/api/v1/live/metrics/prometheus/a/api/v1/query_range'' False [] None (Some sample_query)) = Some sample_query"
    by (simp add: sends_def)
  from prometheus_bounded [OF this] show ?thesis
    by (simp add: sample_query_def endpoint_of_def TrimPrefix_def)
qed

text \<open>
  A \<open>POST\<close> whose URL has parameters of its own is forwarded with them although the body already holds
  them, and the other cluster refuses what the local one accepts.
\<close>

lemma case_Inr: "(case x of Some e \<Rightarrow> Inl e | None \<Rightarrow> Inr t) = Inr q \<Longrightarrow> q = t"
  by (simp split: option.splits)

lemma validated_keys:
  assumes "validatePrometheusRequest instant step now path values = Inr q" and "map_of values k \<noteq> None"
  shows "map_of q k \<noteq> None"
proof -
  have keeps: "map_of (with_default l v r) k \<noteq> None" "map_of (default_range now e r) k \<noteq> None" if "map_of r k \<noteq> None" for l v r e
    using that by (auto simp: with_default_def default_range_def map_of_Set_value)
  from case_Inr [OF assms(1) [unfolded validatePrometheusRequest_def Let_def]] assms(2) show ?thesis
    by (simp add: keeps del: not_None_eq)
qed

lemma doubled_refused:
  assumes "map_of form k = Some vs" and "k \<noteq> ''match[]''" and "length vs \<noteq> 1"
  shows "validatePrometheusRequest instant step now path form \<noteq> Inr q"
proof
  assume "validatePrometheusRequest instant step now path form = Inr q"
  then have "\<forall>kv \<in> set form. check_parameter (endpoint_of path) kv = None"
    by (auto simp: validatePrometheusRequest_def Let_def passes split: option.splits)
  with map_of_SomeD [OF assms(1)] have "check_parameter (endpoint_of path) (k, vs) = None" by blast
  with assms(2,3) show False by (simp add: check_parameter_def passes)
qed

lemma forwarded_post_refused:
  assumes "prometheusProxy instant step now own gateway cluster path True content_type (Some body) (Some query) = ForwardTo cluster b u"
    and "distinct (map fst query)" and "(k, [v]) \<in> set query" and "k \<noteq> ''match[]''" and "distinct (map fst body)"
  shows "\<exists>status. prometheusProxy instant' step' now' cluster gateway' cluster path True content_type' (Some b) (Some u) = Refuse status"
proof -
  define e where "e = TrimPrefix path (''/api/v1/live/metrics/prometheus/'' @ cluster)"
  from assms(1) [unfolded prometheusProxy_def Let_def, folded e_def]
  have b: "validatePrometheusRequest instant step now e (merge_values body query) = Inr b" and u: "u = query"
    by (auto simp: parsed_form_def split: if_splits sum.splits)
  have query: "map_of query k = Some [v]" using assms(2,3) by simp
  with assms(2) have "map_of (merge_values body query) k \<noteq> None" by (simp add: map_of_merge_values)
  with validated_keys [OF b] obtain vs where vs: "map_of b k = Some vs" by blast
  have "parameters_ok (endpoint_of e) b"
    using validate_bounded [OF b distinct_merge_values [OF assms(5)]] by (simp add: bounded_query_def)
  then have "length vs = 1" using map_of_SomeD [OF vs] assms(4) by (auto simp: parameters_ok_def)
  then have "map_of (merge_values b u) k = Some (vs @ [v])" "length (vs @ [v]) \<noteq> 1" using assms(2) query vs by (simp_all add: u map_of_merge_values)
  with doubled_refused [OF _ assms(4)] show ?thesis
    by (auto simp: prometheusProxy_def parsed_form_def Let_def split: sum.splits)
qed

end
