(* ===== verification/Live.thy ===== *)
theory Live
  imports Credentials Prometheus
begin

text \<open>
  Live access to the cluster: the gateway of \<open>internal/v2/live/gateway.go\<close> to the Kubernetes API and to the
  metrics endpoint, and the handlers of \<open>internal/v2/api/server.go\<close> for manifests, pod logs and metrics
  templates. The Kubernetes client and the HTTP transport are arguments.
\<close>

section \<open>Manifests\<close>

record api_resource =
  ar_name :: string
  ar_kind :: string
  ar_namespaced :: bool

definition mapGroup :: "string \<Rightarrow> string" where
  "mapGroup g = (if g = ''core'' then [] else g)"

text \<open>One object to read: with which client, under which group, version and resource, and its name.\<close>

record get_call =
  gc_delegated :: bool
  gc_group :: string
  gc_version :: string
  gc_resource :: string
  gc_namespace :: "string option"
  gc_name :: string

definition group_version :: "resource \<Rightarrow> string" where
  "group_version r = (if r_group r \<noteq> [] \<and> r_group r \<noteq> ''core'' then r_group r @ ''/'' @ r_version r else r_version r)"

definition manifest_call :: "bool \<Rightarrow> api_resource \<Rightarrow> resource \<Rightarrow> get_call" where
  "manifest_call delegation a r =
     \<lparr>gc_delegated = (\<not> ar_namespaced a \<and> delegation), gc_group = mapGroup (r_group r), gc_version = r_version r,
      gc_resource = ar_name a, gc_namespace = (if ar_namespaced a then Some (r_namespace r) else None), gc_name = r_name r\<rparr>"

definition redact :: "string \<Rightarrow> (string, json) gomap \<Rightarrow> (string, json) gomap" where
  "redact kind obj = (if to_lower kind = ''secret'' then AList.delete ''stringData'' (AList.delete ''data'' obj) else obj)"

definition Manifest :: "bool \<Rightarrow> (string \<Rightarrow> api_resource list option) \<Rightarrow> (get_call \<Rightarrow> (string, json) gomap option) \<Rightarrow> resource
    \<Rightarrow> (string, json) gomap option" where
  "Manifest delegation served get r =
     (case served (group_version r) of None \<Rightarrow> None
      | Some rs \<Rightarrow> (case find (\<lambda>a. ar_kind a = r_kind r \<and> CHR ''/'' \<notin> set (ar_name a)) rs of None \<Rightarrow> None
          | Some a \<Rightarrow> if ar_name a = [] then None else map_option (redact (r_kind r)) (get (manifest_call delegation a r))))"

text \<open>The gateway's operations the handlers use: \<open>None\<close> where the gateway is not available.\<close>

definition manifest :: "string \<Rightarrow> (string \<Rightarrow> string option) \<Rightarrow> (string \<Rightarrow> proxy_reply) \<Rightarrow> (resource \<Rightarrow> (string, json) gomap option) option
    \<Rightarrow> url_values \<Rightarrow> string \<Rightarrow> db \<Rightarrow> (string, json) gomap outcome" where
  "manifest own cast proxy gateway q i d =
     (if Get q ''cluster'' \<noteq> [] \<and> Get q ''cluster'' \<noteq> own then forward_or_404 proxy (Get q ''cluster'')
      else case gateway of None \<Rightarrow> Answered_here (Error 503)
      | Some fetch \<Rightarrow> (case GetIDs cast [i] d of Inl e \<Rightarrow> Answered_here (Error 500)
          | Inr [] \<Rightarrow> Answered_here (Error 404)
          | Inr (r # _) \<Rightarrow> (case fetch r of None \<Rightarrow> Answered_here (Error 502)
              | Some m \<Rightarrow> Answered_here (Reply 200 None m))))"

section \<open>Logs\<close>

definition log_lines :: "int \<Rightarrow> int" where
  "log_lines tail = (if tail < 1 \<or> tail > 10000 then 500 else tail)"

text \<open>\<open>open_log\<close> gives the text of a pod's log, at most the given number of lines.\<close>

definition logs :: "string \<Rightarrow> (string \<Rightarrow> proxy_reply) \<Rightarrow> (string \<Rightarrow> string \<Rightarrow> string \<Rightarrow> int \<Rightarrow> string option option) option
    \<Rightarrow> url_values \<Rightarrow> string \<Rightarrow> string \<Rightarrow> string outcome" where
  "logs own proxy open_log q namespace pod =
     (if Get q ''cluster'' \<noteq> [] \<and> Get q ''cluster'' \<noteq> own then forward_or_404 proxy (Get q ''cluster'')
      else case (if Get q ''tailLines'' = [] then Some 500
                 else if in_range 1 10000 (Get q ''tailLines'') then ParseInt (Get q ''tailLines'') else None) of
        None \<Rightarrow> Answered_here (Error 400)
      | Some tail \<Rightarrow> (case open_log of None \<Rightarrow> Answered_here (Error 503)
          | Some open \<Rightarrow> (case open namespace pod (Get q ''container'') (log_lines tail) of
              None \<Rightarrow> Answered_here (Error 502)
            | Some None \<Rightarrow> Answered_here (Error 502)
            | Some (Some content) \<Rightarrow>
                if length content > 4 * 2 ^ 20 then Answered_here (Error 413) else Answered_here (Reply 200 None content))))"

section \<open>Metrics templates\<close>

text \<open>
  \<open>strconv.Quote\<close>: printable runes are copied, quotes and backslashes escaped, the rest written in hex;
  \<open>printable\<close> is \<open>strconv.IsPrint\<close> for runes beyond ASCII.
\<close>

definition rune_value :: "string \<Rightarrow> nat" where
  "rune_value r = (case map of_char r of [a] \<Rightarrow> a | [a, b] \<Rightarrow> (a mod 32) * 64 + b mod 64
     | [a, b, c] \<Rightarrow> ((a mod 16) * 64 + b mod 64) * 64 + c mod 64
     | [a, b, c, d] \<Rightarrow> (((a mod 8) * 64 + b mod 64) * 64 + c mod 64) * 64 + d mod 64 | _ \<Rightarrow> 0)"

fun hex_number :: "nat \<Rightarrow> nat \<Rightarrow> string" where
  "hex_number 0 n = []"
| "hex_number (Suc k) n = hex_number k (n div 16) @ [hex_digit (n mod 16)]"

definition quote_ascii :: "char \<Rightarrow> string" where
  "quote_ascii c =
     (if c = CHR 0x22 \<or> c = backslash then [backslash, c]
      else if CHR 0x20 \<le> c \<and> c \<le> CHR 0x7E then [c]
      else if c = CHR 0x07 then backslash # ''a'' else if c = CHR 0x08 then backslash # ''b''
      else if c = CHR 0x0C then backslash # ''f'' else if c = CHR 0x0A then backslash # ''n''
      else if c = CHR 0x0D then backslash # ''r'' else if c = CHR 0x09 then backslash # ''t''
      else if c = CHR 0x0B then backslash # ''v'' else backslash # CHR ''x'' # hex_number 2 (of_char c))"

definition quote_rune :: "(string \<Rightarrow> bool) \<Rightarrow> string \<Rightarrow> string" where
  "quote_rune printable r =
     (if length r = 1 then quote_ascii (hd r)
      else if printable r then r
      else if rune_value r < 0x10000 then backslash # CHR ''u'' # hex_number 4 (rune_value r)
      else backslash # CHR ''U'' # hex_number 8 (rune_value r))"

function quote_body :: "(string \<Rightarrow> bool) \<Rightarrow> string \<Rightarrow> string" where
  "quote_body printable [] = []"
| "quote_body printable (c # s) = (case rune_len (c # s) of
     None \<Rightarrow> backslash # CHR ''x'' # hex_number 2 (of_char c) @ quote_body printable s
   | Some n \<Rightarrow> quote_rune printable (take n (c # s)) @ quote_body printable (drop n (c # s)))"
  by pat_completeness auto
termination
  by (relation "measure (\<lambda>(_, s). length s)") (auto dest: rune_len_pos simp del: rune_len.simps)

declare quote_body.simps(2) [simp del]

definition Quote :: "(string \<Rightarrow> bool) \<Rightarrow> string \<Rightarrow> string" where
  "Quote printable s = CHR 0x22 # quote_body printable s @ [CHR 0x22]"

definition QuoteMeta :: "string \<Rightarrow> string" where
  "QuoteMeta s = concat (map (\<lambda>c. if c = backslash \<or> c \<in> set ''.+*?()|[]{}^$'' then [backslash, c] else [c]) s)"

definition label_value_ok :: "string \<Rightarrow> bool" where
  "label_value_ok v \<longleftrightarrow> v \<noteq> [] \<and> length v \<le> 253"

datatype template_error = PodRequired | NodeRequired | UnknownTemplate

definition node_instance :: "(string \<Rightarrow> bool) \<Rightarrow> string \<Rightarrow> string" where
  "node_instance printable node = Quote printable (QuoteMeta node @ ''(?::.*)?'')"

definition metricTemplate :: "(string \<Rightarrow> bool) \<Rightarrow> string \<Rightarrow> string \<Rightarrow> string \<Rightarrow> string \<Rightarrow> template_error + string" where
  "metricTemplate printable name namespace pod node =
     (let quoted = Quote printable; empty = [CHR 0x22, CHR 0x22] in
      if name = ''pod_cpu'' then
        (if \<not> label_value_ok namespace \<or> \<not> label_value_ok pod then Inl PodRequired
         else Inr (''sum(rate(container_cpu_usage_seconds_total{namespace='' @ quoted namespace @ '',pod='' @ quoted pod
           @ '',container!='' @ empty @ ''}[5m]))''))
      else if name = ''pod_memory'' then
        (if \<not> label_value_ok namespace \<or> \<not> label_value_ok pod then Inl PodRequired
         else Inr (''sum(container_memory_working_set_bytes{namespace='' @ quoted namespace @ '',pod='' @ quoted pod
           @ '',container!='' @ empty @ ''})''))
      else if name = ''node_cpu'' then
        (if \<not> label_value_ok node then Inl NodeRequired
         else Inr (''1-avg(rate(node_cpu_seconds_total{mode='' @ [CHR 0x22] @ ''idle'' @ [CHR 0x22] @ '',instance=~'' @ node_instance printable node @ ''}[5m]))''))
      else if name = ''node_memory'' then
        (if \<not> label_value_ok node then Inl NodeRequired
         else Inr (''1-(node_memory_MemAvailable_bytes{instance=~'' @ node_instance printable node
           @ ''}/node_memory_MemTotal_bytes{instance=~'' @ node_instance printable node @ ''})''))
      else Inl UnknownTemplate)"

section \<open>The metrics endpoint\<close>

record metrics_config =
  mc_url :: string
  mc_namespace :: string
  mc_token_file :: string

record metrics_request =
  mq_post :: bool
  mq_url :: string
  mq_query :: url_values
  mq_body :: url_values
  mq_content_type :: string
  mq_authorization :: "string option"

text \<open>The credential of a request: delegated, from a file, or none; \<open>None\<close> when there should be one and is not.\<close>

definition metrics_credential :: "metrics_config \<Rightarrow> (string \<Rightarrow> string option) \<Rightarrow> (source \<Rightarrow> string option \<times> source) \<Rightarrow> source option
    \<Rightarrow> string option option \<times> source option" where
  "metrics_credential cfg files token src =
     (case src of Some s \<Rightarrow> (case token s of (None, s') \<Rightarrow> (None, Some s') | (Some t, s') \<Rightarrow> (Some (Some (''Bearer '' @ t)), Some s'))
      | None \<Rightarrow> (if mc_token_file cfg = [] then (Some None, None)
          else case files (mc_token_file cfg) of None \<Rightarrow> (None, None)
          | Some content \<Rightarrow> if TrimSpace content = [] then (None, None) else (Some (Some (''Bearer '' @ TrimSpace content)), None)))"

definition MetricsProxy :: "metrics_config \<Rightarrow> (string \<Rightarrow> string option) \<Rightarrow> (source \<Rightarrow> string option \<times> source)
    \<Rightarrow> (metrics_request \<Rightarrow> (int \<times> string) option) \<Rightarrow> (string \<Rightarrow> bool) \<Rightarrow> bool \<Rightarrow> string \<Rightarrow> url_values \<Rightarrow> url_values \<Rightarrow> string
    \<Rightarrow> source option \<Rightarrow> string option \<times> source option" where
  "MetricsProxy cfg files token transport json_valid post path query body content_type src =
     (if mc_url cfg = [] then (None, src)
      else (case metrics_credential cfg files token src of
          (None, src) \<Rightarrow> (None, src)
        | (Some auth, src) \<Rightarrow>
            (case transport \<lparr>mq_post = post, mq_url = mc_url cfg @ path,
                mq_query = (if mc_namespace cfg = [] then query else Set_value query ''namespace'' (mc_namespace cfg)),
                mq_body = body, mq_content_type = content_type, mq_authorization = auth\<rparr> of
              None \<Rightarrow> (None, src)
            | Some (status, response) \<Rightarrow>
                let src = (case (src, auth) of (Some s, Some a) \<Rightarrow> Some (if status = 401 then Invalidate (drop 7 a) s else s) | _ \<Rightarrow> src)
                in (if length response > 8 * 2 ^ 20 \<or> \<not> (200 \<le> status \<and> status < 300) \<or> \<not> json_valid response then None else Some response, src))))"

text \<open>The instant and the range query of a template: path and query.\<close>

definition Metrics :: "string \<Rightarrow> string \<times> url_values" where
  "Metrics query = (''/api/v1/query'', [(''query'', [query])])"

definition MetricsRange :: "string \<Rightarrow> time \<Rightarrow> time \<Rightarrow> int \<Rightarrow> string \<times> url_values" where
  "MetricsRange query start end' step = (''/api/v1/query_range'', [(''query'', [query]), (''start'', [int_str (start div 10 ^ 9)]),
     (''end'', [int_str (end' div 10 ^ 9)]), (''step'', [int_str (step div 10 ^ 9)])])"

record metrics_body =
  mb_cluster :: string
  mb_template :: string
  mb_namespace :: string
  mb_pod :: string
  mb_node :: string
  mb_range :: int
  mb_step :: int

text \<open>\<open>ask\<close> is a \<open>GET\<close> through \<open>MetricsProxy\<close>, \<open>None\<close> without a gateway.\<close>

definition metricsQuery :: "(string \<Rightarrow> bool) \<Rightarrow> time \<Rightarrow> string \<Rightarrow> (string \<Rightarrow> proxy_reply) \<Rightarrow> (string \<times> url_values \<Rightarrow> string option) option
    \<Rightarrow> metrics_body option \<Rightarrow> string outcome" where
  "metricsQuery printable now own proxy gateway body =
     (case body of None \<Rightarrow> Answered_here (Error 400)
      | Some b \<Rightarrow>
          if mb_cluster b \<noteq> [] \<and> mb_cluster b \<noteq> own then forward_or_404 proxy (mb_cluster b)
          else (case gateway of None \<Rightarrow> Answered_here (Error 503)
          | Some ask \<Rightarrow>
              (case metricTemplate printable (mb_template b) (mb_namespace b) (mb_pod b) (mb_node b) of
                 Inl e \<Rightarrow> Answered_here (Error 400)
               | Inr query \<Rightarrow>
                   let step = (if mb_step b = 0 then 30 else mb_step b);
                       answer = (\<lambda>r. case r of None \<Rightarrow> Answered_here (Error 502) | Some text \<Rightarrow> Answered_here (Reply 200 None text))
                   in if mb_range b > 0 then
                        (if mb_range b > 6 * 60 * 60 then Answered_here (Error 400)
                         else if step < 15 \<or> step > 300 then Answered_here (Error 400)
                         else answer (ask (MetricsRange query (now - seconds (mb_range b)) now (seconds step))))
                      else answer (ask (Metrics query)))))"

section \<open>What a query can contain\<close>

text \<open>The text of a query without the contents of its string literals.\<close>

fun skeleton :: "bool \<Rightarrow> string \<Rightarrow> string" where
  "skeleton inside [] = []"
| "skeleton False (c # s) = c # skeleton (c = CHR 0x22) s"
| "skeleton True (c # s) =
     (if c = CHR 0x22 then c # skeleton False s
      else if c = backslash then (case s of [] \<Rightarrow> [] | _ # r \<Rightarrow> skeleton True r)
      else skeleton True s)"

text \<open>Text that stays within a literal.\<close>

definition contained :: "string \<Rightarrow> bool" where
  "contained p \<longleftrightarrow> (\<forall>r. skeleton True (p @ r) = skeleton True r)"

lemma contained_append [intro]: "contained p \<Longrightarrow> contained q \<Longrightarrow> contained (p @ q)"
  by (simp add: contained_def)

lemma contained_plain: "CHR 0x22 \<notin> set p \<Longrightarrow> backslash \<notin> set p \<Longrightarrow> contained p"
  unfolding contained_def by (induction p) auto

lemma contained_escape: "contained p \<Longrightarrow> contained (backslash # c # p)"
  by (simp add: contained_def backslash_def)

lemma hex_digit_plain: "m < 16 \<Longrightarrow> hex_digit m \<noteq> CHR 0x22 \<and> hex_digit m \<noteq> backslash"
proof -
  assume m: "m < 16"
  then have "of_char (hex_digit m) = (if m < 10 then 48 + m else 87 + m)" by (simp add: hex_digit_def)
  then have "of_char (hex_digit m) \<noteq> (of_char (CHR 0x22) :: nat)" "of_char (hex_digit m) \<noteq> (of_char backslash :: nat)"
    using m by (auto simp: backslash_def)
  then show ?thesis by metis
qed

lemma hex_plain: "CHR 0x22 \<notin> set (hex_number k n)" "backslash \<notin> set (hex_number k n)"
  by (induction k n rule: hex_number.induct)
    (simp_all add: hex_digit_plain [THEN conjunct1, THEN not_sym] hex_digit_plain [THEN conjunct2, THEN not_sym])

lemma contained_hex: "contained (backslash # c # hex_number k n)"
  by (intro contained_escape contained_plain hex_plain)

lemma skeleton_hex [simp]: "skeleton True (hex_number k n @ r) = skeleton True r"
  using contained_plain [OF hex_plain] by (simp add: contained_def)

lemma contained_quote_ascii: "contained (quote_ascii c)"
  unfolding quote_ascii_def
  by (auto intro!: contained_escape contained_hex contained_plain [of "[c]"] contained_plain [of "[]"] simp: contained_def backslash_def)

text \<open>The bytes of a longer rune are neither quotes nor backslashes.\<close>

lemma long_rune_plain:
  assumes "rune_len s = Some n" and "n \<noteq> 1"
  shows "CHR 0x22 \<notin> set (take n s)" and "backslash \<notin> set (take n s)"
proof -
  have "\<forall>c \<in> set (take n s). of_char c \<ge> (128::nat)"
    using assms by (cases s) (auto simp: byte_in_def second_ok_def take_Cons' split: if_splits list.splits)
  then show "CHR 0x22 \<notin> set (take n s)" "backslash \<notin> set (take n s)" by (auto simp: backslash_def)
qed

lemma contained_quote_body: "contained (quote_body printable s)"
proof (induction printable s rule: quote_body.induct)
  case (2 printable c s)
  show ?case
  proof (cases "rune_len (c # s)")
    case None
    with contained_append [OF contained_hex 2(1) [OF None]] show ?thesis by (simp add: quote_body.simps(2) del: rune_len.simps)
  next
    case (Some n)
    have "contained (quote_rune printable (take n (c # s)))"
      unfolding quote_rune_def using long_rune_plain [OF Some] rune_len_pos [OF Some]
      by (auto simp del: rune_len.simps take_Suc_Cons intro!: contained_quote_ascii contained_hex contained_plain)
    with 2(2) [OF Some] Some show ?thesis by (simp add: quote_body.simps(2) contained_append del: rune_len.simps)
  qed
qed (simp add: contained_def)

lemma skeleton_Quote: "skeleton False (Quote printable v @ r) = [CHR 0x22, CHR 0x22] @ skeleton False r"
  using contained_quote_body [of printable v] by (simp add: Quote_def contained_def)

text \<open>C26: The query of a template depends on the values a client sends only inside its string literals: outside of
  them it is the template's text, so no value can end its literal and add to the query.\<close>

theorem template_injection_free:
  assumes "metricTemplate printable name namespace pod node = Inr q"
  shows "\<exists>q'. metricTemplate printable name ''n'' ''p'' ''m'' = Inr q' \<and> skeleton False q = skeleton False q'"
proof -
  have ok: "label_value_ok ''n''" "label_value_ok ''p''" "label_value_ok ''m''" by (simp_all add: label_value_ok_def)
  from assms consider "name = ''pod_cpu''" | "name = ''pod_memory''" | "name = ''node_cpu''" | "name = ''node_memory''"
    unfolding metricTemplate_def Let_def by (metis Inl_Inr_False)
  then show ?thesis
  proof cases
    case 1
    with assms ok show ?thesis
      by (clarsimp simp: metricTemplate_def Let_def simp del: skeleton.simps split: if_split_asm) (simp add: node_instance_def skeleton_Quote backslash_def)
  next
    case 2
    with assms ok show ?thesis
      by (clarsimp simp: metricTemplate_def Let_def simp del: skeleton.simps split: if_split_asm) (simp add: node_instance_def skeleton_Quote backslash_def)
  next
    case 3
    with assms ok show ?thesis
      by (clarsimp simp: metricTemplate_def Let_def simp del: skeleton.simps split: if_split_asm) (simp add: node_instance_def skeleton_Quote backslash_def)
  next
    case 4
    with assms ok show ?thesis
      by (clarsimp simp: metricTemplate_def Let_def simp del: skeleton.simps split: if_split_asm) (simp add: node_instance_def skeleton_Quote backslash_def)
  qed
qed

lemma template_injection_free_witness:
  "\<exists>q q'. metricTemplate (\<lambda>_. True) ''pod_memory'' ''shop'' [CHR 0x22, CHR ''}''] [] = Inr q
    \<and> metricTemplate (\<lambda>_. True) ''pod_memory'' ''n'' ''p'' ''m'' = Inr q' \<and> skeleton False q = skeleton False q'"
proof -
  obtain q where "metricTemplate (\<lambda>_. True) ''pod_memory'' ''shop'' [CHR 0x22, CHR ''}''] [] = Inr q"
    by (simp add: metricTemplate_def label_value_ok_def Let_def)
  with template_injection_free [OF this] show ?thesis by blast
qed

section \<open>What a manifest shows\<close>

text \<open>A manifest is the object the API server has under the name of the resource, read with the delegated
  identity only when it is cluster-scoped, and the manifest of a Secret never has its \<open>data\<close> or
  \<open>stringData\<close>.\<close>

theorem manifest_sanitized:
  assumes "Manifest delegation served get r = Some m"
  shows "\<exists>c obj. get c = Some obj \<and> gc_name c = r_name r \<and> (gc_delegated c \<longrightarrow> delegation \<and> gc_namespace c = None)
    \<and> (\<forall>k. map_of m k = (if to_lower (r_kind r) = ''secret'' \<and> k \<in> {''data'', ''stringData''} then None else map_of obj k))"
proof -
  from assms obtain a obj where a: "get (manifest_call delegation a r) = Some obj" "m = redact (r_kind r) obj"
    by (auto simp: Manifest_def split: option.splits if_splits)
  have "map_of m k = (if to_lower (r_kind r) = ''secret'' \<and> k \<in> {''data'', ''stringData''} then None else map_of obj k)" for k
    by (simp add: a(2) redact_def delete_conv')
  with a(1) show ?thesis
    by (intro exI [of _ "manifest_call delegation a r"] exI [of _ obj]) (simp add: manifest_call_def)
qed

definition sample_secret :: "(string, json) gomap" where
  "sample_secret = [(''kind'', JStr ''Secret''), (''data'', JObj [(''password'', JStr ''eA=='')]),
     (''metadata'', JObj [(''annotations'', JObj [(''kubectl.kubernetes.io/last-applied-configuration'', JStr ''password: eA=='')])])]"

definition sample_reading :: "(string, json) gomap option" where
  "sample_reading = Manifest False (\<lambda>_. Some [\<lparr>ar_name = ''secrets'', ar_kind = ''Secret'', ar_namespaced = True\<rparr>]) (\<lambda>_. Some sample_secret)
     (blank_resource\<lparr>r_kind := ''Secret'', r_version := ''v1'', r_name := ''db''\<rparr>)"

lemma sample_read: "sample_reading = Some (redact ''Secret'' sample_secret)"
  by (simp add: sample_reading_def Manifest_def group_version_def blank_resource_def)

lemma manifest_sanitized_witness: "map_of (redact ''Secret'' sample_secret) ''data'' = None"
proof -
  have "to_lower (r_kind (blank_resource\<lparr>r_kind := ''Secret'', r_version := ''v1'', r_name := ''db''\<rparr>)) = ''secret''" by code_simp
  with manifest_sanitized [OF sample_read [unfolded sample_reading_def]] show ?thesis by auto
qed

text \<open>
  The annotation in which \<open>kubectl apply\<close> keeps the object as it was applied, with the values of a Secret,
  is not touched.
\<close>

lemma secret_annotation_served:
  assumes "get (manifest_call delegation a r) = Some obj" and "Manifest delegation served get r = Some m"
    and "served (group_version r) = Some (a # rs)" and "ar_kind a = r_kind r" and "CHR ''/'' \<notin> set (ar_name a)"
  shows "map_of m ''metadata'' = map_of obj ''metadata''"
  using assms by (auto simp: Manifest_def redact_def delete_conv' split: if_splits)

end
