(* ===== verification/Middleware.thy ===== *)
theory Middleware
  imports Live ProcessCheck
begin

text \<open>
  What surrounds the handlers of \<open>internal/v2/api/server.go\<close>: the routes and the roles they need, the bearer
  tokens, the limits on rate and concurrency, the accounting of responses, the decoding of bodies,
  and the handlers for health and for the other clusters.
\<close>

section \<open>Tokens and roles\<close>

record credential =
  cr_value :: string
  cr_file :: string

record credentials =
  cs_collector :: credential
  cs_reader :: credential
  cs_federation :: credential
  cs_admin :: credential

definition token :: "(string \<Rightarrow> string option) \<Rightarrow> credential \<Rightarrow> string" where
  "token files c = (if cr_file c \<noteq> [] then (case files (cr_file c) of Some b \<Rightarrow> TrimSpace b | None \<Rightarrow> cr_value c) else cr_value c)"

datatype role = Collector | Reader | Admin

fun accepted_tokens :: "(string \<Rightarrow> string option) \<Rightarrow> credentials \<Rightarrow> role \<Rightarrow> string list" where
  "accepted_tokens files cs Collector = [token files (cs_collector cs), token files (cs_admin cs)]"
| "accepted_tokens files cs Reader = [token files (cs_reader cs), token files (cs_federation cs), token files (cs_admin cs)]"
| "accepted_tokens files cs Admin = [token files (cs_admin cs)]"

definition authorize :: "(string \<Rightarrow> string option) \<Rightarrow> credentials \<Rightarrow> role \<Rightarrow> string \<Rightarrow> bool" where
  "authorize files cs role header =
     list_ex (\<lambda>want. want \<noteq> [] \<and> TrimPrefix header ''Bearer '' = want) (accepted_tokens files cs role)"

section \<open>Routes\<close>

datatype handler =
    LiveHealth | ReadyHealth | ServerMetrics | StatusReport | ListResources | ListTypes | ListNamespaces | BatchGet | SelectorResolve
  | GraphResolve | BranchStatus | BranchInventory | Ingest | EventStream | ListProcesses | GetProcess | PutProcess | DeleteProcess
  | GetManifest | ResourceMetrics | PodLogs | MetricsQuery | PrometheusGateway

text \<open>\<open>Handler\<close>: the routes with their patterns, and the role each needs.\<close>

definition routes :: "((string \<times> string) \<times> role option \<times> handler) list" where
  "routes = [
     ((''GET'', ''/api/v1/health/live''), None, LiveHealth),
     ((''GET'', ''/api/v1/health/ready''), None, ReadyHealth),
     ((''GET'', ''/metrics''), None, ServerMetrics),
     ((''GET'', ''/api/v1/status''), Some Reader, StatusReport),
     ((''GET'', ''/api/v1/resources''), Some Reader, ListResources),
     ((''GET'', ''/api/v1/resource-types''), Some Reader, ListTypes),
     ((''GET'', ''/api/v1/resource-namespaces''), Some Reader, ListNamespaces),
     ((''POST'', ''/api/v1/resources/batch-get''), Some Reader, BatchGet),
     ((''POST'', ''/api/v1/selectors/resolve''), Some Reader, SelectorResolve),
     ((''POST'', ''/api/v1/graph/resolve''), Some Reader, GraphResolve),
     ((''GET'', ''/api/v1/branches/status''), Some Reader, BranchStatus),
     ((''GET'', ''/api/v1/branches''), Some Reader, BranchInventory),
     ((''POST'', ''/api/v1/ingest''), Some Collector, Ingest),
     ((''GET'', ''/api/v1/events/stream''), Some Reader, EventStream),
     ((''GET'', ''/api/v1/business-processes''), Some Reader, ListProcesses),
     ((''GET'', ''/api/v1/business-processes/{name}''), Some Reader, GetProcess),
     ((''PUT'', ''/api/v1/business-processes/{name}''), Some Admin, PutProcess),
     ((''DELETE'', ''/api/v1/business-processes/{name}''), Some Admin, DeleteProcess),
     ((''GET'', ''/api/v1/live/resources/{id}/manifest''), Some Reader, GetManifest),
     ((''GET'', ''/api/v1/live/resources/{id}/metrics''), Some Reader, ResourceMetrics),
     ((''GET'', ''/api/v1/live/pods/{namespace}/{pod}/logs''), Some Reader, PodLogs),
     ((''POST'', ''/api/v1/live/metrics/query''), Some Reader, MetricsQuery)]
   @ concat (map (\<lambda>e. [((''GET'', ''/api/v1/live/metrics/prometheus/{cluster}/api/v1/'' @ e), Some Reader, PrometheusGateway),
       ((''POST'', ''/api/v1/live/metrics/prometheus/{cluster}/api/v1/'' @ e), Some Reader, PrometheusGateway)])
       [''query'', ''query_range'', ''labels'', ''series''])
   @ map (\<lambda>e. ((''GET'', ''/api/v1/live/metrics/prometheus/{cluster}/api/v1/'' @ e), Some Reader, PrometheusGateway))
       [''metadata'', ''status/buildinfo'', ''label/{label}/values'']"

text \<open>
  The handler a request reaches, by the method and the pattern its path matches; \<open>Error 404\<close> for no
  route, \<open>Error 401\<close> for a token the role does not accept.
\<close>

definition dispatch :: "(string \<Rightarrow> string option) \<Rightarrow> credentials \<Rightarrow> string \<times> string \<Rightarrow> string \<Rightarrow> handler reply" where
  "dispatch files cs route header =
     (case map_of routes route of None \<Rightarrow> Error 404
      | Some (None, h) \<Rightarrow> Reply 200 None h
      | Some (Some role, h) \<Rightarrow> if authorize files cs role header then Reply 200 None h else Error 401)"

section \<open>Limits\<close>

text \<open>The requests that hold a slot, each with whether its path is under \<open>/live/\<close>.\<close>

type_synonym slots = "(nat \<times> bool) list"

definition capacity :: "bool \<Rightarrow> nat" where
  "capacity live_path = (if live_path then 20 else 100)"

definition in_flight :: "bool \<Rightarrow> slots \<Rightarrow> nat" where
  "in_flight live_path s = length (filter (\<lambda>x. snd x = live_path) s)"

text \<open>A request arrives; \<open>allow\<close> is the rate limiter's answer. It is served or refused with 429.\<close>

definition enter :: "bool \<Rightarrow> nat \<Rightarrow> string \<Rightarrow> slots \<Rightarrow> int option \<times> slots" where
  "enter allow i path s =
     (let live_path = contains_str path ''/live/'' in
      if \<not> allow then (Some 429, s)
      else if in_flight live_path s < capacity live_path then (None, (i, live_path) # s)
      else (Some 429, s))"

definition leave :: "nat \<Rightarrow> slots \<Rightarrow> slots" where
  "leave i s = filter (\<lambda>x. fst x \<noteq> i) s"

text \<open>
  The requests so far, each under a number of its own: those that were let in, with their kind, those of them
  whose handler has returned, and the slots held.
\<close>

type_synonym traffic = "slots \<times> nat set \<times> slots"

inductive slot_step :: "traffic \<Rightarrow> traffic \<Rightarrow> bool" where
  arrive: "i \<notin> fst ` set served \<Longrightarrow> enter allow i path s = (r, s') \<Longrightarrow>
     slot_step (served, gone, s) (if r = None then (i, contains_str path ''/live/'') # served else served, gone, s')"
| finish: "i \<in> fst ` set served \<Longrightarrow> i \<notin> gone \<Longrightarrow> slot_step (served, gone, s) (served, insert i gone, leave i s)"

section \<open>Accounting\<close>

text \<open>What a handler does to its response; \<open>statusResponseWriter\<close> keeps the first status.\<close>

datatype response_op = WriteHeader int | WriteBody | FlushBody

definition on_response :: "int \<times> bool \<Rightarrow> response_op \<Rightarrow> int \<times> bool" where
  "on_response w p = (case (w, p) of
     ((status, wrote), WriteHeader n) \<Rightarrow> if wrote then (status, wrote) else (n, True)
   | ((status, wrote), _) \<Rightarrow> if wrote then (status, wrote) else (200, True))"

definition response_status :: "response_op list \<Rightarrow> int" where
  "response_status ops = fst (foldl on_response (200, False) ops)"

record server_metrics =
  sm_requests :: nat
  sm_active :: int
  sm_2xx :: nat
  sm_3xx :: nat
  sm_4xx :: nat
  sm_5xx :: nat
  sm_429 :: nat
  sm_nanos :: nat
  sm_buckets :: "nat list"

definition requestDurationBuckets :: "duration list" where
  "requestDurationBuckets = [10 * 10 ^ 6, 25 * 10 ^ 6, 50 * 10 ^ 6, 100 * 10 ^ 6, 250 * 10 ^ 6, 500 * 10 ^ 6, 10 ^ 9, 5 * 10 ^ 9, 2 ^ 63 - 1]"

definition new_metrics :: server_metrics where
  "new_metrics = \<lparr>sm_requests = 0, sm_active = 0, sm_2xx = 0, sm_3xx = 0, sm_4xx = 0, sm_5xx = 0, sm_429 = 0, sm_nanos = 0,
     sm_buckets = replicate 9 0\<rparr>"

definition observeResponse :: "int \<Rightarrow> duration \<Rightarrow> server_metrics \<Rightarrow> server_metrics" where
  "observeResponse status d m =
     (let m = (if status div 100 = 2 then m\<lparr>sm_2xx := sm_2xx m + 1\<rparr> else if status div 100 = 3 then m\<lparr>sm_3xx := sm_3xx m + 1\<rparr>
               else if status div 100 = 4 then m\<lparr>sm_4xx := sm_4xx m + 1\<rparr> else if status div 100 = 5 then m\<lparr>sm_5xx := sm_5xx m + 1\<rparr> else m);
          m = (if status = 429 then m\<lparr>sm_429 := sm_429 m + 1\<rparr> else m)
      in m\<lparr>sm_nanos := sm_nanos m + nat d, sm_buckets := map2 (\<lambda>b n. if d \<le> b then n + 1 else n) requestDurationBuckets (sm_buckets m)\<rparr>)"

text \<open>\<open>observe\<close> before and after the handler.\<close>

definition observe_start :: "server_metrics \<Rightarrow> server_metrics" where
  "observe_start m = m\<lparr>sm_requests := sm_requests m + 1, sm_active := sm_active m + 1\<rparr>"

definition observe_end :: "response_op list \<Rightarrow> duration \<Rightarrow> server_metrics \<Rightarrow> server_metrics" where
  "observe_end ops d m = (observeResponse (response_status ops) d m)\<lparr>sm_active := sm_active m - 1\<rparr>"

inductive metrics_step :: "server_metrics \<Rightarrow> server_metrics \<Rightarrow> bool" where
  request_starts: "metrics_step m (observe_start m)"
| request_ends: "0 \<le> d \<Longrightarrow> d < 2 ^ 63 \<Longrightarrow> response_status ops \<in> {200..599} \<Longrightarrow> metrics_step m (observe_end ops d m)"

section \<open>The metrics page\<close>

datatype sample = Count string string int | Seconds string int

definition bucket_bounds :: "string list" where
  "bucket_bounds = [''0.01'', ''0.025'', ''0.05'', ''0.1'', ''0.25'', ''0.5'', ''1'', ''5'', ''+Inf'']"

text \<open>The samples of \<open>metrics\<close>, without their comments; \<open>st\<close> is \<open>None\<close> when the database does not answer.\<close>

definition metrics_samples :: "time \<Rightarrow> nat \<Rightarrow> status option \<Rightarrow> server_metrics \<Rightarrow> sample list" where
  "metrics_samples now errors st m =
     [Count ''icinga_kubernetes_api_requests_total'' [] (int (sm_requests m)),
      Count ''icinga_kubernetes_api_active_requests'' [] (sm_active m),
      Count ''icinga_kubernetes_api_responses_total'' ''2xx'' (int (sm_2xx m)),
      Count ''icinga_kubernetes_api_responses_total'' ''3xx'' (int (sm_3xx m)),
      Count ''icinga_kubernetes_api_responses_total'' ''4xx'' (int (sm_4xx m)),
      Count ''icinga_kubernetes_api_responses_total'' ''5xx'' (int (sm_5xx m)),
      Count ''icinga_kubernetes_api_rejected_total'' [] (int (sm_429 m))]
     @ map2 (\<lambda>b n. Count ''icinga_kubernetes_api_request_duration_seconds_bucket'' b (int n)) bucket_bounds (sm_buckets m)
     @ [Seconds ''icinga_kubernetes_api_request_duration_seconds_sum'' (int (sm_nanos m)),
        Count ''icinga_kubernetes_api_request_duration_seconds_count'' [] (int (sm_2xx m + sm_3xx m + sm_4xx m + sm_5xx m)),
        Count ''icinga_kubernetes_api_internal_errors_total'' [] (int errors)]
     @ (case st of None \<Rightarrow> [Count ''icinga_kubernetes_database_up'' [] 0]
        | Some s \<Rightarrow>
            [Count ''icinga_kubernetes_database_up'' [] 1,
             Count ''icinga_kubernetes_ingest_pending'' [] (st_pending s),
             Seconds ''icinga_kubernetes_ingest_oldest_seconds'' (case st_oldest_event s of None \<Rightarrow> 0 | Some t \<Rightarrow> now - t),
             Count ''icinga_kubernetes_notifications_pending'' [] (int (st_notifications s)),
             Count ''icinga_kubernetes_notifications_failed'' [] (int (st_failed s)),
             Seconds ''icinga_kubernetes_notifications_oldest_seconds'' (case st_oldest_notification s of None \<Rightarrow> 0 | Some t \<Rightarrow> now - t)])"

section \<open>Bodies\<close>

definition json_space :: "char \<Rightarrow> bool" where
  "json_space c \<longleftrightarrow> c \<in> {CHR '' '', CHR 0x09, CHR 0x0A, CHR 0x0D}"

text \<open>
  \<open>decode\<close>: exactly one document of at most 2 MiB. \<open>first\<close> decodes the document a text begins with, without
  unknown fields, and gives the rest of the text.
\<close>

definition decode :: "(string \<Rightarrow> ('a \<times> string) option) \<Rightarrow> string \<Rightarrow> 'a option" where
  "decode first body =
     (case first (take (2 * 2 ^ 20 + 1) body) of None \<Rightarrow> None
      | Some (v, rest) \<Rightarrow> if \<not> list_all json_space rest then None else if length body > 2 * 2 ^ 20 then None else Some v)"

lemma decode_first:
  "decode first body = Some v \<longleftrightarrow> length body \<le> 2 * 2 ^ 20 \<and> (\<exists>rest. first body = Some (v, rest) \<and> list_all json_space rest)"
  by (auto simp: decode_def split: option.splits)

section \<open>Health and other clusters\<close>

definition liveHandler :: "int reply" where
  "liveHandler = Reply 200 None 0"

text \<open>\<open>ping\<close> is \<open>None\<close> without a database, otherwise whether it answers within two seconds.\<close>

definition ready :: "bool option \<Rightarrow> unit reply" where
  "ready ping = (if ping = Some True then Reply 200 None () else Error 503)"

record status_report =
  sp_status :: status
  sp_cluster :: string
  sp_freshness :: string

definition statusHandler :: "string \<Rightarrow> string \<Rightarrow> status option \<Rightarrow> status_report reply" where
  "statusHandler own fresh st = (case st of None \<Rightarrow> Error 500
     | Some s \<Rightarrow> Reply 200 None \<lparr>sp_status = s, sp_cluster = own, sp_freshness = fresh\<rparr>)"

type_synonym branch_statuses = "(string \<times> string) list"

definition branch_status :: "(target \<Rightarrow> federation_error + response) \<Rightarrow> target \<Rightarrow> string \<times> string" where
  "branch_status read t = (tg_name t, case read t of Inl _ \<Rightarrow> ''unavailable''
     | Inr r \<Rightarrow> if re_status r = 200 \<and> re_freshness r = ''live'' then ''live'' else ''unavailable'')"

text \<open>
  \<open>branches\<close>, with the answers kept from the last round and when it was (\<open>None\<close>: never); a round starts at
  \<open>now\<close> and is kept as of \<open>later\<close>.
\<close>

definition branches :: "time \<Rightarrow> time \<Rightarrow> target list \<Rightarrow> (target \<Rightarrow> federation_error + response) \<Rightarrow> (time \<times> branch_statuses) option
    \<Rightarrow> branch_statuses reply \<times> (time \<times> branch_statuses) option" where
  "branches now later targets read kept =
     (case kept of
        Some (at, items) \<Rightarrow> if now - at < seconds 5 then (Reply 200 None items, kept)
          else let items = map (branch_status read) targets in (Reply 200 None items, Some (later, items))
      | None \<Rightarrow> let items = map (branch_status read) targets in (Reply 200 None items, Some (later, items)))"

definition branchInventory :: "target list \<Rightarrow> string list reply" where
  "branchInventory targets = Reply 200 None (map tg_name targets)"

text \<open>
  The round is made with the request of whoever asks: if that request is cancelled every read fails, and
  everyone is told for the next five seconds that no cluster is available.
\<close>

lemma cancelled_round_kept:
  assumes "now' - later < seconds 5"
  shows "fst (branches now' later' targets read' (snd (branches now later targets (\<lambda>_. Inl e) None)))
    = Reply 200 None (map (\<lambda>t. (tg_name t, ''unavailable'')) targets)"
  using assms by (simp add: branches_def branch_status_def Let_def)

section \<open>What the guards ensure\<close>

lemma routes_guarded:
  "\<forall>(r, ro, h) \<in> set routes. (h \<in> {PutProcess, DeleteProcess} \<longrightarrow> ro = Some Admin) \<and> (h = Ingest \<longrightarrow> ro = Some Collector)
     \<and> (ro = None \<longrightarrow> h \<in> {LiveHealth, ReadyHealth, ServerMetrics})"
  by (simp add: routes_def)

lemma authorize_token: "authorize files cs role header \<longleftrightarrow> TrimPrefix header ''Bearer '' \<in> set (accepted_tokens files cs role)
    \<and> TrimPrefix header ''Bearer '' \<noteq> []"
  by (auto simp: authorize_def list_ex_iff)

text \<open>C19: A request reaches a handler that changes processes only with the admin token, and the handler that takes
  batches only with the collector's or the admin's; a token that is not configured opens nothing, and
  without any token only the health and metrics pages are served.\<close>

theorem mutations_authorized:
  assumes "dispatch files cs route header = Reply status fresh h"
  defines "presented \<equiv> TrimPrefix header ''Bearer ''"
  shows "(h \<in> {PutProcess, DeleteProcess} \<longrightarrow> presented = token files (cs_admin cs) \<and> presented \<noteq> [])
    \<and> (h = Ingest \<longrightarrow> presented \<in> {token files (cs_collector cs), token files (cs_admin cs)} \<and> presented \<noteq> [])
    \<and> (presented = [] \<longrightarrow> h \<in> {LiveHealth, ReadyHealth, ServerMetrics})"
proof -
  from assms(1) obtain ro where ro: "map_of routes route = Some (ro, h)"
    "\<And>r. ro = Some r \<Longrightarrow> authorize files cs r header"
    by (auto simp: dispatch_def split: option.splits if_splits)
  with routes_guarded map_of_SomeD [OF ro(1)]
  have "h \<in> {PutProcess, DeleteProcess} \<Longrightarrow> ro = Some Admin" "h = Ingest \<Longrightarrow> ro = Some Collector"
    "ro = None \<Longrightarrow> h \<in> {LiveHealth, ReadyHealth, ServerMetrics}" by fastforce+
  with ro(2) show ?thesis unfolding presented_def authorize_token by (cases ro) auto
qed

definition sample_credentials :: credentials where
  "sample_credentials = \<lparr>cs_collector = \<lparr>cr_value = ''c'', cr_file = []\<rparr>, cs_reader = \<lparr>cr_value = ''r'', cr_file = []\<rparr>,
     cs_federation = \<lparr>cr_value = ''f'', cr_file = []\<rparr>, cs_admin = \<lparr>cr_value = ''a'', cr_file = []\<rparr>\<rparr>"

lemma sample_dispatch:
  "dispatch (\<lambda>_. None) sample_credentials (''PUT'', ''/api/v1/business-processes/{name}'') ''Bearer a'' = Reply 200 None PutProcess"
  by code_simp

lemma mutations_authorized_witness: "TrimPrefix ''Bearer a'' ''Bearer '' = token (\<lambda>_. None) (cs_admin sample_credentials)"
  using mutations_authorized [OF sample_dispatch] by blast

text \<open>Slots: those held are those of the requests let in that have not returned.\<close>

definition slots_ok :: "traffic \<Rightarrow> bool" where
  "slots_ok x = (case x of (served, gone, s) \<Rightarrow> distinct (map fst served) \<and> gone \<subseteq> fst ` set served
     \<and> s = filter (\<lambda>x. fst x \<notin> gone) served \<and> in_flight True s \<le> 20 \<and> in_flight False s \<le> 100)"

lemma in_flight_leave: "in_flight b (leave i s) \<le> in_flight b s"
  unfolding in_flight_def leave_def by (induction s) auto

lemma enter_cases:
  "enter allow i path s =
     (if allow \<and> in_flight (contains_str path ''/live/'') s < capacity (contains_str path ''/live/'')
      then (None, (i, contains_str path ''/live/'') # s) else (Some 429, s))"
  by (simp add: enter_def Let_def)

lemma leave_filter: "leave i (filter (\<lambda>x. fst x \<notin> gone) served) = filter (\<lambda>x. fst x \<notin> insert i gone) served"
  unfolding leave_def by (induction served) auto

lemma in_flight_Cons: "in_flight b (x # s) = (if snd x = b then 1 else 0) + in_flight b s"
  by (simp add: in_flight_def)

interpretation slots_machine: machine "\<lambda>x. x = ([], {}, [])" slot_step slots_ok
proof unfold_locales
  show "x = ([], {}, []) \<Longrightarrow> slots_ok x" for x by (simp add: slots_ok_def in_flight_def)
  fix x y
  assume "slot_step x y" and ok: "slots_ok x"
  then show "slots_ok y"
  proof cases
    case (arrive i served allow path s r s' gone)
    define served' where "served' = (if r = None then (i, contains_str path ''/live/'') # served else served)"
    from arrive(4) consider (refused) "served' = served" "s' = s"
      | (let_in) "served' = (i, contains_str path ''/live/'') # served" "s' = (i, contains_str path ''/live/'') # s"
          "in_flight (contains_str path ''/live/'') s < capacity (contains_str path ''/live/'')"
      unfolding enter_cases served'_def by (auto split: if_splits)
    then have "slots_ok (served', gone, s')"
    proof cases
      case refused
      with ok arrive(1,2) show ?thesis by simp
    next
      case let_in
      have "i \<notin> gone" using ok arrive(1,3) by (auto simp: slots_ok_def)
      with let_in ok arrive(1,3) show ?thesis
        by (cases "contains_str path ''/live/''") (auto simp: slots_ok_def in_flight_Cons capacity_def)
    qed
    then show ?thesis using arrive(2) unfolding served'_def by simp
  next
    case (finish i served gone s)
    with ok in_flight_leave [of True i s] in_flight_leave [of False i s] show ?thesis
      by (auto simp: slots_ok_def leave_filter)
  qed
qed

text \<open>The slot of a request that returns is free again.\<close>

lemma leave_frees:
  assumes "distinct (map fst s)" and "(i, b) \<in> set s"
  shows "in_flight b' (leave i s) + (if b' = b then 1 else 0) = in_flight b' s"
  using assms
proof (induction s)
  case (Cons x s)
  show ?case
  proof (cases "fst x = i")
    case True
    with Cons.prems have "x = (i, b)" and "i \<notin> fst ` set s" by (cases x; force)+
    then have "leave i (x # s) = s" unfolding leave_def by (auto simp: filter_id_conv)
    with \<open>x = (i, b)\<close> show ?thesis by (simp add: in_flight_Cons)
  next
    case False
    with Cons show ?thesis by (auto simp: leave_def in_flight_Cons)
  qed
qed simp

text \<open>C29: However requests arrive and end, at most 20 live requests and at most 100 others are served at a time. A
  request holds a slot exactly from when it is let in until its handler returns: the slots taken are those
  of the requests served and not finished, every request that ends frees one of its own kind and none of
  the other, and when all have ended none is taken. With the rate limiter's leave a request is refused only
  while all slots of its kind are taken, and a refused one takes none.\<close>

theorem concurrency_bounded:
  assumes "slot_step\<^sup>*\<^sup>* ([], {}, []) (served, gone, s)"
  shows "in_flight True s \<le> 20 \<and> in_flight False s \<le> 100
    \<and> s = filter (\<lambda>x. fst x \<notin> gone) served
    \<and> (gone = fst ` set served \<longrightarrow> in_flight b s = 0)
    \<and> ((i, live_path) \<in> set served \<and> i \<notin> gone \<longrightarrow> in_flight b (leave i s) + (if b = live_path then 1 else 0) = in_flight b s)
    \<and> (fst (enter True i path s) = Some 429 \<longleftrightarrow> in_flight (contains_str path ''/live/'') s = capacity (contains_str path ''/live/''))
    \<and> (fst (enter allow i path s) = Some 429 \<longrightarrow> snd (enter allow i path s) = s)"
    (is "?live \<and> ?other \<and> ?held \<and> ?drained \<and> ?freed \<and> ?refusal \<and> ?nothing")
proof -
  from slots_machine.reachable_inv [OF refl assms] have ok: "slots_ok (served, gone, s)" .
  then have bounds: ?live ?other and held: ?held and ids: "distinct (map fst served)" by (auto simp: slots_ok_def)
  from held have ?drained by (auto simp: in_flight_def filter_empty_conv)
  moreover have ?freed
  proof
    assume "(i, live_path) \<in> set served \<and> i \<notin> gone"
    with held ids show "in_flight b (leave i s) + (if b = live_path then 1 else 0) = in_flight b s"
      by (intro leave_frees) (auto simp: distinct_map_filter)
  qed
  moreover have ?refusal
    using bounds by (cases "contains_str path ''/live/''") (auto simp: enter_cases capacity_def)
  moreover have ?nothing by (simp add: enter_cases)
  ultimately show ?thesis using bounds held by blast
qed

lemma concurrency_bounded_witness: "leave 0 [(0, True)] = [] \<and> in_flight True (leave 0 [(0, True)]) = 0"
proof -
  have "enter True 0 ''/api/v1/live/x'' [] = (None, [(0, True)])" by (simp add: enter_def in_flight_def capacity_def)
  from arrive [OF _ this, of "[]" "{}"] have "slot_step ([], {}, []) ([(0, True)], {}, [(0, True)])" by simp
  moreover have "slot_step ([(0, True)], {}, [(0, True)]) ([(0, True)], {0}, leave 0 [(0, True)])"
    using finish [of 0 "[(0, True)]" "{}" "[(0, True)]"] by simp
  ultimately have "slot_step\<^sup>*\<^sup>* ([], {}, []) ([(0, True)], {0}, leave 0 [(0, True)])"
    by (meson r_into_rtranclp rtranclp.rtrancl_into_rtrancl)
  from concurrency_bounded [OF this, where b = True] show ?thesis by (simp add: in_flight_def)
qed

text \<open>The accounting.\<close>

definition metrics_ok :: "server_metrics \<Rightarrow> bool" where
  "metrics_ok m \<longleftrightarrow> length (sm_buckets m) = 9 \<and> sorted (sm_buckets m)
     \<and> last (sm_buckets m) = sm_2xx m + sm_3xx m + sm_4xx m + sm_5xx m
     \<and> int (sm_requests m) = int (sm_2xx m + sm_3xx m + sm_4xx m + sm_5xx m) + sm_active m \<and> sm_429 m \<le> sm_4xx m"

lemma sorted_counted:
  assumes "sorted bs" and "sorted ns" and "length bs = length ns"
  shows "sorted (map2 (\<lambda>b n. if d \<le> b then n + 1 else (n :: nat)) bs ns)"
  using assms by (auto simp: sorted_iff_nth_mono) (meson le_SucI order_trans)+

lemma last_counted:
  assumes "d \<le> last bs" and "length bs = length ns" and "ns \<noteq> []"
  shows "last (map2 (\<lambda>b n. if d \<le> b then n + 1 else (n :: nat)) bs ns) = last ns + 1"
proof -
  from assms(2,3) have "bs \<noteq> []" by auto
  with assms show ?thesis by (simp add: last_conv_nth)
qed

lemma observe_end_ok:
  assumes "metrics_ok m" and "0 \<le> d" and "d < 2 ^ 63" and "response_status ops \<in> {200..599}"
  shows "metrics_ok (observe_end ops d m)"
proof -
  have buckets: "length requestDurationBuckets = 9" "sorted requestDurationBuckets" "d \<le> last requestDurationBuckets"
    using assms(3) by (simp_all add: requestDurationBuckets_def)
  have "sm_buckets m \<noteq> []" using assms(1) by (auto simp: metrics_ok_def)
  note counted = sorted_counted [OF buckets(2), of "sm_buckets m" d] last_counted [OF buckets(3) _ this]
  have "response_status ops div 100 \<in> {2, 3, 4, 5}" using assms(4) by auto
  with assms(1) buckets(1) counted show ?thesis
    by (auto simp: metrics_ok_def observe_end_def observeResponse_def Let_def)
qed

interpretation accounting: machine "\<lambda>m. m = new_metrics" metrics_step metrics_ok
proof unfold_locales
  show "m = new_metrics \<Longrightarrow> metrics_ok m" for m by (simp add: metrics_ok_def new_metrics_def)
  fix m m'
  assume "metrics_step m m'" and ok: "metrics_ok m"
  then show "metrics_ok m'"
  proof cases
    case request_starts
    with ok show ?thesis by (simp add: metrics_ok_def observe_start_def)
  next
    case (request_ends d ops)
    with observe_end_ok [OF ok] show ?thesis by blast
  qed
qed

text \<open>The metrics page is consistent at any time: the latency histogram is cumulative and its last bucket, its
  count and the sum of the status classes agree, requests are the finished and the active ones, and
  rejections are among the client errors.\<close>

theorem histogram_consistent:
  assumes "metrics_step\<^sup>*\<^sup>* new_metrics m"
  shows "sorted (sm_buckets m) \<and> last (sm_buckets m) = sm_2xx m + sm_3xx m + sm_4xx m + sm_5xx m
    \<and> int (sm_requests m) = int (last (sm_buckets m)) + sm_active m \<and> sm_429 m \<le> sm_4xx m"
  using accounting.reachable_inv [OF refl assms] by (auto simp: metrics_ok_def)

lemma histogram_consistent_witness: "sm_429 (observe_end [WriteHeader 429] 5 (observe_start new_metrics)) \<le> 1"
proof -
  have "metrics_step new_metrics (observe_start new_metrics)" by (rule request_starts)
  moreover have "metrics_step (observe_start new_metrics) (observe_end [WriteHeader 429] 5 (observe_start new_metrics))"
    by (rule request_ends) (simp_all add: response_status_def on_response_def)
  ultimately have "metrics_step\<^sup>*\<^sup>* new_metrics (observe_end [WriteHeader 429] 5 (observe_start new_metrics))"
    by (meson r_into_rtranclp rtranclp.rtrancl_into_rtrancl)
  from histogram_consistent [OF this] show ?thesis
    by (simp add: observe_end_def observe_start_def observeResponse_def new_metrics_def response_status_def on_response_def Let_def)
qed

end
