(* ===== verification/ResourceQueries.thy ===== *)
theory ResourceQueries
  imports Middleware Adapter
begin

text \<open>
  The metrics of one resource, \<open>internal/v2/api/resource_metrics.go\<close> and \<open>extended_metrics.go\<close>: the queries each
  kind of resource has, those of monitors and of adapters, and the handler that runs them.
\<close>

section \<open>Queries by kind\<close>

record resource_metric =
  mt_key :: string
  mt_label :: string
  mt_unit :: string
  mt_query :: string

definition metric :: "string \<Rightarrow> string \<Rightarrow> string \<Rightarrow> string \<Rightarrow> resource_metric" where
  "metric k l u q = \<lparr>mt_key = k, mt_label = l, mt_unit = u, mt_query = q\<rparr>"

definition dq :: string where "dq = [CHR 0x22]"

text \<open>\<open>ns\<close>, \<open>n\<close> and \<open>instance\<close> are quoted already.\<close>

definition pod_metrics :: "string \<Rightarrow> string \<Rightarrow> resource_metric list" where
  "pod_metrics ns n = (let selector = ''namespace='' @ ns @ '',pod='' @ n in 
     [metric ''cpu'' ''CPU'' ''cores'' (''sum(rate(container_cpu_usage_seconds_total{'' @ selector @ '',container!='' @ dq @ dq @ ''}[5m]))''),
      metric ''memory'' ''Memory'' ''bytes'' (''sum(container_memory_working_set_bytes{'' @ selector @ '',container!='' @ dq @ dq @ ''})''),
      metric ''network_receive'' ''Network receive'' ''bytes_per_second'' (''sum(rate(container_network_receive_bytes_total{'' @ selector @ ''}[5m]))''),
      metric ''network_transmit'' ''Network transmit'' ''bytes_per_second'' (''sum(rate(container_network_transmit_bytes_total{'' @ selector @ ''}[5m]))''),
      metric ''restarts'' ''Container restarts'' ''count'' (''sum(kube_pod_container_status_restarts_total{'' @ selector @ ''})''),
      metric ''filesystem'' ''Container filesystem'' ''bytes'' (''sum(container_fs_usage_bytes{'' @ selector @ '',container!='' @ dq @ dq @ ''})'')])"

definition node_metrics :: "string \<Rightarrow> string \<Rightarrow> resource_metric list" where
  "node_metrics instance n = (
     [metric ''cpu'' ''CPU usage'' ''ratio'' (''1-avg(rate(node_cpu_seconds_total{mode='' @ dq @ ''idle'' @ dq @ '',instance=~'' @ instance @ ''}[5m]))''),
      metric ''memory'' ''Memory usage'' ''ratio'' (''1-(node_memory_MemAvailable_bytes{instance=~'' @ instance @ ''}/node_memory_MemTotal_bytes{instance=~'' @ instance @ ''})''),
      metric ''load'' ''Load 1m'' ''count'' (''node_load1{instance=~'' @ instance @ ''}''),
      metric ''network_receive'' ''Network receive'' ''bytes_per_second'' (''sum(rate(node_network_receive_bytes_total{instance=~'' @ instance @ '',device!~'' @ dq @ ''lo|veth.*'' @ dq @ ''}[5m]))''),
      metric ''network_transmit'' ''Network transmit'' ''bytes_per_second'' (''sum(rate(node_network_transmit_bytes_total{instance=~'' @ instance @ '',device!~'' @ dq @ ''lo|veth.*'' @ dq @ ''}[5m]))''),
      metric ''pods'' ''Pods'' ''count'' (''sum(kube_pod_info{node='' @ n @ ''})'')])"

definition namespace_metrics :: "string \<Rightarrow> resource_metric list" where
  "namespace_metrics n = (let selector = ''namespace='' @ n in 
     [metric ''cpu'' ''CPU'' ''cores'' (''sum(rate(container_cpu_usage_seconds_total{'' @ selector @ '',container!='' @ dq @ dq @ ''}[5m]))''),
      metric ''memory'' ''Memory'' ''bytes'' (''sum(container_memory_working_set_bytes{'' @ selector @ '',container!='' @ dq @ dq @ ''})''),
      metric ''network_receive'' ''Network receive'' ''bytes_per_second'' (''sum(rate(container_network_receive_bytes_total{'' @ selector @ ''}[5m]))''),
      metric ''network_transmit'' ''Network transmit'' ''bytes_per_second'' (''sum(rate(container_network_transmit_bytes_total{'' @ selector @ ''}[5m]))''),
      metric ''pods'' ''Pods'' ''count'' (''sum(kube_pod_info{'' @ selector @ ''})''),
      metric ''restarts'' ''Container restarts'' ''count'' (''sum(kube_pod_container_status_restarts_total{'' @ selector @ ''})'')])"

definition deployment_metrics :: "string \<Rightarrow> string \<Rightarrow> resource_metric list" where
  "deployment_metrics ns n = (let selector = ''namespace='' @ ns @ '',deployment='' @ n in 
     [metric ''desired'' ''Desired replicas'' ''count'' (''kube_deployment_spec_replicas{'' @ selector @ ''}''),
      metric ''available'' ''Available replicas'' ''count'' (''kube_deployment_status_replicas_available{'' @ selector @ ''}''),
      metric ''unavailable'' ''Unavailable replicas'' ''count'' (''kube_deployment_status_replicas_unavailable{'' @ selector @ ''}''),
      metric ''updated'' ''Updated replicas'' ''count'' (''kube_deployment_status_replicas_updated{'' @ selector @ ''}'')])"

definition replicaSet_metrics :: "string \<Rightarrow> string \<Rightarrow> resource_metric list" where
  "replicaSet_metrics ns n = (let selector = ''namespace='' @ ns @ '',replicaset='' @ n in 
     [metric ''desired'' ''Desired replicas'' ''count'' (''kube_replicaset_spec_replicas{'' @ selector @ ''}''),
      metric ''ready'' ''Ready replicas'' ''count'' (''kube_replicaset_status_ready_replicas{'' @ selector @ ''}''),
      metric ''available'' ''Available replicas'' ''count'' (''kube_replicaset_status_replicas{'' @ selector @ ''}'')])"

definition statefulSet_metrics :: "string \<Rightarrow> string \<Rightarrow> resource_metric list" where
  "statefulSet_metrics ns n = (let selector = ''namespace='' @ ns @ '',statefulset='' @ n in 
     [metric ''desired'' ''Desired replicas'' ''count'' (''kube_statefulset_replicas{'' @ selector @ ''}''),
      metric ''ready'' ''Ready replicas'' ''count'' (''kube_statefulset_status_replicas_ready{'' @ selector @ ''}''),
      metric ''current'' ''Current replicas'' ''count'' (''kube_statefulset_status_replicas_current{'' @ selector @ ''}'')])"

definition daemonSet_metrics :: "string \<Rightarrow> string \<Rightarrow> resource_metric list" where
  "daemonSet_metrics ns n = (let selector = ''namespace='' @ ns @ '',daemonset='' @ n in 
     [metric ''desired'' ''Desired pods'' ''count'' (''kube_daemonset_status_desired_number_scheduled{'' @ selector @ ''}''),
      metric ''ready'' ''Ready pods'' ''count'' (''kube_daemonset_status_number_ready{'' @ selector @ ''}''),
      metric ''unavailable'' ''Unavailable pods'' ''count'' (''kube_daemonset_status_number_unavailable{'' @ selector @ ''}'')])"

definition job_metrics :: "string \<Rightarrow> string \<Rightarrow> resource_metric list" where
  "job_metrics ns n = (let selector = ''namespace='' @ ns @ '',job_name='' @ n in 
     [metric ''active'' ''Active'' ''count'' (''kube_job_status_active{'' @ selector @ ''}''),
      metric ''succeeded'' ''Succeeded'' ''count'' (''kube_job_status_succeeded{'' @ selector @ ''}''),
      metric ''failed'' ''Failed'' ''count'' (''kube_job_status_failed{'' @ selector @ ''}'')])"

definition cronJob_metrics :: "string \<Rightarrow> string \<Rightarrow> resource_metric list" where
  "cronJob_metrics ns n = (let selector = ''namespace='' @ ns @ '',cronjob='' @ n in 
     [metric ''active'' ''Active jobs'' ''count'' (''kube_cronjob_status_active{'' @ selector @ ''}''),
      metric ''last_schedule'' ''Last schedule'' ''unix_seconds'' (''kube_cronjob_status_last_schedule_time{'' @ selector @ ''}'')])"

definition persistentVolumeClaim_metrics :: "string \<Rightarrow> string \<Rightarrow> resource_metric list" where
  "persistentVolumeClaim_metrics ns n = (let selector = ''namespace='' @ ns @ '',persistentvolumeclaim='' @ n in 
     [metric ''used'' ''Used capacity'' ''bytes'' (''kubelet_volume_stats_used_bytes{'' @ selector @ ''}''),
      metric ''capacity'' ''Capacity'' ''bytes'' (''kubelet_volume_stats_capacity_bytes{'' @ selector @ ''}''),
      metric ''usage'' ''Capacity usage'' ''ratio'' (''kubelet_volume_stats_used_bytes{'' @ selector @ ''}/kubelet_volume_stats_capacity_bytes{'' @ selector @ ''}''),
      metric ''inodes'' ''Inode usage'' ''ratio'' (''1-(kubelet_volume_stats_inodes_free{'' @ selector @ ''}/kubelet_volume_stats_inodes{'' @ selector @ ''})'')])"

definition horizontalPodAutoscaler_metrics :: "string \<Rightarrow> string \<Rightarrow> resource_metric list" where
  "horizontalPodAutoscaler_metrics ns n = (let selector = ''namespace='' @ ns @ '',horizontalpodautoscaler='' @ n in 
     [metric ''current'' ''Current replicas'' ''count'' (''kube_horizontalpodautoscaler_status_current_replicas{'' @ selector @ ''}''),
      metric ''desired'' ''Desired replicas'' ''count'' (''kube_horizontalpodautoscaler_status_desired_replicas{'' @ selector @ ''}''),
      metric ''minimum'' ''Minimum replicas'' ''count'' (''kube_horizontalpodautoscaler_spec_min_replicas{'' @ selector @ ''}''),
      metric ''maximum'' ''Maximum replicas'' ''count'' (''kube_horizontalpodautoscaler_spec_max_replicas{'' @ selector @ ''}'')])"

definition podDisruptionBudget_metrics :: "string \<Rightarrow> string \<Rightarrow> resource_metric list" where
  "podDisruptionBudget_metrics ns n = (let selector = ''namespace='' @ ns @ '',poddisruptionbudget='' @ n in 
     [metric ''healthy'' ''Current healthy pods'' ''count'' (''kube_poddisruptionbudget_status_current_healthy{'' @ selector @ ''}''),
      metric ''desired_healthy'' ''Desired healthy pods'' ''count'' (''kube_poddisruptionbudget_status_desired_healthy{'' @ selector @ ''}''),
      metric ''disruptions_allowed'' ''Disruptions allowed'' ''count'' (''kube_poddisruptionbudget_status_pod_disruptions_allowed{'' @ selector @ ''}'')])"

definition service_metrics :: "string \<Rightarrow> string \<Rightarrow> resource_metric list" where
  "service_metrics ns n = (let selector = ''namespace='' @ ns @ '',service='' @ n in 
     [metric ''endpoints'' ''Available endpoints'' ''count'' (''sum(kube_endpoint_address_available{'' @ selector @ ''})''),
      metric ''targets_up'' ''Scrape targets up'' ''count'' (''sum(up{'' @ selector @ ''})''),
      metric ''targets_down'' ''Scrape targets down'' ''count'' (''count(up{'' @ selector @ ''})-sum(up{'' @ selector @ ''})'')])"

definition route_metrics :: "string \<Rightarrow> string \<Rightarrow> resource_metric list" where
  "route_metrics ns n = (let selector = ''namespace='' @ ns @ '',route='' @ n in 
     [metric ''requests'' ''HTTP requests'' ''requests_per_second'' (''sum(rate(haproxy_server_http_responses_total{'' @ selector @ ''}[5m]))'')])"

definition deploymentConfig_metrics :: "string \<Rightarrow> string \<Rightarrow> resource_metric list" where
  "deploymentConfig_metrics ns n = (let selector = ''namespace='' @ ns @ '',deploymentconfig='' @ n in 
     [metric ''desired'' ''Desired replicas'' ''count'' (''openshift_deploymentconfig_spec_replicas{'' @ selector @ ''}''),
      metric ''available'' ''Available replicas'' ''count'' (''openshift_deploymentconfig_status_replicas_available{'' @ selector @ ''}''),
      metric ''unavailable'' ''Unavailable replicas'' ''count'' (''openshift_deploymentconfig_status_replicas_unavailable{'' @ selector @ ''}''),
      metric ''updated'' ''Updated replicas'' ''count'' (''openshift_deploymentconfig_status_replicas_updated{'' @ selector @ ''}'')])"

definition build_metrics :: "string \<Rightarrow> string \<Rightarrow> resource_metric list" where
  "build_metrics ns n = (let selector = ''namespace='' @ ns @ '',build='' @ n in 
     [metric ''phase'' ''Build phase'' ''boolean'' (''openshift_build_status_phase_total{'' @ selector @ ''}''),
      metric ''duration'' ''Build duration'' ''seconds'' (''openshift_build_duration_seconds{'' @ selector @ ''}''),
      metric ''started'' ''Build start'' ''unix_seconds'' (''openshift_build_start_timestamp_seconds{'' @ selector @ ''}''),
      metric ''completed'' ''Build completion'' ''unix_seconds'' (''openshift_build_completed_timestamp_seconds{'' @ selector @ ''}'')])"

definition buildConfig_metrics :: "string \<Rightarrow> string \<Rightarrow> resource_metric list" where
  "buildConfig_metrics ns n = (let selector = ''namespace='' @ ns @ '',buildconfig='' @ n in 
     [metric ''latest_version'' ''Latest build version'' ''count'' (''openshift_buildconfig_status_latest_version{'' @ selector @ ''}''),
      metric ''generation'' ''Configuration generation'' ''count'' (''openshift_buildconfig_metadata_generation{'' @ selector @ ''}'')])"

definition clusterOperator_metrics :: "string \<Rightarrow> resource_metric list" where
  "clusterOperator_metrics n = (
     [metric ''available'' ''Available'' ''boolean'' (''cluster_operator_conditions{name='' @ n @ '',condition='' @ dq @ ''Available'' @ dq @ ''}''),
      metric ''degraded'' ''Degraded'' ''boolean'' (''cluster_operator_conditions{name='' @ n @ '',condition='' @ dq @ ''Degraded'' @ dq @ ''}''),
      metric ''progressing'' ''Progressing'' ''boolean'' (''cluster_operator_conditions{name='' @ n @ '',condition='' @ dq @ ''Progressing'' @ dq @ ''}'')])"

definition clusterServiceVersion_metrics :: "string \<Rightarrow> string \<Rightarrow> resource_metric list" where
  "clusterServiceVersion_metrics ns n = (let selector = ''namespace='' @ ns @ '',name='' @ n in 
     [metric ''succeeded'' ''Installation succeeded'' ''boolean'' (''csv_succeeded{'' @ selector @ ''}''),
      metric ''abnormal'' ''Installation abnormal'' ''boolean'' (''csv_abnormal{'' @ selector @ ''}'')])"

definition catalogSource_metrics :: "string \<Rightarrow> string \<Rightarrow> resource_metric list" where
  "catalogSource_metrics ns n = (
     [metric ''ready'' ''Catalog source ready'' ''boolean'' (''catalogsource_ready{namespace='' @ ns @ '',name='' @ n @ ''}'')])"

definition expectedGroups :: "(string \<times> string) list" where
  "expectedGroups =
     [(''Pod'', ''core''), (''Node'', ''core''), (''Namespace'', ''core''), (''PersistentVolumeClaim'', ''core''),
      (''Service'', ''core''), (''Deployment'', ''apps''), (''ReplicaSet'', ''apps''), (''StatefulSet'', ''apps''),
      (''DaemonSet'', ''apps''), (''Job'', ''batch''), (''CronJob'', ''batch''), (''HorizontalPodAutoscaler'', ''autoscaling''),
      (''PodDisruptionBudget'', ''policy''), (''Route'', ''route.openshift.io''), (''DeploymentConfig'', ''apps.openshift.io''), (''Build'', ''build.openshift.io''),
      (''BuildConfig'', ''build.openshift.io''), (''ClusterOperator'', ''config.openshift.io''), (''ClusterServiceVersion'', ''operators.coreos.com''), (''CatalogSource'', ''operators.coreos.com'')]"

definition baseResourceMetrics :: "(string \<Rightarrow> string) \<Rightarrow> resource \<Rightarrow> resource_metric list" where
  "baseResourceMetrics quote r =
     (if (case map_of expectedGroups (r_kind r) of None \<Rightarrow> False | Some g \<Rightarrow> r_group r \<noteq> g) then []
      else if r_kind r = ''Pod'' then pod_metrics (quote (r_namespace r)) (quote (r_name r))
      else if r_kind r = ''Node'' then node_metrics (quote (QuoteMeta (r_name r) @ ''(?::.*)?'')) (quote (r_name r))
      else if r_kind r = ''Namespace'' then namespace_metrics (quote (r_name r))
      else if r_kind r = ''Deployment'' then deployment_metrics (quote (r_namespace r)) (quote (r_name r))
      else if r_kind r = ''ReplicaSet'' then replicaSet_metrics (quote (r_namespace r)) (quote (r_name r))
      else if r_kind r = ''StatefulSet'' then statefulSet_metrics (quote (r_namespace r)) (quote (r_name r))
      else if r_kind r = ''DaemonSet'' then daemonSet_metrics (quote (r_namespace r)) (quote (r_name r))
      else if r_kind r = ''Job'' then job_metrics (quote (r_namespace r)) (quote (r_name r))
      else if r_kind r = ''CronJob'' then cronJob_metrics (quote (r_namespace r)) (quote (r_name r))
      else if r_kind r = ''PersistentVolumeClaim'' then persistentVolumeClaim_metrics (quote (r_namespace r)) (quote (r_name r))
      else if r_kind r = ''HorizontalPodAutoscaler'' then horizontalPodAutoscaler_metrics (quote (r_namespace r)) (quote (r_name r))
      else if r_kind r = ''PodDisruptionBudget'' then podDisruptionBudget_metrics (quote (r_namespace r)) (quote (r_name r))
      else if r_kind r = ''Service'' then service_metrics (quote (r_namespace r)) (quote (r_name r))
      else if r_kind r = ''Route'' then route_metrics (quote (r_namespace r)) (quote (r_name r))
      else if r_kind r = ''DeploymentConfig'' then deploymentConfig_metrics (quote (r_namespace r)) (quote (r_name r))
      else if r_kind r = ''Build'' then build_metrics (quote (r_namespace r)) (quote (r_name r))
      else if r_kind r = ''BuildConfig'' then buildConfig_metrics (quote (r_namespace r)) (quote (r_name r))
      else if r_kind r = ''ClusterOperator'' then clusterOperator_metrics (quote (r_name r))
      else if r_kind r = ''ClusterServiceVersion'' then clusterServiceVersion_metrics (quote (r_namespace r)) (quote (r_name r))
      else if r_kind r = ''CatalogSource'' then catalogSource_metrics (quote (r_namespace r)) (quote (r_name r))
      else [])"

section \<open>Containers, workloads and volumes\<close>

definition container_metrics :: "string \<Rightarrow> string \<Rightarrow> resource_metric list" where
  "container_metrics ns n = (let selector = ''namespace='' @ ns @ '',pod='' @ n in let container = selector @ '',container!='' @ dq @ dq @ '',container!='' @ dq @ ''POD'' @ dq in 
     [metric ''container_cpu'' ''CPU by container'' ''cores'' (''sum by(container)(rate(container_cpu_usage_seconds_total{'' @ container @ ''}[5m]))''),
      metric ''container_memory'' ''Memory by container'' ''bytes'' (''sum by(container)(container_memory_working_set_bytes{'' @ container @ ''})''),
      metric ''cpu_requests'' ''Container CPU requests'' ''cores'' (''max by(container)(kube_pod_container_resource_requests{'' @ selector @ '',resource='' @ dq @ ''cpu'' @ dq @ ''})''),
      metric ''cpu_limits'' ''Container CPU limits'' ''cores'' (''max by(container)(kube_pod_container_resource_limits{'' @ selector @ '',resource='' @ dq @ ''cpu'' @ dq @ ''})''),
      metric ''memory_requests'' ''Container memory requests'' ''bytes'' (''max by(container)(kube_pod_container_resource_requests{'' @ selector @ '',resource='' @ dq @ ''memory'' @ dq @ ''})''),
      metric ''memory_limits'' ''Container memory limits'' ''bytes'' (''max by(container)(kube_pod_container_resource_limits{'' @ selector @ '',resource='' @ dq @ ''memory'' @ dq @ ''})''),
      metric ''cpu_throttling'' ''CPU throttled periods'' ''ratio'' (''sum by(container)(rate(container_cpu_cfs_throttled_periods_total{'' @ container
          @ ''}[5m])) / sum by(container)(rate(container_cpu_cfs_periods_total{'' @ container @ ''}[5m]))''),
      metric ''memory_rss'' ''Resident memory'' ''bytes'' (''sum by(container)(container_memory_rss{'' @ container @ ''})''),
      metric ''filesystem_reads'' ''Filesystem reads'' ''bytes_per_second'' (''sum by(container)(rate(container_fs_reads_bytes_total{'' @ container @ ''}[5m]))''),
      metric ''filesystem_writes'' ''Filesystem writes'' ''bytes_per_second'' (''sum by(container)(rate(container_fs_writes_bytes_total{'' @ container @ ''}[5m]))''),
      metric ''network_errors'' ''Network errors'' ''count_per_second'' (''sum(rate(container_network_receive_errors_total{'' @ selector @ ''}[5m])) + sum(rate(container_network_transmit_errors_total{''
          @ selector @ ''}[5m]))''),
      metric ''container_ready'' ''Ready containers'' ''count'' (''max by(container)(kube_pod_container_status_ready{'' @ selector @ ''})'')])"

definition volume_metrics :: "string \<Rightarrow> string \<Rightarrow> resource_metric list" where
  "volume_metrics ns n = (let selector = ''namespace='' @ ns @ '',persistentvolumeclaim='' @ n in 
     [metric ''available'' ''Available capacity'' ''bytes'' (''kubelet_volume_stats_available_bytes{'' @ selector @ ''}''),
      metric ''requested'' ''Requested storage'' ''bytes'' (''kube_persistentvolumeclaim_resource_requests_storage_bytes{'' @ selector @ ''}''),
      metric ''inodes_used'' ''Used inodes'' ''count'' (''kubelet_volume_stats_inodes_used{'' @ selector @ ''}'')])"

text \<open>The pods of a workload, which the series of their containers are joined with.\<close>

definition workload_owners :: "string \<Rightarrow> string \<Rightarrow> string \<Rightarrow> bool \<Rightarrow> string" where
  "workload_owners ns n k deployment =
     (if deployment then
        ''max by(namespace,pod)(label_replace(kube_pod_owner{namespace='' @ ns @ '',owner_kind='' @ dq @ ''ReplicaSet'' @ dq
        @ '',owner_is_controller='' @ dq @ ''true'' @ dq @ ''},'' @ dq @ ''replicaset'' @ dq @ '','' @ dq @ ''$1'' @ dq @ '','' @ dq @ ''owner_name'' @ dq
        @ '','' @ dq @ ''(.*)'' @ dq @ '') * on(namespace,replicaset) group_left() max by(namespace,replicaset)(kube_replicaset_owner{namespace='' @ ns
        @ '',owner_kind='' @ dq @ ''Deployment'' @ dq @ '',owner_name='' @ n @ '',owner_is_controller='' @ dq @ ''true'' @ dq @ ''}))''
      else
        ''max by(namespace,pod)(kube_pod_owner{namespace='' @ ns @ '',owner_kind='' @ k @ '',owner_name='' @ n
        @ '',owner_is_controller='' @ dq @ ''true'' @ dq @ ''})'')"

definition workload_query :: "string \<Rightarrow> string \<Rightarrow> string" where
  "workload_query owners q = ''sum((sum by(namespace,pod)('' @ q @ '')) * on(namespace,pod) ('' @ owners @ ''))''"

definition workload_metrics :: "string \<Rightarrow> string \<Rightarrow> resource_metric list" where
  "workload_metrics ns owners = (let selector = ''namespace='' @ ns; running = '',container!='' @ dq @ dq @ '',container!='' @ dq @ ''POD'' @ dq in
     [metric ''cpu'' ''Workload CPU'' ''cores'' (workload_query owners (''rate(container_cpu_usage_seconds_total{'' @ selector @ running @ ''}[5m])'')),
      metric ''memory'' ''Workload memory'' ''bytes'' (workload_query owners (''container_memory_working_set_bytes{'' @ selector @ running @ ''}'')),
      metric ''network_receive'' ''Workload network receive'' ''bytes_per_second''
        (workload_query owners (''rate(container_network_receive_bytes_total{'' @ selector @ ''}[5m])'')),
      metric ''network_transmit'' ''Workload network transmit'' ''bytes_per_second''
        (workload_query owners (''rate(container_network_transmit_bytes_total{'' @ selector @ ''}[5m])'')),
      metric ''restarts'' ''Workload container restarts'' ''count''
        (workload_query owners (''max by(namespace,pod,container)(kube_pod_container_status_restarts_total{'' @ selector @ ''})''))])"

definition extendedResourceMetrics :: "(string \<Rightarrow> string) \<Rightarrow> resource \<Rightarrow> resource_metric list" where
  "extendedResourceMetrics quote r =
     (let ns = quote (r_namespace r); n = quote (r_name r) in
      if r_kind r = ''Pod'' \<and> r_group r = ''core'' then container_metrics ns n
      else if r_group r = ''apps'' \<and> r_kind r \<in> {''Deployment'', ''ReplicaSet'', ''StatefulSet'', ''DaemonSet''} then
        workload_metrics ns (workload_owners ns n (quote (r_kind r)) (r_kind r = ''Deployment''))
      else if r_kind r = ''PersistentVolumeClaim'' \<and> r_group r = ''core'' then volume_metrics ns n
      else [])"

definition defaultResourceMetrics :: "(string \<Rightarrow> string) \<Rightarrow> resource \<Rightarrow> resource_metric list" where
  "defaultResourceMetrics quote r = baseResourceMetrics quote r @ extendedResourceMetrics quote r"

section \<open>What the queries are made of\<close>

text \<open>A metric without the contents of the literals in its query.\<close>

definition shape :: "resource_metric \<Rightarrow> string \<times> string \<times> string \<times> string" where
  "shape m = (mt_key m, mt_label m, mt_unit m, skeleton False (mt_query m))"

lemmas shape_simps = shape_def metric_def dq_def skeleton_Quote backslash_def Let_def

lemma pod_metrics_shape: "map shape (pod_metrics (Quote p a) (Quote p b)) = map shape (pod_metrics (Quote p c) (Quote p d))"
  by (simp add: pod_metrics_def shape_simps)

lemma node_metrics_shape: "map shape (node_metrics (Quote p a) (Quote p b)) = map shape (node_metrics (Quote p c) (Quote p d))"
  by (simp add: node_metrics_def shape_simps)

lemma namespace_metrics_shape: "map shape (namespace_metrics (Quote p b)) = map shape (namespace_metrics (Quote p d))"
  by (simp add: namespace_metrics_def shape_simps)

lemma deployment_metrics_shape: "map shape (deployment_metrics (Quote p a) (Quote p b)) = map shape (deployment_metrics (Quote p c) (Quote p d))"
  by (simp add: deployment_metrics_def shape_simps)

lemma replicaSet_metrics_shape: "map shape (replicaSet_metrics (Quote p a) (Quote p b)) = map shape (replicaSet_metrics (Quote p c) (Quote p d))"
  by (simp add: replicaSet_metrics_def shape_simps)

lemma statefulSet_metrics_shape: "map shape (statefulSet_metrics (Quote p a) (Quote p b)) = map shape (statefulSet_metrics (Quote p c) (Quote p d))"
  by (simp add: statefulSet_metrics_def shape_simps)

lemma daemonSet_metrics_shape: "map shape (daemonSet_metrics (Quote p a) (Quote p b)) = map shape (daemonSet_metrics (Quote p c) (Quote p d))"
  by (simp add: daemonSet_metrics_def shape_simps)

lemma job_metrics_shape: "map shape (job_metrics (Quote p a) (Quote p b)) = map shape (job_metrics (Quote p c) (Quote p d))"
  by (simp add: job_metrics_def shape_simps)

lemma cronJob_metrics_shape: "map shape (cronJob_metrics (Quote p a) (Quote p b)) = map shape (cronJob_metrics (Quote p c) (Quote p d))"
  by (simp add: cronJob_metrics_def shape_simps)

lemma persistentVolumeClaim_metrics_shape: "map shape (persistentVolumeClaim_metrics (Quote p a) (Quote p b)) = map shape (persistentVolumeClaim_metrics (Quote p c) (Quote p d))"
  by (simp add: persistentVolumeClaim_metrics_def shape_simps)

lemma horizontalPodAutoscaler_metrics_shape: "map shape (horizontalPodAutoscaler_metrics (Quote p a) (Quote p b)) = map shape (horizontalPodAutoscaler_metrics (Quote p c) (Quote p d))"
  by (simp add: horizontalPodAutoscaler_metrics_def shape_simps)

lemma podDisruptionBudget_metrics_shape: "map shape (podDisruptionBudget_metrics (Quote p a) (Quote p b)) = map shape (podDisruptionBudget_metrics (Quote p c) (Quote p d))"
  by (simp add: podDisruptionBudget_metrics_def shape_simps)

lemma service_metrics_shape: "map shape (service_metrics (Quote p a) (Quote p b)) = map shape (service_metrics (Quote p c) (Quote p d))"
  by (simp add: service_metrics_def shape_simps)

lemma route_metrics_shape: "map shape (route_metrics (Quote p a) (Quote p b)) = map shape (route_metrics (Quote p c) (Quote p d))"
  by (simp add: route_metrics_def shape_simps)

lemma deploymentConfig_metrics_shape: "map shape (deploymentConfig_metrics (Quote p a) (Quote p b)) = map shape (deploymentConfig_metrics (Quote p c) (Quote p d))"
  by (simp add: deploymentConfig_metrics_def shape_simps)

lemma build_metrics_shape: "map shape (build_metrics (Quote p a) (Quote p b)) = map shape (build_metrics (Quote p c) (Quote p d))"
  by (simp add: build_metrics_def shape_simps)

lemma buildConfig_metrics_shape: "map shape (buildConfig_metrics (Quote p a) (Quote p b)) = map shape (buildConfig_metrics (Quote p c) (Quote p d))"
  by (simp add: buildConfig_metrics_def shape_simps)

lemma clusterOperator_metrics_shape: "map shape (clusterOperator_metrics (Quote p b)) = map shape (clusterOperator_metrics (Quote p d))"
  by (simp add: clusterOperator_metrics_def shape_simps)

lemma clusterServiceVersion_metrics_shape: "map shape (clusterServiceVersion_metrics (Quote p a) (Quote p b)) = map shape (clusterServiceVersion_metrics (Quote p c) (Quote p d))"
  by (simp add: clusterServiceVersion_metrics_def shape_simps)

lemma catalogSource_metrics_shape: "map shape (catalogSource_metrics (Quote p a) (Quote p b)) = map shape (catalogSource_metrics (Quote p c) (Quote p d))"
  by (simp add: catalogSource_metrics_def shape_simps)

lemma container_metrics_shape: "map shape (container_metrics (Quote p a) (Quote p b)) = map shape (container_metrics (Quote p c) (Quote p d))"
  by (simp add: container_metrics_def shape_simps)

lemma volume_metrics_shape: "map shape (volume_metrics (Quote p a) (Quote p b)) = map shape (volume_metrics (Quote p c) (Quote p d))"
  by (simp add: volume_metrics_def shape_simps)

lemma workload_metrics_shape:
  "map shape (workload_metrics (Quote p a) (workload_owners (Quote p a) (Quote p b) (Quote p k) deployment))
     = map shape (workload_metrics (Quote p c) (workload_owners (Quote p c) (Quote p d) (Quote p k) deployment))"
  by (cases deployment) (simp_all add: workload_metrics_def workload_owners_def workload_query_def shape_simps)

lemmas kind_shapes = pod_metrics_shape node_metrics_shape namespace_metrics_shape deployment_metrics_shape replicaSet_metrics_shape
  statefulSet_metrics_shape daemonSet_metrics_shape job_metrics_shape cronJob_metrics_shape persistentVolumeClaim_metrics_shape
  horizontalPodAutoscaler_metrics_shape podDisruptionBudget_metrics_shape service_metrics_shape route_metrics_shape
  deploymentConfig_metrics_shape build_metrics_shape buildConfig_metrics_shape clusterOperator_metrics_shape
  clusterServiceVersion_metrics_shape catalogSource_metrics_shape container_metrics_shape volume_metrics_shape workload_metrics_shape

lemma base_shape:
  assumes "r_kind r = r_kind r'" and "r_group r = r_group r'"
  shows "map shape (baseResourceMetrics (Quote p) r) = map shape (baseResourceMetrics (Quote p) r')"
  unfolding baseResourceMetrics_def assms if_distrib [of "map shape"] by (intro if_cong refl kind_shapes)

lemma extended_shape:
  assumes "r_kind r = r_kind r'" and "r_group r = r_group r'"
  shows "map shape (extendedResourceMetrics (Quote p) r) = map shape (extendedResourceMetrics (Quote p) r')"
  unfolding extendedResourceMetrics_def assms Let_def if_distrib [of "map shape"] by (intro if_cong refl kind_shapes)

text \<open>The default metrics of a resource are those of its kind and group: two resources of one kind have the same
  keys, labels, units and, outside of the string literals, the same queries, whatever their names are.\<close>

theorem metrics_injection_free:
  assumes "r_kind r = r_kind r'" and "r_group r = r_group r'"
  shows "map shape (defaultResourceMetrics (Quote p) r) = map shape (defaultResourceMetrics (Quote p) r')"
  by (simp only: defaultResourceMetrics_def map_append base_shape [OF assms] extended_shape [OF assms])

lemma metrics_injection_free_witness:
  "\<exists>r r'. r_name r \<noteq> r_name r' \<and> defaultResourceMetrics (Quote (\<lambda>_. True)) r \<noteq> []
     \<and> map shape (defaultResourceMetrics (Quote (\<lambda>_. True)) r) = map shape (defaultResourceMetrics (Quote (\<lambda>_. True)) r')"
proof -
  define r where "r = blank_resource\<lparr>r_kind := ''Route'', r_group := ''route.openshift.io''\<rparr>"
  define r' where "r' = r\<lparr>r_name := ''x'' @ dq @ ''}'', r_namespace := ''y''\<rparr>"
  have "defaultResourceMetrics (Quote (\<lambda>_. True)) r \<noteq> []"
    by (simp add: r_def defaultResourceMetrics_def baseResourceMetrics_def expectedGroups_def route_metrics_def Let_def)
  moreover have "r_name r \<noteq> r_name r'" by (simp add: r_def r'_def blank_resource_def dq_def)
  ultimately show ?thesis
    using metrics_injection_free [of r r' "\<lambda>_. True"] by (intro exI [of _ r] exI [of _ r'] conjI) (simp_all add: r'_def)
qed

section \<open>Monitors\<close>

fun Sprint :: "json \<Rightarrow> string"
  and Sprint_list :: "json list \<Rightarrow> string list"
  and Sprint_members :: "(string \<times> json) list \<Rightarrow> (string \<times> string) list" where
  "Sprint JNull = ''<nil>''"
| "Sprint (JBool b) = (if b then ''true'' else ''false'')"
| "Sprint (JInt i) = int_str i"
| "Sprint (JFloat t) = t"
| "Sprint (JStr s) = s"
| "Sprint (JArr xs) = ''['' @ join '' '' (Sprint_list xs) @ '']''"
| "Sprint (JObj kvs) = ''map['' @ join '' '' (map (\<lambda>(k, v). k @ '':'' @ v) (sort_key fst (Sprint_members kvs))) @ '']''"
| "Sprint_list [] = []"
| "Sprint_list (x # xs) = Sprint x # Sprint_list xs"
| "Sprint_members [] = []"
| "Sprint_members ((k, v) # kvs) = (k, Sprint v) # Sprint_members kvs"

text \<open>An absent member of a Go map is nil.\<close>

definition sprint_member :: "(string, json) gomap \<Rightarrow> string \<Rightarrow> string" where
  "sprint_member m k = (case map_of m k of None \<Rightarrow> ''<nil>'' | Some v \<Rightarrow> Sprint v)"

definition label_char :: "char \<Rightarrow> bool" where
  "label_char c \<longleftrightarrow> letter c \<or> digit c \<or> c = CHR ''_''"

definition prometheusLabel :: "string \<Rightarrow> string" where
  "prometheusLabel v = ''label_'' @ concat (map (\<lambda>r. case r of [c] \<Rightarrow> if label_char c then [c] else ''_'' | _ \<Rightarrow> ''_'') (runes v))"

definition monitorNamespaceMatcher :: "(string \<Rightarrow> string) \<Rightarrow> string \<Rightarrow> json option \<Rightarrow> string" where
  "monitorNamespaceMatcher quote namespace raw =
     (let own = ''namespace='' @ quote namespace in
      case object_of raw of None \<Rightarrow> own | Some [] \<Rightarrow> own
      | Some s \<Rightarrow>
          if bool_of (map_of s ''any'') = Some True then []
          else (case array_of (map_of s ''matchNames'') of None \<Rightarrow> own
            | Some raws \<Rightarrow>
                let names = map QuoteMeta (filter (\<lambda>n. n \<noteq> []) (map Sprint raws)) in
                if names = [] then own else ''namespace=~'' @ quote (''^(?:'' @ join ''|'' (sort names) @ '')$'')))"

definition expression_matchers :: "(string \<Rightarrow> string) \<Rightarrow> json \<Rightarrow> string list" where
  "expression_matchers quote raw =
     (let e = (case object_of (Some raw) of None \<Rightarrow> [] | Some m \<Rightarrow> m);
          key = prometheusLabel (sprint_member e ''key''); operator = sprint_member e ''operator'';
          values = (case array_of (map_of e ''values'') of None \<Rightarrow> [] | Some vs \<Rightarrow> map (\<lambda>v. QuoteMeta (Sprint v)) vs)
      in if operator = ''In'' then [key @ ''=~'' @ quote (join ''|'' values)]
         else if operator = ''NotIn'' then [key @ ''!='' @ dq @ dq, key @ ''!~'' @ quote (join ''|'' values)]
         else if operator = ''Exists'' then [key @ ''!='' @ dq @ dq]
         else if operator = ''DoesNotExist'' then [key @ ''='' @ dq @ dq] else [])"

definition monitorSelectorMatchers :: "(string \<Rightarrow> string) \<Rightarrow> (string, json) gomap \<Rightarrow> string list" where
  "monitorSelectorMatchers quote selector =
     (case object_of (map_of selector ''matchLabels'') of None \<Rightarrow> []
      | Some ls \<Rightarrow> map (\<lambda>k. prometheusLabel k @ ''='' @ quote (sprint_member ls k)) (sort (map fst ls)))
     @ (case array_of (map_of selector ''matchExpressions'') of None \<Rightarrow> [] | Some es \<Rightarrow> concat (map (expression_matchers quote) es))"

definition monitor_selected :: "bool \<Rightarrow> string list \<Rightarrow> string \<Rightarrow> string" where
  "monitor_selected service base joined =
     (if service then ''sum(kube_endpoint_address_available{'' @ join '','' base @ ''} * on(namespace,service) group_left() '' @ joined @ '')''
      else ''sum(kube_pod_status_ready{'' @ join '','' (base @ [''condition='' @ dq @ ''true'' @ dq])
        @ ''} * on(namespace,pod) group_left() '' @ joined @ '')'')"

definition monitor_up :: "bool \<Rightarrow> string list \<Rightarrow> string \<Rightarrow> string" where
  "monitor_up service base joined =
     ''sum(up{'' @ join '','' base @ ''} * on('' @ (if service then ''namespace,service'' else ''namespace,pod'') @ '') group_left() '' @ joined @ '')''"

definition monitorResourceMetrics :: "(string \<Rightarrow> string) \<Rightarrow> resource \<Rightarrow> (string, json) gomap \<Rightarrow> resource_metric list" where
  "monitorResourceMetrics quote r m =
     (case object_of (map_of m ''spec'') of None \<Rightarrow> []
      | Some s \<Rightarrow> (case object_of (map_of s ''selector'') of None \<Rightarrow> []
      | Some selector \<Rightarrow>
          let matchers = monitorSelectorMatchers quote selector;
              ns = monitorNamespaceMatcher quote (r_namespace r) (map_of s ''namespaceSelector'');
              base = (if ns = [] then [] else [ns]);
              service = (r_kind r = ''ServiceMonitor'');
              joined = (if service then ''kube_service_labels'' else ''kube_pod_labels'') @ ''{'' @ join '','' (base @ matchers) @ ''}'';
              selected = monitor_selected service base joined;
              up = monitor_up service base joined
          in [metric ''selected_targets'' ''Selected targets'' ''count'' selected,
              metric ''targets_up'' ''Targets up'' ''count'' up,
              metric ''targets_down'' ''Targets down'' ''count'' (''('' @ selected @ '')-('' @ up @ '')'')]))"

text \<open>Whatever a monitor selects, its queries end outside of a literal: no label value and no name opens or closes
  one.\<close>

definition closed_text :: "string \<Rightarrow> bool" where
  "closed_text s \<longleftrightarrow> (\<forall>r. skeleton False (s @ r) = skeleton False s @ skeleton False r)"

lemma closed_Nil [simp]: "closed_text []"
  by (simp add: closed_text_def)

lemma closed_Cons [simp]: "c \<noteq> CHR 0x22 \<Longrightarrow> closed_text (c # s) \<longleftrightarrow> closed_text s"
  by (simp add: closed_text_def)

lemma closed_append [simp]: "closed_text a \<Longrightarrow> closed_text b \<Longrightarrow> closed_text (a @ b)"
  by (simp add: closed_text_def)

lemma closed_plain: "CHR 0x22 \<notin> set s \<Longrightarrow> closed_text s"
  unfolding closed_text_def by (induction s) auto

lemma closed_Quote [simp]: "closed_text (Quote p v)"
  using skeleton_Quote [of p v "[]"] by (simp add: closed_text_def skeleton_Quote)

lemma closed_join [simp]: "closed_text sep \<Longrightarrow> \<forall>x \<in> set xs. closed_text x \<Longrightarrow> closed_text (join sep xs)"
  by (induction sep xs rule: join.induct) auto

lemma closed_literals [simp]: "closed_text (dq @ dq)" "closed_text (dq @ CHR ''t'' # CHR ''r'' # CHR ''u'' # CHR ''e'' # dq)"
  by (simp_all add: closed_text_def dq_def backslash_def)

lemma closed_prometheusLabel [simp]: "closed_text (prometheusLabel v)"
  unfolding prometheusLabel_def
  by (rule closed_plain) (auto simp: label_char_def letter_def digit_def less_eq_char_def split: list.splits if_splits)

lemma closed_expression: "\<forall>x \<in> set (expression_matchers (Quote p) e). closed_text x"
proof -
  have "closed_text (prometheusLabel k @ ''=~'' @ Quote p v)" "closed_text (prometheusLabel k @ ''!~'' @ Quote p v)"
    "closed_text (prometheusLabel k @ ''!='' @ dq @ dq)" "closed_text (prometheusLabel k @ ''='' @ dq @ dq)" for k v
    by simp_all
  then show ?thesis unfolding expression_matchers_def Let_def by (simp only: list.set ball_simps simp_thms if_cancel split: if_split)
qed

lemma closed_selector: "x \<in> set (monitorSelectorMatchers (Quote p) s) \<Longrightarrow> closed_text x"
  unfolding monitorSelectorMatchers_def by (auto split: option.splits dest: closed_expression [rule_format])

lemma closed_namespace [simp]: "closed_text (monitorNamespaceMatcher (Quote p) ns raw)"
  unfolding monitorNamespaceMatcher_def Let_def by (simp split: option.splits list.splits)

lemma closed_if: "closed_text a \<Longrightarrow> closed_text b \<Longrightarrow> closed_text (if c then a else b)"
  by simp

lemma closed_joined:
  assumes "\<forall>x \<in> set base. closed_text x" and "closed_text joined"
  shows "closed_text (monitor_selected service base joined)" and "closed_text (monitor_up service base joined)"
  unfolding monitor_selected_def monitor_up_def
   apply (intro closed_if closed_append closed_join assms; use assms in simp)
  by (intro closed_if closed_append closed_join assms; use assms in simp)

lemma monitor_queries_closed: "\<forall>m \<in> set (monitorResourceMetrics (Quote p) r obj). closed_text (mt_query m)"
proof (cases "monitorResourceMetrics (Quote p) r obj = []")
  case False
  then obtain s selector where s: "object_of (map_of obj ''spec'') = Some s" "object_of (map_of s ''selector'') = Some selector"
    unfolding monitorResourceMetrics_def by (cases "object_of (map_of obj ''spec'')") (auto split: option.split_asm)
  define service where "service = (r_kind r = ''ServiceMonitor'')"
  define ns where "ns = monitorNamespaceMatcher (Quote p) (r_namespace r) (map_of s ''namespaceSelector'')"
  define base where "base = (if ns = [] then [] else [ns])"
  define joined where "joined = (if service then ''kube_service_labels'' else ''kube_pod_labels'') @ ''{''
    @ join '','' (base @ monitorSelectorMatchers (Quote p) selector) @ ''}''"
  have base: "\<forall>x \<in> set base. closed_text x" by (simp add: base_def ns_def)
  then have "closed_text joined" by (cases service; simp add: joined_def ball_Un closed_selector)
  note closed = closed_joined [OF base this]
  have "monitorResourceMetrics (Quote p) r obj =
    [metric ''selected_targets'' ''Selected targets'' ''count'' (monitor_selected service base joined),
     metric ''targets_up'' ''Targets up'' ''count'' (monitor_up service base joined),
     metric ''targets_down'' ''Targets down'' ''count'' (''('' @ monitor_selected service base joined @ '')-('' @ monitor_up service base joined @ '')'')]"
    by (simp only: monitorResourceMetrics_def s option.case Let_def service_def ns_def base_def joined_def)
  with closed show ?thesis by (simp add: metric_def)
qed simp

section \<open>Metrics of adapters\<close>

definition upsertResourceMetric :: "resource_metric list \<Rightarrow> resource_metric \<Rightarrow> resource_metric list" where
  "upsertResourceMetric ms m =
     (if mt_key m \<in> set (map mt_key ms) then (let i = length (takeWhile (\<lambda>x. mt_key x \<noteq> mt_key m) ms) in ms[i := m]) else ms @ [m])"

function replace_all :: "string \<Rightarrow> string \<Rightarrow> string \<Rightarrow> string" where
  "replace_all old new s =
     (case s of [] \<Rightarrow> [] | c # r \<Rightarrow>
        if old \<noteq> [] \<and> has_prefix s old then new @ replace_all old new (drop (length old) s) else c # replace_all old new r)"
  by pat_completeness auto
termination by (relation "measure (length \<circ> snd \<circ> snd)") auto

declare replace_all.simps [simp del]

definition placeholders :: "resource \<Rightarrow> (string \<times> string) list" where
  "placeholders r = [(''{{cluster}}'', r_cluster r), (''{{namespace}}'', r_namespace r), (''{{name}}'', r_name r), (''{{kind}}'', r_kind r)]"

text \<open>A Go map is ranged over in an order of the runtime's choosing; \<open>order\<close> is the one of this call.\<close>

definition custom_query :: "(string \<Rightarrow> string) \<Rightarrow> ((string \<times> string) list \<Rightarrow> (string \<times> string) list) \<Rightarrow> resource \<Rightarrow> string \<Rightarrow> string" where
  "custom_query quote order r q = foldl (\<lambda>q (k, v). replace_all k (quote v) q) q (order (placeholders r))"

definition custom_metric :: "(string \<Rightarrow> string) \<Rightarrow> ((string \<times> string) list \<Rightarrow> (string \<times> string) list) \<Rightarrow> resource \<Rightarrow> metric_definition \<Rightarrow> resource_metric" where
  "custom_metric quote order r md = metric (md_key md) (md_label md) (md_unit md) (custom_query quote order r (md_query md))"

lemma keys_upsert: "set (map mt_key (upsertResourceMetric ms m)) = insert (mt_key m) (set (map mt_key ms))"
  and distinct_upsert: "distinct (map mt_key ms) \<Longrightarrow> distinct (map mt_key (upsertResourceMetric ms m))"
proof -
  let ?i = "length (takeWhile (\<lambda>x. mt_key x \<noteq> mt_key m) ms)"
  have same: "map mt_key (ms[?i := m]) = map mt_key ms" if "mt_key m \<in> set (map mt_key ms)"
  proof -
    from that have "takeWhile (\<lambda>x. mt_key x \<noteq> mt_key m) ms \<noteq> ms" by (auto simp: takeWhile_eq_all_conv)
    then have "?i < length ms" by (metis not_le take_all takeWhile_eq_take)
    then have "mt_key (ms ! ?i) = mt_key m" by (metis (mono_tags, lifting) nth_length_takeWhile)
    then show ?thesis by (metis list_update_id map_update)
  qed
  then show "set (map mt_key (upsertResourceMetric ms m)) = insert (mt_key m) (set (map mt_key ms))"
    unfolding upsertResourceMetric_def Let_def by (cases "mt_key m \<in> set (map mt_key ms)") auto
  show "distinct (map mt_key (upsertResourceMetric ms m))" if "distinct (map mt_key ms)"
    using same that unfolding upsertResourceMetric_def Let_def by (cases "mt_key m \<in> set (map mt_key ms)") auto
qed

section \<open>The handler\<close>

definition reloadAdapters :: "bool \<Rightarrow> time \<Rightarrow> adapter_file \<Rightarrow> time option \<times> adapter_def list \<Rightarrow> time option \<times> adapter_def list" where
  "reloadAdapters configured now file s =
     (if \<not> configured then s
      else case fst s of Some t \<Rightarrow> if now - t < 5 * 10 ^ 9 then s else (Some now, snd (Load file (snd s)))
           | None \<Rightarrow> (Some now, snd (Load file (snd s))))"

definition boundedInt64 :: "string \<Rightarrow> int \<Rightarrow> int \<Rightarrow> int \<Rightarrow> int option" where
  "boundedInt64 v fallback lo hi =
     (if v = [] then Some fallback
      else case ParseInt v of None \<Rightarrow> None | Some n \<Rightarrow> if n < lo \<or> n > hi then None else Some n)"

record measured =
  ms_metric :: resource_metric
  ms_data :: "string option"

record metrics_page =
  mp_id :: string
  mp_cluster :: string
  mp_start :: time
  mp_end :: time
  mp_step :: int
  mp_metrics :: "measured list"
  mp_freshness :: string

definition monitored :: "resource \<Rightarrow> bool" where
  "monitored r \<longleftrightarrow> r_group r = ''monitoring.coreos.com'' \<and> r_kind r \<in> {''PodMonitor'', ''ServiceMonitor''}"

definition metric_definitions :: "(string \<Rightarrow> string) \<Rightarrow> ((string \<times> string) list \<Rightarrow> (string \<times> string) list)
    \<Rightarrow> (resource \<Rightarrow> (string, json) gomap option) \<Rightarrow> adapter_def list option \<Rightarrow> resource \<Rightarrow> resource_metric list" where
  "metric_definitions quote order fetch adapters r =
     (let own = defaultResourceMetrics quote r
        @ (if monitored r then (case fetch r of None \<Rightarrow> [] | Some m \<Rightarrow> monitorResourceMetrics quote r m) else [])
      in case adapters of None \<Rightarrow> own
         | Some defs \<Rightarrow> foldl (\<lambda>ms md. upsertResourceMetric ms (custom_metric quote order r md)) own (Metrics defs (r_group r) (r_kind r)))"

definition resourceMetrics :: "(string \<Rightarrow> string) \<Rightarrow> ((string \<times> string) list \<Rightarrow> (string \<times> string) list) \<Rightarrow> time \<Rightarrow> string
    \<Rightarrow> (string \<Rightarrow> string option) \<Rightarrow> (string \<Rightarrow> proxy_reply)
    \<Rightarrow> ((resource \<Rightarrow> (string, json) gomap option) \<times> (string \<times> url_values \<Rightarrow> string option)) option
    \<Rightarrow> adapter_def list option \<Rightarrow> string \<Rightarrow> url_values \<Rightarrow> string \<Rightarrow> db \<Rightarrow> metrics_page outcome" where
  "resourceMetrics quote order now own cast proxy gateway adapters fresh q i d =
     (if Get q ''cluster'' \<noteq> [] \<and> Get q ''cluster'' \<noteq> own then forward_or_404 proxy (Get q ''cluster'')
      else case gateway of None \<Rightarrow> Answered_here (Error 503)
      | Some (fetch, ask) \<Rightarrow>
          (case GetIDs cast [i] d of Inl e \<Rightarrow> Answered_here (Error 500)
           | Inr [r] \<Rightarrow>
               (case boundedInt64 (Get q ''rangeSeconds'') 3600 60 21600 of None \<Rightarrow> Answered_here (Error 400)
                | Some span \<Rightarrow> (case boundedInt64 (Get q ''stepSeconds'') 30 15 300 of None \<Rightarrow> Answered_here (Error 400)
                  | Some step \<Rightarrow>
                      let start = now - span * 10 ^ 9 in
                      Answered_here (Reply 200 None
                        \<lparr>mp_id = r_id r, mp_cluster = r_cluster r, mp_start = start, mp_end = now, mp_step = step,
                         mp_metrics = map (\<lambda>m. \<lparr>ms_metric = m, ms_data = ask (MetricsRange (mt_query m) start now (step * 10 ^ 9))\<rparr>)
                           (metric_definitions quote order fetch adapters r), mp_freshness = fresh\<rparr>)))
           | Inr _ \<Rightarrow> Answered_here (Error 404)))"

lemma kind_keys:
  "distinct (map mt_key (pod_metrics a b))"
  "distinct (map mt_key (node_metrics a b))"
  "distinct (map mt_key (namespace_metrics a))"
  "distinct (map mt_key (deployment_metrics a b))"
  "distinct (map mt_key (replicaSet_metrics a b))"
  "distinct (map mt_key (statefulSet_metrics a b))"
  "distinct (map mt_key (daemonSet_metrics a b))"
  "distinct (map mt_key (job_metrics a b))"
  "distinct (map mt_key (cronJob_metrics a b))"
  "distinct (map mt_key (persistentVolumeClaim_metrics a b))"
  "distinct (map mt_key (horizontalPodAutoscaler_metrics a b))"
  "distinct (map mt_key (podDisruptionBudget_metrics a b))"
  "distinct (map mt_key (service_metrics a b))"
  "distinct (map mt_key (route_metrics a b))"
  "distinct (map mt_key (deploymentConfig_metrics a b))"
  "distinct (map mt_key (build_metrics a b))"
  "distinct (map mt_key (buildConfig_metrics a b))"
  "distinct (map mt_key (clusterOperator_metrics a))"
  "distinct (map mt_key (clusterServiceVersion_metrics a b))"
  "distinct (map mt_key (catalogSource_metrics a b))"
  "distinct (map mt_key (container_metrics a b))"
  "distinct (map mt_key (volume_metrics a b))"
  "distinct (map mt_key (workload_metrics a b))"
  by (simp_all add: metric_def Let_def pod_metrics_def node_metrics_def namespace_metrics_def deployment_metrics_def replicaSet_metrics_def statefulSet_metrics_def daemonSet_metrics_def job_metrics_def cronJob_metrics_def persistentVolumeClaim_metrics_def horizontalPodAutoscaler_metrics_def podDisruptionBudget_metrics_def service_metrics_def route_metrics_def deploymentConfig_metrics_def build_metrics_def buildConfig_metrics_def clusterOperator_metrics_def clusterServiceVersion_metrics_def catalogSource_metrics_def container_metrics_def volume_metrics_def workload_metrics_def)

lemma default_keys: "distinct (map mt_key (defaultResourceMetrics quote r))"
proof -
  let ?keys = "\<lambda>ms. set (map mt_key ms)"
  have "distinct (map mt_key (baseResourceMetrics quote r))"
    unfolding baseResourceMetrics_def by (simp only: if_distrib [of "map mt_key"] if_distrib [of distinct] kind_keys if_cancel list.map distinct.simps)
  moreover have "distinct (map mt_key (extendedResourceMetrics quote r))"
    unfolding extendedResourceMetrics_def Let_def
    by (simp only: if_distrib [of "map mt_key"] if_distrib [of distinct] kind_keys if_cancel list.map distinct.simps)
  moreover have "?keys (baseResourceMetrics quote r) \<inter> ?keys (extendedResourceMetrics quote r) = {}"
  proof (cases "extendedResourceMetrics quote r = []")
    case False
    have "r_kind r = ''Pod'' \<and> r_group r = ''core'' \<or> r_kind r = ''Deployment'' \<or> r_kind r = ''ReplicaSet''
      \<or> r_kind r = ''StatefulSet'' \<or> r_kind r = ''DaemonSet'' \<or> r_kind r = ''PersistentVolumeClaim'' \<and> r_group r = ''core''"
      using False unfolding extendedResourceMetrics_def Let_def insert_iff empty_iff by argo
    then consider "r_kind r = ''Pod'' \<and> r_group r = ''core''" | "r_kind r = ''Deployment''" | "r_kind r = ''ReplicaSet''"
      | "r_kind r = ''StatefulSet''" | "r_kind r = ''DaemonSet''" | "r_kind r = ''PersistentVolumeClaim'' \<and> r_group r = ''core''"
      by blast
    then show ?thesis
      by cases (simp_all add: baseResourceMetrics_def extendedResourceMetrics_def metric_def Let_def pod_metrics_def
        deployment_metrics_def replicaSet_metrics_def statefulSet_metrics_def daemonSet_metrics_def persistentVolumeClaim_metrics_def
        container_metrics_def workload_metrics_def volume_metrics_def)
  qed simp
  ultimately show ?thesis by (simp add: defaultResourceMetrics_def)
qed

lemma monitored_keys: "monitored r \<Longrightarrow> distinct (map mt_key (defaultResourceMetrics quote r @ monitorResourceMetrics quote r m))"
proof -
  assume "monitored r"
  then have "r_kind r = ''PodMonitor'' \<or> r_kind r = ''ServiceMonitor''" by (simp add: monitored_def)
  then have "defaultResourceMetrics quote r = []"
    by (elim disjE) (simp_all add: defaultResourceMetrics_def baseResourceMetrics_def extendedResourceMetrics_def Let_def)
  moreover have "distinct (map mt_key (monitorResourceMetrics quote r m))"
    unfolding monitorResourceMetrics_def Let_def by (simp add: metric_def split: option.split)
  ultimately show ?thesis by simp
qed

lemma distinct_upserts: "distinct (map mt_key ms) \<Longrightarrow> distinct (map mt_key (foldl (\<lambda>ms x. upsertResourceMetric ms (f x)) ms xs))"
  by (induction xs arbitrary: ms) (simp_all add: distinct_upsert del: distinct_map)

text \<open>Every metric of a page has a key of its own, so a client can index the page by key: an adapter's metric
  replaces the built-in one with its key, and no two others share one.\<close>

theorem metric_keys_unique: "distinct (map mt_key (metric_definitions quote order fetch adapters r))"
proof -
  have own: "distinct (map mt_key (defaultResourceMetrics quote r
      @ (if monitored r then (case fetch r of None \<Rightarrow> [] | Some m \<Rightarrow> monitorResourceMetrics quote r m) else [])))"
    using default_keys [of quote r] monitored_keys [of r quote] by (cases "monitored r"; cases "fetch r") (simp_all del: map_append)
  show ?thesis
    by (cases adapters) (simp_all only: metric_definitions_def Let_def option.case own distinct_upserts [OF own])
qed

text \<open>A value substituted early is substituted in again: the query of a Role named \<open>{{kind}}\<close> depends on the order in
  which the runtime ranges over the placeholders, and in one of the orders its literal is closed by the value.\<close>

lemma nested_placeholder:
  fixes r :: resource
  defines "r \<equiv> blank_resource\<lparr>r_name := ''{{kind}}'', r_kind := ''Role''\<rparr>"
  shows "custom_query (Quote (\<lambda>_. True)) (\<lambda>ps. ps) r ''{{name}}'' \<noteq> custom_query (Quote (\<lambda>_. True)) rev r ''{{name}}''"
  unfolding r_def by code_simp

end
