(* ===== verification/Loadgen.thy ===== *)
theory Loadgen
  imports Query Listing Projection
begin

text \<open>
  The load generator, \<open>cmd/icinga-kubernetes-loadgen/main.go\<close>: the check of its flags, the batches it sends, the wait for
  the backlog to drain, the latency percentiles and the thresholds a run is judged by. Durations are
  the nanoseconds measured.
\<close>

section \<open>Flags\<close>

record load_config =
  lc_api_url :: string
  lc_cluster :: string
  lc_collector_file :: string
  lc_reader_file :: string
  lc_resources :: int
  lc_batch_size :: int
  lc_shards :: int
  lc_ingest_concurrency :: int
  lc_queries :: int
  lc_query_concurrency :: int
  lc_timeout :: duration
  lc_wait :: bool
  lc_drain_timeout :: duration
  lc_max_ingest :: duration
  lc_max_query :: duration
  lc_max_drain :: duration
  lc_max_total :: duration

datatype load_error =
    UrlAndCluster
  | TokenFiles
  | ResourceRange
  | BatchRange
  | Concurrency
  | TimeoutRange
  | DrainTimeoutRange
  | NegativeThreshold
  | DrainNotAwaited
  | NoQuery

definition validate_load :: "load_config \<Rightarrow> load_error option" where
  "validate_load c =
     (if lc_api_url c = [] \<or> lc_cluster c = [] then Some UrlAndCluster
      else if lc_collector_file c = [] \<or> lc_reader_file c = [] then Some TokenFiles
      else if lc_resources c < 1 \<or> lc_resources c > 5000000 then Some ResourceRange
      else if lc_batch_size c < 1 \<or> lc_batch_size c > 1000 then Some BatchRange
      else if lc_shards c < 1 \<or> lc_ingest_concurrency c < 1 \<or> lc_query_concurrency c < 1 \<or> lc_queries c < 0 then Some Concurrency
      else if lc_timeout c \<le> 0 then Some TimeoutRange
      else if lc_drain_timeout c \<le> 0 then Some DrainTimeoutRange
      else if lc_max_ingest c < 0 \<or> lc_max_query c < 0 \<or> lc_max_drain c < 0 \<or> lc_max_total c < 0 then Some NegativeThreshold
      else if lc_max_drain c > 0 \<and> \<not> lc_wait c then Some DrainNotAwaited
      else if lc_max_query c > 0 \<and> lc_queries c = 0 then Some NoQuery
      else None)"

text \<open>\<open>None\<close> for a file that cannot be read.\<close>

definition readToken :: "string option \<Rightarrow> string option" where
  "readToken file = (case file of None \<Rightarrow> None | Some content \<Rightarrow> if TrimSpace content = [] then None else Some (TrimSpace content))"

section \<open>Batches\<close>

text \<open>The verbs \<open>%09d\<close> and \<open>%04d\<close> of a number that is not negative.\<close>

definition padded :: "nat \<Rightarrow> nat \<Rightarrow> string" where
  "padded w n = replicate (w - length (nat_str n)) CHR ''0'' @ nat_str n"

text \<open>\<open>sha1\<close> is the name-based UUID of \<open>github.com/google/uuid\<close>.\<close>

definition load_uid :: "nat \<Rightarrow> string" where
  "load_uid i = ''loadgen-pod-'' @ padded 9 i"

definition load_event :: "(string \<Rightarrow> string) \<Rightarrow> string \<Rightarrow> nat \<Rightarrow> nat \<Rightarrow> ingest_event" where
  "load_event sha1 cluster shard i =
     \<lparr>e_id = sha1 (cluster @ NUL @ ''event'' @ NUL @ load_uid i), e_action = ''upsert'',
      e_resource = blank_resource\<lparr>r_id := StableID cluster (load_uid i), r_cluster := cluster, r_uid := load_uid i, r_group := ''core'',
        r_version := ''v1'', r_kind := ''Pod'', r_namespace := ''loadgen-'' @ padded 4 (i div 1000), r_name := load_uid i,
        r_resource_version := ''1'', r_labels := [(''app'', ''loadgen''), (''shard'', nat_str shard)], r_state := StateOK,
        r_observed := seconds (1700000000 + int (i mod 86400))\<rparr>\<rparr>"

definition makeBatch :: "(string \<Rightarrow> string) \<Rightarrow> string \<Rightarrow> nat \<Rightarrow> nat \<Rightarrow> nat \<Rightarrow> ingest_batch" where
  "makeBatch sha1 cluster shard start end' =
     \<lparr>b_cluster = cluster, b_shard = ''loadgen-'' @ padded 4 shard, b_events = map (load_event sha1 cluster shard) [start..<end']\<rparr>"

text \<open>The loop of \<open>run\<close> that hands out the batches; the step is positive in every accepted configuration.\<close>

function batches_from :: "(string \<Rightarrow> string) \<Rightarrow> string \<Rightarrow> nat \<Rightarrow> nat \<Rightarrow> nat \<Rightarrow> nat \<Rightarrow> ingest_batch list" where
  "batches_from sha1 cluster resources size' shards start =
     (if start < resources \<and> 0 < size' then
        makeBatch sha1 cluster (start div size' mod shards) start (min (start + size') resources)
        # batches_from sha1 cluster resources size' shards (start + size')
      else [])"
  by pat_completeness auto
termination by (relation "measure (\<lambda>(_, _, resources, _, _, start). resources - start)") auto

declare batches_from.simps [simp del]

definition load_batches :: "(string \<Rightarrow> string) \<Rightarrow> load_config \<Rightarrow> ingest_batch list" where
  "load_batches sha1 c = batches_from sha1 (lc_cluster c) (nat (lc_resources c)) (nat (lc_batch_size c)) (nat (lc_shards c)) 0"

section \<open>Requests\<close>

definition load_request :: "int \<Rightarrow> string \<Rightarrow> string + nat" where
  "load_request status content =
     (if status < 200 \<or> status \<ge> 300 then Inl content else Inr (length (take (16 * 2 ^ 20) content)))"

text \<open>\<open>Sscanf\<close> with a name, a space and \<open>%d\<close>: the digits end at the first other character.\<close>

definition scan_pending :: "string \<Rightarrow> int option" where
  "scan_pending line =
     (let metric = ''icinga_kubernetes_ingest_pending''; r = drop (length metric) line;
          v = dropWhile (\<lambda>c. c = CHR '' '') r;
          sign = (case v of c # _ \<Rightarrow> c \<in> {CHR ''+'', CHR ''-''} | [] \<Rightarrow> False);
          ds = takeWhile digit (if sign then tl v else v)
      in if \<not> has_prefix line metric \<or> v = r \<or> ds = [] then None
         else ParseInt ((if sign then [hd v] else []) @ ds))"

definition readPending :: "int \<Rightarrow> string \<Rightarrow> string + int" where
  "readPending status content =
     (if status \<noteq> 200 then Inl ''status''
      else case List.map_filter scan_pending (split_char (CHR 0x0A) (take (2 * 2 ^ 20) content)) of
        [] \<Rightarrow> Inl ''missing'' | n # _ \<Rightarrow> Inr n)"

text \<open>The readings, one a second; the list ends when the deadline passes.\<close>

fun waitForDrain :: "int \<Rightarrow> (string + int) list \<Rightarrow> int \<times> string option" where
  "waitForDrain peak [] = (peak, Some ''deadline'')"
| "waitForDrain peak (Inl e # rs) = (peak, Some e)"
| "waitForDrain peak (Inr n # rs) = (if n = 0 then (max n peak, None) else waitForDrain (max n peak) rs)"

section \<open>The result\<close>

definition pick :: "int list \<Rightarrow> nat \<Rightarrow> int" where
  "pick values percent = sort values ! (max 1 ((length values * percent + 99) div 100) - 1)"

definition percentiles :: "int list \<Rightarrow> int \<times> int \<times> int" where
  "percentiles values = (if values = [] then (0, 0, 0) else (pick values 50, pick values 95, pick values 99))"

record load_result =
  lr_resources :: int
  lr_batches :: nat
  lr_queries :: nat
  lr_sent :: nat
  lr_read :: nat
  lr_ingest_time :: duration
  lr_total_time :: duration
  lr_ingest :: "int \<times> int \<times> int"
  lr_query :: "int \<times> int \<times> int"
  lr_peak :: int
  lr_drain_time :: duration

text \<open>
  The answers of one kind of worker in the order they arrived: the latency, the size of the body sent and what
  came back.
\<close>

type_synonym answers = "(duration \<times> nat \<times> (string + nat)) list"

definition answered :: "answers \<Rightarrow> (nat \<times> nat) list" where
  "answered xs = List.map_filter (\<lambda>(_, sent, r). case r of Inl _ \<Rightarrow> None | Inr n \<Rightarrow> Some (sent, n)) xs"

text \<open>
  \<open>handed\<close>: every batch was handed out before the context ended; \<open>errors\<close> are the errors of both kinds of workers in the
  order they were recorded.
\<close>

definition load_run :: "load_config \<Rightarrow> bool \<Rightarrow> answers \<Rightarrow> answers \<Rightarrow> string list \<Rightarrow> (string + int) list \<Rightarrow> duration \<Rightarrow> duration \<Rightarrow> duration
    \<Rightarrow> string + load_result" where
  "load_run c handed ingest queries errors readings ingest_time drain_time total_time =
     (if \<not> handed then Inl ''context''
      else let (peak, failure) = (if lc_wait c then waitForDrain 0 readings else (0, None)) in
      case failure of Some e \<Rightarrow> Inl e
      | None \<Rightarrow> (case errors of e # _ \<Rightarrow> Inl e
        | [] \<Rightarrow> Inr \<lparr>lr_resources = lc_resources c, lr_batches = length (answered ingest), lr_queries = length (answered queries),
            lr_sent = sum_list (map fst (answered ingest)), lr_read = sum_list (map snd (answered ingest @ answered queries)),
            lr_ingest_time = ingest_time, lr_total_time = total_time, lr_ingest = percentiles (map fst ingest),
            lr_query = percentiles (map fst queries), lr_peak = peak, lr_drain_time = (if lc_wait c then drain_time else 0)\<rparr>))"

definition exceeded :: "string \<times> duration \<times> duration \<Rightarrow> bool" where
  "exceeded t \<longleftrightarrow> snd (snd t) > 0 \<and> fst (snd t) > snd (snd t)"

definition checkThresholds :: "load_config \<Rightarrow> load_result \<Rightarrow> string list" where
  "checkThresholds c r = map fst (filter exceeded
     [(''ingest p95'', fst (snd (lr_ingest r)), lc_max_ingest c), (''query p95'', fst (snd (lr_query r)), lc_max_query c),
      (''drain duration'', lr_drain_time r, lc_max_drain c), (''total duration'', lr_total_time r, lc_max_total c)])"

section \<open>What is sent\<close>

lemma length_padded: "n < 10 ^ k \<Longrightarrow> 0 < k \<Longrightarrow> w \<le> k \<Longrightarrow> length (padded w n) \<le> k"
  using length_nat_str [of n k] by (simp add: padded_def)

lemma padded_nonempty [simp]: "padded w n \<noteq> []"
  by (simp add: padded_def)

lemma load_resource_valid:
  assumes "i < 5000000" and "shard < 5000000"
  shows "validate_resource cluster (e_resource (load_event sha1 cluster shard i)) = None"
proof -
  have "length (padded 9 i) \<le> 9" "length (padded 4 (i div 1000)) \<le> 7" "length (nat_str shard) \<le> 7"
    using assms length_padded [of i 9 9] length_padded [of "i div 1000" 7 4] length_nat_str [of shard 7] by auto
  then show ?thesis
    by (simp add: validate_resource_def load_event_def blank_resource_def load_uid_def identity_fields_def bad_field_def
        bad_label_def known_state_def zero_time_def StateOK_def)
qed

lemma makeBatch_valid:
  assumes "cluster \<noteq> []" "length cluster \<le> 253" and "\<And>s. uuid_ok (sha1 s)" and "shard < 5000000" "start < end'" "end' \<le> start + 1000" "end' \<le> 5000000"
  shows "Validate uuid_ok (makeBatch sha1 cluster shard start end') = None"
proof -
  have "length (padded 4 shard) \<le> 7" using assms(4) length_padded [of shard 7 4] by simp
  moreover have "event_error uuid_ok cluster j (load_event sha1 cluster shard i) = None" if "i < end'" for i j
    using load_resource_valid [of i shard cluster sha1] that assms(3,4,7) by (simp add: event_error_def load_event_def)
  ultimately show ?thesis using assms by (simp add: Validate_def makeBatch_def validate_events_None)
qed

lemma batches_from_range:
  assumes "b \<in> set (batches_from sha1 cluster resources k shards start)" and "0 < shards"
  shows "\<exists>i j shard. b = makeBatch sha1 cluster shard i j \<and> shard \<le> i \<and> i < j \<and> j \<le> i + k \<and> j \<le> resources"
  using assms(1)
proof (induction sha1 cluster resources k shards start rule: batches_from.induct)
  case (1 sha1 cluster resources k shards start)
  have "start div k mod shards \<le> start" by (meson div_le_dividend le_trans mod_less_eq_dividend)
  from 1(2) have run: "start < resources \<and> 0 < k"
    and "b = makeBatch sha1 cluster (start div k mod shards) start (min (start + k) resources)
      \<or> b \<in> set (batches_from sha1 cluster resources k shards (start + k))"
    by (subst (asm) batches_from.simps, simp split: if_splits)+
  then show ?case
  proof (elim disjE)
    assume "b = makeBatch sha1 cluster (start div k mod shards) start (min (start + k) resources)"
    with run \<open>start div k mod shards \<le> start\<close> show ?thesis
      by (intro exI [of _ start] exI [of _ "min (start + k) resources"] exI [of _ "start div k mod shards"]) simp
  qed (use 1(1) run in blast)
qed

lemma batches_from_uids:
  assumes "0 < k"
  shows "concat (map (\<lambda>b. map (\<lambda>e. r_uid (e_resource e)) (b_events b)) (batches_from sha1 cluster resources k shards start))
    = map load_uid [start..<resources]"
  using assms
proof (induction sha1 cluster resources k shards start rule: batches_from.induct)
  case (1 sha1 cluster resources k shards start)
  show ?case
  proof (cases "start < resources")
    case True
    have "[start..<resources] = [start..<min (start + k) resources] @ [start + k..<resources]"
      using upt_add_eq_append [of start "start + k" "resources - (start + k)"] by (cases "start + k \<le> resources") (simp_all add: min_def)
    moreover have "map (\<lambda>e. r_uid (e_resource e)) (b_events (makeBatch sha1 cluster s i j)) = map load_uid [i..<j]" for s i j
      by (simp add: makeBatch_def load_event_def)
    ultimately show ?thesis using 1 True by (subst batches_from.simps) simp
  qed (subst batches_from.simps, simp)
qed

lemma validate_loadD:
  assumes "validate_load c = None"
  shows "lc_cluster c \<noteq> []" "1 \<le> lc_resources c" "lc_resources c \<le> 5000000" "1 \<le> lc_batch_size c" "lc_batch_size c \<le> 1000" "1 \<le> lc_shards c"
  using assms by (simp_all add: validate_load_def split: if_splits)

text \<open>The batches of an accepted configuration carry every resource once, in order, and each of them passes the
  validation of the API.\<close>

theorem load_accepted:
  assumes "validate_load c = None" and "length (lc_cluster c) \<le> 253" and "\<And>s. uuid_ok (sha1 s)"
  shows "concat (map (\<lambda>b. map (\<lambda>e. r_uid (e_resource e)) (b_events b)) (load_batches sha1 c)) = map load_uid [0..<nat (lc_resources c)]
    \<and> (\<forall>b \<in> set (load_batches sha1 c). Validate uuid_ok b = None \<and> int (length (b_events b)) \<le> lc_batch_size c)"
proof (intro conjI ballI)
  note c = validate_loadD [OF assms(1)]
  then show "concat (map (\<lambda>b. map (\<lambda>e. r_uid (e_resource e)) (b_events b)) (load_batches sha1 c)) = map load_uid [0..<nat (lc_resources c)]"
    unfolding load_batches_def by (intro batches_from_uids) simp
  fix b
  assume "b \<in> set (load_batches sha1 c)"
  moreover have "0 < nat (lc_shards c)" using c by simp
  ultimately obtain i j shard where b: "b = makeBatch sha1 (lc_cluster c) shard i j" "shard \<le> i" "i < j" "j \<le> i + nat (lc_batch_size c)"
      "j \<le> nat (lc_resources c)"
    unfolding load_batches_def using batches_from_range by blast
  with c show "int (length (b_events b)) \<le> lc_batch_size c" by (simp add: makeBatch_def)
  have "shard < 5000000" "j \<le> i + 1000" "j \<le> 5000000" using b c by linarith+
  then show "Validate uuid_ok b = None" unfolding b(1) using b(3) c(1) assms(2,3) by (intro makeBatch_valid)
qed

definition sample_load :: load_config where
  "sample_load = \<lparr>lc_api_url = ''http://api'', lc_cluster = ''loadgen'', lc_collector_file = ''c'', lc_reader_file = ''r'', lc_resources = 5,
     lc_batch_size = 2, lc_shards = 2, lc_ingest_concurrency = 8, lc_queries = 0, lc_query_concurrency = 16, lc_timeout = seconds 1800,
     lc_wait = True, lc_drain_timeout = seconds 900, lc_max_ingest = 0, lc_max_query = 0, lc_max_drain = 0, lc_max_total = 0\<rparr>"

lemma load_accepted_witness:
  "concat (map (\<lambda>b. map (\<lambda>e. r_uid (e_resource e)) (b_events b)) (load_batches (\<lambda>s. ''id'') sample_load)) = map load_uid [0..<5]"
proof -
  have "validate_load sample_load = None" "length (lc_cluster sample_load) \<le> 253" by (simp_all add: validate_load_def sample_load_def)
  from load_accepted [OF this, of "\<lambda>u. u = ''id''" "\<lambda>s. ''id''"] show ?thesis by (simp add: sample_load_def)
qed

section \<open>Percentiles\<close>

text \<open>The nearest-rank definition: the percentile is the smallest measurement such that at least the given share of all
  measurements does not exceed it.\<close>

lemma pick_nearest_rank:
  assumes "vs \<noteq> []" and "0 < p" "p \<le> 100"
  shows "pick vs p \<in> set vs" and "length vs * p \<le> 100 * length (filter (\<lambda>v. v \<le> pick vs p) vs)"
    and "v \<in> set vs \<Longrightarrow> v < pick vs p \<Longrightarrow> 100 * length (filter (\<lambda>w. w \<le> v) vs) < length vs * p"
proof -
  define xs where "xs = sort vs"
  define k where "k = (length vs * p + 99) div 100"
  have xs: "sorted xs" "set xs = set vs" "length xs = length vs" "length (filter P xs) = length (filter P vs)" for P
    by (auto simp: xs_def filter_sort)
  have pos: "0 < length vs * p" using assms by simp
  then have k: "1 \<le> k" "k \<le> length vs" "length vs * p \<le> 100 * k" "100 * (k - 1) < length vs * p"
    using assms(3) mult_le_mono2 [of p 100 "length vs"] unfolding k_def by linarith+
  have pick: "pick vs p = xs ! (k - 1)" using k(1) by (simp add: pick_def xs_def k_def)
  then show "pick vs p \<in> set vs" using k xs by (metis Suc_le_eq Suc_pred' le_less_trans less_or_eq_imp_le nth_mem not_less_eq_eq diff_less zero_less_one)
  have "take k xs = filter (\<lambda>v. v \<le> pick vs p) (take k xs)"
  proof (rule sym, subst filter_id_conv, intro ballI)
    fix v
    assume "v \<in> set (take k xs)"
    then obtain i where "i < k" "v = xs ! i" using k xs(3) by (auto simp: in_set_conv_nth)
    with xs k show "v \<le> pick vs p" by (auto simp: pick intro!: sorted_nth_mono)
  qed
  then have "k \<le> length (filter (\<lambda>v. v \<le> pick vs p) xs)"
    by (metis append_take_drop_id filter_append k(2) length_append length_take le_add1 min.absorb2 xs(3))
  with k(3) xs(4) show "length vs * p \<le> 100 * length (filter (\<lambda>v. v \<le> pick vs p) vs)" by (metis le_trans mult_le_mono2)
  show "100 * length (filter (\<lambda>w. w \<le> v) vs) < length vs * p" if "v < pick vs p"
  proof -
    have "filter (\<lambda>w. w \<le> v) (drop (k - 1) xs) = []"
    proof (rule filter_False, intro ballI)
      fix w
      assume "w \<in> set (drop (k - 1) xs)"
      then obtain i where "i < length xs - (k - 1)" "w = xs ! (k - 1 + i)" by (auto simp: in_set_conv_nth)
      then have "xs ! (k - 1) \<le> w" using xs by (auto intro!: sorted_nth_mono)
      with that pick show "\<not> w \<le> v" by simp
    qed
    then have "filter (\<lambda>w. w \<le> v) xs = filter (\<lambda>w. w \<le> v) (take (k - 1) xs)"
      by (metis append_Nil2 append_take_drop_id filter_append)
    then have "length (filter (\<lambda>w. w \<le> v) vs) \<le> k - 1"
      by (metis length_filter_le length_take min.cobounded2 le_trans xs(4))
    with k(4) show ?thesis by linarith
  qed
qed

lemma percentiles_ordered: "percentiles vs = (a, b, c) \<Longrightarrow> a \<le> b \<and> b \<le> c"
proof (cases "vs = []")
  case False
  assume "percentiles vs = (a, b, c)"
  moreover have "pick vs p \<le> pick vs q" if "p \<le> q" "q \<le> 100" for p q
  proof -
    have "(length vs * p + 99) div 100 \<le> (length vs * q + 99) div 100" using that by (intro div_le_mono add_le_mono mult_le_mono) auto
    moreover have "(length vs * q + 99) div 100 \<le> length vs" using that(2) mult_le_mono2 [of q 100 "length vs"] by linarith
    moreover have "0 < length vs" using False by simp
    ultimately show ?thesis unfolding pick_def by (intro sorted_nth_mono) (auto simp: max_def)
  qed
  ultimately show ?thesis using False by (auto simp: percentiles_def)
qed (simp add: percentiles_def)

section \<open>Waiting\<close>

text \<open>The wait succeeds exactly when a reading is zero before any reading fails, and the peak is the largest reading
  seen.\<close>

lemma waitForDrain_ok:
  "snd (waitForDrain peak rs) = None \<longleftrightarrow> (\<exists>ns rest. rs = map Inr ns @ Inr 0 # rest \<and> 0 \<notin> set ns)"
proof (induction peak rs rule: waitForDrain.induct)
  case (3 peak n rs)
  have "(\<exists>ns rest. Inr n # rs = map Inr ns @ Inr 0 # rest \<and> 0 \<notin> set ns)
    \<longleftrightarrow> n = 0 \<or> (\<exists>ns rest. rs = map Inr ns @ Inr 0 # rest \<and> 0 \<notin> set ns)"
  proof
    assume "n = 0 \<or> (\<exists>ns rest. rs = map Inr ns @ Inr 0 # rest \<and> 0 \<notin> set ns)"
    then consider "n = 0" | ns rest where "n \<noteq> 0" "rs = map Inr ns @ Inr 0 # rest" "0 \<notin> set ns" by blast
    then show "\<exists>ns rest. Inr n # rs = map Inr ns @ Inr 0 # rest \<and> 0 \<notin> set ns"
    proof cases
      case 1
      then show ?thesis by (intro exI [of _ "[] :: int list"] exI [of _ rs]) simp
    next
      case (2 ns rest)
      then show ?thesis by (intro exI [of _ "n # ns"] exI [of _ rest]) simp
    qed
  qed (auto simp: Cons_eq_append_conv Cons_eq_map_conv)
  with 3 show ?case by simp
qed (auto simp: Cons_eq_append_conv Cons_eq_map_conv)

lemma waitForDrain_peak: "peak \<le> fst (waitForDrain peak rs)"
  by (induction peak rs rule: waitForDrain.induct) auto

text \<open>A run passes its thresholds exactly when no limit that is set is exceeded.\<close>

lemma checkThresholds_ok:
  "checkThresholds c r = [] \<longleftrightarrow>
     (\<forall>(name, v, limit) \<in> {(''ingest p95'', fst (snd (lr_ingest r)), lc_max_ingest c), (''query p95'', fst (snd (lr_query r)), lc_max_query c),
        (''drain duration'', lr_drain_time r, lc_max_drain c), (''total duration'', lr_total_time r, lc_max_total c)}. limit > 0 \<longrightarrow> v \<le> limit)"
  by (auto simp: checkThresholds_def exceeded_def filter_empty_conv)

end
