(* ===== verification/LoadPool.thy ===== *)
theory LoadPool
  imports Loadgen "HOL-Library.Multiset"
begin

text \<open>
  The goroutines of \<open>run\<close> in \<open>cmd/icinga-kubernetes-loadgen/main.go\<close>: a producer hands items to a buffered channel, a fixed
  number of workers takes them and sends a request for each. There are two such pools, for the batches and for the
  queries.
\<close>

section \<open>A pool of workers\<close>

datatype 'a worker = Resting | Busy 'a | Gone

record 'a pool =
  po_todo :: "'a list"
  po_queue :: "'a list"
  po_closed :: bool
  po_cut :: bool
  po_workers :: "'a worker list"
  po_log :: "('a \<times> duration \<times> (string + nat)) list"

text \<open>
  \<open>po_todo\<close> is what the producer has not handed over, \<open>po_cut\<close> says that it gave up because the context ended, and
  \<open>po_log\<close> lists the requests made with their latency and their outcome, in the order they ended.
\<close>

definition start_pool :: "'a list \<Rightarrow> nat \<Rightarrow> 'a pool" where
  "start_pool items k = \<lparr>po_todo = items, po_queue = [], po_closed = False, po_cut = False, po_workers = replicate k Resting, po_log = []\<rparr>"

inductive pool_step :: "nat \<Rightarrow> 'a pool \<Rightarrow> 'a pool \<Rightarrow> bool" for cap where
  handed: "po_todo p = x # xs \<Longrightarrow> length (po_queue p) < cap \<Longrightarrow> \<not> po_closed p \<Longrightarrow>
     pool_step cap p (p\<lparr>po_todo := xs, po_queue := po_queue p @ [x]\<rparr>)"
| closing: "po_todo p = [] \<Longrightarrow> \<not> po_closed p \<Longrightarrow> pool_step cap p (p\<lparr>po_closed := True\<rparr>)"
| cancelled: "po_todo p \<noteq> [] \<Longrightarrow> \<not> po_closed p \<Longrightarrow> pool_step cap p (p\<lparr>po_todo := [], po_closed := True, po_cut := True\<rparr>)"
| taken: "i < length (po_workers p) \<Longrightarrow> po_workers p ! i = Resting \<Longrightarrow> po_queue p = x # xs \<Longrightarrow>
     pool_step cap p (p\<lparr>po_queue := xs, po_workers := (po_workers p)[i := Busy x]\<rparr>)"
| finished: "i < length (po_workers p) \<Longrightarrow> po_workers p ! i = Busy x \<Longrightarrow>
     pool_step cap p (p\<lparr>po_workers := (po_workers p)[i := Resting], po_log := po_log p @ [(x, latency, r)]\<rparr>)"
| left: "i < length (po_workers p) \<Longrightarrow> po_workers p ! i = Resting \<Longrightarrow> po_queue p = [] \<Longrightarrow> po_closed p \<Longrightarrow>
     pool_step cap p (p\<lparr>po_workers := (po_workers p)[i := Gone]\<rparr>)"

text \<open>\<open>Wait\<close> returns when every worker is gone.\<close>

definition pool_over :: "'a pool \<Rightarrow> bool" where
  "pool_over p \<longleftrightarrow> (\<forall>w \<in> set (po_workers p). w = Gone)"

section \<open>Nothing is lost or sent twice\<close>

definition carried :: "'a worker \<Rightarrow> 'a multiset" where
  "carried w = (case w of Busy x \<Rightarrow> {#x#} | _ \<Rightarrow> {#})"

definition in_work :: "'a worker list \<Rightarrow> 'a multiset" where
  "in_work ws = sum_list (map carried ws)"

lemma in_work_update: "i < length ws \<Longrightarrow> in_work (ws[i := w]) + carried (ws ! i) = in_work ws + carried w"
  by (induction ws arbitrary: i) (auto simp: in_work_def nth_Cons ac_simps split: nat.split)

lemma in_work_none: "\<forall>w \<in> set ws. carried w = {#} \<Longrightarrow> in_work ws = {#}"
  by (induction ws) (auto simp: in_work_def)

definition pool_items :: "'a pool \<Rightarrow> 'a multiset" where
  "pool_items p = mset (po_todo p) + mset (po_queue p) + in_work (po_workers p) + mset (map fst (po_log p))"

definition pool_ok :: "'a list \<Rightarrow> nat \<Rightarrow> 'a pool \<Rightarrow> bool" where
  "pool_ok items k p \<longleftrightarrow> length (po_workers p) = k \<and> pool_items p \<subseteq># mset items \<and> (\<not> po_cut p \<longrightarrow> pool_items p = mset items)
     \<and> (po_closed p \<longrightarrow> po_todo p = []) \<and> (Gone \<in> set (po_workers p) \<longrightarrow> po_closed p \<and> po_queue p = [])"

lemma pool_step_items: "pool_step cap p q \<Longrightarrow> pool_items q \<subseteq># pool_items p \<and> (\<not> po_cut q \<longrightarrow> pool_items q = pool_items p)"
proof (induction rule: pool_step.induct)
  case (taken i p x xs)
  then show ?case using in_work_update [of i "po_workers p" "Busy x"] by (simp add: pool_items_def carried_def)
next
  case (finished i p x latency r)
  then show ?case using in_work_update [of i "po_workers p" Resting] by (simp add: pool_items_def carried_def)
next
  case (left i p)
  then show ?case using in_work_update [of i "po_workers p" Gone] by (simp add: pool_items_def carried_def)
qed (auto simp: pool_items_def)

lemma set_update_cases: "x \<in> set (xs[i := y]) \<Longrightarrow> x = y \<or> x \<in> set xs"
  using set_update_subset_insert by fast

lemma pool_step_ok:
  assumes "pool_step cap p q" and "pool_ok items k p"
  shows "pool_ok items k q"
proof -
  note step = pool_step_items [OF assms(1)]
  have "length (po_workers q) = k" using assms by cases (auto simp: pool_ok_def)
  moreover have "po_cut p \<longrightarrow> po_cut q" using assms(1) by cases auto
  moreover have "po_closed q \<longrightarrow> po_todo q = []" using assms by cases (auto simp: pool_ok_def)
  moreover have "Gone \<in> set (po_workers q) \<longrightarrow> po_closed q \<and> po_queue q = []"
    using assms by cases (auto simp: pool_ok_def dest: set_update_cases)
  moreover have "pool_items q \<subseteq># mset items" using step assms(2) unfolding pool_ok_def by (meson subset_mset.order_trans)
  ultimately show ?thesis using step assms(2) by (auto simp: pool_ok_def)
qed

interpretation pool: machine "\<lambda>p. p = start_pool items k" "pool_step cap" "pool_ok items k" for items :: "'a list" and k and cap
proof
  show "p = start_pool items k \<Longrightarrow> pool_ok items k p" for p :: "'a pool"
    using in_work_none [of "replicate k Resting"] by (auto simp: pool_ok_def start_pool_def pool_items_def carried_def)
qed (rule pool_step_ok)

section \<open>Every run ends\<close>

definition worker_rest :: "'a worker \<Rightarrow> nat" where
  "worker_rest w = (case w of Resting \<Rightarrow> 1 | Busy _ \<Rightarrow> 2 | Gone \<Rightarrow> 0)"

definition pool_rest :: "'a pool \<Rightarrow> nat" where
  "pool_rest p = 3 * length (po_todo p) + 2 * length (po_queue p) + sum_list (map worker_rest (po_workers p)) + (if po_closed p then 0 else 1)"

lemma rest_update: "i < length ws \<Longrightarrow> sum_list (map worker_rest (ws[i := w])) + worker_rest (ws ! i) = sum_list (map worker_rest ws) + worker_rest w"
  by (induction ws arbitrary: i) (auto simp: nth_Cons split: nat.split)

lemma pool_step_rest: "pool_step cap p q \<Longrightarrow> pool_rest q < pool_rest p"
proof (induction rule: pool_step.induct)
  case (taken i p x xs)
  then show ?case using rest_update [of i "po_workers p" "Busy x"] by (simp add: pool_rest_def worker_rest_def)
next
  case (finished i p x latency r)
  then show ?case using rest_update [of i "po_workers p" Resting] by (simp add: pool_rest_def worker_rest_def)
next
  case (left i p)
  then show ?case using rest_update [of i "po_workers p" Gone] by (simp add: pool_rest_def worker_rest_def)
qed (auto simp: pool_rest_def)

lemma pool_moves:
  assumes "pool_ok items k p" and "\<not> pool_over p" and "0 < cap"
  shows "\<exists>q. pool_step cap p q"
proof -
  from assms(2) obtain i where i: "i < length (po_workers p)" "po_workers p ! i \<noteq> Gone"
    by (auto simp: pool_over_def in_set_conv_nth)
  show ?thesis
  proof (cases "po_workers p ! i")
    case Resting
    show ?thesis
    proof (cases "po_queue p")
      case Nil
      with assms(3) show ?thesis
        using pool_step.left [OF i(1) Resting Nil, of cap] pool_step.handed [of p _ _ cap] pool_step.closing [of p cap]
        by (cases "po_todo p"; cases "po_closed p") (auto simp: Nil)
    next
      case (Cons x xs)
      with pool_step.taken [OF i(1) Resting] show ?thesis by blast
    qed
  next
    case (Busy x)
    from pool_step.finished [OF i(1) this] show ?thesis by blast
  qed (use i(2) in simp)
qed

interpretation pools: draining "\<lambda>p. p = start_pool items k" "pool_step (Suc c)" "pool_ok items k" pool_rest pool_over
  for items :: "'a list" and k and c
  by unfold_locales (auto intro: pool_step_rest pool_moves)

lemma pool_over_items:
  assumes "pool_ok items k p" and "pool_over p" and "0 < k" and "\<not> po_cut p"
  shows "mset (map fst (po_log p)) = mset items"
proof -
  from assms(1,3) have "po_workers p \<noteq> []" by (auto simp: pool_ok_def)
  with assms(2) have "Gone \<in> set (po_workers p)" by (cases "po_workers p") (auto simp: pool_over_def)
  with assms(1) have "po_closed p" "po_queue p = []" "po_todo p = []" by (auto simp: pool_ok_def)
  moreover have "in_work (po_workers p) = {#}"
    using assms(2) by (intro in_work_none) (auto simp: pool_over_def carried_def)
  ultimately show ?thesis using assms(1,4) by (simp add: pool_ok_def pool_items_def)
qed

text \<open>C39: Neither pool of the load generator can hang or lose work: whatever order its producer and its workers run in, a run
  makes at most three steps for each item, one for each worker and one more, it can always go on to the
  end, and unless the context ended first every item was sent exactly once.\<close>

theorem pool_drains:
  assumes "(pool_step cap)\<^sup>*\<^sup>* (start_pool items k) p" and "0 < cap" and "0 < k"
  shows "((pool_step cap ^^ n) (start_pool items k) q \<longrightarrow> n \<le> 3 * length items + k + 1)
    \<and> (\<exists>q. (pool_step cap)\<^sup>*\<^sup>* p q \<and> pool_over q)
    \<and> (pool_over p \<and> \<not> po_cut p \<longrightarrow> mset (map fst (po_log p)) = mset items)"
proof -
  have ok: "pool_ok items k p" by (rule pool.reachable_inv [OF refl assms(1)])
  have "pool_rest (start_pool items k) = 3 * length items + k + 1"
    by (simp add: pool_rest_def start_pool_def worker_rest_def sum_list_replicate)
  moreover obtain c where "cap = Suc c" using assms(2) by (cases cap) auto
  ultimately show ?thesis
    using pools.steps_rest [of n c "start_pool items k" q] pools.reaches_over [OF ok, of c] pool_over_items [OF ok _ assms(3)] by auto
qed

section \<open>The result of a run\<close>

definition pool_answers :: "('a \<Rightarrow> nat) \<Rightarrow> 'a pool \<Rightarrow> answers" where
  "pool_answers sent p = map (\<lambda>(x, latency, r). (latency, sent x, r)) (po_log p)"

definition pool_errors :: "'a pool \<Rightarrow> string list" where
  "pool_errors p = List.map_filter (\<lambda>(x, latency, r). case r of Inl e \<Rightarrow> Some e | Inr _ \<Rightarrow> None) (po_log p)"

text \<open>\<open>run\<close> over what its two pools did; \<open>errors\<close> merges theirs in the order they were recorded.\<close>

definition run_load :: "(ingest_batch \<Rightarrow> string) \<Rightarrow> load_config \<Rightarrow> ingest_batch pool \<Rightarrow> nat pool \<Rightarrow> string list \<Rightarrow> (string + int) list
    \<Rightarrow> duration \<Rightarrow> duration \<Rightarrow> duration \<Rightarrow> string + load_result" where
  "run_load encode c ingest queries errors readings ingest_time drain_time total_time =
     load_run c (\<not> po_cut ingest) (pool_answers (\<lambda>b. length (encode b)) ingest) (pool_answers (\<lambda>_. 0) queries) errors readings
       ingest_time drain_time total_time"

lemma sum_list_mset: "mset xs = mset ys \<Longrightarrow> sum_list (map f xs) = sum_list (map f ys :: nat list)"
proof -
  assume "mset xs = mset ys"
  then have "sum_mset (mset (map f xs)) = sum_mset (mset (map f ys))" by simp
  then show ?thesis unfolding sum_mset_sum_list .
qed

lemma load_run_result:
  assumes "load_run c handed ingest queries errors readings ingest_time drain_time total_time = Inr r"
  shows "handed \<and> errors = [] \<and> lr_batches r = length (answered ingest) \<and> lr_queries r = length (answered queries)
    \<and> lr_sent r = sum_list (map fst (answered ingest))"
proof -
  obtain peak failure where wait: "(if lc_wait c then waitForDrain 0 readings else (0, None)) = (peak, failure)" by fastforce
  from assms show ?thesis
    unfolding load_run_def wait by (cases handed; cases failure; cases errors) (auto simp: wait)
qed

lemma pool_errors_Nil: "pool_errors p = [] \<longleftrightarrow> (\<forall>(x, latency, r) \<in> set (po_log p). \<exists>n. r = Inr n)"
proof -
  have "List.map_filter (\<lambda>(x, latency, r). case r of Inl e \<Rightarrow> Some e | Inr _ \<Rightarrow> None) xs = [] \<longleftrightarrow> (\<forall>(x, latency, r) \<in> set xs. \<exists>n. r = Inr n)"
    for xs :: "('a \<times> duration \<times> (string + nat)) list"
    by (induction xs) (auto simp: map_filter_def split: sum.splits prod.splits)
  then show ?thesis by (simp add: pool_errors_def)
qed

lemma answered_all:
  assumes "\<forall>(x, latency, r) \<in> set xs. \<exists>n. r = Inr n"
  shows "map fst (answered (map (\<lambda>(x, latency, r). (latency, sent x, r)) xs)) = map sent (map fst xs)"
  using assms by (induction xs) (auto simp: answered_def map_filter_def split: sum.splits)

text \<open>A result that the load generator reports is complete: every resource of the configuration was in exactly one batch
  the API accepted, the bytes reported are those of all batches, and unless the producer of the queries
  was cut short by the end of the context every query was answered.\<close>

theorem load_result_complete:
  assumes "validate_load c = None" and "0 < icap" and "0 < qcap"
    and "(pool_step icap)\<^sup>*\<^sup>* (start_pool (load_batches sha1 c) (nat (lc_ingest_concurrency c))) ingest" and "pool_over ingest"
    and "(pool_step qcap)\<^sup>*\<^sup>* (start_pool [0..<nat (lc_queries c)] (nat (lc_query_concurrency c))) queries" and "pool_over queries"
    and "set errors = set (pool_errors ingest) \<union> set (pool_errors queries)"
    and "run_load encode c ingest queries errors readings ingest_time drain_time total_time = Inr r"
  shows "mset (map fst (po_log ingest)) = mset (load_batches sha1 c) \<and> (\<forall>(b, latency, answer) \<in> set (po_log ingest). \<exists>n. answer = Inr n)
    \<and> lr_batches r = length (load_batches sha1 c) \<and> lr_sent r = sum_list (map (\<lambda>b. length (encode b)) (load_batches sha1 c))
    \<and> (\<not> po_cut queries \<longrightarrow> lr_queries r = nat (lc_queries c))"
proof -
  let ?ia = "answered (pool_answers (\<lambda>b. length (encode b)) ingest)" and ?qa = "answered (pool_answers (\<lambda>_. 0) queries)"
  have k: "0 < nat (lc_ingest_concurrency c)" "0 < nat (lc_query_concurrency c)"
    using assms(1) by (auto simp: validate_load_def split: if_splits)
  from load_run_result [OF assms(9) [unfolded run_load_def]] have run: "\<not> po_cut ingest" "errors = []" "lr_batches r = length ?ia" "lr_queries r = length ?qa" "lr_sent r = sum_list (map fst ?ia)"
    by simp_all
  from run(2) assms(8) have ok: "\<forall>(x, latency, a) \<in> set (po_log ingest). \<exists>n. a = Inr n" "\<forall>(x, latency, a) \<in> set (po_log queries). \<exists>n. a = Inr n"
    by (simp_all flip: pool_errors_Nil)
  have items: "mset (map fst (po_log ingest)) = mset (load_batches sha1 c)"
    by (rule pool_over_items [OF pool.reachable_inv [OF refl assms(4)] assms(5) k(1) run(1)])
  have sent: "map fst ?ia = map (\<lambda>b. length (encode b)) (map fst (po_log ingest))"
    unfolding pool_answers_def by (rule answered_all [OF ok(1)])
  have "length ?ia = length (map fst (po_log ingest))" using arg_cong [OF sent, of length] by simp
  moreover have "sum_list (map fst ?ia) = sum_list (map (\<lambda>b. length (encode b)) (load_batches sha1 c))"
    unfolding sent by (rule sum_list_mset [OF items])
  moreover have "length ?qa = nat (lc_queries c)" if "\<not> po_cut queries"
  proof -
    have "mset (map fst (po_log queries)) = mset [0..<nat (lc_queries c)]"
      by (rule pool_over_items [OF pool.reachable_inv [OF refl assms(6)] assms(7) k(2) that])
    from mset_eq_length [OF this] have "length (po_log queries) = nat (lc_queries c)" by simp
    moreover have "map fst ?qa = map (\<lambda>_. 0) (map fst (po_log queries))" unfolding pool_answers_def by (rule answered_all [OF ok(2)])
    from arg_cong [OF this, of length] have "length ?qa = length (po_log queries)" by simp
    ultimately show ?thesis by simp
  qed
  moreover have "length (map fst (po_log ingest)) = length (load_batches sha1 c)" by (rule mset_eq_length [OF items])
  ultimately show ?thesis using items ok(1) run by simp
qed

section \<open>A small run\<close>

theorem pool_drains_witness: "\<exists>q. (pool_step 2)\<^sup>*\<^sup>* (start_pool [7 :: nat] 3) q \<and> pool_over q"
  using pool_drains [of 2 "[7 :: nat]" 3 "start_pool [7] 3"] by simp

definition tiny_load :: load_config where
  "tiny_load = sample_load\<lparr>lc_resources := 1, lc_ingest_concurrency := 1, lc_query_concurrency := 1\<rparr>"

definition pool_state :: "'a list \<Rightarrow> 'a list \<Rightarrow> bool \<Rightarrow> 'a worker \<Rightarrow> ('a \<times> duration \<times> (string + nat)) list \<Rightarrow> 'a pool" where
  "pool_state todo queue closed w log = \<lparr>po_todo = todo, po_queue = queue, po_closed = closed, po_cut = False, po_workers = [w], po_log = log\<rparr>"

lemma pool_closes: "(pool_step cap)\<^sup>*\<^sup>* (pool_state [] [] False Resting log) (pool_state [] [] True Gone log)"
proof -
  have "pool_step cap (pool_state [] [] False Resting log) (pool_state [] [] True Resting log)"
    using pool_step.closing [of "pool_state [] [] False Resting log" cap] by (simp add: pool_state_def)
  moreover have "pool_step cap (pool_state [] [] True Resting log) (pool_state [] [] True Gone log)"
    using pool_step.left [of 0 "pool_state [] [] True Resting log" cap] by (simp add: pool_state_def)
  ultimately show ?thesis by auto
qed

lemma pool_serves_one:
  assumes "0 < cap"
  shows "(pool_step cap)\<^sup>*\<^sup>* (start_pool [x] 1) (pool_state [] [] True Gone [(x, 5, Inr 2)])"
proof -
  have "pool_step cap (start_pool [x] 1) (pool_state [] [x] False Resting [])"
    using pool_step.handed [of "start_pool [x] 1" x "[]" cap] assms by (simp add: pool_state_def start_pool_def)
  moreover have "pool_step cap (pool_state [] [x] False Resting []) (pool_state [] [] False (Busy x) [])"
    using pool_step.taken [of 0 "pool_state [] [x] False Resting []" x "[]" cap] by (simp add: pool_state_def)
  moreover have "pool_step cap (pool_state [] [] False (Busy x) []) (pool_state [] [] False Resting [(x, 5, Inr 2)])"
    using pool_step.finished [of 0 "pool_state [] [] False (Busy x) []" x cap 5 "Inr 2"] by (simp add: pool_state_def)
  ultimately show ?thesis using pool_closes [of cap "[(x, 5, Inr 2)]"] by (meson converse_rtranclp_into_rtranclp)
qed

theorem load_result_complete_witness:
  "\<exists>r. run_load (\<lambda>_. ''{}'') tiny_load (pool_state [] [] True Gone [(hd (load_batches (\<lambda>s. ''id'') tiny_load), 5, Inr 2)])
      (pool_state [] [] True Gone []) [] [Inr 0] 5 1 7 = Inr r \<and> lr_batches r = 1 \<and> lr_sent r = 2 \<and> lr_queries r = 0"
proof -
  let ?bs = "load_batches (\<lambda>s. ''id'') tiny_load"
  obtain b where b: "?bs = [b]"
    by (simp add: load_batches_def tiny_load_def sample_load_def batches_from.simps)
  let ?i = "pool_state [] [] True Gone [(b, 5, Inr 2)]" and ?q = "pool_state [] [] True Gone [] :: nat pool"
  have valid: "validate_load tiny_load = None" and conc: "lc_ingest_concurrency tiny_load = 1" "lc_query_concurrency tiny_load = 1"
    "lc_queries tiny_load = 0"
    by (simp_all add: tiny_load_def sample_load_def validate_load_def)
  have over: "pool_over ?i" "pool_over ?q" by (simp_all add: pool_over_def pool_state_def)
  have ingest: "(pool_step 2)\<^sup>*\<^sup>* (start_pool ?bs (nat (lc_ingest_concurrency tiny_load))) ?i"
    using pool_serves_one [of 2 b] by (simp add: b conc)
  have queries: "(pool_step 2)\<^sup>*\<^sup>* (start_pool [0..<nat (lc_queries tiny_load)] (nat (lc_query_concurrency tiny_load))) ?q"
    using pool_closes [of 2 "[]"] by (simp add: conc pool_state_def start_pool_def)
  have errors: "set [] = set (pool_errors ?i) \<union> set (pool_errors ?q)" by (simp add: pool_errors_def pool_state_def map_filter_def)
  obtain r where run: "run_load (\<lambda>_. ''{}'') tiny_load ?i ?q [] [Inr 0] 5 1 7 = Inr r"
    by (simp add: run_load_def load_run_def pool_state_def tiny_load_def sample_load_def)
  from load_result_complete [OF valid _ _ ingest over(1) queries over(2) errors run] have "lr_batches r = 1 \<and> lr_sent r = 2 \<and> lr_queries r = 0"
    by (simp add: b conc pool_state_def)
  with run b show ?thesis by simp
qed

text \<open>
  The exception for queries is real: a context that ends while only the producer of the queries is left cuts it short, no
  request fails, and a result with fewer queries than configured is reported as a success.
\<close>

lemma queries_cut_short:
  "\<exists>p. (pool_step 2)\<^sup>*\<^sup>* (start_pool [0 :: nat] 1) p \<and> pool_over p \<and> pool_errors p = [] \<and> pool_answers (\<lambda>_. 0) p = []"
proof -
  let ?cut = "\<lambda>w. \<lparr>po_todo = [], po_queue = [], po_closed = True, po_cut = True, po_workers = [w], po_log = []\<rparr> :: nat pool"
  have "pool_step 2 (start_pool [0 :: nat] 1) (?cut Resting)"
    using pool_step.cancelled [of "start_pool [0 :: nat] 1" 2] by (simp add: start_pool_def)
  moreover have "pool_step 2 (?cut Resting) (?cut Gone)" using pool_step.left [of 0 "?cut Resting" 2] by simp
  ultimately have "(pool_step 2)\<^sup>*\<^sup>* (start_pool [0 :: nat] 1) (?cut Gone)" by (meson r_into_rtranclp rtranclp.rtrancl_into_rtrancl)
  moreover have "pool_over (?cut Gone)" "pool_errors (?cut Gone) = []" "pool_answers (\<lambda>_. 0) (?cut Gone) = []"
    by (simp_all add: pool_over_def pool_errors_def pool_answers_def map_filter_def)
  ultimately show ?thesis by blast
qed

end
