(* ===== verification/Configuration.thy ===== *)
theory Configuration
  imports Middleware
begin

text \<open>
  The configuration of \<open>internal/v2/config/config.go\<close>: what \<open>Load\<close> reads from the environment and which
  configurations it accepts. The environment, the files and \<open>url.Parse\<close> are arguments; a missing
  variable is the empty string.
\<close>

section \<open>Addresses and credentials\<close>

record url =
  u_scheme :: string
  u_host :: string
  u_user :: bool
  u_query :: string
  u_fragment :: string

definition validateHTTPBaseURL :: "(string \<Rightarrow> url option) \<Rightarrow> string \<Rightarrow> bool" where
  "validateHTTPBaseURL parse raw = (case parse raw of None \<Rightarrow> False
     | Some u \<Rightarrow> u_scheme u \<in> {''http'', ''https''} \<and> u_host u \<noteq> [] \<and> \<not> u_user u \<and> u_query u = [] \<and> u_fragment u = [])"

definition validateCredential :: "(string \<Rightarrow> string option) \<Rightarrow> credential \<Rightarrow> bool" where
  "validateCredential files c \<longleftrightarrow> cr_value c \<noteq> []
     \<or> cr_file c \<noteq> [] \<and> (case files (cr_file c) of None \<Rightarrow> False | Some b \<Rightarrow> TrimSpace b \<noteq> [])"

section \<open>Federation targets\<close>

datatype config_error =
    BadDuration string
  | BadInteger string
  | BadBoolean
  | TooManyTargets
  | BadTarget string
  | DuplicateTarget string
  | TargetURL string
  | LocalTarget string
  | UnsupportedRole string
  | ClusterNameRequired
  | BadAddress string
  | NotificationOption string
  | DatabaseRequired
  | BadCredential string
  | BatchTooLarge
  | StaleNotShorter

fun parse_targets :: "(string \<Rightarrow> url option) \<Rightarrow> target list \<Rightarrow> string list \<Rightarrow> config_error + target list" where
  "parse_targets parse targets [] = Inr targets"
| "parse_targets parse targets (raw # raws) =
     (if length targets \<ge> 64 then Inl TooManyTargets
      else case split_two (CHR ''='') (TrimSpace raw) of
        (_, None) \<Rightarrow> Inl (BadTarget raw)
      | (n, Some u) \<Rightarrow>
          if length n > 253 \<or> \<not> cluster_pattern n \<or> u = [] \<or> length u > 2048 then Inl (BadTarget raw)
          else if to_lower n \<in> set (map (\<lambda>t. to_lower (tg_name t)) targets) then Inl (DuplicateTarget n)
          else if \<not> validateHTTPBaseURL parse u then Inl (TargetURL n)
          else parse_targets parse (targets @ [\<lparr>tg_name = n, tg_url = TrimRight u ''/''\<rparr>]) raws)"

definition parseFederationTargets :: "(string \<Rightarrow> url option) \<Rightarrow> string \<Rightarrow> config_error + target list" where
  "parseFederationTargets parse raw = (if TrimSpace raw = [] then Inr [] else parse_targets parse [] (split_char (CHR '','') raw))"

section \<open>Values of the environment\<close>

type_synonym env = "string \<Rightarrow> string"

definition key :: "string \<Rightarrow> string" where "key k = ''ICINGA_KUBERNETES_'' @ k"

definition value_or :: "env \<Rightarrow> string \<Rightarrow> string \<Rightarrow> string" where
  "value_or env k fallback = (if env k \<noteq> [] then env k else fallback)"

definition duration_or :: "(nat \<Rightarrow> nat \<Rightarrow> nat \<Rightarrow> nat) \<Rightarrow> env \<Rightarrow> string \<Rightarrow> duration \<Rightarrow> duration" where
  "duration_or fraction env k fallback =
     (if env k = [] then fallback else case ParseDuration fraction (env k) of None \<Rightarrow> fallback | Some d \<Rightarrow> d)"

definition integer_or :: "env \<Rightarrow> string \<Rightarrow> int \<Rightarrow> int" where
  "integer_or env k fallback =
     (if env k = [] then fallback else case ParseInt (env k) of None \<Rightarrow> fallback | Some i \<Rightarrow> if i < 1 then fallback else i)"

text \<open>\<open>strconv.ParseBool\<close>.\<close>

definition ParseBool :: "string \<Rightarrow> bool option" where
  "ParseBool s = (if s \<in> {''1'', ''t'', ''T'', ''TRUE'', ''true'', ''True''} then Some True
     else if s \<in> {''0'', ''f'', ''F'', ''FALSE'', ''false'', ''False''} then Some False else None)"

definition boolean_or :: "env \<Rightarrow> string \<Rightarrow> bool \<Rightarrow> bool" where
  "boolean_or env k fallback = (if env k = [] then fallback else case ParseBool (env k) of None \<Rightarrow> fallback | Some b \<Rightarrow> b)"

definition duration_keys :: "string list" where
  "duration_keys = [''EVENT_RETENTION'', ''TOMBSTONE_RETENTION'', ''HISTORY_RETENTION'', ''STALE_AFTER'', ''UNAVAILABLE_AFTER'']"

definition integer_keys :: "string list" where
  "integer_keys = [''BATCH_SIZE'', ''RATE_PER_SECOND'', ''RATE_BURST'']"

definition positive :: "int option \<Rightarrow> bool" where
  "positive v \<longleftrightarrow> (case v of None \<Rightarrow> False | Some n \<Rightarrow> n > 0)"

definition validateExplicitEnvironment :: "(nat \<Rightarrow> nat \<Rightarrow> nat \<Rightarrow> nat) \<Rightarrow> env \<Rightarrow> config_error option" where
  "validateExplicitEnvironment fraction env = in_order
     (map (\<lambda>k. require (env (key k) = [] \<or> positive (ParseDuration fraction (env (key k)))) (BadDuration k)) duration_keys
      @ map (\<lambda>k. require (env (key k) = [] \<or> positive (ParseInt (env (key k)))) (BadInteger k)) (integer_keys @ [''SPOOL_MAX_BYTES''])
      @ [require (env (key ''METRICS_INSECURE'') = [] \<or> ParseBool (env (key ''METRICS_INSECURE'')) \<noteq> None) BadBoolean])"

section \<open>Load\<close>

record config =
  cf_role :: string
  cf_listen :: string
  cf_probe_listen :: string
  cf_database :: string
  cf_cluster :: string
  cf_api :: string
  cf_credentials :: credentials
  cf_targets :: "target list"
  cf_spool_path :: string
  cf_lease_namespace :: string
  cf_identity :: string
  cf_adapter_file :: string
  cf_resync_file :: string
  cf_metrics :: metrics_config
  cf_cluster_account :: string
  cf_metrics_account :: string
  cf_metrics_ca :: string
  cf_metrics_insecure :: bool
  cf_notify_url :: string
  cf_notify_web :: string
  cf_notify_user :: string
  cf_notify_password :: credential
  cf_notify_ca :: string
  cf_event_retention :: duration
  cf_tombstone_retention :: duration
  cf_history_retention :: duration
  cf_stale :: duration
  cf_unavailable :: duration
  cf_batch :: int
  cf_spool_max :: int
  cf_rate :: int
  cf_burst :: int

definition credential_of :: "env \<Rightarrow> string \<Rightarrow> credential" where
  "credential_of env k = \<lparr>cr_value = env (key k), cr_file = env (key (k @ ''_FILE''))\<rparr>"

text \<open>The configuration before its checks, with the targets that were parsed.\<close>

definition read_config :: "(nat \<Rightarrow> nat \<Rightarrow> nat \<Rightarrow> nat) \<Rightarrow> env \<Rightarrow> target list \<Rightarrow> config" where
  "read_config fraction env targets =
     \<lparr>cf_role = value_or env (key ''ROLE'') ''api'',
      cf_listen = value_or env (key ''LISTEN'') '':8080'',
      cf_probe_listen = value_or env (key ''PROBE_LISTEN'') '':8081'',
      cf_database = env (key ''DATABASE_URL''),
      cf_cluster = env (key ''CLUSTER_NAME''),
      cf_api = value_or env (key ''API_URL'') ''http://icinga-kubernetes-api:8080'',
      cf_credentials = \<lparr>cs_collector = credential_of env ''COLLECTOR_TOKEN'', cs_reader = credential_of env ''READER_TOKEN'',
         cs_federation = credential_of env ''FEDERATION_TOKEN'', cs_admin = credential_of env ''ADMIN_TOKEN''\<rparr>,
      cf_targets = targets,
      cf_spool_path = value_or env (key ''SPOOL_PATH'') ''/var/lib/icinga-kubernetes/spool'',
      cf_lease_namespace = value_or env (key ''LEASE_NAMESPACE'') (value_or env ''POD_NAMESPACE'' ''icinga''),
      cf_identity = value_or env (key ''IDENTITY'') (value_or env ''HOSTNAME'' ''icinga-kubernetes''),
      cf_adapter_file = value_or env (key ''ADAPTER_FILE'') ''/etc/icinga-kubernetes/adapters.json'',
      cf_resync_file = value_or env (key ''RESYNC_FILE'') ''/etc/icinga-kubernetes/resync.json'',
      cf_metrics = \<lparr>mc_url = TrimRight (env (key ''METRICS_URL'')) ''/'', mc_namespace = env (key ''METRICS_NAMESPACE''),
         mc_token_file = env (key ''METRICS_TOKEN_FILE'')\<rparr>,
      cf_cluster_account = env (key ''CLUSTER_SERVICE_ACCOUNT''),
      cf_metrics_account = env (key ''METRICS_SERVICE_ACCOUNT''),
      cf_metrics_ca = env (key ''METRICS_CA_FILE''),
      cf_metrics_insecure = boolean_or env (key ''METRICS_INSECURE'') False,
      cf_notify_url = TrimRight (env (key ''NOTIFICATIONS_URL'')) ''/'',
      cf_notify_web = TrimRight (env (key ''NOTIFICATIONS_WEB_URL'')) ''/'',
      cf_notify_user = env (key ''NOTIFICATIONS_USERNAME''),
      cf_notify_password = credential_of env ''NOTIFICATIONS_PASSWORD'',
      cf_notify_ca = env (key ''NOTIFICATIONS_CA_FILE''),
      cf_event_retention = duration_or fraction env (key ''EVENT_RETENTION'') (seconds (7 * 24 * 3600)),
      cf_tombstone_retention = duration_or fraction env (key ''TOMBSTONE_RETENTION'') (seconds (7 * 24 * 3600)),
      cf_history_retention = duration_or fraction env (key ''HISTORY_RETENTION'') (seconds 3600),
      cf_stale = duration_or fraction env (key ''STALE_AFTER'') (seconds 30),
      cf_unavailable = duration_or fraction env (key ''UNAVAILABLE_AFTER'') (seconds 120),
      cf_batch = integer_or env (key ''BATCH_SIZE'') 250,
      cf_spool_max = integer_or env (key ''SPOOL_MAX_BYTES'') (4 * 2 ^ 30),
      cf_rate = integer_or env (key ''RATE_PER_SECOND'') 200,
      cf_burst = integer_or env (key ''RATE_BURST'') 400\<rparr>"

definition check_notifications :: "(string \<Rightarrow> url option) \<Rightarrow> config \<Rightarrow> config_error option" where
  "check_notifications parse c =
     (if cf_notify_url c \<noteq> [] then in_order
        [require (cf_notify_web c \<noteq> []) (NotificationOption ''NOTIFICATIONS_WEB_URL''),
         require (validateHTTPBaseURL parse (cf_notify_web c)) (BadAddress ''NOTIFICATIONS_WEB_URL''),
         require (cf_role c = ''worker'') (NotificationOption ''ROLE''),
         require (validateHTTPBaseURL parse (cf_notify_url c)) (BadAddress ''NOTIFICATIONS_URL''),
         require (cf_notify_user c \<noteq> []) (NotificationOption ''NOTIFICATIONS_USERNAME''),
         require ((cr_value (cf_notify_password c) = []) \<noteq> (cr_file (cf_notify_password c) = [])) (NotificationOption ''NOTIFICATIONS_PASSWORD'')]
      else require (cf_notify_user c = [] \<and> cr_value (cf_notify_password c) = [] \<and> cr_file (cf_notify_password c) = [] \<and> cf_notify_ca c = [])
        (NotificationOption ''NOTIFICATIONS_URL''))"

definition check_credentials :: "(string \<Rightarrow> string option) \<Rightarrow> config \<Rightarrow> config_error option" where
  "check_credentials files c =
     (let cs = cf_credentials c in in_order
        ((if cf_role c = ''api'' then
            map (\<lambda>(n, cr). require (validateCredential files cr) (BadCredential n))
              [(''collector'', cs_collector cs), (''reader'', cs_reader cs), (''federation'', cs_federation cs), (''admin'', cs_admin cs)]
          else [])
         @ [require (cf_role c = ''collector'' \<longrightarrow> validateCredential files (cs_collector cs)) (BadCredential ''collector'')]))"

definition check_config :: "(string \<Rightarrow> url option) \<Rightarrow> (string \<Rightarrow> string option) \<Rightarrow> config \<Rightarrow> config_error option" where
  "check_config parse files c = in_order
     [in_order (map (\<lambda>t. require (to_lower (tg_name t) \<noteq> to_lower (cf_cluster c)) (LocalTarget (tg_name t))) (cf_targets c)),
      require (cf_role c \<in> {''api'', ''worker'', ''collector'', ''migrate''}) (UnsupportedRole (cf_role c)),
      require (cf_cluster c \<noteq> []) ClusterNameRequired,
      require (cf_role c = ''collector'' \<longrightarrow> validateHTTPBaseURL parse (cf_api c)) (BadAddress ''API_URL''),
      require (mc_url (cf_metrics c) \<noteq> [] \<longrightarrow> validateHTTPBaseURL parse (mc_url (cf_metrics c))) (BadAddress ''METRICS_URL''),
      check_notifications parse c,
      require (cf_role c \<noteq> ''collector'' \<longrightarrow> cf_database c \<noteq> []) DatabaseRequired,
      check_credentials files c,
      require (cf_batch c \<le> 1000) BatchTooLarge,
      require (cf_stale c < cf_unavailable c) StaleNotShorter]"

definition Load_config :: "(nat \<Rightarrow> nat \<Rightarrow> nat \<Rightarrow> nat) \<Rightarrow> (string \<Rightarrow> url option) \<Rightarrow> (string \<Rightarrow> string option) \<Rightarrow> env \<Rightarrow> config_error + config" where
  "Load_config fraction parse files env =
     (case validateExplicitEnvironment fraction env of Some e \<Rightarrow> Inl e
      | None \<Rightarrow> (case parseFederationTargets parse (env (key ''FEDERATION_TARGETS'')) of Inl e \<Rightarrow> Inl e
          | Inr targets \<Rightarrow>
              let c = read_config fraction env targets
              in (case check_config parse files c of Some e \<Rightarrow> Inl e | None \<Rightarrow> Inr c)))"

section \<open>What Load accepts\<close>

text \<open>Targets: named differently even without case, with names and addresses within their bounds.\<close>

definition targets_ok :: "(string \<Rightarrow> url option) \<Rightarrow> target list \<Rightarrow> bool" where
  "targets_ok parse ts \<longleftrightarrow> length ts \<le> 64 \<and> distinct (map (\<lambda>t. to_lower (tg_name t)) ts)
     \<and> (\<forall>t \<in> set ts. cluster_pattern (tg_name t) \<and> length (tg_name t) \<le> 253 \<and> length (tg_url t) \<le> 2048
          \<and> (\<exists>u. tg_url t = TrimRight u ''/'' \<and> validateHTTPBaseURL parse u))"

lemma length_TrimRight: "length (TrimRight u cs) \<le> length u"
  unfolding TrimRight_def by (metis length_dropWhile_le length_rev)

lemma parse_targets_ok:
  assumes "parse_targets parse ts raws = Inr ts'" and "targets_ok parse ts"
  shows "targets_ok parse ts'"
  using assms
proof (induction parse ts raws rule: parse_targets.induct)
  case (2 parse ts raw raws)
  from "2.prems"(1) obtain n u where u: "split_two (CHR ''='') (TrimSpace raw) = (n, Some u)" "\<not> 64 \<le> length ts"
    "\<not> (length n > 253 \<or> \<not> cluster_pattern n \<or> u = [] \<or> length u > 2048)" "to_lower n \<notin> set (map (\<lambda>t. to_lower (tg_name t)) ts)"
    "validateHTTPBaseURL parse u" "parse_targets parse (ts @ [\<lparr>tg_name = n, tg_url = TrimRight u ''/''\<rparr>]) raws = Inr ts'"
    by (auto split: if_splits prod.splits option.splits)
  have "length (TrimRight u ''/'') \<le> 2048" using u(3) length_TrimRight [of u "''/''"] by linarith
  with u "2.prems"(2) have "targets_ok parse (ts @ [\<lparr>tg_name = n, tg_url = TrimRight u ''/''\<rparr>])"
    by (auto simp: targets_ok_def)
  from "2.IH" [OF u(2) u(1) [symmetric] refl u(3,4) _ u(6) this] u(5) show ?case by simp
qed simp

lemma parseFederationTargets_ok: "parseFederationTargets parse raw = Inr ts \<Longrightarrow> targets_ok parse ts"
  using parse_targets_ok [of parse "[]" "split_char (CHR '','') raw" ts]
  by (simp add: parseFederationTargets_def targets_ok_def split: if_splits)

lemma duration_or_positive:
  "env k = [] \<or> positive (ParseDuration fraction (env k)) \<Longrightarrow> 0 < fallback \<Longrightarrow> 0 < duration_or fraction env k fallback"
  by (auto simp: duration_or_def positive_def split: option.splits)

lemma integer_or_positive: "0 < fallback \<Longrightarrow> 0 < integer_or env k fallback"
  by (simp add: integer_or_def split: option.splits)

text \<open>C30: A configuration that \<open>Load\<close> accepts has a known role and a cluster name (of any length: nothing bounds it,
  \<open>long_cluster_refused\<close>), a batch size between 1 and 1000, positive retentions, rates and limits, a stale age
  below the unavailable one, at most 64 federation targets with different names none of which is the local
  cluster, a credential of every role for the API and the collector's for the collector, which also has the
  address of the API, while every other role has a database.\<close>

theorem config_valid:
  assumes "Load_config fraction parse files env = Inr c"
  shows "cf_role c \<in> {''api'', ''worker'', ''collector'', ''migrate''} \<and> cf_cluster c \<noteq> [] \<and> 1 \<le> cf_batch c \<and> cf_batch c \<le> 1000
    \<and> 0 < cf_stale c \<and> cf_stale c < cf_unavailable c
    \<and> 0 < cf_event_retention c \<and> 0 < cf_tombstone_retention c \<and> 0 < cf_history_retention c
    \<and> 0 < cf_spool_max c \<and> 0 < cf_rate c \<and> 0 < cf_burst c
    \<and> targets_ok parse (cf_targets c) \<and> (\<forall>t \<in> set (cf_targets c). to_lower (tg_name t) \<noteq> to_lower (cf_cluster c))
    \<and> (cf_role c = ''api'' \<longrightarrow> (\<forall>get \<in> {cs_collector, cs_reader, cs_federation, cs_admin}. validateCredential files (get (cf_credentials c))))
    \<and> (cf_role c = ''collector'' \<longrightarrow> validateHTTPBaseURL parse (cf_api c) \<and> validateCredential files (cs_collector (cf_credentials c)))
    \<and> (cf_role c \<noteq> ''collector'' \<longrightarrow> cf_database c \<noteq> [])"
proof -
  from assms obtain targets where env: "validateExplicitEnvironment fraction env = None"
    and targets: "parseFederationTargets parse (env (key ''FEDERATION_TARGETS'')) = Inr targets"
    and c: "c = read_config fraction env targets" and ok: "check_config parse files c = None"
    by (auto simp: Load_config_def Let_def split: option.splits sum.splits)
  have "env (key k) = [] \<or> positive (ParseDuration fraction (env (key k)))" if "k \<in> set duration_keys" for k
    using env that unfolding validateExplicitEnvironment_def in_order_None set_append ball_Un set_map ball_simps require_None by blast
  then have positive: "0 < duration_or fraction env (key k) fallback" if "k \<in> set duration_keys" "0 < fallback" for k fallback
    using that duration_or_positive by blast
  have durations: "0 < cf_event_retention c" "0 < cf_tombstone_retention c" "0 < cf_history_retention c" "0 < cf_stale c"
    by (simp_all add: c read_config_def positive duration_keys_def)
  have numbers: "0 < cf_batch c" "0 < cf_spool_max c" "0 < cf_rate c" "0 < cf_burst c"
    by (simp_all add: c read_config_def integer_or_positive)
  have ts: "targets_ok parse (cf_targets c)" using parseFederationTargets_ok [OF targets] by (simp add: c read_config_def)
  note parts = ok [unfolded check_config_def in_order_None]
  have local: "\<forall>t \<in> set (cf_targets c). to_lower (tg_name t) \<noteq> to_lower (cf_cluster c)"
    using parts by (simp add: passes)
  have basics: "cf_role c \<in> {''api'', ''worker'', ''collector'', ''migrate''}" "cf_cluster c \<noteq> []" "cf_batch c \<le> 1000"
    "cf_stale c < cf_unavailable c" "check_credentials files c = None"
    using parts by (simp_all add: require_None)
  have creds: "\<forall>get \<in> {cs_collector, cs_reader, cs_federation, cs_admin}. validateCredential files (get (cf_credentials c))"
    if "cf_role c = ''api''"
    using basics(5) that by (simp add: check_credentials_def passes Let_def)
  have collector: "validateHTTPBaseURL parse (cf_api c)" "validateCredential files (cs_collector (cf_credentials c))"
    if "cf_role c = ''collector''"
    using parts basics(5) that by (simp_all add: require_None check_credentials_def passes Let_def)
  have database: "cf_role c \<noteq> ''collector'' \<longrightarrow> cf_database c \<noteq> []" using parts by (simp add: require_None)
  show ?thesis using durations numbers ts local basics creds collector database by simp
qed

text \<open>The smallest environment of a worker; the name of its cluster is not checked further.\<close>

definition worker_env :: "string \<Rightarrow> env" where
  "worker_env cluster k = (if k = key ''ROLE'' then ''worker'' else if k = key ''CLUSTER_NAME'' then cluster
     else if k = key ''DATABASE_URL'' then ''db'' else [])"

lemma TrimSpace_Nil: "TrimSpace [] = []"
  using set_TrimSpace [of "[]"] by simp

lemma worker_loads:
  assumes "cluster \<noteq> []"
  shows "\<exists>c. Load_config fraction parse files (worker_env cluster) = Inr c \<and> cf_cluster c = cluster"
proof -
  have none: "worker_env cluster (key k) = []" if "k \<notin> {''ROLE'', ''CLUSTER_NAME'', ''DATABASE_URL''}" for k
    using that by (simp add: worker_env_def key_def)
  let ?c = "read_config fraction (worker_env cluster) []"
  have "validateExplicitEnvironment fraction (worker_env cluster) = None"
    by (auto simp: validateExplicitEnvironment_def passes none duration_keys_def integer_keys_def)
  moreover have "parseFederationTargets parse (worker_env cluster (key ''FEDERATION_TARGETS'')) = Inr []"
    by (simp add: none parseFederationTargets_def TrimSpace_Nil)
  moreover have c: "cf_role ?c = ''worker''" "cf_cluster ?c = cluster" "cf_database ?c = ''db''" "cf_targets ?c = []" "cf_batch ?c = 250"
      "mc_url (cf_metrics ?c) = []" "cf_notify_url ?c = []" "cf_notify_user ?c = []" "cf_notify_ca ?c = []"
      "cr_value (cf_notify_password ?c) = []" "cr_file (cf_notify_password ?c) = []" "cf_stale ?c < cf_unavailable ?c"
    by (simp_all add: read_config_def none value_or_def integer_or_def duration_or_def credential_of_def TrimRight_def)
      (simp_all add: worker_env_def key_def)
  have "check_config parse files ?c = None"
    unfolding check_config_def in_order_None
    by (simp add: passes c check_notifications_def check_credentials_def Let_def assms)
  ultimately show ?thesis using c(2) by (simp add: Load_config_def Let_def)
qed

lemma config_valid_witness:
  "\<exists>c. Load_config (\<lambda>_ _ _. 0) (\<lambda>_. None) (\<lambda>_. None) (worker_env ''prod'') = Inr c \<and> cf_batch c \<le> 1000 \<and> cf_stale c < cf_unavailable c"
proof -
  obtain c where "Load_config (\<lambda>_ _ _. 0) (\<lambda>_. None) (\<lambda>_. None) (worker_env ''prod'') = Inr c"
    using worker_loads [of "''prod''"] by blast
  with config_valid [OF this] show ?thesis by blast
qed

text \<open>A cluster name of more than 253 bytes is accepted although every batch that carries it is refused.\<close>

lemma long_cluster_refused:
  assumes "length cluster > 253"
  shows "(\<exists>c. Load_config fraction parse files (worker_env cluster) = Inr c \<and> cf_cluster c = cluster)
    \<and> (\<forall>b. b_cluster b = cluster \<longrightarrow> Validate uuid_ok b = Some BatchCluster)"
proof -
  have "cluster \<noteq> []" using assms by auto
  with worker_loads assms show ?thesis by (simp add: Validate_def)
qed

text \<open>With a value and a readable but blank file, a credential passes the check and accepts no token.\<close>

lemma blank_file_locks_out:
  assumes "cr_value c \<noteq> []" and "cr_file c \<noteq> []" and "files (cr_file c) = Some b" and "TrimSpace b = []"
  shows "validateCredential files c \<and> token files c = []"
  using assms by (simp add: validateCredential_def token_def)

end
