(* ===== verification/Roles.thy ===== *)
theory Roles
  imports Configuration StoreRuns
begin

text \<open>
  The roles of a process: the loop of \<open>internal/v2/worker/worker.go\<close>, the counters and probes of
  \<open>internal/v2/operational/operational.go\<close>, the choice of role and its shutdown in
  \<open>cmd/icinga-kubernetes/main.go\<close>, the tracing setup of \<open>internal/v2/telemetry/telemetry.go\<close> and the schema
  migration of \<open>internal/v2/store/migrate.go\<close>.
\<close>

section \<open>Operational metrics\<close>

record role_metrics =
  rm_ready :: bool
  rm_processed :: nat
  rm_errors :: nat
  rm_spooled :: nat
  rm_replayed :: nat
  rm_backpressure :: nat
  rm_resyncs :: nat
  rm_shards :: int
  rm_leases :: int
  rm_files :: int
  rm_bytes :: int
  rm_blocked :: bool
  rm_last_success :: int

definition new_role_metrics :: role_metrics where
  "new_role_metrics = \<lparr>rm_ready = False, rm_processed = 0, rm_errors = 0, rm_spooled = 0, rm_replayed = 0, rm_backpressure = 0,
     rm_resyncs = 0, rm_shards = 0, rm_leases = 0, rm_files = 0, rm_bytes = 0, rm_blocked = False, rm_last_success = 0\<rparr>"

definition Success :: "time \<Rightarrow> role_metrics \<Rightarrow> role_metrics" where
  "Success now m = m\<lparr>rm_last_success := now div 10 ^ 9\<rparr>"

definition Processed :: "time \<Rightarrow> nat \<Rightarrow> role_metrics \<Rightarrow> role_metrics" where
  "Processed now n m = Success now (m\<lparr>rm_processed := rm_processed m + n\<rparr>)"

definition SetReady :: "bool \<Rightarrow> role_metrics \<Rightarrow> role_metrics" where "SetReady b m = m\<lparr>rm_ready := b\<rparr>"
definition CountError :: "role_metrics \<Rightarrow> role_metrics" where "CountError m = m\<lparr>rm_errors := rm_errors m + 1\<rparr>"

definition Spooled :: "int \<Rightarrow> role_metrics \<Rightarrow> role_metrics" where
  "Spooled n m = m\<lparr>rm_spooled := rm_spooled m + 1, rm_files := rm_files m + 1, rm_bytes := rm_bytes m + n\<rparr>"

definition Replayed :: "time \<Rightarrow> int \<Rightarrow> role_metrics \<Rightarrow> role_metrics" where
  "Replayed now n m = Success now (m\<lparr>rm_blocked := False, rm_replayed := rm_replayed m + 1,
     rm_files := rm_files m - 1, rm_bytes := rm_bytes m - n\<rparr>)"

definition SetSpoolBlocked :: "bool \<Rightarrow> role_metrics \<Rightarrow> role_metrics" where "SetSpoolBlocked b m = m\<lparr>rm_blocked := b\<rparr>"
definition Backpressure :: "role_metrics \<Rightarrow> role_metrics" where "Backpressure m = m\<lparr>rm_backpressure := rm_backpressure m + 1\<rparr>"
definition Resync :: "role_metrics \<Rightarrow> role_metrics" where "Resync m = m\<lparr>rm_resyncs := rm_resyncs m + 1\<rparr>"
definition SetActiveShards :: "int \<Rightarrow> role_metrics \<Rightarrow> role_metrics" where "SetActiveShards n m = m\<lparr>rm_shards := n\<rparr>"
definition LeaseAcquired :: "role_metrics \<Rightarrow> role_metrics" where "LeaseAcquired m = m\<lparr>rm_leases := rm_leases m + 1\<rparr>"
definition LeaseReleased :: "role_metrics \<Rightarrow> role_metrics" where "LeaseReleased m = m\<lparr>rm_leases := rm_leases m - 1\<rparr>"
definition SetSpool :: "int \<Rightarrow> int \<Rightarrow> role_metrics \<Rightarrow> role_metrics" where
  "SetSpool files bytes m = m\<lparr>rm_files := files, rm_bytes := bytes\<rparr>"

text \<open>The readiness probe and the samples of the metrics page.\<close>

definition probe :: "string \<Rightarrow> role_metrics \<Rightarrow> int" where
  "probe path m = (if path = ''/health/live'' then 200 else if path = ''/health/ready'' then (if rm_ready m then 200 else 503)
     else if path = ''/metrics'' then 200 else 404)"

definition boolNumber :: "bool \<Rightarrow> int" where "boolNumber b = (if b then 1 else 0)"

definition role_samples :: "string \<Rightarrow> duration \<Rightarrow> role_metrics \<Rightarrow> sample list" where
  "role_samples role uptime m =
     [Count ''icinga_kubernetes_collector_spool_blocked'' [] (boolNumber (rm_blocked m)),
      Count ''icinga_kubernetes_role_ready'' role (boolNumber (rm_ready m)),
      Seconds ''icinga_kubernetes_role_uptime_seconds'' uptime,
      Count ''icinga_kubernetes_role_processed_total'' role (int (rm_processed m)),
      Count ''icinga_kubernetes_role_errors_total'' role (int (rm_errors m)),
      Count ''icinga_kubernetes_role_last_success_timestamp_seconds'' role (rm_last_success m),
      Count ''icinga_kubernetes_collector_active_shards'' [] (rm_shards m),
      Count ''icinga_kubernetes_collector_active_leases'' [] (rm_leases m),
      Count ''icinga_kubernetes_collector_spooled_batches_total'' [] (int (rm_spooled m)),
      Count ''icinga_kubernetes_collector_replayed_batches_total'' [] (int (rm_replayed m)),
      Count ''icinga_kubernetes_collector_backpressure_total'' [] (int (rm_backpressure m)),
      Count ''icinga_kubernetes_collector_resync_total'' [] (int (rm_resyncs m)),
      Count ''icinga_kubernetes_collector_spool_files'' [] (rm_files m),
      Count ''icinga_kubernetes_collector_spool_bytes'' [] (rm_bytes m)]"

section \<open>The worker\<close>

record intervals =
  iv_cleanup :: duration
  iv_idle :: duration
  iv_retry :: duration
  iv_operation :: duration

definition productionIntervals :: intervals where
  "productionIntervals = \<lparr>iv_cleanup = seconds 600, iv_idle = 250 * 10 ^ 6, iv_retry = seconds 1, iv_operation = 0\<rparr>"

definition applyShardSize :: int where "applyShardSize = 8"

text \<open>
  A round of the loop: which channel was ready and what the store did. \<open>failed\<close> is \<open>None\<close> without an error.
\<close>

datatype wake =
    CleanupDue bool
  | EventsDue bool
  | IdleDue nat bool

text \<open>The metrics, and the time after which the idle timer fires, if it is armed.\<close>

record worker_loop =
  wl_metrics :: role_metrics
  wl_timer :: "duration option"

definition worker_start :: "role_metrics \<Rightarrow> worker_loop" where
  "worker_start m = \<lparr>wl_metrics = SetReady False m, wl_timer = Some 0\<rparr>"

definition worker_round :: "intervals \<Rightarrow> time \<Rightarrow> wake \<Rightarrow> worker_loop \<Rightarrow> worker_loop" where
  "worker_round waits now w s =
     (case w of
        CleanupDue failed \<Rightarrow> if failed then s\<lparr>wl_metrics := CountError (wl_metrics s)\<rparr> else s
      | EventsDue failed \<Rightarrow> if failed then s\<lparr>wl_metrics := CountError (wl_metrics s)\<rparr> else s
      | IdleDue processed failed \<Rightarrow>
          let m = (if processed > 0 then Processed now processed (wl_metrics s) else wl_metrics s)
          in if failed then \<lparr>wl_metrics = CountError (SetReady False m), wl_timer = Some (if processed > 0 then 0 else iv_retry waits)\<rparr>
             else \<lparr>wl_metrics = SetReady True m, wl_timer = Some (if processed > 0 then 0 else iv_idle waits)\<rparr>)"

text \<open>The end of the loop: the process is no longer ready, and the timer is stopped.\<close>

definition worker_stop :: "worker_loop \<Rightarrow> worker_loop" where
  "worker_stop s = \<lparr>wl_metrics = SetReady False (wl_metrics s), wl_timer = None\<rparr>"

text \<open>The loop against the store: what a round does to the tables.\<close>

inductive worker_step :: "intervals \<Rightarrow> config \<Rightarrow> wake \<Rightarrow> worker_loop \<times> db \<Rightarrow> worker_loop \<times> db \<Rightarrow> bool" for waits cfg where
  cleaning: "worker_step waits cfg (CleanupDue False) (s, d) (worker_round waits now (CleanupDue False) s,
     Cleanup acquired clk (cf_event_retention cfg) (cf_tombstone_retention cfg) (cf_history_retention cfg) (cf_unavailable cfg) d)"
| recovering: "worker_step waits cfg (EventsDue False) (s, d) (worker_round waits now (EventsDue False) s, ResolveEvents parse now rows locked d)"
| applying: "ApplyShard parse wall clk locked applyShardSize d = Inr (n, failure, d') \<Longrightarrow> w = IdleDue n (failure \<noteq> None) \<Longrightarrow>
     worker_step waits cfg w (s, d) (worker_round waits now w s, d')"
| failing: "w \<in> {CleanupDue True, EventsDue True, IdleDue 0 True} \<Longrightarrow> worker_step waits cfg w (s, d) (worker_round waits now w s, d)"

inductive_cases worker_stepE: "worker_step waits cfg w (s, d) (s', d')"

text \<open>The rounds a worker has run since it was started.\<close>

inductive worker_run :: "intervals \<Rightarrow> config \<Rightarrow> role_metrics \<Rightarrow> db \<Rightarrow> wake list \<Rightarrow> worker_loop \<Rightarrow> db \<Rightarrow> bool" for waits cfg m d0 where
  run_start: "worker_run waits cfg m d0 [] (worker_start m) d0"
| run_round: "worker_run waits cfg m d0 ws s d \<Longrightarrow> worker_step waits cfg w (s, d) (s', d') \<Longrightarrow> worker_run waits cfg m d0 (ws @ [w]) s' d'"

text \<open>The attempts to apply events among them, each with the number it applied and whether it failed.\<close>

fun attempts :: "wake list \<Rightarrow> (nat \<times> bool) list" where
  "attempts [] = []"
| "attempts (IdleDue n broke # ws) = (n, broke) # attempts ws"
| "attempts (_ # ws) = attempts ws"

fun wake_failed :: "wake \<Rightarrow> bool" where
  "wake_failed (CleanupDue broke) = broke"
| "wake_failed (EventsDue broke) = broke"
| "wake_failed (IdleDue _ broke) = broke"

definition pause :: "intervals \<Rightarrow> nat \<times> bool \<Rightarrow> duration" where
  "pause waits x = (if fst x > 0 then 0 else if snd x then iv_retry waits else iv_idle waits)"

lemma attempts_append: "attempts (ws @ vs) = attempts ws @ attempts vs"
  by (induction ws rule: attempts.induct) simp_all

text \<open>A round of the worker is a step of the store or leaves it as it is, and is the round of its wake.\<close>

lemma worker_refines_store:
  assumes "worker_step waits cfg w (s, d) (s', d')"
  shows "store_step\<^sup>*\<^sup>* d d' \<and> (\<exists>now. s' = worker_round waits now w s)"
  using assms by (cases rule: worker_stepE) (auto intro: store_step.intros)

lemmas round_defs = worker_round_def Let_def SetReady_def CountError_def Processed_def Success_def pause_def

text \<open>C28: The worker never stalls and tells the truth: whatever rounds it has run, and whether they failed or not,
  its next attempt to apply events is due at once after one that applied something, and within the retry
  or the idle interval after one that failed or found nothing; it is ready exactly when it has made an
  attempt and the last one succeeded, whatever the cleanups and recoveries in between did, and never after
  it has stopped. Its counters are the events it applied and the rounds that failed, and all its rounds
  together are transactions of the store.\<close>

theorem worker_never_stalls:
  assumes "worker_run waits cfg m d0 ws s d"
  shows "wl_timer s = Some (if attempts ws = [] then 0 else pause waits (last (attempts ws)))
    \<and> rm_ready (wl_metrics s) = (attempts ws \<noteq> [] \<and> \<not> snd (last (attempts ws)))
    \<and> rm_processed (wl_metrics s) = rm_processed m + sum_list (map fst (attempts ws))
    \<and> rm_errors (wl_metrics s) = rm_errors m + length (filter wake_failed ws)
    \<and> store_step\<^sup>*\<^sup>* d0 d
    \<and> \<not> rm_ready (wl_metrics (worker_stop s))"
  using assms
proof (induction rule: worker_run.induct)
  case run_start
  show ?case by (simp add: worker_start_def worker_stop_def SetReady_def)
next
  case (run_round ws s d w s' d')
  from worker_refines_store [OF run_round.hyps(2)] obtain now where
    step: "store_step\<^sup>*\<^sup>* d d'" and s': "s' = worker_round waits now w s" by blast
  have "store_step\<^sup>*\<^sup>* d0 d'" using run_round.IH step by (meson rtranclp_trans)
  with run_round.IH show ?case unfolding s'
    by (cases w) (auto simp: round_defs attempts_append worker_stop_def)
qed

lemma worker_never_stalls_witness:
  "let s = worker_round productionIntervals 0 (CleanupDue True) (worker_round productionIntervals 0 (IdleDue 0 True)
       (worker_start new_role_metrics))
   in wl_timer s = Some (seconds 1) \<and> \<not> rm_ready (wl_metrics s) \<and> rm_errors (wl_metrics s) = 2"
proof -
  define cfg where "cfg = read_config (\<lambda>_ _ _. 0) (worker_env ''prod'') []"
  define first where "first = worker_round productionIntervals 0 (IdleDue 0 True) (worker_start new_role_metrics)"
  have "worker_run productionIntervals cfg new_role_metrics empty_db ([] @ [IdleDue 0 True]) first empty_db"
    unfolding first_def by (rule run_round [OF run_start], rule failing) simp
  then have "worker_run productionIntervals cfg new_role_metrics empty_db (([] @ [IdleDue 0 True]) @ [CleanupDue True])
      (worker_round productionIntervals 0 (CleanupDue True) first) empty_db"
    by (rule run_round, intro failing) simp
  from worker_never_stalls [OF this] show ?thesis
    by (simp add: first_def pause_def productionIntervals_def new_role_metrics_def)
qed

section \<open>Choosing a role\<close>

text \<open>How a part of a process ended.\<close>

datatype ending = Finished | Cancelled | Broken string

definition failed :: "ending \<Rightarrow> bool" where
  "failed e \<longleftrightarrow> (case e of Broken _ \<Rightarrow> True | _ \<Rightarrow> False)"

text \<open>\<open>operational.Run\<close>: the first event decides; \<open>shutdown\<close> is the result of stopping the probe server.\<close>

datatype first_event = Signalled | Ended ending

definition operational_run :: "first_event \<Rightarrow> ending \<Rightarrow> ending" where
  "operational_run e shutdown = (case e of Ended x \<Rightarrow> if failed x then x else shutdown | Signalled \<Rightarrow> shutdown)"

text \<open>\<open>runWorkerAndNotifier\<close>: both parts end, the one that ends first cancels the other.\<close>

definition runWorkerAndNotifier :: "ending \<Rightarrow> ending \<Rightarrow> ending" where
  "runWorkerAndNotifier first second = (if \<not> failed first \<and> failed second then second else first)"

definition serve :: "bool \<Rightarrow> ending \<Rightarrow> bool \<Rightarrow> ending \<Rightarrow> ending" where
  "serve signalled shutdown closed ended = (if signalled then shutdown else if closed then Finished else ended)"

text \<open>What \<open>run\<close> starts for a configuration, with the connections its database pool may open.\<close>

datatype job =
    CollectorJob
  | MigrateJob nat
  | ServeJob nat
  | WorkerJob nat bool
  | Unsupported

definition role_job :: "config \<Rightarrow> job" where
  "role_job cfg =
     (if cf_role cfg = ''collector'' then CollectorJob
      else let connections = (if cf_role cfg = ''api'' then 16 else 30) in
      if cf_role cfg = ''migrate'' then MigrateJob connections
      else if cf_role cfg = ''api'' then ServeJob connections
      else if cf_role cfg = ''worker'' then WorkerJob connections (cf_notify_url cfg \<noteq> [])
      else Unsupported)"

text \<open>A real failure of one part of a worker is never masked by the cancellation it causes in the other, and a
  process whose configuration was accepted always has a job.\<close>

theorem failure_not_masked:
  "(failed (runWorkerAndNotifier a b) \<longleftrightarrow> failed a \<or> failed b)
   \<and> (Load_config fraction parse files env = Inr c \<longrightarrow> role_job c \<noteq> Unsupported)"
proof -
  have "role_job c \<noteq> Unsupported" if "Load_config fraction parse files env = Inr c"
  proof -
    from that have "check_config parse files c = None" by (auto simp: Load_config_def Let_def split: option.splits sum.splits)
    then have "cf_role c \<in> {''api'', ''worker'', ''collector'', ''migrate''}" by (simp add: check_config_def passes)
    then show ?thesis by (auto simp: role_job_def Let_def)
  qed
  then show ?thesis by (auto simp: runWorkerAndNotifier_def)
qed

lemma failure_not_masked_witness: "\<exists>c. role_job c \<noteq> Unsupported \<and> failed (runWorkerAndNotifier Cancelled (Broken ''db''))"
proof -
  obtain c where "Load_config (\<lambda>_ _ _. 0) (\<lambda>_. None) (\<lambda>_. None) (worker_env ''prod'') = Inr c"
    using worker_loads [of "''prod''"] by blast
  with failure_not_masked [of Cancelled "Broken ''db''"] show ?thesis by (metis ending.case(3) failed_def)
qed

section \<open>Tracing\<close>

datatype tracing = TracingOff | TracingError | TracingOn

text \<open>\<open>Setup\<close>; \<open>exporter\<close> and \<open>resource\<close> say whether they could be created.\<close>

definition telemetry_setup :: "env \<Rightarrow> bool \<Rightarrow> bool \<Rightarrow> tracing" where
  "telemetry_setup env exporter resource =
     (let choice = TrimSpace (to_lower (env ''OTEL_TRACES_EXPORTER''));
          traces = TrimSpace (to_lower (env ''OTEL_EXPORTER_OTLP_TRACES_PROTOCOL''));
          protocol = (if traces = [] then TrimSpace (to_lower (env ''OTEL_EXPORTER_OTLP_PROTOCOL'')) else traces) in
      if choice = [] \<or> choice = ''none'' then TracingOff
      else if choice \<noteq> ''otlp'' then TracingError
      else if protocol \<noteq> [] \<and> protocol \<noteq> ''http/protobuf'' then TracingError
      else if \<not> exporter \<or> \<not> resource then TracingError
      else TracingOn)"

section \<open>Migration\<close>

text \<open>
  The part of the schema the code looks at: the versions recorded, if the table exists, whether other
  tables exist, the validity of the tombstone index, the watermark column and the vacuum settings.
\<close>

record schema =
  sc_versions :: "nat list option"
  sc_tables :: bool
  sc_index :: "bool option"
  sc_watermark :: bool
  sc_vacuum :: bool

datatype schema_error = UnsupportedVersion nat | InvalidIndex | NotEmpty | NoSchema | WatermarkMissing

definition schema_version :: "nat list \<Rightarrow> nat" where
  "schema_version vs = fold max vs 0"

text \<open>The initial migration in one transaction.\<close>

definition initial_migration :: "schema \<Rightarrow> schema option" where
  "initial_migration s = (if sc_tables s then None
     else Some \<lparr>sc_versions = Some [1], sc_tables = True, sc_index = Some True, sc_watermark = True, sc_vacuum = True\<rparr>)"

definition Migrate :: "schema \<Rightarrow> schema_error + schema" where
  "Migrate s =
     (case sc_versions s of
        None \<Rightarrow> (case initial_migration s of None \<Rightarrow> Inl NotEmpty | Some s' \<Rightarrow> Inr s')
      | Some vs \<Rightarrow>
          if schema_version vs \<noteq> 1 then Inl (UnsupportedVersion (schema_version vs))
          else let s = (if sc_index s = None then s\<lparr>sc_index := Some True\<rparr> else s)
            in if sc_index s = Some False then Inl InvalidIndex
               else Inr (s\<lparr>sc_watermark := True, sc_vacuum := True\<rparr>))"

definition CheckSchema :: "schema \<Rightarrow> schema_error option" where
  "CheckSchema s = (case sc_versions s of None \<Rightarrow> Some NoSchema
     | Some vs \<Rightarrow> if schema_version vs \<noteq> 1 then Some (UnsupportedVersion (schema_version vs))
                else if \<not> sc_watermark s then Some WatermarkMissing else None)"

text \<open>After the migrate role has succeeded every other role accepts the schema, running it again changes
  nothing, and it refuses a database of another version, with foreign tables or a broken index
  instead of changing it.\<close>

theorem migrate_sound:
  assumes "Migrate s = Inr s'"
  shows "CheckSchema s' = None \<and> sc_index s' = Some True \<and> Migrate s' = Inr s'
    \<and> (sc_versions s = None \<longrightarrow> \<not> sc_tables s) \<and> (\<forall>vs. sc_versions s = Some vs \<longrightarrow> schema_version vs = 1 \<and> sc_index s \<noteq> Some False)"
  using assms
  by (auto simp: Migrate_def CheckSchema_def initial_migration_def schema_version_def Let_def split: option.splits if_splits)

lemma migrate_sound_witness:
  "\<exists>s'. Migrate \<lparr>sc_versions = None, sc_tables = False, sc_index = None, sc_watermark = False, sc_vacuum = False\<rparr> = Inr s'
    \<and> CheckSchema s' = None"
proof -
  obtain s' where "Migrate \<lparr>sc_versions = None, sc_tables = False, sc_index = None, sc_watermark = False, sc_vacuum = False\<rparr> = Inr s'"
    by (simp add: Migrate_def initial_migration_def)
  with migrate_sound [OF this] show ?thesis by blast
qed

end
