(* ===== verification/Leases.thy ===== *)
theory Leases
  imports Watch Roles
begin

text \<open>
  The goroutines of \<open>internal/v2/collector/collector.go\<close>: one runs \<open>runShard\<close> for each shard, leads it while the
  election says so and then runs \<open>watchNamespaces\<close>, which the discovery loop wakes through the
  \<open>shardState\<close>: the namespaces wanted, behind a lock, and a channel of capacity one. They all share the metrics.
  The election is \<open>client-go\<close>'s; every outcome of it is a step.
\<close>

section \<open>The lease of a shard\<close>

text \<open>\<open>name\<close> is the text of the group, version and resource; the lease is named after eight bytes of a digest.\<close>

definition lease_name :: "string \<Rightarrow> nat \<Rightarrow> string" where
  "lease_name name part = ''icinga-kubernetes-'' @ hex (take 8 (sha256 (name @ ''#'' @ nat_str part)))"

lemma lease_name_valid:
  "length (lease_name name part) = 34 \<and> list_all (\<lambda>c. letter c \<or> digit c \<or> c = CHR ''-'') (lease_name name part)"
proof -
  have digits: "letter (hex_digit n) \<or> digit (hex_digit n)" if "n < 16" for n
    using that by (auto simp: letter_def digit_def hex_digit_def less_eq_char_def of_char_mod_256)
  have "letter c \<or> digit c" if "c \<in> set (hex bs)" for c bs
  proof -
    from that obtain b where "b \<in> set bs" "c \<in> set (hex_byte b)" by (auto simp: hex_def)
    moreover have "unat b < 256" for b :: byte using unsigned_less [of b, where ?'a = nat] by simp
    ultimately show ?thesis
      using digits [of "unat b div 16"] digits [of "unat b mod 16"] by (auto simp: hex_byte_def less_mult_imp_div_less)
  qed
  moreover have "length (take 8 (sha256 s)) = 8" for s by simp
  ultimately show ?thesis by (auto simp: lease_name_def list_all_iff letter_def digit_def less_eq_char_def)
qed

section \<open>The goroutines of a shard\<close>

text \<open>
  \<open>watchNamespaces\<close> of one leadership: \<open>ld_stopping\<close> says that its context is done, which it notices only when it
  waits. \<open>client-go\<close> starts it in a goroutine of its own and does not wait for it when the lease is lost.
\<close>

datatype phase = Starting | Syncing | Applying "string list" | Waiting

record leader =
  ld_phase :: phase
  ld_watchers :: "string list"
  ld_stopping :: bool

text \<open>\<open>runShard\<close> with its \<open>shardState\<close>: \<open>sr_changed\<close> is the channel of capacity one, \<open>sr_storing\<close> holds in the middle of an \<open>update\<close>.\<close>

datatype election = Electing | Elected | Ended

record shard_run =
  sr_gvr :: gvr
  sr_wanted :: "string list"
  sr_storing :: bool
  sr_changed :: bool
  sr_cancelled :: bool
  sr_election :: election
  sr_leaders :: "leader list"

definition newShardState :: "gvr \<Rightarrow> string list \<Rightarrow> shard_run" where
  "newShardState g wanted = \<lparr>sr_gvr = g, sr_wanted = wanted, sr_storing = False, sr_changed = False, sr_cancelled = False,
     sr_election = Electing, sr_leaders = []\<rparr>"

text \<open>\<open>update\<close>: the namespaces are replaced under the lock, then a token is put into the channel unless it is full.\<close>

definition store_namespaces :: "string list \<Rightarrow> shard_run \<Rightarrow> shard_run" where
  "store_namespaces wanted r = r\<lparr>sr_wanted := wanted, sr_storing := True\<rparr>"

definition signal_change :: "shard_run \<Rightarrow> shard_run" where
  "signal_change r = r\<lparr>sr_changed := True, sr_storing := False\<rparr>"

text \<open>What the discovery loop does to a shard: \<open>update\<close> in its two steps, or cancelling it.\<close>

inductive owner_step :: "shard_run \<Rightarrow> shard_run \<Rightarrow> bool" where
  storing: "\<not> sr_storing r \<Longrightarrow> owner_step r (store_namespaces wanted r)"
| signalling: "sr_storing r \<Longrightarrow> owner_step r (signal_change r)"
| cancelling: "owner_step r (r\<lparr>sr_cancelled := True\<rparr>)"

text \<open>The steps of \<open>watchNamespaces\<close>, with what it hands to \<open>Reconcile\<close>; in the end it is gone.\<close>

definition new_leader :: leader where
  "new_leader = \<lparr>ld_phase = Starting, ld_watchers = [], ld_stopping = False\<rparr>"

definition stop_leader :: "leader \<Rightarrow> leader" where
  "stop_leader l = l\<lparr>ld_stopping := True\<rparr>"

inductive leader_step :: "collector_env \<Rightarrow> shard_run \<times> role_metrics \<Rightarrow> leader \<Rightarrow> ingest_batch list
    \<Rightarrow> leader option \<Rightarrow> shard_run \<times> role_metrics \<Rightarrow> bool" for c where
  acquired: "ld_phase l = Starting \<Longrightarrow> leader_step c (r, m) l [] (Some (l\<lparr>ld_phase := Syncing\<rparr>)) (r, LeaseAcquired m)"
| snapshot: "ld_phase l = Syncing \<Longrightarrow> leader_step c (r, m) l [] (Some (l\<lparr>ld_phase := Applying (sr_wanted r)\<rparr>)) (r, m)"
| applied: "ld_phase l = Applying wanted \<Longrightarrow> sync_watchers c (sr_gvr r) wanted now (ld_watchers l) = (running, markers) \<Longrightarrow>
     leader_step c (r, m) l markers (Some (l\<lparr>ld_phase := Waiting, ld_watchers := running\<rparr>)) (r, m)"
| woken: "ld_phase l = Waiting \<Longrightarrow> sr_changed r \<Longrightarrow>
     leader_step c (r, m) l [] (Some (l\<lparr>ld_phase := Syncing\<rparr>)) (r\<lparr>sr_changed := False\<rparr>, m)"
| released: "ld_phase l = Waiting \<Longrightarrow> ld_stopping l \<Longrightarrow> leader_step c (r, m) l [] None (r, LeaseReleased m)"

text \<open>
  The steps of \<open>runShard\<close>. The wait of five seconds before the next election is no rule: \<open>runShard\<close> does not wait for
  the goroutine of the leadership before, so a shard can be led again while that goroutine is still there.
\<close>

inductive run_step :: "shard_run \<times> role_metrics \<Rightarrow> shard_run \<times> role_metrics \<Rightarrow> bool" where
  elected: "sr_election r = Electing \<Longrightarrow> \<not> sr_cancelled r \<Longrightarrow>
     run_step (r, m) (r\<lparr>sr_election := Elected, sr_leaders := sr_leaders r @ [new_leader]\<rparr>, m)"
| rejected: "sr_election r = Electing \<Longrightarrow> \<not> sr_cancelled r \<Longrightarrow> run_step (r, m) (r, CountError m)"
| lost: "sr_election r = Elected \<Longrightarrow> \<not> sr_cancelled r \<Longrightarrow>
     run_step (r, m) (r\<lparr>sr_election := Electing, sr_leaders := map stop_leader (sr_leaders r)\<rparr>, CountError m)"
| ended: "sr_cancelled r \<Longrightarrow> run_step (r, m) (r\<lparr>sr_election := Ended, sr_leaders := map stop_leader (sr_leaders r)\<rparr>, m)"

section \<open>All shards of a process\<close>

record leases =
  ls_runs :: "shard_run list"
  ls_metrics :: role_metrics
  ls_sent :: "ingest_batch list"

definition replace_leader :: "nat \<Rightarrow> leader option \<Rightarrow> shard_run \<Rightarrow> shard_run" where
  "replace_leader j l r = r\<lparr>sr_leaders := take j (sr_leaders r) @ (case l of None \<Rightarrow> [] | Some l \<Rightarrow> [l]) @ drop (Suc j) (sr_leaders r)\<rparr>"

inductive leases_step :: "collector_env \<Rightarrow> leases \<Rightarrow> leases \<Rightarrow> bool" for c where
  started: "leases_step c s (s\<lparr>ls_runs := ls_runs s @ [newShardState g wanted]\<rparr>)"
| owned: "i < length (ls_runs s) \<Longrightarrow> owner_step (ls_runs s ! i) r \<Longrightarrow> leases_step c s (s\<lparr>ls_runs := (ls_runs s)[i := r]\<rparr>)"
| ran: "i < length (ls_runs s) \<Longrightarrow> run_step (ls_runs s ! i, ls_metrics s) (r, m) \<Longrightarrow>
     leases_step c s (s\<lparr>ls_runs := (ls_runs s)[i := r], ls_metrics := m\<rparr>)"
| led: "i < length (ls_runs s) \<Longrightarrow> j < length (sr_leaders (ls_runs s ! i)) \<Longrightarrow>
     leader_step c (ls_runs s ! i, ls_metrics s) (sr_leaders (ls_runs s ! i) ! j) bs l (r, m) \<Longrightarrow>
     leases_step c s \<lparr>ls_runs = (ls_runs s)[i := replace_leader j l r], ls_metrics = m, ls_sent = ls_sent s @ bs\<rparr>"

definition no_leases :: "leases \<Rightarrow> bool" where
  "no_leases s \<longleftrightarrow> ls_runs s = [] \<and> rm_leases (ls_metrics s) = 0 \<and> ls_sent s = []"

inductive_cases owner_stepE: "owner_step r r'"
inductive_cases run_stepE: "run_step (r, m) (r', m')"
inductive_cases leader_stepE: "leader_step c (r, m) l bs l' (r', m')"

section \<open>Counting the leases\<close>

definition holding :: "leader \<Rightarrow> bool" where "holding l \<longleftrightarrow> ld_phase l \<noteq> Starting"

definition held :: "shard_run \<Rightarrow> nat" where "held r = length (filter holding (sr_leaders r))"

definition leases_held :: "leases \<Rightarrow> nat" where "leases_held s = sum_list (map held (ls_runs s))"

lemma sum_list_update: "i < length xs \<Longrightarrow> sum_list (map f (xs[i := x])) + f (xs ! i) = sum_list (map f xs) + (f x :: nat)"
  by (induction xs arbitrary: i) (auto split: nat.split simp: nth_Cons)

lemma held_simps [simp]:
  "held (store_namespaces w r) = held r" "held (signal_change r) = held r" "held (r\<lparr>sr_cancelled := b\<rparr>) = held r"
  "held (r\<lparr>sr_changed := b\<rparr>) = held r" "held (newShardState g w) = 0"
  "held (r\<lparr>sr_election := e, sr_leaders := ls\<rparr>) = length (filter holding ls)"
  by (simp_all add: held_def store_namespaces_def signal_change_def newShardState_def)

lemma holding_stop [simp]: "holding \<circ> stop_leader = holding"
  by (rule ext) (simp add: holding_def stop_leader_def)

lemma held_stop [simp]: "length (filter holding (map stop_leader ls)) = length (filter holding ls)"
  by (simp add: filter_map)

lemma held_replace:
  assumes "j < length (sr_leaders r)"
  shows "held (replace_leader j l r) + (if holding (sr_leaders r ! j) then 1 else 0)
    = held r + (case l of None \<Rightarrow> 0 | Some l \<Rightarrow> if holding l then 1 else 0)"
proof -
  have "sr_leaders r = take j (sr_leaders r) @ [sr_leaders r ! j] @ drop (Suc j) (sr_leaders r)"
    using assms by (simp add: id_take_nth_drop)
  then have "held r = length (filter holding (take j (sr_leaders r) @ [sr_leaders r ! j] @ drop (Suc j) (sr_leaders r)))"
    unfolding held_def by simp
  then show ?thesis by (auto simp: held_def replace_leader_def split: option.split)
qed

definition weight :: "leader option \<Rightarrow> int" where
  "weight l = (case l of None \<Rightarrow> 0 | Some l \<Rightarrow> if holding l then 1 else 0)"

lemma owner_step_held: "owner_step r r' \<Longrightarrow> held r' = held r"
  by (auto elim: owner_stepE)

lemma run_step_held: "run_step (r, m) (r', m') \<Longrightarrow> held r' = held r \<and> rm_leases m' = rm_leases m"
  by (auto elim!: run_stepE simp: CountError_def) (simp_all add: held_def new_leader_def holding_def)

lemma leader_step_weight:
  assumes "leader_step c (r, m) l bs l' (r', m')"
  shows "rm_leases m' - rm_leases m = weight l' - weight (Some l)" and "sr_leaders r' = sr_leaders r"
  using assms by (auto elim!: leader_stepE simp: weight_def holding_def LeaseAcquired_def LeaseReleased_def)

lemma leases_step_counts:
  assumes "leases_step c s t"
  shows "rm_leases (ls_metrics t) - rm_leases (ls_metrics s) = int (leases_held t) - int (leases_held s)"
  using assms
proof cases
  case started
  then show ?thesis by (simp add: leases_held_def)
next
  case (owned i r)
  then show ?thesis using sum_list_update [of i "ls_runs s" held r] owner_step_held [of "ls_runs s ! i" r] by (simp add: leases_held_def)
next
  case (ran i r m)
  then show ?thesis using sum_list_update [of i "ls_runs s" held r] run_step_held [of "ls_runs s ! i"] by (simp add: leases_held_def)
next
  case (led i j bs l r m)
  note step = leader_step_weight [OF led(4)]
  from led(3) have j: "j < length (sr_leaders r)" by (simp add: step(2))
  have same: "held r = held (ls_runs s ! i)" by (simp add: held_def step(2))
  have "int (held (replace_leader j l r)) - int (held r) = weight l - weight (Some (sr_leaders (ls_runs s ! i) ! j))"
    using held_replace [OF j, of l] step(2) by (auto simp: weight_def split: option.splits if_splits)
  then show ?thesis
    using step(1) same led(1) sum_list_update [OF led(2), of held "replace_leader j l r"] by (simp add: leases_held_def)
qed

definition leases_ok :: "leases \<Rightarrow> bool" where
  "leases_ok s \<longleftrightarrow> rm_leases (ls_metrics s) = int (leases_held s)"

interpretation leases: machine no_leases "leases_step c" leases_ok for c
proof
  show "no_leases s \<Longrightarrow> leases_ok s" for s by (simp add: no_leases_def leases_ok_def leases_held_def)
  show "leases_step c s t \<Longrightarrow> leases_ok s \<Longrightarrow> leases_ok t" for s t
    using leases_step_counts [of c s t] by (simp add: leases_ok_def)
qed

section \<open>No update is lost\<close>

text \<open>
  A leader that goes on has seen the namespaces wanted last unless a token waits for it or the update is not finished.
\<close>

definition up_to_date :: "shard_run \<Rightarrow> leader \<Rightarrow> bool" where
  "up_to_date r l \<longleftrightarrow> (case ld_phase l of
       Applying wanted \<Rightarrow> wanted = sr_wanted r | Waiting \<Rightarrow> set (ld_watchers l) = set (sr_wanted r) | _ \<Rightarrow> True)"

definition run_ok :: "shard_run \<Rightarrow> bool" where
  "run_ok r \<longleftrightarrow> length (sr_leaders r) \<le> 1 \<and> (sr_changed r \<or> sr_storing r \<or> list_all (up_to_date r) (sr_leaders r))"

lemma set_sync_watchers: "set (fst (sync_watchers c g wanted now watchers)) = set wanted"
  by (auto simp: sync_watchers_def Let_def)

lemma up_to_date_simps [simp]:
  "up_to_date r (stop_leader l) = up_to_date r l" "up_to_date r new_leader"
  "up_to_date (r\<lparr>sr_changed := b\<rparr>) l = up_to_date r l" "up_to_date (r\<lparr>sr_cancelled := b\<rparr>) l = up_to_date r l"
  "up_to_date (r\<lparr>sr_election := e, sr_leaders := ls\<rparr>) l = up_to_date r l" "up_to_date (r\<lparr>sr_leaders := ls\<rparr>) l = up_to_date r l"
  "up_to_date (r\<lparr>sr_election := e\<rparr>) l = up_to_date r l"
  by (simp_all add: up_to_date_def stop_leader_def new_leader_def split: phase.splits)

lemma owner_step_ok: "owner_step r r' \<Longrightarrow> run_ok r \<Longrightarrow> run_ok r'"
  by (auto elim!: owner_stepE simp: run_ok_def store_namespaces_def signal_change_def list_all_iff)

lemma run_step_ok: "run_step (r, m) (r', m') \<Longrightarrow> length (sr_leaders r') \<le> 1 \<Longrightarrow> run_ok r \<Longrightarrow> run_ok r'"
  by (auto elim!: run_stepE simp: run_ok_def list_all_iff)

lemma leader_step_ok:
  assumes "leader_step c (r, m) (sr_leaders r ! j) bs l (r', m')" and "j < length (sr_leaders r)" and "run_ok r"
  shows "run_ok (replace_leader j l r')"
proof -
  from assms(2,3) obtain k where k: "sr_leaders r = [k]" "j = 0"
    by (cases "sr_leaders r"; cases "tl (sr_leaders r)") (auto simp: run_ok_def)
  from leader_step_weight(2) [OF assms(1)] k have "sr_leaders r' = [k]" by simp
  with assms k set_sync_watchers [of c "sr_gvr r"] show ?thesis
    by (auto elim!: leader_stepE simp: run_ok_def replace_leader_def up_to_date_def split: phase.splits) (metis fst_conv)+
qed

text \<open>
  A run in which only one goroutine at a time leads shard \<open>i\<close>. It may start at any moment at which no leader of the
  shard can have missed an update: when there is none, or in the middle of an update or right after it.
\<close>

definition one_leader :: "nat \<Rightarrow> leases \<Rightarrow> bool" where
  "one_leader i s \<longleftrightarrow> (i < length (ls_runs s) \<longrightarrow> length (sr_leaders (ls_runs s ! i)) \<le> 1)"

definition alone :: "nat \<Rightarrow> collector_env \<Rightarrow> leases \<Rightarrow> leases \<Rightarrow> bool" where
  "alone i c s t \<longleftrightarrow> leases_step c s t \<and> one_leader i t"

definition fresh_update :: "nat \<Rightarrow> leases \<Rightarrow> bool" where
  "fresh_update i s \<longleftrightarrow> (i < length (ls_runs s) \<longrightarrow> length (sr_leaders (ls_runs s ! i)) \<le> 1
     \<and> (sr_storing (ls_runs s ! i) \<or> sr_changed (ls_runs s ! i) \<or> sr_leaders (ls_runs s ! i) = []))"

definition led_ok :: "nat \<Rightarrow> leases \<Rightarrow> bool" where
  "led_ok i s \<longleftrightarrow> (i < length (ls_runs s) \<longrightarrow> run_ok (ls_runs s ! i))"

interpretation alone_leases: machine "fresh_update i" "alone i c" "led_ok i" for i c
proof
  show "fresh_update i s \<Longrightarrow> led_ok i s" for s by (auto simp: fresh_update_def led_ok_def run_ok_def)
  fix s t
  assume step: "alone i c s t" and ok: "led_ok i s"
  then have one: "one_leader i t" by (simp add: alone_def)
  have upd: "run_ok ((ls_runs s)[k := r] ! i)" if "i < length (ls_runs s)" "k = i \<Longrightarrow> run_ok r" for k r
    using ok that by (cases "k = i") (simp_all add: led_ok_def)
  have "leases_step c s t" using step by (simp add: alone_def)
  then show "led_ok i t"
  proof cases
    case started
    with ok show ?thesis by (auto simp: led_ok_def run_ok_def newShardState_def nth_append)
  next
    case (owned k r)
    have "run_ok r" if "i < length (ls_runs s)" "k = i" using owner_step_ok [OF owned(3)] ok that by (simp add: led_ok_def)
    then show ?thesis using upd [of k r] by (simp add: led_ok_def owned(1))
  next
    case (ran k r m)
    have "run_ok r" if "i < length (ls_runs s)" "k = i"
      using run_step_ok [OF ran(3)] ok one that by (simp add: led_ok_def one_leader_def ran(1))
    then show ?thesis using upd [of k r] by (simp add: led_ok_def ran(1))
  next
    case (led k j bs l r m)
    have "run_ok (replace_leader j l r)" if "i < length (ls_runs s)" "k = i"
      using leader_step_ok [OF led(4,3)] ok that by (simp add: led_ok_def)
    then show ?thesis using upd [of k "replace_leader j l r"] by (simp add: led_ok_def led(1))
  qed
qed

text \<open>The gauge of active leases is right at any time: it counts the goroutines that watch for a lease and have
  not given it back, over all shards of the process, however elections, losses and cancellations
  interleave with them.\<close>

theorem lease_gauge_exact:
  assumes "no_leases s" and "(leases_step c)\<^sup>*\<^sup>* s t"
  shows "rm_leases (ls_metrics t) = int (length (filter holding (concat (map sr_leaders (ls_runs t)))))"
proof -
  have "length (filter holding (concat (map sr_leaders rs))) = sum_list (map held rs)" for rs
    by (induction rs) (simp_all add: held_def)
  with leases.reachable_inv [OF assms] show ?thesis by (simp add: leases_ok_def leases_held_def)
qed

text \<open>
  What a leader does by itself, short of ending: each step brings it nearer to waiting with nothing left in the
  channel.
\<close>

definition own_step :: "collector_env \<Rightarrow> shard_run \<times> leader \<Rightarrow> shard_run \<times> leader \<Rightarrow> bool" where
  "own_step c x y \<longleftrightarrow> (\<exists>m bs m'. leader_step c (fst x, m) (snd x) bs (Some (snd y)) (fst y, m'))"

definition settled :: "shard_run \<times> leader \<Rightarrow> bool" where
  "settled x \<longleftrightarrow> ld_phase (snd x) = Waiting \<and> \<not> sr_changed (fst x)"

definition unrest :: "shard_run \<times> leader \<Rightarrow> nat" where
  "unrest x = (if sr_changed (fst x) then 3 else 0)
     + (case ld_phase (snd x) of Starting \<Rightarrow> 3 | Syncing \<Rightarrow> 2 | Applying _ \<Rightarrow> 1 | Waiting \<Rightarrow> 0)"

lemma own_step_moves: "\<not> settled (r, l) \<Longrightarrow> \<exists>y. own_step c (r, l) y"
proof (cases "ld_phase l")
  case Starting
  from leader_step.acquired [OF this, of c r] show ?thesis unfolding own_step_def by fastforce
next
  case Syncing
  from leader_step.snapshot [OF this, of c r] show ?thesis unfolding own_step_def by fastforce
next
  case (Applying wanted)
  obtain running markers where "sync_watchers c (sr_gvr r) wanted zero_time (ld_watchers l) = (running, markers)" by fastforce
  from leader_step.applied [OF Applying this] show ?thesis unfolding own_step_def by fastforce
next
  case Waiting
  moreover assume "\<not> settled (r, l)"
  ultimately have "sr_changed r" by (simp add: settled_def)
  from leader_step.woken [OF Waiting this, of c] show ?thesis unfolding own_step_def by fastforce
qed

interpretation own: draining "\<lambda>_. True" "own_step c" "\<lambda>_. True" unrest settled for c
proof
  show "own_step c s t \<Longrightarrow> unrest t < unrest s" for s t
    by (cases s; cases t) (auto simp: own_step_def unrest_def elim!: leader_stepE)
  show "\<not> settled s \<Longrightarrow> \<exists>t. own_step c s t" for s using own_step_moves by (cases s) blast
qed simp_all

lemma own_step_anywhere:
  assumes "own_step c (r, l) (r', l')"
  shows "\<exists>bs m'. leader_step c (r\<lparr>sr_leaders := ls\<rparr>, m) l bs (Some l') (r'\<lparr>sr_leaders := ls\<rparr>, m')"
    and "r' = r\<lparr>sr_changed := sr_changed r'\<rparr>"
proof -
  from assms obtain n bs n' where "leader_step c (r, n) l bs (Some l') (r', n')" by (auto simp: own_step_def)
  then have "(\<exists>bs m'. leader_step c (r\<lparr>sr_leaders := ls\<rparr>, m) l bs (Some l') (r'\<lparr>sr_leaders := ls\<rparr>, m')) \<and> r' = r\<lparr>sr_changed := sr_changed r'\<rparr>"
  proof cases
    case acquired
    then show ?thesis using leader_step.acquired [of l c "r\<lparr>sr_leaders := ls\<rparr>" m] by fastforce
  next
    case snapshot
    then show ?thesis using leader_step.snapshot [of l c "r\<lparr>sr_leaders := ls\<rparr>" m] by fastforce
  next
    case (applied wanted now running)
    then show ?thesis using leader_step.applied [of l wanted c "r\<lparr>sr_leaders := ls\<rparr>" now running bs m] by fastforce
  next
    case woken
    have "leader_step c (r\<lparr>sr_leaders := ls\<rparr>, m) l [] (Some l') (r\<lparr>sr_leaders := ls\<rparr>\<lparr>sr_changed := False\<rparr>, m)"
      using woken leader_step.woken [of l "r\<lparr>sr_leaders := ls\<rparr>" c m] by simp
    moreover have "r\<lparr>sr_leaders := ls\<rparr>\<lparr>sr_changed := False\<rparr> = r'\<lparr>sr_leaders := ls\<rparr>" using woken by (cases r) simp
    ultimately show ?thesis using woken by force
  qed
  then show "\<exists>bs m'. leader_step c (r\<lparr>sr_leaders := ls\<rparr>, m) l bs (Some l') (r'\<lparr>sr_leaders := ls\<rparr>, m')" "r' = r\<lparr>sr_changed := sr_changed r'\<rparr>"
    by blast+
qed

text \<open>The leader's own steps are steps of the process.\<close>

lemma own_run:
  assumes "(own_step c)\<^sup>*\<^sup>* (r, l) y" and "i < length (ls_runs t)" and "ls_runs t ! i = r" and "sr_leaders r = [l]"
  shows "\<exists>u. (alone i c)\<^sup>*\<^sup>* t u \<and> ls_runs u = (ls_runs t)[i := (fst y)\<lparr>sr_leaders := [snd y]\<rparr>]
    \<and> fst y = r\<lparr>sr_changed := sr_changed (fst y)\<rparr>"
  using assms(1)
proof (induction rule: rtranclp_induct)
  case base
  have "r\<lparr>sr_leaders := [l]\<rparr> = r" "r = r\<lparr>sr_changed := sr_changed r\<rparr>" using assms(4) by (cases r; simp)+
  moreover have "(ls_runs t)[i := r] = ls_runs t" using assms(3) by (metis list_update_id)
  ultimately show ?case by (intro exI [of _ t]) simp
next
  case (step y z)
  obtain ry ly where y: "y = (ry, ly)" by fastforce
  obtain rz lz where z: "z = (rz, lz)" by fastforce
  from step.IH obtain u where u: "(alone i c)\<^sup>*\<^sup>* t u" "ls_runs u = (ls_runs t)[i := ry\<lparr>sr_leaders := [ly]\<rparr>]" "ry = r\<lparr>sr_changed := sr_changed ry\<rparr>"
    unfolding y by auto
  have i: "i < length (ls_runs u)" "ls_runs u ! i = ry\<lparr>sr_leaders := [ly]\<rparr>" using u(2) assms(2) by simp_all
  from step.hyps(2) have own: "own_step c (ry, ly) (rz, lz)" by (simp add: y z)
  from own_step_anywhere(1) [OF own, of "[ly]" "ls_metrics u"] obtain bs m' where
    "leader_step c (ls_runs u ! i, ls_metrics u) ly bs (Some lz) (rz\<lparr>sr_leaders := [ly]\<rparr>, m')" using i(2) by auto
  then have "leases_step c u \<lparr>ls_runs = (ls_runs u)[i := replace_leader 0 (Some lz) (rz\<lparr>sr_leaders := [ly]\<rparr>)], ls_metrics = m', ls_sent = ls_sent u @ bs\<rparr>"
    using i by (intro led) simp_all
  moreover have "replace_leader 0 (Some lz) (rz\<lparr>sr_leaders := [ly]\<rparr>) = rz\<lparr>sr_leaders := [lz]\<rparr>" by (simp add: replace_leader_def)
  ultimately obtain v where v: "leases_step c u v" "ls_runs v = (ls_runs t)[i := rz\<lparr>sr_leaders := [lz]\<rparr>]" using u(2) by force
  then have "alone i c u v" using assms(2) by (simp add: alone_def one_leader_def)
  with v have "\<exists>v. alone i c u v \<and> ls_runs v = (ls_runs t)[i := rz\<lparr>sr_leaders := [lz]\<rparr>]" by blast
  moreover have "rz = r\<lparr>sr_changed := sr_changed rz\<rparr>"
  proof -
    have "rz = ry\<lparr>sr_changed := sr_changed rz\<rparr>" by (rule own_step_anywhere(2) [OF own])
    also have "\<dots> = r\<lparr>sr_changed := sr_changed rz\<rparr>" by (subst u(3)) simp
    finally show ?thesis .
  qed
  ultimately show ?case using u(1) unfolding z by (auto intro: rtranclp.rtrancl_into_rtrancl)
qed

text \<open>C31: While one goroutine at a time leads a shard, no change of its namespaces is lost. From a moment at which no
  leader can have missed an update (there is none, or an update is being made or its token still waits), however
  updates, elections, losses, cancellations and the other shards interleave: whenever the leader waits with nothing left
  in the channel and no update under way, it watches exactly the namespaces wanted last; and from any moment at which no
  update is under way the leader gets there by itself, in at most six steps. Two goroutines that lead the shard at once
  are excluded only as long as they overlap: \<open>runShard\<close> does not prevent them and they can lose an update,
  but the next update after them is again such a moment.\<close>

theorem update_reaches_watchers:
  assumes "fresh_update i s" and "(alone i c)\<^sup>*\<^sup>* s t" and "i < length (ls_runs t)" and "sr_leaders (ls_runs t ! i) = [l]"
    and "\<not> sr_storing (ls_runs t ! i)"
  shows "(ld_phase l = Waiting \<and> \<not> sr_changed (ls_runs t ! i) \<longrightarrow> set (ld_watchers l) = set (sr_wanted (ls_runs t ! i)))
    \<and> (\<exists>u l'. (own_step c)\<^sup>*\<^sup>* (ls_runs t ! i, l) ((ls_runs t ! i)\<lparr>sr_changed := False\<rparr>, l') \<and> (alone i c)\<^sup>*\<^sup>* t u
        \<and> ls_runs u = (ls_runs t)[i := (ls_runs t ! i)\<lparr>sr_changed := False, sr_leaders := [l']\<rparr>]
        \<and> ld_phase l' = Waiting \<and> set (ld_watchers l') = set (sr_wanted (ls_runs t ! i)))
    \<and> ((own_step c ^^ n) (ls_runs t ! i, l) y \<longrightarrow> n \<le> 6)"
proof -
  let ?r = "ls_runs t ! i"
  have ok: "run_ok (ls_runs u ! i)" if "(alone i c)\<^sup>*\<^sup>* t u" "i < length (ls_runs u)" for u
    using alone_leases.reachable_inv [OF assms(1) rtranclp_trans [OF assms(2) that(1)]] that(2) by (simp add: led_ok_def)
  obtain r' l' where run: "(own_step c)\<^sup>*\<^sup>* (?r, l) (r', l')" and settled: "settled (r', l')"
    using own.reaches_over [OF TrueI, of c "(?r, l)"] by (metis surj_pair)
  from own_run [OF run assms(3) refl assms(4)] settled obtain u where u: "(alone i c)\<^sup>*\<^sup>* t u"
    "ls_runs u = (ls_runs t)[i := r'\<lparr>sr_leaders := [l']\<rparr>]" and r': "r' = ?r\<lparr>sr_changed := False\<rparr>"
    by (auto simp: settled_def)
  have watching: "ld_phase l' = Waiting" "set (ld_watchers l') = set (sr_wanted ?r)"
    using ok [OF u(1)] u(2) assms(3,5) settled by (auto simp: r' settled_def run_ok_def up_to_date_def)
  moreover have "set (ld_watchers l) = set (sr_wanted ?r)" if "ld_phase l = Waiting" "\<not> sr_changed ?r"
    using ok [OF rtranclp.rtrancl_refl assms(3)] that assms(4,5) by (simp add: run_ok_def up_to_date_def)
  moreover have "n \<le> 6" if "(own_step c ^^ n) (?r, l) y"
    using own.steps_rest [OF that] by (auto simp: unrest_def split: if_splits phase.splits)
  ultimately show ?thesis using run u unfolding r' by auto
qed

section \<open>A process with one shard\<close>

definition one_shard :: "shard_run \<Rightarrow> role_metrics \<Rightarrow> ingest_batch list \<Rightarrow> leases" where
  "one_shard r m sent = \<lparr>ls_runs = [r], ls_metrics = m, ls_sent = sent\<rparr>"

definition a_shard :: "string list \<Rightarrow> bool \<Rightarrow> election \<Rightarrow> leader list \<Rightarrow> shard_run" where
  "a_shard wanted changed e ls = \<lparr>sr_gvr = pods, sr_wanted = wanted, sr_storing = False, sr_changed = changed, sr_cancelled = False,
     sr_election = e, sr_leaders = ls\<rparr>"

definition a_leader :: "phase \<Rightarrow> string list \<Rightarrow> bool \<Rightarrow> leader" where
  "a_leader p watchers stopping = \<lparr>ld_phase = p, ld_watchers = watchers, ld_stopping = stopping\<rparr>"

definition idle_process :: leases where "idle_process = \<lparr>ls_runs = [], ls_metrics = new_role_metrics, ls_sent = []\<rparr>"

lemma one_shard_led:
  assumes "leader_step c (r, m) k bs l (r', m')" and "j < length (sr_leaders r)" and "sr_leaders r ! j = k"
  shows "leases_step c (one_shard r m sent) (one_shard (replace_leader j l r') m' (sent @ bs))"
  using leases_step.led [of 0 "one_shard r m sent" j c bs l r' m'] assms by (simp add: one_shard_def)

lemma one_shard_ran:
  assumes "run_step (r, m) (r', m')"
  shows "leases_step c (one_shard r m sent) (one_shard r' m' sent)"
  using leases_step.ran [of 0 "one_shard r m sent" r' m' c] assms by (simp add: one_shard_def)

lemma leases_then: "(leases_step c)\<^sup>*\<^sup>* s t \<Longrightarrow> leases_step c t u \<Longrightarrow> (leases_step c)\<^sup>*\<^sup>* s u"
  by (rule rtranclp.rtrancl_into_rtrancl)

lemma leases_trans: "(leases_step c)\<^sup>*\<^sup>* s t \<Longrightarrow> (leases_step c)\<^sup>*\<^sup>* t u \<Longrightarrow> (leases_step c)\<^sup>*\<^sup>* s u"
  by (rule rtranclp_trans)

lemma one_shard_starts: "leases_step c idle_process (one_shard (a_shard wanted False Electing []) new_role_metrics [])"
  using leases_step.started [of c idle_process pods wanted]
  by (simp add: idle_process_def one_shard_def a_shard_def newShardState_def)

lemma one_shard_elected:
  "leases_step c (one_shard (a_shard w ch Electing ls) m sent) (one_shard (a_shard w ch Elected (ls @ [new_leader])) m sent)"
  using run_step.elected [of "a_shard w ch Electing ls" m] by (intro one_shard_ran) (simp add: a_shard_def)

lemma one_shard_lost:
  "leases_step c (one_shard (a_shard w ch Elected ls) m sent) (one_shard (a_shard w ch Electing (map stop_leader ls)) (CountError m) sent)"
  using run_step.lost [of "a_shard w ch Elected ls" m] by (intro one_shard_ran) (simp add: a_shard_def)

lemma a_shard_simps [simp]:
  "sr_leaders (a_shard w ch e ls) = ls" "sr_wanted (a_shard w ch e ls) = w" "sr_gvr (a_shard w ch e ls) = pods"
  "sr_changed (a_shard w ch e ls) = ch" "(a_shard w ch e ls)\<lparr>sr_changed := ch'\<rparr> = a_shard w ch' e ls"
  by (simp_all add: a_shard_def)

lemma replace_a_shard [simp]:
  "j < length ls \<Longrightarrow> replace_leader j (Some k) (a_shard w ch e ls) = a_shard w ch e (ls[j := k])"
  "replace_leader 0 None (a_shard w ch e ls) = a_shard w ch e (tl ls)"
  by (simp_all add: replace_leader_def a_shard_def upd_conv_take_nth_drop drop_Suc)

text \<open>A leader that starts, or that is woken, watches what the shard wants.\<close>

lemma one_shard_syncs:
  assumes "j < length ls" and "ls ! j = a_leader Syncing watchers stopping" and "sync_watchers c pods w zero_time watchers = (running, bs)"
  shows "(leases_step c)\<^sup>*\<^sup>* (one_shard (a_shard w ch e ls) m sent) (one_shard (a_shard w ch e (ls[j := a_leader Waiting running stopping])) m (sent @ bs))"
proof -
  let ?k = "a_leader (Applying w) watchers stopping"
  have "leader_step c (a_shard w ch e ls, m) (ls ! j) [] (Some ?k) (a_shard w ch e ls, m)"
    using leader_step.snapshot [of "ls ! j" c "a_shard w ch e ls" m] assms(2) by (simp add: a_leader_def)
  from one_shard_led [OF this, where j = j] have "leases_step c (one_shard (a_shard w ch e ls) m sent) (one_shard (a_shard w ch e (ls[j := ?k])) m (sent @ []))"
    using assms(1) by simp
  moreover have "leader_step c (a_shard w ch e (ls[j := ?k]), m) ?k bs (Some (a_leader Waiting running stopping)) (a_shard w ch e (ls[j := ?k]), m)"
    using leader_step.applied [of ?k w c "a_shard w ch e (ls[j := ?k])" zero_time running bs m] assms(3) by (simp add: a_leader_def)
  from one_shard_led [OF this, where j = j] have "leases_step c (one_shard (a_shard w ch e (ls[j := ?k])) m (sent @ []))
      (one_shard (a_shard w ch e (ls[j := a_leader Waiting running stopping])) m ((sent @ []) @ bs))"
    using assms(1) by simp
  ultimately show ?thesis by simp
qed

lemma sync_fresh: "sync_watchers c g w now [] = (w, [])"
  by (simp add: sync_watchers_def)

lemma one_shard_leads:
  "(leases_step c)\<^sup>*\<^sup>* (one_shard (a_shard w ch e (ls @ [new_leader])) m sent)
     (one_shard (a_shard w ch e (ls @ [a_leader Waiting w False])) (LeaseAcquired m) sent)"
proof -
  let ?k = "a_leader Syncing [] False"
  have "leader_step c (a_shard w ch e (ls @ [new_leader]), m) new_leader [] (Some ?k) (a_shard w ch e (ls @ [new_leader]), LeaseAcquired m)"
    using leader_step.acquired [of new_leader c "a_shard w ch e (ls @ [new_leader])" m] by (simp add: new_leader_def a_leader_def)
  from one_shard_led [OF this, where j = "length ls"] have "leases_step c (one_shard (a_shard w ch e (ls @ [new_leader])) m sent)
      (one_shard (a_shard w ch e (ls @ [?k])) (LeaseAcquired m) (sent @ []))"
    by (simp add: list_update_append)
  moreover have "(leases_step c)\<^sup>*\<^sup>* (one_shard (a_shard w ch e (ls @ [?k])) (LeaseAcquired m) sent)
      (one_shard (a_shard w ch e ((ls @ [?k])[length ls := a_leader Waiting w False])) (LeaseAcquired m) (sent @ []))"
    by (rule one_shard_syncs [OF _ _ sync_fresh]) simp_all
  ultimately show ?thesis by (simp add: list_update_append)
qed

lemma one_shard_runs:
  "(leases_step c)\<^sup>*\<^sup>* idle_process (one_shard (a_shard w False Elected [a_leader Waiting w False]) (LeaseAcquired new_role_metrics) [])"
  using one_shard_starts [of c w] one_shard_elected [of c w False "[]" new_role_metrics "[]"]
    one_shard_leads [of c w False Elected "[]" new_role_metrics "[]"]
  by (simp add: converse_rtranclp_into_rtranclp)

lemma one_shard_updated:
  "(leases_step c)\<^sup>*\<^sup>* (one_shard (a_shard w ch e ls) m sent) (one_shard (a_shard w' True e ls) m sent)"
proof -
  let ?r = "store_namespaces w' (a_shard w ch e ls)"
  have "leases_step c (one_shard (a_shard w ch e ls) m sent) (one_shard ?r m sent)"
    using leases_step.owned [of 0 "one_shard (a_shard w ch e ls) m sent" ?r c] owner_step.storing [of "a_shard w ch e ls" w']
    by (simp add: one_shard_def a_shard_def)
  moreover have "leases_step c (one_shard ?r m sent) (one_shard (a_shard w' True e ls) m sent)"
    using leases_step.owned [of 0 "one_shard ?r m sent" "signal_change ?r" c] owner_step.signalling [of ?r]
    by (simp add: one_shard_def a_shard_def store_namespaces_def signal_change_def)
  ultimately show ?thesis by auto
qed

lemma one_shard_woken:
  assumes "j < length ls" and "ls ! j = a_leader Waiting watchers stopping"
  shows "leases_step c (one_shard (a_shard w True e ls) m sent) (one_shard (a_shard w False e (ls[j := a_leader Syncing watchers stopping])) m sent)"
proof -
  have "leader_step c (a_shard w True e ls, m) (ls ! j) [] (Some (a_leader Syncing watchers stopping)) (a_shard w False e ls, m)"
    using leader_step.woken [of "ls ! j" "a_shard w True e ls" c m] assms by (simp add: a_leader_def)
  from one_shard_led [OF this, where j = j] have "leases_step c (one_shard (a_shard w True e ls) m sent)
      (one_shard (a_shard w False e (ls[j := a_leader Syncing watchers stopping])) m (sent @ []))"
    using assms by simp
  then show ?thesis by simp
qed

lemma one_shard_released:
  assumes "ls ! 0 = a_leader Waiting watchers True" and "ls \<noteq> []"
  shows "leases_step c (one_shard (a_shard w ch e ls) m sent) (one_shard (a_shard w ch e (tl ls)) (LeaseReleased m) sent)"
proof -
  have "leader_step c (a_shard w ch e ls, m) (ls ! 0) [] None (a_shard w ch e ls, LeaseReleased m)"
    using leader_step.released [of "ls ! 0" c "a_shard w ch e ls" m] assms by (simp add: a_leader_def)
  from one_shard_led [OF this, where j = 0] have "leases_step c (one_shard (a_shard w ch e ls) m sent) (one_shard (a_shard w ch e (tl ls)) (LeaseReleased m) (sent @ []))"
    using assms by simp
  then show ?thesis by simp
qed

text \<open>
  With two of them an update can be lost: the goroutine of a leadership that is over has both its context done and the
  token before it, takes the token, and the leader now watching keeps to the namespaces wanted before.
\<close>

lemma wakeup_stolen:
  "\<exists>t bs m. (leases_step c)\<^sup>*\<^sup>* idle_process t
     \<and> t = one_shard (a_shard [''b''] False Elected [a_leader Waiting [''a''] False]) m bs"
proof -
  let ?old = "a_leader Waiting [''a''] True" and ?new = "a_leader Waiting [''a''] False"
  let ?m = "CountError (LeaseAcquired new_role_metrics)"
  let ?bs = "snd (sync_watchers c pods [''b''] zero_time [''a''])"
  have stop: "stop_leader ?new = ?old" by (simp add: stop_leader_def a_leader_def)
  have sync: "sync_watchers c pods [''b''] zero_time [''a''] = ([''b''], ?bs)" by (simp add: sync_watchers_def)
  have lost: "leases_step c (one_shard (a_shard [''a''] False Elected [?new]) (LeaseAcquired new_role_metrics) [])
      (one_shard (a_shard [''a''] False Electing [?old]) ?m [])"
    using one_shard_lost [of c "[''a'']" False "[?new]"] by (simp add: stop)
  have won: "leases_step c (one_shard (a_shard [''a''] False Electing [?old]) ?m []) (one_shard (a_shard [''a''] False Elected [?old, new_leader]) ?m [])"
    using one_shard_elected [of c _ _ "[?old]"] by simp
  have leads: "(leases_step c)\<^sup>*\<^sup>* (one_shard (a_shard [''a''] False Elected [?old, new_leader]) ?m [])
      (one_shard (a_shard [''a''] False Elected [?old, ?new]) (LeaseAcquired ?m) [])"
    using one_shard_leads [of c "[''a'']" False Elected "[?old]"] by simp
  have woken: "leases_step c (one_shard (a_shard [''b''] True Elected [?old, ?new]) (LeaseAcquired ?m) [])
      (one_shard (a_shard [''b''] False Elected [a_leader Syncing [''a''] True, ?new]) (LeaseAcquired ?m) [])"
    using one_shard_woken [of 0 "[?old, ?new]"] by simp
  have syncs: "(leases_step c)\<^sup>*\<^sup>* (one_shard (a_shard [''b''] False Elected [a_leader Syncing [''a''] True, ?new]) (LeaseAcquired ?m) [])
      (one_shard (a_shard [''b''] False Elected [a_leader Waiting [''b''] True, ?new]) (LeaseAcquired ?m) ?bs)"
    using one_shard_syncs [of 0 "[a_leader Syncing [''a''] True, ?new]" "[''a'']" True, OF _ _ sync, where sent = "[]"] by simp
  have gone: "leases_step c (one_shard (a_shard [''b''] False Elected [a_leader Waiting [''b''] True, ?new]) (LeaseAcquired ?m) ?bs)
      (one_shard (a_shard [''b''] False Elected [?new]) (LeaseReleased (LeaseAcquired ?m)) ?bs)"
    using one_shard_released [of "[a_leader Waiting [''b''] True, ?new]"] by simp
  let ?reached = "(leases_step c)\<^sup>*\<^sup>* idle_process"
  have "?reached (one_shard (a_shard [''a''] False Electing [?old]) ?m [])"
    by (rule leases_then [OF one_shard_runs lost])
  then have "?reached (one_shard (a_shard [''a''] False Elected [?old, new_leader]) ?m [])"
    using won by (rule leases_then)
  then have "?reached (one_shard (a_shard [''a''] False Elected [?old, ?new]) (LeaseAcquired ?m) [])"
    using leads by (rule leases_trans)
  then have "?reached (one_shard (a_shard [''b''] True Elected [?old, ?new]) (LeaseAcquired ?m) [])"
    using one_shard_updated by (rule leases_trans)
  then have "?reached (one_shard (a_shard [''b''] False Elected [a_leader Syncing [''a''] True, ?new]) (LeaseAcquired ?m) [])"
    using woken by (rule leases_then)
  then have "?reached (one_shard (a_shard [''b''] False Elected [a_leader Waiting [''b''] True, ?new]) (LeaseAcquired ?m) ?bs)"
    using syncs by (rule leases_trans)
  then have "?reached (one_shard (a_shard [''b''] False Elected [?new]) (LeaseReleased (LeaseAcquired ?m)) ?bs)"
    using gone by (rule leases_then)
  then show ?thesis by blast
qed

theorem lease_gauge_exact_witness:
  "rm_leases (ls_metrics (one_shard (a_shard [''a''] False Elected [a_leader Waiting [''a''] False]) (LeaseAcquired new_role_metrics) [])) = 1"
proof -
  have "no_leases idle_process" by (simp add: no_leases_def idle_process_def new_role_metrics_def)
  from lease_gauge_exact [OF this one_shard_runs [of sample_env "[''a'']"]] show ?thesis
    by (simp add: one_shard_def a_shard_def a_leader_def holding_def)
qed

theorem update_reaches_watchers_witness:
  "\<exists>u l'. (alone 0 sample_env)\<^sup>*\<^sup>* (one_shard (a_shard [''b''] True Elected [a_leader Waiting [''a''] False]) (LeaseAcquired new_role_metrics) []) u
     \<and> ls_runs u = [a_shard [''b''] False Elected [l']] \<and> ld_phase l' = Waiting \<and> set (ld_watchers l') = {''b''}"
proof -
  let ?r = "store_namespaces [''b''] (a_shard [''a''] False Elected [a_leader Waiting [''a''] False])"
  let ?s = "one_shard ?r (LeaseAcquired new_role_metrics) []"
  let ?t = "one_shard (a_shard [''b''] True Elected [a_leader Waiting [''a''] False]) (LeaseAcquired new_role_metrics) []"
  have start: "fresh_update 0 ?s" by (simp add: fresh_update_def one_shard_def store_namespaces_def a_shard_def)
  have "leases_step sample_env ?s ?t"
    using leases_step.owned [of 0 ?s "signal_change ?r" sample_env] owner_step.signalling [of ?r]
    by (simp add: one_shard_def a_shard_def store_namespaces_def signal_change_def)
  then have "(alone 0 sample_env)\<^sup>*\<^sup>* ?s ?t" by (auto simp: alone_def one_leader_def one_shard_def)
  from update_reaches_watchers [OF start this, of "a_leader Waiting [''a''] False" 0 "(a_shard [] False Elected [], new_leader)"] show ?thesis
    by (auto simp: one_shard_def a_shard_def)
qed

end
