(* ===== verification/CollectorRun.thy ===== *)
theory CollectorRun
  imports Leases Spool
begin

text \<open>
  A collector process: \<open>Run\<close> of \<open>internal/v2/collector/collector.go\<close> with the requests, the lock and the metrics of the
  \<open>Sender\<close> of \<open>client.go\<close>. Its goroutines, a watcher per namespace, one per shard, the heartbeat and the discovery loop,
  meet in the sender and in the metrics; each step is what one of them does without giving up the
  lock it holds.
\<close>

section \<open>Posting a batch\<close>

record ingest_request =
  iq_method :: string
  iq_url :: string
  iq_headers :: "(string \<times> string) list"
  iq_body :: string

text \<open>The token is read anew for each request; an unreadable file leaves the configured value.\<close>

definition collector_token :: "(string \<Rightarrow> string option) \<Rightarrow> credential \<Rightarrow> string" where
  "collector_token files cr =
     (if cr_file cr \<noteq> [] then (case files (cr_file cr) of Some content \<Rightarrow> TrimSpace content | None \<Rightarrow> cr_value cr) else cr_value cr)"

definition post_request :: "(ingest_event \<Rightarrow> string) \<Rightarrow> config \<Rightarrow> (string \<Rightarrow> string option) \<Rightarrow> ingest_batch \<Rightarrow> ingest_request" where
  "post_request enc cfg files b =
     \<lparr>iq_method = ''POST'', iq_url = TrimRight (cf_api cfg) ''/'' @ ''/api/v1/ingest'',
      iq_headers = [(''Content-Type'', ''application/json''), (''Authorization'', ''Bearer '' @ collector_token files (cs_collector (cf_credentials cfg)))],
      iq_body = marshal_batch enc b\<rparr>"

text \<open>No request can be made of the URL, the API does not answer, or it answers with a status.\<close>

datatype api_answer = NoRequest | NoAnswer | Answered int

definition post :: "time \<Rightarrow> api_answer \<Rightarrow> role_metrics \<Rightarrow> bool \<times> role_metrics" where
  "post now a m =
     (case a of NoRequest \<Rightarrow> (False, m) | NoAnswer \<Rightarrow> (False, CountError m)
      | Answered code \<Rightarrow> if code \<noteq> 202 then (False, CountError m) else (True, SetSpoolBlocked False (Success now m)))"

section \<open>Starting\<close>

text \<open>\<open>NewSender\<close>: \<open>created\<close> and \<open>inspected\<close> are the errors of creating and of reading the directory.\<close>

datatype start_error =
    ClientFailed string
  | AdapterFileFailed adapter_error
  | ResyncFileFailed resync_error
  | SpoolNotCreated string
  | SpoolNotInspected string

definition NewSender :: "string option \<Rightarrow> string option \<Rightarrow> (string \<times> spool_file) list \<Rightarrow> role_metrics \<Rightarrow> start_error + sender \<times> role_metrics" where
  "NewSender created inspected dir m =
     (case created of Some err \<Rightarrow> Inl (SpoolNotCreated err) | None \<Rightarrow>
      case inspected of Some err \<Rightarrow> Inl (SpoolNotInspected err) | None \<Rightarrow>
      let s = \<lparr>sp_dir = dir, sp_files = 0, sp_bytes = 0, delivered = []\<rparr>; (files, bytes) = spoolUsage s
      in Inr (s\<lparr>sp_files := files, sp_bytes := bytes\<rparr>, SetSpool files bytes m))"

text \<open>What \<open>Run\<close> meets before its loop; \<open>sv_clients\<close> holds the errors of the clients it builds, in the order it builds them.\<close>

record start_env =
  sv_clients :: "string option list"
  sv_adapters :: adapter_file
  sv_resync :: "resync_error + resync_request list"
  sv_created :: "string option"
  sv_inspected :: "string option"
  sv_dir :: "(string \<times> spool_file) list"

record collector_process =
  cp_sender :: sender
  cp_metrics :: role_metrics
  cp_replaying :: "string list option"
  cp_taken :: "ingest_batch list"
  cp_collector :: collector
  cp_adapters :: "adapter_def list"
  cp_running :: bool

text \<open>
  \<open>cp_replaying\<close> is the lock \<open>replayMu\<close> in the hands of a replay, with the files still before it;
  \<open>cp_taken\<close> lists the batches a goroutine has got rid of: \<open>spool\<close> or \<open>post\<close> reported success.
\<close>

definition start_collector :: "start_env \<Rightarrow> role_metrics \<Rightarrow> start_error + collector_process" where
  "start_collector v m =
     (case List.find (\<lambda>r. r \<noteq> None) (sv_clients v) of Some r \<Rightarrow> Inl (ClientFailed (the r)) | None \<Rightarrow>
      case Load (sv_adapters v) builtins of (Some err, _) \<Rightarrow> Inl (AdapterFileFailed err) | (None, adapters) \<Rightarrow>
      case sv_resync v of Inl err \<Rightarrow> Inl (ResyncFileFailed err) | Inr _ \<Rightarrow>
      case NewSender (sv_created v) (sv_inspected v) (sv_dir v) m of Inl err \<Rightarrow> Inl err | Inr (s, m) \<Rightarrow>
        Inr \<lparr>cp_sender = s, cp_metrics = m, cp_replaying = None, cp_taken = [],
          cp_collector = \<lparr>cl_shards = [], cl_states = [], cl_resync = [], cl_log = []\<rparr>, cp_adapters = adapters, cp_running = True\<rparr>)"

section \<open>The steps of its goroutines\<close>

definition spool_metrics :: "nat \<Rightarrow> send_error option \<Rightarrow> role_metrics \<Rightarrow> role_metrics" where
  "spool_metrics n r m =
     (if r = None then SetSpoolBlocked False (Spooled (int n) m) else if r = Some SpoolFull then SetSpoolBlocked True m else m)"

text \<open>\<open>spool\<close> with its lock and its metrics.\<close>

definition spool_batch :: "(ingest_event \<Rightarrow> string) \<Rightarrow> int \<Rightarrow> spool_env \<Rightarrow> ingest_batch \<Rightarrow> collector_process \<Rightarrow> collector_process" where
  "spool_batch enc maxBytes env b p =
     (case spool enc maxBytes env b (cp_sender p) of (r, s) \<Rightarrow>
        p\<lparr>cp_sender := s, cp_metrics := spool_metrics (length (marshal_batch enc b)) r (cp_metrics p),
          cp_taken := (if r = None then cp_taken p @ [b] else cp_taken p)\<rparr>)"

definition post_batch :: "time \<Rightarrow> api_answer \<Rightarrow> ingest_batch \<Rightarrow> collector_process \<Rightarrow> collector_process" where
  "post_batch now a b p =
     (case post now a (cp_metrics p) of (accepted, m) \<Rightarrow>
        if accepted then p\<lparr>cp_sender := (cp_sender p)\<lparr>delivered := delivered (cp_sender p) @ [b]\<rparr>, cp_metrics := m, cp_taken := cp_taken p @ [b]\<rparr>
        else p\<lparr>cp_metrics := m\<rparr>)"

text \<open>One file of a replay; a failure ends the replay.\<close>

definition replay_file :: "time \<Rightarrow> api_answer \<Rightarrow> bool \<Rightarrow> string \<Rightarrow> string list \<Rightarrow> spool_file \<Rightarrow> ingest_batch \<Rightarrow> collector_process \<Rightarrow> collector_process" where
  "replay_file now a removed n ns f b p =
     (case post now a (cp_metrics p) of (accepted, m) \<Rightarrow>
        if \<not> accepted then p\<lparr>cp_metrics := m, cp_replaying := None\<rparr>
        else let s = (cp_sender p)\<lparr>delivered := delivered (cp_sender p) @ [b]\<rparr> in
        if \<not> removed then p\<lparr>cp_sender := s, cp_metrics := m, cp_replaying := None\<rparr>
        else p\<lparr>cp_sender := s\<lparr>sp_dir := AList.delete n (sp_dir s), sp_files := sp_files s - 1, sp_bytes := sp_bytes s - sf_size f\<rparr>,
               cp_metrics := Replayed now (sf_size f) m, cp_replaying := Some ns\<rparr>)"

text \<open>\<open>reconcile\<close> of the collector with its metrics and the error its caller counts.\<close>

fun repeat_step :: "nat \<Rightarrow> ('a \<Rightarrow> 'a) \<Rightarrow> 'a \<Rightarrow> 'a" where
  "repeat_step 0 f x = x"
| "repeat_step (Suc n) f x = repeat_step n f (f x)"

definition discover :: "string \<Rightarrow> adapter_file \<Rightarrow> refresh \<Rightarrow> collector_process \<Rightarrow> collector_process" where
  "discover lease adapters env p =
     (let (_, ds) = Load adapters (cp_adapters p); (err, is_ready, c) = reconcile lease env (cp_collector p);
          resyncs = length (cl_resync c) - length (cl_resync (cp_collector p));
          m = SetReady is_ready (SetActiveShards (int (length (cl_shards c))) (repeat_step resyncs Resync (cp_metrics p)))
      in p\<lparr>cp_collector := c, cp_adapters := ds, cp_metrics := (if err = None then m else CountError m)\<rparr>)"

definition end_run :: "collector_process \<Rightarrow> collector_process" where
  "end_run p = p\<lparr>cp_running := False, cp_metrics := SetReady False (cp_metrics p)\<rparr>"

text \<open>
  The heartbeat and the watchers send by the first four kinds of step. Goroutines of shards may still do so
  after \<open>Run\<close> has returned, which waits for the heartbeat only.
\<close>

inductive collector_step :: "(ingest_event \<Rightarrow> string) \<Rightarrow> int \<Rightarrow> string \<Rightarrow> collector_process \<Rightarrow> collector_process \<Rightarrow> bool" for enc maxBytes lease where
  spooled: "cp_replaying p = None \<Longrightarrow> fresh_name env (cp_sender p) \<Longrightarrow> collector_step enc maxBytes lease p (spool_batch enc maxBytes env b p)"
| pressed: "collector_step enc maxBytes lease p (p\<lparr>cp_metrics := Backpressure (cp_metrics p)\<rparr>)"
| posted: "collector_step enc maxBytes lease p (post_batch now a b p)"
| replaying: "cp_replaying p = None \<Longrightarrow> collector_step enc maxBytes lease p (p\<lparr>cp_replaying := Some (spool_names (cp_sender p))\<rparr>)"
| replayed: "cp_replaying p = Some (n # ns) \<Longrightarrow> map_of (sp_dir (cp_sender p)) n = Some f \<Longrightarrow> sf_batch f = Inr b \<Longrightarrow>
     collector_step enc maxBytes lease p (replay_file now a removed n ns f b p)"
| replay_over: "cp_replaying p = Some ns \<Longrightarrow> collector_step enc maxBytes lease p (p\<lparr>cp_replaying := None\<rparr>)"
| processed: "collector_step enc maxBytes lease p (p\<lparr>cp_metrics := Processed now n (cp_metrics p)\<rparr>)"
| failing: "collector_step enc maxBytes lease p (p\<lparr>cp_metrics := CountError (cp_metrics p)\<rparr>)"
| leading: "collector_step enc maxBytes lease p (p\<lparr>cp_metrics := LeaseAcquired (cp_metrics p)\<rparr>)"
| releasing: "collector_step enc maxBytes lease p (p\<lparr>cp_metrics := LeaseReleased (cp_metrics p)\<rparr>)"
| discovering: "cp_running p \<Longrightarrow> collector_step enc maxBytes lease p (discover lease adapters env p)"
| ending: "cp_running p \<Longrightarrow> collector_step enc maxBytes lease p (end_run p)"

section \<open>What the metrics show\<close>

text \<open>The accounting of the sender, the gauges, and a replay that only has files of the directory before it.\<close>

definition process_ok :: "int \<Rightarrow> collector_process \<Rightarrow> bool" where
  "process_ok maxBytes p \<longleftrightarrow> sender_ok maxBytes (cp_sender p) \<and> set (cp_taken p) \<subseteq> kept (cp_sender p)
     \<and> rm_files (cp_metrics p) = int (length (sp_dir (cp_sender p))) \<and> rm_bytes (cp_metrics p) = sp_bytes (cp_sender p)
     \<and> rm_shards (cp_metrics p) = int (length (cl_shards (cp_collector p)))
     \<and> rm_resyncs (cp_metrics p) = length (cl_resync (cp_collector p))
     \<and> (rm_ready (cp_metrics p) \<longrightarrow> cp_running p)
     \<and> (\<forall>ns. cp_replaying p = Some ns \<longrightarrow> distinct ns \<and> set ns \<subseteq> fst ` set (sp_dir (cp_sender p)))"

lemmas metric_defs = Success_def SetReady_def CountError_def Spooled_def Replayed_def SetSpoolBlocked_def Backpressure_def Resync_def
  SetActiveShards_def LeaseAcquired_def LeaseReleased_def SetSpool_def Processed_def

lemma repeat_resync: "repeat_step n Resync m = m\<lparr>rm_resyncs := rm_resyncs m + n\<rparr>"
  by (induction n arbitrary: m) (simp_all add: Resync_def)

lemma post_gauges:
  assumes "post now a m = (accepted, m')"
  shows "rm_files m' = rm_files m" "rm_bytes m' = rm_bytes m" "rm_shards m' = rm_shards m" "rm_resyncs m' = rm_resyncs m" "rm_ready m' = rm_ready m"
  using assms by (auto simp: post_def metric_defs split: api_answer.splits if_splits)

lemma stop_shards_resync: "cl_resync (stop_shards P c) = cl_resync c"
proof -
  have "cl_resync (foldl (\<lambda>c t. stop_shard t c) c ts) = cl_resync c" for ts
    by (induction ts arbitrary: c) (simp_all add: stop_shard_def)
  then show ?thesis by (simp add: stop_shards_def)
qed

lemma want_shards_resync: "cl_resync (foldl want_shard c ts) = cl_resync c"
  by (induction ts arbitrary: c) (auto simp: want_shard_def split: prod.splits)

lemma length_update_le: "length al \<le> length (AList.update k v al)"
  by (induction al) auto

lemma applyResyncRequests_grows: "length (cl_resync c) \<le> length (cl_resync (snd (applyResyncRequests rs wanted c)))"
proof (induction rs wanted c rule: applyResyncRequests.induct)
  case (2 r rs wanted c)
  let ?c = "stop_shards (\<lambda>t. ls_gvr t = request_gvr r) c"
  show ?case
  proof (cases "map_of (cl_resync c) (rq_id r)")
    case None
    show ?thesis
    proof (cases "map_of wanted (request_gvr r)")
      case (Some nss)
      from "2.IH"(2) [OF refl None, of ?c] Some
      show ?thesis using None length_update_le [of "cl_resync c" "rq_id r" "request_gvr r"]
        by (simp add: Let_def stop_shards_resync)
    qed (use None "2.IH"(1) in \<open>simp add: Let_def\<close>)
  qed (use "2.IH"(3) in \<open>simp add: Let_def\<close>)
qed simp

lemma reconcile_resync_grows: "reconcile lease env c = (e, is_ready, c') \<Longrightarrow> length (cl_resync c) \<le> length (cl_resync c')"
  unfolding reconcile_def Let_def
  using applyResyncRequests_grows [of c]
  by (auto simp: stop_shards_resync want_shards_resync split: prod.splits sum.splits if_splits) (metis snd_conv)+

lemma spool_batch_ok:
  assumes "process_ok maxBytes p" and "cp_replaying p = None" and "fresh_name env (cp_sender p)"
  shows "process_ok maxBytes (spool_batch enc maxBytes env b p)"
proof -
  obtain r s where run: "spool enc maxBytes env b (cp_sender p) = (r, s)" by fastforce
  have ok: "sender_ok maxBytes s" using spool_ok [OF run assms(3)] assms(1) by (simp add: process_ok_def)
  have kept: "kept (cp_sender p) \<subseteq> kept s" "r = None \<Longrightarrow> b \<in> kept s" using spool_keeps [OF run assms(3)] by (auto simp: keeps_def)
  have len: "int (length (sp_dir s)) = sp_files s" "int (length (sp_dir (cp_sender p))) = sp_files (cp_sender p)"
    using ok assms(1) by (simp_all add: process_ok_def sender_ok_def)
  from spool_outcome [OF run] have "sp_files s = sp_files (cp_sender p) + (if r = None then 1 else 0)
      \<and> sp_bytes s = sp_bytes (cp_sender p) + (if r = None then int (length (marshal_batch enc b)) else 0)" by auto
  with assms(1,2) ok kept len show ?thesis
    by (auto simp: process_ok_def spool_batch_def run spool_metrics_def metric_defs)
qed

lemma post_batch_ok:
  assumes "process_ok maxBytes p"
  shows "process_ok maxBytes (post_batch now a b p)"
proof -
  obtain accepted m where run: "post now a (cp_metrics p) = (accepted, m)" by fastforce
  note gauges = post_gauges [OF run]
  show ?thesis
    using assms deliver_ok [of maxBytes "cp_sender p"] by (auto simp: process_ok_def post_batch_def run gauges kept_def)
qed

lemma replay_file_ok:
  assumes "process_ok maxBytes p" and "cp_replaying p = Some (n # ns)" and "map_of (sp_dir (cp_sender p)) n = Some f" and "sf_batch f = Inr b"
  shows "process_ok maxBytes (replay_file now a removed n ns f b p)"
proof -
  let ?s = "cp_sender p"
  let ?t = "?s\<lparr>delivered := delivered ?s @ [b], sp_dir := AList.delete n (sp_dir ?s), sp_files := sp_files ?s - 1, sp_bytes := sp_bytes ?s - sf_size f\<rparr>"
  obtain accepted m where run: "post now a (cp_metrics p) = (accepted, m)" by fastforce
  note gauges = post_gauges [OF run]
  from assms(1) have ok: "sender_ok maxBytes ?s" by (simp add: process_ok_def)
  have one: "replay_files (\<lambda>_. Accepted) 0 [n] ?s = (None, ?t)" using assms(3,4) by simp
  note t_ok = replay_files_ok [OF one ok] and t_keeps = replay_files_keeps [OF one]
  have len: "int (length (sp_dir ?t)) = int (length (sp_dir ?s)) - 1" using ok t_ok by (simp add: sender_ok_def)
  have rest: "distinct ns" "set ns \<subseteq> fst ` set (sp_dir ?t)"
    using assms(1,2) by (auto simp: process_ok_def keys_delete)
  show ?thesis
  proof (cases "accepted \<and> removed")
    case True
    with assms(1) t_ok t_keeps len rest show ?thesis
      by (auto simp: process_ok_def replay_file_def run gauges Let_def Replayed_def Success_def keeps_def)
  next
    case False
    with assms(1) deliver_ok [OF ok] show ?thesis
      by (auto simp: process_ok_def replay_file_def run gauges Let_def kept_def)
  qed
qed

lemma discover_ok:
  assumes "process_ok maxBytes p" and "cp_running p"
  shows "process_ok maxBytes (discover lease adapters env p)"
proof -
  obtain err is_ready c where run: "reconcile lease env (cp_collector p) = (err, is_ready, c)" by (metis prod_cases3)
  obtain e ds where load: "Load adapters (cp_adapters p) = (e, ds)" by fastforce
  show ?thesis
    using assms reconcile_resync_grows [OF run]
    by (auto simp: process_ok_def discover_def run load Let_def repeat_resync metric_defs)
qed

lemma collector_step_ok: "collector_step enc maxBytes lease p q \<Longrightarrow> process_ok maxBytes p \<Longrightarrow> process_ok maxBytes q"
proof (induction rule: collector_step.induct)
  case (spooled p env b)
  then show ?case by (blast intro: spool_batch_ok)
next
  case (posted p now a b)
  then show ?case by (blast intro: post_batch_ok)
next
  case (replaying p)
  then show ?case using sender_ok_names [of maxBytes "cp_sender p"]
    by (auto simp: process_ok_def spool_names_def sender_ok_def distinct_sort)
next
  case (replayed p n ns f b now a removed)
  then show ?case by (blast intro: replay_file_ok)
next
  case (discovering p adapters env)
  then show ?case by (blast intro: discover_ok)
qed (simp_all add: process_ok_def metric_defs end_run_def)

definition process_started :: "int \<Rightarrow> collector_process \<Rightarrow> bool" where
  \<comment> \<open>Over a directory that is within its quota.\<close>
  "process_started maxBytes p \<longleftrightarrow> (\<exists>v. start_collector v new_role_metrics = Inr p \<and> new_sender maxBytes (cp_sender p))"

interpretation collecting: machine "process_started maxBytes" "collector_step enc maxBytes lease" "process_ok maxBytes"
proof
  show "process_ok maxBytes p" if "process_started maxBytes p" for p
  proof -
    from that obtain v where v: "start_collector v new_role_metrics = Inr p" "new_sender maxBytes (cp_sender p)"
      by (auto simp: process_started_def)
    from new_sender_ok [OF v(2)] v(1) show ?thesis
      by (auto simp: process_ok_def start_collector_def NewSender_def new_role_metrics_def SetSpool_def sender_ok_def Let_def
          split: option.splits prod.splits sum.splits)
  qed
qed (rule collector_step_ok)

text \<open>C32: The metrics page of a collector tells the truth and its readiness probe does not outlive it, however the
  goroutines of its watchers, the heartbeat, replays and discoveries interleave: the spool gauges are
  the files in the directory and their size, within the quota; the shard gauge and the resync counter
  are those of the discovery; and every batch a goroutine got rid of is delivered or on disk.\<close>

theorem metrics_truthful:
  assumes "process_started maxBytes p" and "(collector_step enc maxBytes lease)\<^sup>*\<^sup>* p q"
  shows "(rm_files (cp_metrics q), rm_bytes (cp_metrics q)) = spoolUsage (cp_sender q) \<and> rm_bytes (cp_metrics q) \<le> maxBytes
    \<and> rm_shards (cp_metrics q) = int (length (cl_shards (cp_collector q)))
    \<and> rm_resyncs (cp_metrics q) = length (cl_resync (cp_collector q))
    \<and> (Roles.probe ''/health/ready'' (cp_metrics q) = 200 \<longrightarrow> cp_running q)
    \<and> set (cp_taken q) \<subseteq> kept (cp_sender q)"
proof -
  have ok: "process_ok maxBytes q" by (rule collecting.reachable_inv [OF assms])
  then have "filter (\<lambda>(n, f). spool_name n) (sp_dir (cp_sender q)) = sp_dir (cp_sender q)"
    by (auto simp: process_ok_def sender_ok_def filter_id_conv)
  with ok show ?thesis by (auto simp: process_ok_def sender_ok_def spoolUsage_def Roles.probe_def Let_def)
qed

section \<open>One sender at a time\<close>

text \<open>
  What \<open>Spool\<close> says of one sender, where a replay is one step, in the steps of the process: a run that leads it to the
  sender \<open>t\<close> with the lock free, and in which exactly the batches \<open>bs\<close> were got rid of.
\<close>

definition runs_to :: "(ingest_event \<Rightarrow> string) \<Rightarrow> int \<Rightarrow> string \<Rightarrow> collector_process \<Rightarrow> sender \<Rightarrow> ingest_batch list \<Rightarrow> collector_process \<Rightarrow> bool" where
  "runs_to enc maxBytes lease p t bs q \<longleftrightarrow> (collector_step enc maxBytes lease)\<^sup>*\<^sup>* p q \<and> cp_sender q = t \<and> cp_replaying q = None
     \<and> cp_taken q = cp_taken p @ bs"

lemma runs_to_refl: "cp_sender p = s \<Longrightarrow> cp_replaying p = None \<Longrightarrow> runs_to enc maxBytes lease p s [] p"
  by (simp add: runs_to_def)

lemma runs_to_trans:
  "runs_to enc maxBytes lease p t bs q \<Longrightarrow> runs_to enc maxBytes lease q u cs r \<Longrightarrow> runs_to enc maxBytes lease p u (bs @ cs) r"
  by (auto simp: runs_to_def)

lemma runs_to_Cons:
  assumes "collector_step enc maxBytes lease p p'" and "cp_taken p' = cp_taken p" and "runs_to enc maxBytes lease p' t bs q"
  shows "runs_to enc maxBytes lease p t bs q"
  using assms by (auto simp: runs_to_def intro: converse_rtranclp_into_rtranclp)

lemma replay_files_runs:
  assumes "replay_files outs i ns s = (r, t)" and "cp_sender p = s" and "cp_replaying p = Some ns"
  shows "\<exists>q. runs_to enc maxBytes lease p t [] q"
  using assms
proof (induction outs i ns s arbitrary: p rule: replay_files.induct)
  case (1 outs i s)
  let ?q = "p\<lparr>cp_replaying := None\<rparr>"
  have "collector_step enc maxBytes lease p ?q" by (rule collector_step.replay_over [OF 1(3)])
  moreover have "runs_to enc maxBytes lease ?q t [] ?q" using 1 by (intro runs_to_refl) simp_all
  ultimately show ?case using runs_to_Cons by fastforce
next
  case (2 outs i n ns s)
  show ?case
  proof (cases "(\<exists>f b. map_of (sp_dir s) n = Some f \<and> sf_batch f = Inr b) \<and> outs i \<noteq> Unreadable \<and> outs i \<noteq> Refused")
    case False
    let ?q = "p\<lparr>cp_replaying := None\<rparr>"
    from False 2(2) have "t = s" by (auto split: option.splits sum.splits if_splits)
    then have "runs_to enc maxBytes lease ?q t [] ?q" using 2(3) by (intro runs_to_refl) simp_all
    moreover have "collector_step enc maxBytes lease p ?q" by (rule collector_step.replay_over [OF 2(4)])
    ultimately show ?thesis using runs_to_Cons by fastforce
  next
    case True
    then obtain f b where f: "map_of (sp_dir s) n = Some f" "sf_batch f = Inr b" by blast
    let ?q = "replay_file 0 (Answered 202) (outs i \<noteq> NotRemoved) n ns f b p"
    have step: "collector_step enc maxBytes lease p ?q" by (rule collector_step.replayed [OF 2(4)]) (simp_all add: 2(3) f)
    have taken: "cp_taken ?q = cp_taken p" by (simp add: replay_file_def post_def Let_def)
    show ?thesis
    proof (cases "outs i = NotRemoved")
      case True
      with 2(2,3) f have "runs_to enc maxBytes lease ?q t [] ?q"
        by (intro runs_to_refl) (auto simp: replay_file_def post_def Let_def)
      with step taken show ?thesis using runs_to_Cons by blast
    next
      case no: False
      let ?s = "s\<lparr>delivered := delivered s @ [b], sp_dir := AList.delete n (sp_dir s), sp_files := sp_files s - 1, sp_bytes := sp_bytes s - sf_size f\<rparr>"
      have "cp_sender ?q = ?s" "cp_replaying ?q = Some ns" using no 2(3) by (simp_all add: replay_file_def post_def Let_def)
      moreover have "replay_files outs (Suc i) ns ?s = (r, t)" using 2(2) f no True by simp
      ultimately have "\<exists>q. runs_to enc maxBytes lease ?q t [] q"
        using "2.IH" [OF f(1) _ f(2)] True no by simp
      with step taken show ?thesis using runs_to_Cons by blast
    qed
  qed
qed

lemma replay_runs:
  assumes "replay dir outs s = (r, t)" and "cp_sender p = s" and "cp_replaying p = None"
  shows "\<exists>q. runs_to enc maxBytes lease p t [] q"
proof (cases dir)
  case Listed
  let ?q = "p\<lparr>cp_replaying := Some (spool_names (cp_sender p))\<rparr>"
  have "collector_step enc maxBytes lease p ?q" using assms(3) by (rule collector_step.replaying)
  moreover have "\<exists>q. runs_to enc maxBytes lease ?q t [] q"
    using assms by (intro replay_files_runs [of outs 0 "spool_names s" s r t]) (simp_all add: Listed replay_def)
  ultimately show ?thesis using runs_to_Cons by fastforce
qed (use assms in \<open>auto simp: replay_def intro: runs_to_refl\<close>)

lemma post_runs:
  assumes "cp_sender p = s" and "cp_replaying p = None"
  shows "runs_to enc maxBytes lease p (s\<lparr>delivered := delivered s @ [b]\<rparr>) [b] (post_batch 0 (Answered 202) b p)"
  using assms collector_step.posted [of enc maxBytes lease p 0 "Answered 202" b]
  by (auto simp: runs_to_def post_batch_def post_def)

lemma spool_runs:
  assumes "spool enc maxBytes env b s = (r, t)" and "fresh_name env s" and "cp_sender p = s" and "cp_replaying p = None"
  shows "runs_to enc maxBytes lease p t (if r = None then [b] else []) (spool_batch enc maxBytes env b p)"
  using assms collector_step.spooled [of p env enc maxBytes lease b]
  by (auto simp: runs_to_def spool_batch_def)

lemma backpressure_runs:
  assumes "spoolWithBackpressure enc maxBytes turns b s = Some (r, t)" and "\<And>u. u \<in> set turns \<Longrightarrow> fresh_name (tn_spool u) s"
    and "cp_sender p = s" and "cp_replaying p = None"
  shows "\<exists>q. runs_to enc maxBytes lease p t (if r = None then [b] else []) q"
  using assms
proof (induction enc maxBytes turns b s arbitrary: p rule: spoolWithBackpressure.induct)
  case (2 enc maxBytes u us b s)
  obtain r1 s1 where sp: "spool enc maxBytes (tn_spool u) b s = (r1, s1)" by fastforce
  note spooled = spool_runs [OF sp 2(3) [of u] 2(4,5), of lease]
  consider (gone) "tn_done u" | (ended) "\<not> tn_done u" "r1 \<noteq> Some SpoolFull" | (full) "\<not> tn_done u" "r1 = Some SpoolFull" by blast
  then show ?case
  proof cases
    case gone
    with 2(2,4,5) show ?thesis by (auto intro: runs_to_refl)
  next
    case ended
    with 2(2) sp have "(r, t) = (r1, s1)" by (auto split: option.splits)
    with spooled show ?thesis by auto
  next
    case full
    with spool_failed sp have s1: "s1 = s" by blast
    obtain r2 s2 where re: "replay (tn_dir u) (tn_outs u) s = (r2, s2)" by fastforce
    from replay_runs [OF re 2(4,5)] obtain q where q: "runs_to enc maxBytes lease p s2 [] q" by blast
    then have at: "cp_sender q = s2" "cp_replaying q = None" by (simp_all add: runs_to_def)
    show ?thesis
    proof (cases "r2 = None \<and> tn_post u")
      case True
      with 2(2) full sp re s1 have "(r, t) = (None, s2\<lparr>delivered := delivered s2 @ [b]\<rparr>)" by auto
      with runs_to_trans [OF q post_runs [OF at]] show ?thesis by auto
    next
      case no: False
      show ?thesis
      proof (cases "tn_done_waiting u")
        case True
        with 2(2) full sp re s1 no have "(r, t) = (Some send_error.Cancelled, s2)" by auto
        with q show ?thesis by auto
      next
        case False
        then have rest: "spoolWithBackpressure enc maxBytes us b s2 = Some (r, t)" using 2(2) full sp re s1 no by auto
        have fresh: "fresh_name (tn_spool v) s2" if "v \<in> set us" for v
          using fresh_name_mono [OF 2(3) [of v] replay_names [OF re]] that by simp
        have "\<not> SpoolFull \<noteq> SpoolFull" by simp
        from "2.IH" [OF full(1) sp [symmetric] full(2) this re [symmetric, folded s1] no False rest fresh at]
        obtain q' where "runs_to enc maxBytes lease q t (if r = None then [b] else []) q'" by blast
        from runs_to_trans [OF q this] show ?thesis by auto
      qed
    qed
  qed
qed simp

lemma sendChunk_runs:
  assumes "sendChunk enc maxBytes env b s = Some (r, t)" and "\<And>u. u \<in> set (sd_turns env) \<Longrightarrow> fresh_name (tn_spool u) s"
    and "cp_sender p = s" and "cp_replaying p = None"
  shows "\<exists>q. runs_to enc maxBytes lease p t (if r = None then [b] else []) q"
proof -
  obtain r1 s1 where re: "replay (sd_dir env) (sd_outs env) s = (r1, s1)" by fastforce
  from replay_runs [OF re assms(3,4)] obtain q where q: "runs_to enc maxBytes lease p s1 [] q" by blast
  then have at: "cp_sender q = s1" "cp_replaying q = None" by (simp_all add: runs_to_def)
  have fresh: "fresh_name (tn_spool u) s1" if "u \<in> set (sd_turns env)" for u
    using fresh_name_mono [OF assms(2) [OF that] replay_names [OF re]] .
  show ?thesis
  proof (cases "r1 = None \<and> sd_post env")
    case True
    with assms(1) re have "(r, t) = (None, s1\<lparr>delivered := delivered s1 @ [b]\<rparr>)" by (simp add: sendChunk_def)
    with runs_to_trans [OF q post_runs [OF at]] show ?thesis by auto
  next
    case False
    then have "spoolWithBackpressure enc maxBytes (sd_turns env) b s1 = Some (r, t)"
      using assms(1) re by (auto simp: sendChunk_def split: option.splits if_splits)
    from backpressure_runs [OF this fresh at] obtain q' where "runs_to enc maxBytes lease q t (if r = None then [b] else []) q'" by blast
    from runs_to_trans [OF q this] show ?thesis by auto
  qed
qed

lemma send_chunks_runs:
  assumes "send_chunks enc maxBytes envs k cs s = Some (r, t)" and "fresh_envs envs k s" and "cp_sender p = s" and "cp_replaying p = None"
  shows "\<exists>q taken rest. runs_to enc maxBytes lease p t taken q \<and> cs = taken @ rest \<and> (r = None \<longleftrightarrow> rest = [])"
  using assms
proof (induction cs arbitrary: k s p)
  case (Cons c cs)
  from Cons.prems(1) obtain r1 s1 where one: "sendChunk enc maxBytes (envs k) c s = Some (r1, s1)"
    by (auto split: option.splits prod.splits)
  have fresh: "fresh_name (tn_spool u) s" if "u \<in> set (sd_turns (envs k))" for u
    using Cons.prems(2) that by (auto simp: fresh_envs_def)
  from sendChunk_runs [OF one this Cons.prems(3,4)] obtain q where q: "runs_to enc maxBytes lease p s1 (if r1 = None then [c] else []) q" by blast
  show ?case
  proof (cases r1)
    case None
    with one Cons.prems(1) have rest: "send_chunks enc maxBytes envs (Suc k) cs s1 = Some (r, t)" by simp
    have "fresh_envs envs (Suc k) s1" using fresh_envs_step [OF Cons.prems(2)] sendChunk_run [OF one fresh] by blast
    note more = Cons.IH [OF rest this]
    have "cp_sender q = s1" "cp_replaying q = None" using q by (simp_all add: runs_to_def)
    from more [OF this] obtain q' taken rs where
      more: "runs_to enc maxBytes lease q t taken q'" "cs = taken @ rs" "r = None \<longleftrightarrow> rs = []" by blast
    have "runs_to enc maxBytes lease p t ([c] @ taken) q'" using runs_to_trans [OF q more(1)] None by simp
    with more(2,3) show ?thesis by (intro exI [of _ q'] exI [of _ "c # taken"] exI [of _ rs]) simp
  next
    case (Some err)
    with one Cons.prems(1) have "(r, t) = (Some err, s1)" by simp
    with q Some show ?thesis by (intro exI [of _ q] exI [of _ "[]"] exI [of _ "c # cs"]) simp
  qed
qed (auto intro: runs_to_refl)

text \<open>C37: What \<open>Send\<close> does when nothing interferes is one of the interleavings of the process, and it drops nothing: from
  any state in which no replay holds the lock, the steps of the process lead to the sender \<open>Send\<close> leaves,
  with the lock free again, and on the way the batches got rid of, each delivered or on disk then, are the
  parts of the batch in their order, all of them if \<open>Send\<close> reports success and otherwise those before the
  part that failed. So what is proved of all interleavings holds of it.\<close>

theorem Send_is_a_run:
  assumes "Send enc maxBytes envs b s = Some (r, t)" and "fresh_envs envs 0 s" and "cp_sender p = s" and "cp_replaying p = None"
  shows "\<exists>q taken. (collector_step enc maxBytes lease)\<^sup>*\<^sup>* p q \<and> cp_sender q = t \<and> cp_replaying q = None
    \<and> cp_taken q = cp_taken p @ taken
    \<and> (case splitBatch enc b maxIngestBatchBytes of Inl err \<Rightarrow> taken = [] \<and> r = Some (SplitFailed err) \<and> t = s
       | Inr parts \<Rightarrow> \<exists>rest. parts = taken @ rest \<and> (r = None \<longleftrightarrow> rest = []))"
proof (cases "splitBatch enc b maxIngestBatchBytes")
  case (Inl err)
  with assms show ?thesis by (auto simp: Send_def)
next
  case (Inr parts)
  with assms(1) have "send_chunks enc maxBytes envs 0 parts s = Some (r, t)" by (simp add: Send_def)
  from send_chunks_runs [OF this assms(2-4), of lease] Inr show ?thesis by (auto simp: runs_to_def)
qed

section \<open>A collector process\<close>

text \<open>
  It starts over a spool with one file, spools a batch while the API is down, discovers a type, and then the API
  takes the older file.
\<close>

definition sample_start :: start_env where
  "sample_start = \<lparr>sv_clients = [None, None, None, None], sv_adapters = NotExist, sv_resync = Inr [], sv_created = None, sv_inspected = None,
     sv_dir = sp_dir sample_sender\<rparr>"

definition sample_collecting :: collector_process where
  "sample_collecting = \<lparr>cp_sender = sample_sender, cp_metrics = SetSpool 1 60 new_role_metrics, cp_replaying = None, cp_taken = [],
     cp_collector = \<lparr>cl_shards = [], cl_states = [], cl_resync = [], cl_log = []\<rparr>, cp_adapters = builtins, cp_running = True\<rparr>"

lemma sample_collecting_started: "process_started 1000 sample_collecting"
proof -
  have "start_collector sample_start new_role_metrics = Inr sample_collecting"
    by (simp add: start_collector_def sample_start_def Load_def NewSender_def spoolUsage_def sample_collecting_def sample_sender_def
        spool_name_def has_suffix_def Let_def)
  moreover have "new_sender 1000 (cp_sender sample_collecting)"
    by (simp add: new_sender_def sample_collecting_def sample_sender_def spoolUsage_def spool_name_def has_suffix_def Let_def)
  ultimately show ?thesis unfolding process_started_def by blast
qed

lemma start_errors:
  "start_collector (sample_start\<lparr>sv_clients := [None, Some ''no kubeconfig'']\<rparr>) m = Inl (ClientFailed ''no kubeconfig'')"
  "start_collector (sample_start\<lparr>sv_created := Some ''read-only''\<rparr>) m = Inl (SpoolNotCreated ''read-only'')"
  by (simp_all add: start_collector_def sample_start_def Load_def NewSender_def)

theorem metrics_truthful_witness:
  "rm_files (cp_metrics (spool_batch e_id 1000 (tn_spool sample_turn) (sample_part ''b'') sample_collecting)) = 2"
proof -
  let ?q = "spool_batch e_id 1000 (tn_spool sample_turn) (sample_part ''b'') sample_collecting"
  have "collector_step e_id 1000 ''icinga'' sample_collecting ?q"
    by (rule collector_step.spooled) (simp_all add: sample_collecting_def fresh_name_def sample_turn_def sample_sender_def spool_name_def has_suffix_def)
  then have run: "(collector_step e_id 1000 ''icinga'')\<^sup>*\<^sup>* sample_collecting ?q" by blast
  have "spool e_id 1000 (tn_spool sample_turn) (sample_part ''b'') sample_sender = (None, sample_spooled)"
    unfolding spool_def sample_length by code_simp
  then have "cp_sender ?q = sample_spooled" by (simp add: spool_batch_def sample_collecting_def)
  moreover have "spoolUsage sample_spooled = (2, 103)"
    by (simp add: spoolUsage_def sample_spooled_def sample_sender_def spool_name_def has_suffix_def Let_def)
  ultimately show ?thesis using metrics_truthful [OF sample_collecting_started run] by simp
qed

theorem Send_is_a_run_witness:
  "\<exists>q. (collector_step e_id 1000 ''icinga'')\<^sup>*\<^sup>* sample_collecting q \<and> cp_sender q = sample_spooled \<and> cp_replaying q = None
    \<and> cp_taken q = [sample_part ''b'']"
  using Send_is_a_run [OF sample_send sample_fresh, of sample_collecting "''icinga''"]
  by (simp add: sample_split) (simp add: sample_collecting_def)

end
