(* ===== verification/Startup.thy ===== *)
theory Startup
  imports CollectorRun Live
begin

text \<open>
  How processes start: \<open>run\<close> of \<open>cmd/icinga-kubernetes/main.go\<close> up to the work of its role, and \<open>New\<close> of
  \<open>internal/v2/live/gateway.go\<close>. The outcomes of library calls that open, connect or build a client are arguments.
\<close>

section \<open>The live gateway\<close>

text \<open>\<open>None\<close> stands for the roots of the system, which \<open>crypto/tls\<close> takes when there is no pool.\<close>

record tls_config =
  tl_insecure :: bool
  tl_roots :: "string list option"

text \<open>\<open>gw_cluster\<close> is the account cluster-scoped objects are read with, \<open>gw_source\<close> the one metrics are read with and its token.\<close>

record gateway =
  gw_cluster :: "string option"
  gw_source :: "(string \<times> source) option"
  gw_tls :: tls_config

datatype gateway_error = TokenUnreadable | TokenEmpty | GatewayClient string | CaUnreadable | CaEmpty

text \<open>\<open>ge_clients\<close> holds the errors of the configuration and of the dynamic, discovery and typed client, in this order.\<close>

record gateway_env =
  ge_files :: "string \<Rightarrow> string option"
  ge_clients :: "string option list"
  ge_cluster_client :: "string option"
  ge_system_roots :: "string list option"
  ge_certificates :: "string \<Rightarrow> string list"

definition static_token :: "config \<Rightarrow> (string \<Rightarrow> string option) \<Rightarrow> gateway_error option" where
  "static_token cfg files =
     (if mc_url (cf_metrics cfg) \<noteq> [] \<and> mc_token_file (cf_metrics cfg) \<noteq> [] \<and> cf_metrics_account cfg = []
      then (case files (mc_token_file (cf_metrics cfg)) of None \<Rightarrow> Some TokenUnreadable
        | Some content \<Rightarrow> if TrimSpace content = [] then Some TokenEmpty else None)
      else None)"

definition gateway_roots :: "config \<Rightarrow> gateway_env \<Rightarrow> gateway_error + string list option" where
  "gateway_roots cfg v =
     (if cf_metrics_ca cfg = [] then Inr None
      else case ge_files v (cf_metrics_ca cfg) of None \<Rightarrow> Inl CaUnreadable
      | Some ca \<Rightarrow>
          let roots = (case ge_system_roots v of None \<Rightarrow> [] | Some rs \<Rightarrow> rs) in
          if ge_certificates v ca = [] then Inl CaEmpty else Inr (Some (roots @ ge_certificates v ca)))"

definition new_gateway :: "config \<Rightarrow> gateway_env \<Rightarrow> gateway_error + gateway" where
  "new_gateway cfg v =
     (case static_token cfg (ge_files v) of Some err \<Rightarrow> Inl err | None \<Rightarrow>
      case List.find (\<lambda>r. r \<noteq> None) (ge_clients v) of Some r \<Rightarrow> Inl (GatewayClient (the r)) | None \<Rightarrow>
      if cf_cluster_account cfg \<noteq> [] \<and> ge_cluster_client v \<noteq> None then Inl (GatewayClient (the (ge_cluster_client v)))
      else case gateway_roots cfg v of Inl err \<Rightarrow> Inl err | Inr roots \<Rightarrow>
        Inr \<lparr>gw_cluster = (if cf_cluster_account cfg \<noteq> [] then Some (cf_cluster_account cfg) else None),
             gw_source = (if cf_metrics_account cfg \<noteq> [] then Some (cf_metrics_account cfg, new_source) else None),
             gw_tls = \<lparr>tl_insecure = cf_metrics_insecure cfg, tl_roots = roots\<rparr>\<rparr>)"

text \<open>A gateway that could be built can authenticate: with an account it delegates and never reads the token file; with a
  file it has found a token there, and as long as the file stays readable a request carries its trimmed
  content; certificates are checked unless the configuration says otherwise, and a CA file
  adds at least one root to those of the system.\<close>

theorem gateway_authenticates:
  assumes "new_gateway cfg v = Inr g"
  shows "(gw_source g = None \<longleftrightarrow> cf_metrics_account cfg = [])
    \<and> (mc_url (cf_metrics cfg) \<noteq> [] \<and> mc_token_file (cf_metrics cfg) \<noteq> [] \<and> cf_metrics_account cfg = [] \<longrightarrow>
        (\<exists>content. ge_files v (mc_token_file (cf_metrics cfg)) = Some content \<and> TrimSpace content \<noteq> []
          \<and> metrics_credential (cf_metrics cfg) (ge_files v) mint (map_option snd (gw_source g)) = (Some (Some (''Bearer '' @ TrimSpace content)), None)))
    \<and> (cf_metrics_account cfg \<noteq> [] \<longrightarrow> metrics_credential (cf_metrics cfg) files mint (map_option snd (gw_source g))
        = metrics_credential (cf_metrics cfg) (\<lambda>_. None) mint (Some new_source))
    \<and> tl_insecure (gw_tls g) = cf_metrics_insecure cfg
    \<and> (cf_metrics_ca cfg \<noteq> [] \<longrightarrow> (\<exists>ca. ge_files v (cf_metrics_ca cfg) = Some ca \<and> ge_certificates v ca \<noteq> []
        \<and> (\<exists>roots. tl_roots (gw_tls g) = Some roots \<and> set (ge_certificates v ca) \<subseteq> set roots)))"
proof -
  from assms have token: "static_token cfg (ge_files v) = None"
    by (auto simp: new_gateway_def split: option.splits)
  from assms obtain roots where roots: "gateway_roots cfg v = Inr roots"
    and g: "g = \<lparr>gw_cluster = (if cf_cluster_account cfg \<noteq> [] then Some (cf_cluster_account cfg) else None),
             gw_source = (if cf_metrics_account cfg \<noteq> [] then Some (cf_metrics_account cfg, new_source) else None),
             gw_tls = \<lparr>tl_insecure = cf_metrics_insecure cfg, tl_roots = roots\<rparr>\<rparr>"
    by (auto simp: new_gateway_def split: option.splits sum.splits if_splits)
  have "\<exists>content. ge_files v (mc_token_file (cf_metrics cfg)) = Some content \<and> TrimSpace content \<noteq> []
      \<and> metrics_credential (cf_metrics cfg) (ge_files v) mint None = (Some (Some (''Bearer '' @ TrimSpace content)), None)"
    if "mc_url (cf_metrics cfg) \<noteq> []" "mc_token_file (cf_metrics cfg) \<noteq> []" "cf_metrics_account cfg = []"
    using token that by (cases "ge_files v (mc_token_file (cf_metrics cfg))") (simp_all add: static_token_def metrics_credential_def split: if_splits)
  moreover have "\<exists>ca. ge_files v (cf_metrics_ca cfg) = Some ca \<and> ge_certificates v ca \<noteq> [] \<and> (\<exists>rs. roots = Some rs \<and> set (ge_certificates v ca) \<subseteq> set rs)"
    if "cf_metrics_ca cfg \<noteq> []"
    using roots that by (auto simp: gateway_roots_def Let_def split: option.splits if_splits)
  ultimately show ?thesis by (simp add: g metrics_credential_def)
qed

section \<open>A process\<close>

record process_env =
  pe_env :: env
  pe_fraction :: "nat \<Rightarrow> nat \<Rightarrow> nat \<Rightarrow> nat"
  pe_parse :: "string \<Rightarrow> url option"
  pe_files :: "string \<Rightarrow> string option"
  pe_exporter :: bool
  pe_resource :: bool
  pe_open :: "string option"
  pe_ping :: "string option"
  pe_schema :: schema

datatype start_failure = BadConfig config_error | TracingFailed | NotOpened string | NotConnected string | SchemaRefused schema_error

text \<open>A role that migrates ends with the schema it made; every other one works until it ends.\<close>

datatype process_start = StartFailed start_failure | Migrated schema | Working job

definition start_process :: "process_env \<Rightarrow> process_start" where
  "start_process v =
     (case Load_config (pe_fraction v) (pe_parse v) (pe_files v) (pe_env v) of Inl err \<Rightarrow> StartFailed (BadConfig err)
      | Inr cfg \<Rightarrow>
          if telemetry_setup (pe_env v) (pe_exporter v) (pe_resource v) = TracingError then StartFailed TracingFailed
          else if cf_role cfg = ''collector'' then Working (role_job cfg)
          else case pe_open v of Some err \<Rightarrow> StartFailed (NotOpened err) | None \<Rightarrow>
          case pe_ping v of Some err \<Rightarrow> StartFailed (NotConnected err) | None \<Rightarrow>
          if cf_role cfg = ''migrate''
          then (case Migrate (pe_schema v) of Inl err \<Rightarrow> StartFailed (SchemaRefused err) | Inr s \<Rightarrow> Migrated s)
          else case CheckSchema (pe_schema v) of Some err \<Rightarrow> StartFailed (SchemaRefused err) | None \<Rightarrow> Working (role_job cfg))"

text \<open>\<open>main\<close>: a cancellation is not a failure.\<close>

definition exit_status :: "ending \<Rightarrow> nat" where
  "exit_status e = (if failed e then 1 else 0)"

text \<open>C38: A role starts to work only on what it can rely on: an accepted configuration, usable tracing and, except for the
  collector, which never touches it, a database that answers with the schema the program was written
  for; and after the migrate role has succeeded no role refuses that database's schema.\<close>

theorem work_on_checked_schema:
  assumes "start_process v = Working j"
  shows "\<exists>cfg. Load_config (pe_fraction v) (pe_parse v) (pe_files v) (pe_env v) = Inr cfg \<and> j = role_job cfg \<and> j \<noteq> Unsupported
    \<and> telemetry_setup (pe_env v) (pe_exporter v) (pe_resource v) \<noteq> TracingError
    \<and> (if cf_role cfg = ''collector'' then \<forall>open' ping s. start_process (v\<lparr>pe_open := open', pe_ping := ping, pe_schema := s\<rparr>) = Working j
       else pe_open v = None \<and> pe_ping v = None \<and> CheckSchema (pe_schema v) = None
         \<and> (\<forall>before s. Migrate before = Inr s \<longrightarrow> start_process (v\<lparr>pe_schema := s\<rparr>) = Working j))"
proof -
  from assms obtain cfg where cfg: "Load_config (pe_fraction v) (pe_parse v) (pe_files v) (pe_env v) = Inr cfg"
    by (auto simp: start_process_def split: sum.splits)
  from cfg have "cf_role cfg \<in> {''api'', ''worker'', ''collector'', ''migrate''}"
    by (auto simp: Load_config_def Let_def check_config_def passes split: option.splits sum.splits)
  moreover have "CheckSchema s = None" if "Migrate before = Inr s" for before s
    using that by (auto simp: Migrate_def CheckSchema_def initial_migration_def schema_version_def Let_def split: option.splits if_splits)
  moreover have traced: "telemetry_setup (pe_env v) (pe_exporter v) (pe_resource v) \<noteq> TracingError"
    using assms by (auto simp: start_process_def cfg)
  ultimately show ?thesis using assms
    by (auto simp: start_process_def cfg role_job_def Let_def split: option.splits sum.splits if_splits)
qed

section \<open>Two processes\<close>

definition sample_gateway_env :: gateway_env where
  "sample_gateway_env = \<lparr>ge_files = (\<lambda>f. if f = ''token'' then Some ''t1'' else if f = ''ca.pem'' then Some ''PEM'' else None),
     ge_clients = [None, None, None, None], ge_cluster_client = None, ge_system_roots = Some [''system''],
     ge_certificates = (\<lambda>pem. if pem = ''PEM'' then [''own''] else [])\<rparr>"

definition sample_gateway_config :: config where
  "sample_gateway_config = (read_config (\<lambda>_ _ _. 0) (\<lambda>_. []) [])\<lparr>cf_metrics := \<lparr>mc_url = ''https://prometheus'', mc_namespace = [], mc_token_file = ''token''\<rparr>,
     cf_cluster_account := [], cf_metrics_account := [], cf_metrics_ca := ''ca.pem'', cf_metrics_insecure := False\<rparr>"

theorem gateway_authenticates_witness:
  "\<exists>g. new_gateway sample_gateway_config sample_gateway_env = Inr g \<and> tl_roots (gw_tls g) = Some [''system'', ''own''] \<and> gw_source g = None"
proof -
  have "TrimSpace ''t1'' \<noteq> []" by code_simp
  then obtain g where g: "new_gateway sample_gateway_config sample_gateway_env = Inr g" "tl_roots (gw_tls g) = Some [''system'', ''own'']"
    by (simp add: new_gateway_def sample_gateway_config_def sample_gateway_env_def static_token_def gateway_roots_def)
  from gateway_authenticates [OF g(1)] have "gw_source g = None" by (simp add: sample_gateway_config_def)
  with g show ?thesis by blast
qed

definition sample_start_env :: process_env where
  "sample_start_env = \<lparr>pe_env = worker_env ''prod'', pe_fraction = (\<lambda>_ _ _. 0), pe_parse = (\<lambda>_. None), pe_files = (\<lambda>_. None), pe_exporter = True,
     pe_resource = True, pe_open = None, pe_ping = None,
     pe_schema = \<lparr>sc_versions = Some [1], sc_tables = True, sc_index = Some True, sc_watermark = True, sc_vacuum = True\<rparr>\<rparr>"

theorem work_on_checked_schema_witness: "\<exists>j. start_process sample_start_env = Working j \<and> j \<noteq> Unsupported"
proof -
  obtain c where c: "Load_config (\<lambda>_ _ _. 0) (\<lambda>_. None) (\<lambda>_. None) (worker_env ''prod'') = Inr c"
    using worker_loads [of "''prod''"] by blast
  then have role: "cf_role c = ''worker''"
    by (auto simp: Load_config_def read_config_def value_or_def worker_env_def key_def Let_def split: option.splits sum.splits)
  have "telemetry_setup (worker_env ''prod'') True True = TracingOff"
    by (simp add: telemetry_setup_def worker_env_def key_def TrimSpace_Nil to_lower_def)
  then have "start_process sample_start_env = Working (role_job c)"
    by (simp add: start_process_def sample_start_env_def c role CheckSchema_def schema_version_def)
  from work_on_checked_schema [OF this] this show ?thesis by auto
qed

end
